(* ===== verification/Prelude.thy ===== *)
theory Prelude
  imports Main "HOL-Library.Word"
begin

text \<open>
  What every component of the development shares: the collections of rewrite rules the
  component theories add to, the types and abbreviations that name the C++ types of the
  SDK, and generic lemmas on lists and on substring search.

  C++ \<^verbatim>\<open>std::string\<close> is a list of bytes, modelled as \<^typ>\<open>string\<close> (an Isabelle
  \<^typ>\<open>char\<close> is one byte); \<^verbatim>\<open>uint8_t\<close>, \<^verbatim>\<open>int32_t\<close> and \<^verbatim>\<open>uint64_t\<close> are words of their
  width.
\<close>

unbundle bit_operations_syntax

section \<open>Collections\<close>

named_theorems code_defs "definitions of the model that evaluation unfolds"
named_theorems locker_defs "the operations of the session maintainer's locker"
named_theorems frame_simps "fields an operation leaves unchanged"
named_theorems inv_intros "an operation preserves an invariant"

section \<open>Names for the C++ types\<close>

type_synonym uint8 = "8 word"
type_synonym int16 = "16 word"
type_synonym int32 = "32 word"
type_synonym uint32 = "32 word"
type_synonym uint64 = "64 word"

text \<open>The right shift of a signed integer is arithmetic.\<close>

abbreviation shr :: "nat \<Rightarrow> 'a::len word \<Rightarrow> 'a word" where
  "shr n w \<equiv> signed_drop_bit n w"

abbreviation shl :: "nat \<Rightarrow> 'a::len word \<Rightarrow> 'a word" where
  "shl n w \<equiv> push_bit n w"

text \<open>The numeric value of a byte of a string, read as \<^verbatim>\<open>unsigned char\<close>.\<close>

abbreviation byte_val :: "char \<Rightarrow> nat" where
  "byte_val c \<equiv> of_char c"

text \<open>\<^verbatim>\<open>boost::to_lower\<close> and \<^verbatim>\<open>boost::iequals\<close> in the C locale\<close>

definition tolower :: "char \<Rightarrow> char" where
  "tolower c = (if 65 \<le> (byte_val c :: nat) \<and> byte_val c \<le> (90 :: nat) then char_of (byte_val c + (32 :: nat)) else c)"

definition to_lower :: "string \<Rightarrow> string" where
  "to_lower s = map tolower s"

definition iequals :: "string \<Rightarrow> string \<Rightarrow> bool" where
  "iequals a b \<longleftrightarrow> to_lower a = to_lower b"

section \<open>Lists\<close>

lemma list_all_upt_nth:
  assumes "list_all P [0..<n]" and "i < n"
  shows "P i"
  using assms by (simp add: list_all_iff)

text \<open>A table checked entry by entry: the lookup form of an equation between two maps.\<close>

lemma map_table_nth:
  assumes "map f xs = map g [0..<n]" and "i < n"
  shows "f (xs ! i) = g i"
proof -
  have "length xs = n"
    using assms(1) by (metis diff_zero length_map length_upt)
  moreover have "map f xs ! i = map g [0..<n] ! i"
    by (simp only: assms(1))
  ultimately show ?thesis using assms(2) by simp
qed

lemma takeWhile_append_stop:
  assumes "\<forall>x\<in>set a. P x" and "\<not> P c"
  shows "takeWhile P (a @ c # b) = a"
  using assms by (induction a) auto

lemma dropWhile_append_stop:
  assumes "\<forall>x\<in>set a. P x" and "\<not> P c"
  shows "dropWhile P (a @ c # b) = c # b"
  using assms by (induction a) auto

lemma takeWhile_no_stop: "\<forall>x\<in>set a. P x \<Longrightarrow> takeWhile P a = a"
  by (induction a) auto

lemma dropWhile_no_stop: "\<forall>x\<in>set a. P x \<Longrightarrow> dropWhile P a = []"
  by (induction a) auto

section \<open>Substring search\<close>

text \<open>
  \<^verbatim>\<open>std::search(begin, end, pat)\<close> returns an iterator to the first occurrence of the
  pattern, or \<^verbatim>\<open>end\<close>. The result is modelled as the text before that iterator and the text
  from it on; the pattern was found exactly when the second part is not empty (every pattern
  of the program is non-empty).
\<close>

definition starts_with :: "string \<Rightarrow> string \<Rightarrow> bool" where
  "starts_with pat s \<longleftrightarrow> take (length pat) s = pat"

fun search :: "string \<Rightarrow> string \<Rightarrow> string \<times> string" where
  "search pat [] = ([], [])"
| "search pat (c # cs) =
     (if starts_with pat (c # cs) then ([], c # cs)
      else (c # fst (search pat cs), snd (search pat cs)))"

lemma search_append: "fst (search pat s) @ snd (search pat s) = s"
  by (induction s) auto

lemma search_found:
  assumes "snd (search pat s) \<noteq> []"
  shows "starts_with pat (snd (search pat s))"
  using assms by (induction s) auto

lemma starts_with_append [simp]: "starts_with pat (pat @ r)"
  by (simp add: starts_with_def)

lemma starts_with_found:
  assumes "starts_with pat s"
  shows "s = pat @ drop (length pat) s"
  using assms by (metis append_take_drop_id starts_with_def)

text \<open>
  An occurrence of the pattern that begins inside \<^verbatim>\<open>a\<close> lies within \<^verbatim>\<open>a @ pat\<close>: what
  follows the pattern does not matter for the first match.
\<close>

lemma starts_with_local:
  assumes "length pat \<le> length s"
  shows "starts_with pat (s @ r) = starts_with pat s"
  using assms by (simp add: starts_with_def)

lemma search_replace_tail:
  assumes "search pat (a @ pat @ r) = (a, pat @ r)" and "pat \<noteq> []"
  shows "search pat (a @ pat @ r') = (a, pat @ r')"
  using assms
proof (induction a)
  case Nil
  then show ?case
    by (cases pat) (auto simp: starts_with_def)
next
  case (Cons c a)
  have no: "\<not> starts_with pat ((c # a) @ pat @ r)"
    using Cons.prems by (auto split: if_splits)
  have "length pat \<le> length ((c # a) @ pat)" by simp
  then have "starts_with pat ((c # a) @ pat @ r') = starts_with pat ((c # a) @ pat @ r)"
    using starts_with_local [of pat "(c # a) @ pat"] by simp
  with no have no': "\<not> starts_with pat ((c # a) @ pat @ r')" by simp
  have "search pat (a @ pat @ r) = (a, pat @ r)"
    using Cons.prems(1) no by (auto simp: prod_eq_iff)
  then have "search pat (a @ pat @ r') = (a, pat @ r')"
    using Cons.IH Cons.prems(2) by blast
  with no' show ?case by simp
qed

lemma search_absent:
  assumes "pat \<noteq> []" and "hd pat \<notin> set s"
  shows "search pat s = (s, [])"
  using assms(2)
proof (induction s)
  case (Cons c cs)
  then have "\<not> starts_with pat (c # cs)"
    using assms(1) by (cases pat) (auto simp: starts_with_def)
  with Cons show ?case by simp
qed simp

text \<open>For a pattern of one character the search is a scan for that character.\<close>

lemma search_char:
  "search [c] s = (takeWhile (\<lambda>x. x \<noteq> c) s, dropWhile (\<lambda>x. x \<noteq> c) s)"
  by (induction s) (auto simp: starts_with_def)

lemma search_char_absent: "c \<notin> set s \<Longrightarrow> search [c] s = (s, [])"
  by (induction s) (auto simp: starts_with_def)

lemma search_char_first: "c \<notin> set a \<Longrightarrow> search [c] (a @ c # b) = (a, c # b)"
  by (induction a) (auto simp: starts_with_def)

end
