(* ===== verification/Base64.thy ===== *)
theory Base64
  imports Prelude
begin

text \<open>
  The base64 codec of \<^verbatim>\<open>utils/base64.cpp\<close>. The encoder packs three bytes into a 24-bit
  quantum held in an \<^verbatim>\<open>int32_t\<close>; the decoder shifts six bits per character into an
  \<^verbatim>\<open>int32_t\<close> that is never reset between quanta, so its upper byte holds left-over bits.
  The round trip shows that they never reach the output.
\<close>

section \<open>The alphabet\<close>

definition base64_chars :: string where [code_defs]:
  "base64_chars = ''ABCDEFGHIJKLMNOPQRSTUVWXYZabcdefghijklmnopqrstuvwxyz0123456789+/''"

definition pad_char :: char where [code_defs]:
  "pad_char = CHR ''=''"

text \<open>\<^verbatim>\<open>base64_chars[(temp & mask) >> n]\<close>\<close>

definition base64_digit :: "int32 \<Rightarrow> int32 \<Rightarrow> nat \<Rightarrow> char" where
  "base64_digit temp msk n = base64_chars ! unat (shr n (temp AND msk))"

section \<open>Encoding\<close>

text \<open>
  The cursor of the source is the list; the loop runs while three bytes are left and the
  \<^verbatim>\<open>switch (size % 3)\<close> handles the rest.
\<close>

definition quantum1 :: "uint8 \<Rightarrow> int32" where
  "quantum1 a = shl 16 (ucast a)"

definition quantum2 :: "uint8 \<Rightarrow> uint8 \<Rightarrow> int32" where
  "quantum2 a b = quantum1 a + shl 8 (ucast b)"

definition quantum3 :: "uint8 \<Rightarrow> uint8 \<Rightarrow> uint8 \<Rightarrow> int32" where
  "quantum3 a b c = quantum2 a b + ucast c"

fun Base64Encode :: "uint8 list \<Rightarrow> string" where
  "Base64Encode (a # b # c # rest) =
     (let temp = quantum3 a b c in
        [base64_digit temp 0x00FC0000 18, base64_digit temp 0x0003F000 12,
         base64_digit temp 0x00000FC0 6, base64_digit temp 0x0000003F 0]
        @ Base64Encode rest)"
| "Base64Encode [a, b] =
     (let temp = quantum2 a b in
        [base64_digit temp 0x00FC0000 18, base64_digit temp 0x0003F000 12,
         base64_digit temp 0x00000FC0 6, pad_char])"
| "Base64Encode [a] =
     (let temp = quantum1 a in
        [base64_digit temp 0x00FC0000 18, base64_digit temp 0x0003F000 12,
         pad_char, pad_char])"
| "Base64Encode [] = []"

section \<open>Decoding\<close>

text \<open>
  The result is the decoded bytes or a rejection (the empty \<^verbatim>\<open>boost::optional\<close>).
  \<open>Overread\<close> stands for the undefined behaviour of reading \<^verbatim>\<open>*cursor\<close> at the end of
  the input, which the inner loop over the four positions of a quantum does not check.
\<close>

datatype decode_outcome = Bytes "uint8 list" | Rejected | Overread

definition digit_value :: "char \<Rightarrow> int32 option" where
  "digit_value c =
     (let v = byte_val c :: nat in
      if 0x41 \<le> v \<and> v \<le> 0x5A then Some (word_of_nat (v - 0x41))
      else if 0x61 \<le> v \<and> v \<le> 0x7A then Some (word_of_nat (v - 0x47))
      else if 0x30 \<le> v \<and> v \<le> 0x39 then Some (word_of_nat (v + 0x04))
      else if v = 0x2B then Some 0x3E
      else if v = 0x2F then Some 0x3F
      else None)"

text \<open>\<^verbatim>\<open>(temp >> n) & 0x000000FF\<close>, pushed as a \<^verbatim>\<open>uint8_t\<close>\<close>

definition out_byte :: "int32 \<Rightarrow> nat \<Rightarrow> uint8" where
  "out_byte temp n = ucast (shr n temp AND 0x000000FF)"

fun decode_loop :: "string \<Rightarrow> nat \<Rightarrow> int32 \<Rightarrow> uint8 list \<Rightarrow> decode_outcome" where
  "decode_loop [] quantumPosition temp decodedBytes =
     (if quantumPosition = 0 then Bytes decodedBytes else Overread)"
| "decode_loop (c # cs) quantumPosition temp decodedBytes =
     (let temp = shl 6 temp in
      case digit_value c of
        Some v \<Rightarrow>
          let temp = temp OR v in
          if quantumPosition = 3
          then decode_loop cs 0 temp
                 (decodedBytes @ [out_byte temp 16, out_byte temp 8, out_byte temp 0])
          else decode_loop cs (quantumPosition + 1) temp decodedBytes
      | None \<Rightarrow>
          if c = pad_char then
            (if length (c # cs) = 1
             then Bytes (decodedBytes @ [out_byte temp 16, out_byte temp 8])
             else if length (c # cs) = 2
             then Bytes (decodedBytes @ [out_byte temp 10])
             else Rejected)
          else Rejected)"

definition Base64Decode :: "string \<Rightarrow> decode_outcome" where
  "Base64Decode input =
     (if length input mod 4 \<noteq> 0 then Rejected else decode_loop input 0 0 [])"

section \<open>Digits\<close>

lemma digit_value_table:
  "map digit_value base64_chars = map (\<lambda>i. Some (word_of_nat i)) [0..<64]"
  by (simp add: base64_chars_def digit_value_def upt_rec)

lemma digit_value_chars: "i < 64 \<Longrightarrow> digit_value (base64_chars ! i) = Some (word_of_nat i)"
  by (rule map_table_nth [OF digit_value_table])

lemma digit_value_pad [simp]: "digit_value pad_char = None"
  by (simp add: digit_value_def pad_char_def)

section \<open>Quanta, bit by bit\<close>

text \<open>Words of a fixed width are equal when their bits are, index by index.\<close>

lemma byte_eqI:
  assumes "list_all (\<lambda>n. bit (v :: uint8) n = bit w n) [0..<8]"
  shows "v = w"
  by (rule bit_word_eqI) (use assms in \<open>simp add: list_all_iff\<close>)

lemma int32_eqI:
  assumes "list_all (\<lambda>n. bit (v :: int32) n = bit w n) [0..<32]"
  shows "v = w"
  by (rule bit_word_eqI) (use assms in \<open>simp add: list_all_iff\<close>)

lemma byte_no_bit: "8 \<le> n \<Longrightarrow> \<not> bit (w :: uint8) n"
  using bit_imp_le_length [of w n] by auto

lemma upt_8: "[0..<8] = [0 :: nat, 1, 2, 3, 4, 5, 6, 7]"
  by (simp add: upt_rec)

lemma quantum2_or: "quantum2 a b = shl 16 (ucast a) OR shl 8 (ucast b)"
  unfolding quantum2_def quantum1_def
  by (rule disjunctive_add_eq_or, rule bit_word_eqI)
     (auto simp: bit_simps dest!: bit_imp_le_length)

lemma quantum3_or: "quantum3 a b c = shl 16 (ucast a) OR shl 8 (ucast b) OR ucast c"
  unfolding quantum3_def quantum2_or or.assoc [symmetric]
  by (rule disjunctive_add_eq_or, rule bit_word_eqI)
     (auto simp: bit_simps dest!: bit_imp_le_length)

lemmas quantum_or = quantum1_def quantum2_or quantum3_or

text \<open>The four digits of a quantum are its sextets.\<close>

lemma quantum_sextets:
  "shr 18 (q AND 0x00FC0000) = drop_bit 18 (q :: int32) AND 63"
  "shr 12 (q AND 0x0003F000) = drop_bit 12 (q :: int32) AND 63"
  "shr 6 (q AND 0x00000FC0) = drop_bit 6 (q :: int32) AND 63"
  "shr 0 (q AND 0x0000003F) = (q :: int32) AND 63"
  by (rule int32_eqI; simp add: bit_simps upt_rec)+

lemma sextet_less: "unat ((w :: int32) AND 63) < 64"
proof -
  have "unat (w AND 63) \<le> unat (63 :: int32)"
    by (rule word_and_le1 [THEN word_le_nat_alt [THEN iffD1]])
  then show ?thesis by simp
qed

lemma digit_value_digit [simp]:
  "digit_value (base64_digit q 0x00FC0000 18) = Some (drop_bit 18 q AND 63)"
  "digit_value (base64_digit q 0x0003F000 12) = Some (drop_bit 12 q AND 63)"
  "digit_value (base64_digit q 0x00000FC0 6) = Some (drop_bit 6 q AND 63)"
  "digit_value (base64_digit q 0x0000003F 0) = Some (q AND 63)"
  unfolding base64_digit_def quantum_sextets
  by (simp_all add: digit_value_chars sextet_less)

definition push_sextet :: "int32 \<Rightarrow> int32 \<Rightarrow> int32" where
  "push_sextet t d = shl 6 t OR (d AND 63)"

lemma push_sextet_fold: "shl 6 t OR (d AND 63) = push_sextet t d"
  by (simp add: push_sextet_def)

text \<open>
  Whatever the accumulator held before, the three bytes read from it after four sextets are
  the bytes of the quantum the sextets came from.
\<close>

lemma out_byte_quantum:
  fixes q :: int32
  defines "t' \<equiv> \<lambda>t. push_sextet (push_sextet (push_sextet (push_sextet t
             (drop_bit 18 q)) (drop_bit 12 q)) (drop_bit 6 q)) q"
  shows "out_byte (t' t) 16 = out_byte q 16"
    and "out_byte (t' t) 8 = out_byte q 8"
    and "out_byte (t' t) 0 = out_byte q 0"
  unfolding t'_def out_byte_def push_sextet_def
  by (rule byte_eqI; simp add: bit_simps upt_8)+

lemma out_byte_quantum_two:
  "out_byte (shl 6 (push_sextet (push_sextet (push_sextet t
     (drop_bit 18 q)) (drop_bit 12 q)) (drop_bit 6 q))) 16 = out_byte q 16"
  "out_byte (shl 6 (push_sextet (push_sextet (push_sextet t
     (drop_bit 18 q)) (drop_bit 12 q)) (drop_bit 6 q))) 8 = out_byte q 8"
  unfolding out_byte_def push_sextet_def
  by (rule byte_eqI; simp add: bit_simps upt_8)+

lemma out_byte_quantum_one:
  "out_byte (shl 6 (push_sextet (push_sextet t (drop_bit 18 q)) (drop_bit 12 q))) 10
     = out_byte q 16"
  unfolding out_byte_def push_sextet_def
  by (rule byte_eqI; simp add: bit_simps upt_8)

lemma out_byte_quantum3 [simp]:
  "out_byte (quantum3 a b c) 16 = a"
  "out_byte (quantum3 a b c) 8 = b"
  "out_byte (quantum3 a b c) 0 = c"
  "out_byte (quantum2 a b) 16 = a"
  "out_byte (quantum2 a b) 8 = b"
  "out_byte (quantum1 a) 16 = a"
  unfolding out_byte_def quantum_or
  by (rule byte_eqI; simp add: bit_simps upt_8 byte_no_bit)+

section \<open>Round trip\<close>

lemma decode_loop_encode:
  "decode_loop (Base64Encode bs) 0 t out = Bytes (out @ bs)"
proof (induction bs arbitrary: t out rule: Base64Encode.induct)
  case (1 a b c rest)
  then show ?case
    by (simp add: Let_def push_sextet_fold out_byte_quantum del: push_bit_or)
next
  case (2 a b)
  then show ?case
    by (simp add: Let_def push_sextet_fold out_byte_quantum_two del: push_bit_or)
next
  case (3 a)
  then show ?case
    by (simp add: Let_def push_sextet_fold out_byte_quantum_one del: push_bit_or)
qed simp

text \<open>The length is the capacity the source reserves, \<^verbatim>\<open>((size/3) + (size % 3 > 0)) * 4\<close>.\<close>

lemma length_Base64Encode:
  "length (Base64Encode bs) =
     (length bs div 3 + (if 0 < length bs mod 3 then 1 else 0)) * 4"
proof (induction bs rule: Base64Encode.induct)
  case (1 a b c rest)
  have "length (a # b # c # rest) div 3 = Suc (length rest div 3)"
    and "length (a # b # c # rest) mod 3 = length rest mod 3"
    by (simp_all add: Suc3_eq_add_3 mod_if div_if)
  with 1 show ?case by (simp add: Let_def)
qed (simp_all add: Let_def)

text \<open>
  C16: decoding the encoding of any byte sequence returns exactly that sequence, whatever its
  length modulo three, although the decoder's accumulator is never reset between quanta.
\<close>

theorem Base64Decode_Encode: "Base64Decode (Base64Encode bs) = Bytes bs"
  by (simp add: Base64Decode_def length_Base64Encode decode_loop_encode)

section \<open>Every input\<close>

lemma decode_loop_in_range:
  assumes "q < 4" and "(length s + q) mod 4 = 0"
  shows "decode_loop s q t out \<noteq> Overread"
  using assms
proof (induction s q t out rule: decode_loop.induct)
  case (1 q t out)
  then show ?case by (auto simp: mod_if)
next
  case (2 c cs q t out)
  have mod3: "q = 3 \<Longrightarrow> (length cs + 0) mod 4 = 0"
    using "2.prems" by (simp add: add.commute mod_if)
  show ?case
    using "2.IH" "2.prems" mod3
    by (auto simp: Let_def split: option.splits)
qed

text \<open>
  on every input, malformed ones included, the decoder stops inside the string: the
  length check at the start is enough for the unchecked inner loop over a quantum never to
  read past the end.
\<close>

theorem Base64Decode_in_range: "Base64Decode s \<noteq> Overread"
  by (simp add: Base64Decode_def decode_loop_in_range)

text \<open>
  the decoder accepts strings that are not base64. A padding character in the third
  position of the last quantum ends the decoding whatever the fourth character is, and the
  left-over bits of the last digit are not checked, so two encodings decode to the same byte.
\<close>

theorem Base64Decode_lenient:
  "Base64Decode ''QQ=Q'' = Bytes [0x41] \<and> Base64Decode ''QQ=!'' = Bytes [0x41]
   \<and> Base64Decode ''QR=='' = Base64Decode ''QQ==''"
  by (simp add: Base64Decode_def digit_value_def pad_char_def out_byte_def Let_def)

end
