(* ===== verification/Url_Encode.thy ===== *)
theory Url_Encode
  imports Prelude
begin

text \<open>
  Percent encoding, \<^verbatim>\<open>utils/url_encode.cpp\<close>: the encoder with and without \<^verbatim>\<open>+\<close> for
  the blank, and the decoder the two share. The decoder reads the two characters after a
  percent sign with \<^verbatim>\<open>sscanf(buf, "%hx", &ch)\<close>, so what it accepts is what that C
  library call accepts; \<open>scan_hx\<close> is its behaviour in the C locale by the C standard.
\<close>

datatype PlusEncode = No | Yes

section \<open>Characters\<close>

text \<open>
  The comparisons of the source on \<^verbatim>\<open>char\<close> have the same result for a signed and an
  unsigned \<^verbatim>\<open>char\<close>: a byte above 127 is in none of the ranges.
\<close>

definition RequiresPercentEncoding :: "char \<Rightarrow> bool" where [code_defs]:
  "RequiresPercentEncoding ch =
     (let v = byte_val ch :: nat in
      if (byte_val CHR ''A'' \<le> v \<and> v \<le> byte_val CHR ''Z'')
         \<or> (byte_val CHR ''a'' \<le> v \<and> v \<le> byte_val CHR ''z'')
         \<or> (byte_val CHR ''0'' \<le> v \<and> v \<le> byte_val CHR ''9'')
         \<or> CHR ''-'' = ch \<or> CHR ''_'' = ch \<or> CHR ''.'' = ch \<or> CHR ''~'' = ch
      then False else True)"

text \<open>\<^verbatim>\<open>snprintf("%02X", static_cast<unsigned char>(c))\<close>\<close>

definition hex_digit :: "nat \<Rightarrow> char" where [code_defs]:
  "hex_digit n = ''0123456789ABCDEF'' ! n"

definition format_02X :: "char \<Rightarrow> string" where [code_defs]:
  "format_02X c = [hex_digit (byte_val c div 16), hex_digit (byte_val c mod 16)]"

section \<open>Encoding\<close>

fun UrlEncodeBase :: "PlusEncode \<Rightarrow> string \<Rightarrow> string" where
  "UrlEncodeBase plus_encode [] = []"
| "UrlEncodeBase plus_encode (c # cs) =
     (if \<not> RequiresPercentEncoding c then [c]
      else if plus_encode = Yes \<and> c = CHR '' '' then ''+''
      else CHR ''%'' # format_02X c) @ UrlEncodeBase plus_encode cs"

section \<open>The library call of the decoder\<close>

definition is_space :: "char \<Rightarrow> bool" where [code_defs]:
  "is_space c = (byte_val c = (32 :: nat) \<or> (9 \<le> (byte_val c :: nat) \<and> byte_val c \<le> (13 :: nat)))"

definition hex_value :: "char \<Rightarrow> nat option" where [code_defs]:
  "hex_value c =
     (let v = byte_val c :: nat in
      if 48 \<le> v \<and> v \<le> 57 then Some (v - 48)
      else if 65 \<le> v \<and> v \<le> 70 then Some (v - 55)
      else if 97 \<le> v \<and> v \<le> 102 then Some (v - 87)
      else None)"

fun hex_digits :: "string \<Rightarrow> nat list" where
  "hex_digits [] = []"
| "hex_digits (c # cs) = (case hex_value c of Some v \<Rightarrow> v # hex_digits cs | None \<Rightarrow> [])"

definition hex_number :: "nat list \<Rightarrow> nat" where [code_defs]:
  "hex_number ds = foldl (\<lambda>n d. 16 * n + d) 0 ds"

text \<open>
  \<^verbatim>\<open>%hx\<close> on a NUL-terminated buffer: blanks are skipped, then an optional sign, an
  optional \<^verbatim>\<open>0x\<close> and the longest run of hexadecimal digits. Without a digit the
  conversion fails; characters after the digits stay unread. The number is stored as a
  16-bit value, negated where the sign says so.
\<close>

definition scan_sign :: "string \<Rightarrow> bool \<times> string" where [code_defs]:
  "scan_sign s = (case s of
       c # cs \<Rightarrow> if c = CHR ''-'' then (True, cs) else if c = CHR ''+'' then (False, cs) else (False, s)
     | [] \<Rightarrow> (False, s))"

definition scan_prefix :: "string \<Rightarrow> string" where [code_defs]:
  "scan_prefix s =
     (if take 2 s = ''0x'' \<or> take 2 s = ''0X'' then drop 2 s else s)"

definition scan_hx :: "string \<Rightarrow> int16 option" where [code_defs]:
  "scan_hx buf =
     (let s = dropWhile is_space (takeWhile (\<lambda>c. c \<noteq> CHR 0x00) buf);
          (neg, s1) = scan_sign s;
          ds = hex_digits (scan_prefix s1)
      in if ds = [] then None
         else Some (if neg then - word_of_nat (hex_number ds) else word_of_nat (hex_number ds)))"

text \<open>\<^verbatim>\<open>static_cast<char>(ch)\<close> keeps the low byte.\<close>

definition char_of_short :: "int16 \<Rightarrow> char" where [code_defs]:
  "char_of_short w = char_of (unat w)"

section \<open>Decoding\<close>

text \<open>The first loop: every percent sign is followed by two more characters.\<close>

fun percents_complete :: "string \<Rightarrow> bool" where
  "percents_complete [] = True"
| "percents_complete (c # cs) =
     (if c = CHR ''%'' then
        (case cs of
           [] \<Rightarrow> False
         | [_] \<Rightarrow> False
         | _ # _ # rest \<Rightarrow> percents_complete rest)
      else percents_complete cs)"

text \<open>
  The second loop. The iterator advances past a percent sign without a check, which the
  first loop made safe; the model stops with \<^term>\<open>None\<close> in the two cases it excludes.
\<close>

fun decode_chars :: "string \<Rightarrow> string \<Rightarrow> string option" where
  "decode_chars [] unencoded_str = Some unencoded_str"
| "decode_chars (c # cs) unencoded_str =
     (if c = CHR ''%'' then
        (case cs of
           b0 # b1 # rest \<Rightarrow>
             (case scan_hx [b0, b1] of
                Some ch \<Rightarrow> decode_chars rest (unencoded_str @ [char_of_short ch])
              | None \<Rightarrow> None)
         | _ \<Rightarrow> None)
      else if c = CHR ''+'' then decode_chars cs (unencoded_str @ '' '')
      else if RequiresPercentEncoding c then None
      else decode_chars cs (unencoded_str @ [c]))"

definition UrlUnencodeBase :: "string \<Rightarrow> string option" where
  "UrlUnencodeBase encoded_str =
     (if \<not> percents_complete encoded_str then None else decode_chars encoded_str [])"

text \<open>\<^verbatim>\<open>url::percent\<close> (alias \<^verbatim>\<open>get_parameter\<close>) and \<^verbatim>\<open>url::percent_plus\<close>\<close>

definition percent_Encode :: "string \<Rightarrow> string" where
  "percent_Encode s = UrlEncodeBase No s"

definition percent_Decode :: "string \<Rightarrow> string option" where
  "percent_Decode s = UrlUnencodeBase s"

definition percent_plus_Encode :: "string \<Rightarrow> string" where
  "percent_plus_Encode s = UrlEncodeBase Yes s"

definition percent_plus_Decode :: "string \<Rightarrow> string option" where
  "percent_plus_Decode s = UrlUnencodeBase s"

section \<open>Hexadecimal digits\<close>

lemma hex_digit_table:
  "map (\<lambda>c. (hex_value c, is_space c, RequiresPercentEncoding c,
       c \<in> {CHR 0x00, CHR ''-'', CHR ''+'', CHR ''x'', CHR ''X''})) ''0123456789ABCDEF''
   = map (\<lambda>n. (Some n, False, False, False)) [0..<16]"
  by (simp add: hex_value_def is_space_def RequiresPercentEncoding_def upt_rec)

lemma hex_digit_facts:
  assumes "n < 16"
  shows "hex_value (hex_digit n) = Some n"
    and "\<not> is_space (hex_digit n)"
    and "\<not> RequiresPercentEncoding (hex_digit n)"
    and "hex_digit n \<notin> {CHR 0x00, CHR ''-'', CHR ''+'', CHR ''x'', CHR ''X''}"
  using map_table_nth [OF hex_digit_table assms] unfolding hex_digit_def by auto

lemma byte_val_div_mod: "byte_val c div 16 < (16 :: nat)" "byte_val c mod 16 < (16 :: nat)"
proof -
  have "byte_val c < (256 :: nat)" by (rule nat_of_char_less_256)
  then show "byte_val c div 16 < (16 :: nat)" by (simp add: less_mult_imp_div_less)
qed simp

lemma scan_hx_format [simp]: "scan_hx (format_02X c) = Some (word_of_nat (byte_val c))"
proof -
  let ?h = "hex_digit (byte_val c div 16)" and ?l = "hex_digit (byte_val c mod 16)"
  note h = hex_digit_facts [OF byte_val_div_mod(1) [of c]]
  note l = hex_digit_facts [OF byte_val_div_mod(2) [of c]]
  have "takeWhile (\<lambda>c. c \<noteq> CHR 0x00) [?h, ?l] = [?h, ?l]"
    using h(4) l(4) by simp
  moreover have "scan_sign [?h, ?l] = (False, [?h, ?l])"
    using h(4) by (simp add: scan_sign_def)
  moreover have "scan_prefix [?h, ?l] = [?h, ?l]"
    using l(4) by (simp add: scan_prefix_def)
  ultimately show ?thesis
    using h l by (simp add: scan_hx_def format_02X_def hex_number_def)
qed

lemma char_of_short_byte [simp]: "char_of_short (word_of_nat (byte_val c)) = c"
proof -
  have "byte_val c < (256 :: nat)" by (rule nat_of_char_less_256)
  then have "byte_val c < (65536 :: nat)" by (rule order.strict_trans) simp
  then have "byte_val c mod 65536 = (byte_val c :: nat)" by (rule mod_less)
  then show ?thesis
    by (simp add: char_of_short_def unat_of_nat del: of_char_mod_256)
qed

section \<open>Round trip\<close>

lemma RequiresPercentEncoding_special [simp]:
  "RequiresPercentEncoding CHR ''%''" "RequiresPercentEncoding CHR ''+''"
  "RequiresPercentEncoding CHR '' ''" "RequiresPercentEncoding CHR ''&''"
  "RequiresPercentEncoding CHR ''=''" "RequiresPercentEncoding CHR ''?''"
  "RequiresPercentEncoding CHR ''#''" "RequiresPercentEncoding CHR ''/''"
  by (simp_all add: RequiresPercentEncoding_def)

lemma percents_complete_encode: "percents_complete (UrlEncodeBase p s)"
  by (induction s) (auto simp: format_02X_def)

lemma decode_chars_encode: "decode_chars (UrlEncodeBase p s) out = Some (out @ s)"
proof (induction s arbitrary: out)
  case (Cons c cs)
  have "decode_chars (CHR ''%'' # format_02X c @ r) out
          = decode_chars r (out @ [c])" for r
    using scan_hx_format [of c] by (simp add: format_02X_def)
  with Cons show ?case by auto
qed simp

text \<open>
  decoding returns the encoded string, for both encoders and for every byte string,
  NUL, percent signs, pluses and bytes above 127 included.
\<close>

theorem url_decode_encode:
  "percent_Decode (percent_Encode s) = Some s
   \<and> percent_plus_Decode (percent_plus_Encode s) = Some s"
  by (simp add: percent_Decode_def percent_Encode_def percent_plus_Decode_def
      percent_plus_Encode_def UrlUnencodeBase_def percents_complete_encode decode_chars_encode)

section \<open>The alphabet of the output\<close>

text \<open>
  Every character of an encoded string is unreserved (RFC 3986), a percent sign or, for the
  POST form, the plus of a blank: the separators of a query never occur in it.
\<close>

lemma UrlEncodeBase_alphabet:
  assumes "c \<in> set (UrlEncodeBase p s)"
  shows "\<not> RequiresPercentEncoding c \<or> c = CHR ''%'' \<or> (p = Yes \<and> c = CHR ''+'')"
  using assms
proof (induction s)
  case (Cons d ds)
  note h = hex_digit_facts(3) [OF byte_val_div_mod(1) [of d]]
  note l = hex_digit_facts(3) [OF byte_val_div_mod(2) [of d]]
  from Cons h l show ?case by (auto simp: format_02X_def split: if_splits)
qed simp

text \<open>
  the decoder accepts what is not percent encoding: one hexadecimal digit followed by any
  character, a blank or a sign in front of the digit. It also reads a plus as a blank in the
  GET form, whose encoder never writes a blank so.
\<close>

theorem percent_Decode_lenient:
  "percent_Decode ''%4G'' = Some [CHR 0x04] \<and> percent_Decode ''% 1'' = Some [CHR 0x01]
   \<and> percent_Decode ''%-1'' = Some [CHR 0xFF] \<and> percent_Decode ''a+b'' = Some ''a b''
   \<and> percent_Decode ''%GG'' = None \<and> percent_Decode ''%4'' = None"
  by (simp add: percent_Decode_def UrlUnencodeBase_def code_defs char_of_def
      unsigned_minus_1_eq_mask bit_simps)

section \<open>The codec interface\<close>

text \<open>
  What the code that builds queries relies on: decoding undoes encoding, and the characters
  that structure a query do not occur in an encoded value.
\<close>

locale param_codec =
  fixes enc :: "string \<Rightarrow> string"
    and dec :: "string \<Rightarrow> string option"
  assumes dec_enc: "dec (enc s) = Some s"
    and enc_no_separator: "c \<in> {CHR ''&'', CHR ''='', CHR ''?'', CHR ''#'', CHR ''/''} \<Longrightarrow> c \<notin> set (enc s)"
begin

lemma enc_inj: "enc s = enc t \<longleftrightarrow> s = t"
  by (metis dec_enc option.inject)

lemma enc_no_ampersand: "CHR ''&'' \<notin> set (enc s)"
  and enc_no_equals: "CHR ''='' \<notin> set (enc s)"
  by (simp_all add: enc_no_separator)

end

interpretation get_parameter: param_codec percent_Encode percent_Decode
proof
  fix s :: string
  show "percent_Decode (percent_Encode s) = Some s"
    by (simp add: percent_Decode_def percent_Encode_def UrlUnencodeBase_def
        percents_complete_encode decode_chars_encode)
next
  fix c :: char and s :: string
  assume "c \<in> {CHR ''&'', CHR ''='', CHR ''?'', CHR ''#'', CHR ''/''}"
  then show "c \<notin> set (percent_Encode s)"
    using UrlEncodeBase_alphabet [of c No s] by (auto simp: percent_Encode_def)
qed

interpretation post_parameter: param_codec percent_plus_Encode percent_plus_Decode
proof
  fix s :: string
  show "percent_plus_Decode (percent_plus_Encode s) = Some s"
    by (simp add: percent_plus_Decode_def percent_plus_Encode_def UrlUnencodeBase_def
        percents_complete_encode decode_chars_encode)
next
  fix c :: char and s :: string
  assume "c \<in> {CHR ''&'', CHR ''='', CHR ''?'', CHR ''#'', CHR ''/''}"
  then show "c \<notin> set (percent_plus_Encode s)"
    using UrlEncodeBase_alphabet [of c Yes s] by (auto simp: percent_plus_Encode_def)
qed

end
