(* ===== verification/Url.thy ===== *)
theory Url
  imports Prelude
begin

text \<open>
  \<^verbatim>\<open>http/url.cpp\<close>: the parser of the class \<^verbatim>\<open>Url\<close> and \<^verbatim>\<open>Url::FromRedirect\<close>. The
  constructor throws \<^verbatim>\<open>InvalidUrl\<close> when the scheme separator is missing; the model returns
  \<^term>\<open>None\<close> then. Iterators into the string are the pieces of the string they delimit
  (\<open>search\<close> of the prelude).
\<close>

section \<open>The class\<close>

record url =
  full_url :: string
  scheme :: string
  host :: string
  port :: string
  user :: string
  pass :: string
  path :: string
  full_path :: string
  query :: string
  fragment :: string

definition prot_sep :: string where "prot_sep = '':''"
definition host_begin :: string where "host_begin = ''//''"
definition prot_end :: string where "prot_end = ''://''"
definition path_sep :: string where "path_sep = ''/''"
definition login_sep :: string where "login_sep = ''@''"
definition pass_sep :: string where "pass_sep = '':''"
definition port_sep :: string where "port_sep = '':''"
definition query_sep :: string where "query_sep = ''?''"
definition hash_sep :: string where "hash_sep = ''#''"

lemmas sep_defs [code_defs] = prot_sep_def host_begin_def prot_end_def path_sep_def login_sep_def
  pass_sep_def port_sep_def query_sep_def hash_sep_def

text \<open>\<^verbatim>\<open>ParsePath(path_start)\<close>: the argument is the text from the iterator on.\<close>

definition ParsePath :: "url \<Rightarrow> string \<Rightarrow> url" where
  "ParsePath u path_start =
     (let (before_query, at_query) = search query_sep path_start;
          (path_text, query_text, at_hash) =
            (if at_query \<noteq> [] then
               let (q, h) = search hash_sep at_query
               in (before_query, drop (length query_sep) q, h)
             else
               let (p, h) = search hash_sep path_start in (p, [], h));
          fragment_text = (if at_hash \<noteq> [] then drop (length hash_sep) at_hash else [])
      in u\<lparr>path := path_text, full_path := path_start, query := query_text,
           fragment := fragment_text\<rparr>)"

text \<open>The login part of the authority: user and password are set only if a colon separates them.\<close>

definition parse_login :: "string \<Rightarrow> string \<times> string" where
  "parse_login login =
     (let (u, at_pass) = search pass_sep login
      in if at_pass \<noteq> [] then (u, drop (length pass_sep) at_pass) else ([], []))"

definition Url :: "string \<Rightarrow> url option" where
  "Url s =
     (let (scheme_text, at_prot) = search prot_end s in
      if at_prot = [] then None
      else
        let (chunk, at_path) = search path_sep (drop (length prot_end) at_prot);
            (login, at_login) = search login_sep chunk;
            ((user_text, pass_text), host_port) =
              (if at_login \<noteq> [] then (parse_login login, drop (length login_sep) at_login)
               else (([], []), chunk));
            (host_text, at_port) = search port_sep host_port;
            port_text = (if at_port \<noteq> [] then drop (length port_sep) at_port else []);
            u = \<lparr>full_url = s, scheme = scheme_text, host = host_text, port = port_text,
                 user = user_text, pass = pass_text, path = ''/'', full_path = ''/'',
                 query = [], fragment = []\<rparr>
        in Some (if at_path \<noteq> [] then ParsePath u at_path else u))"

definition FromRedirect :: "url \<Rightarrow> string \<Rightarrow> url option" where
  "FromRedirect u redirect =
     (if snd (search prot_end redirect) \<noteq> [] then Url redirect
      else if starts_with host_begin redirect
      then Url (scheme u @ prot_sep @ redirect)
      else Url (scheme u @ prot_end
                @ (if user u \<noteq> [] \<or> pass u \<noteq> [] then user u @ pass_sep @ pass u @ login_sep else [])
                @ host u
                @ (if port u \<noteq> [] then port_sep @ port u else [])
                @ redirect))"

lemma scheme_ParsePath [simp]: "scheme (ParsePath u s) = scheme u"
  by (simp add: ParsePath_def Let_def split_beta)

section \<open>When parsing fails\<close>

lemma Url_None_iff: "Url s = None \<longleftrightarrow> snd (search prot_end s) = []"
  by (simp add: Url_def Let_def split_beta)

section \<open>Well-formed components\<close>

text \<open>
  The components of a URL, with the optional parts as options, and the text they stand for.
\<close>

record url_parts =
  p_scheme :: string
  p_login :: "(string \<times> string) option"
  p_host :: string
  p_port :: "string option"
  p_path :: string
  p_query :: "string option"
  p_fragment :: "string option"

definition p_authority :: "url_parts \<Rightarrow> string" where
  "p_authority p =
     (case p_login p of Some (u, w) \<Rightarrow> u @ '':'' @ w @ ''@'' | None \<Rightarrow> [])
     @ p_host p @ (case p_port p of Some n \<Rightarrow> '':'' @ n | None \<Rightarrow> [])"

definition p_rest :: "url_parts \<Rightarrow> string" where
  "p_rest p =
     p_path p @ (case p_query p of Some q \<Rightarrow> ''?'' @ q | None \<Rightarrow> [])
     @ (case p_fragment p of Some f \<Rightarrow> ''#'' @ f | None \<Rightarrow> [])"

definition render_url :: "url_parts \<Rightarrow> string" where
  "render_url p = p_scheme p @ ''://'' @ p_authority p @ p_rest p"

definition free_of :: "string \<Rightarrow> string \<Rightarrow> bool" where
  "free_of seps s \<longleftrightarrow> (\<forall>c\<in>set seps. c \<notin> set s)"

text \<open>
  The scheme has no separator (it may hold a colon or slashes otherwise, since the parser
  looks for the first \<^verbatim>\<open>://\<close>); a path is empty or starts with a slash, and query and
  fragment need one.
\<close>

definition wf_parts :: "url_parts \<Rightarrow> bool" where
  "wf_parts p \<longleftrightarrow>
     search ''://'' (p_scheme p @ ''://'') = (p_scheme p, ''://'')
     \<and> (case p_login p of Some (u, w) \<Rightarrow> free_of ''/@:'' u \<and> free_of ''/@'' w | None \<Rightarrow> True)
     \<and> free_of ''/@:'' (p_host p)
     \<and> (case p_port p of Some n \<Rightarrow> free_of ''/@'' n | None \<Rightarrow> True)
     \<and> (p_path p = [] \<longrightarrow> p_query p = None \<and> p_fragment p = None)
     \<and> (p_path p \<noteq> [] \<longrightarrow> hd (p_path p) = CHR ''/'')
     \<and> free_of ''?#'' (p_path p)
     \<and> (case p_query p of Some q \<Rightarrow> free_of ''#'' q | None \<Rightarrow> True)
     \<and> (p_query p = None \<longrightarrow> (case p_fragment p of Some f \<Rightarrow> free_of ''?'' f | None \<Rightarrow> True))"

definition opt_text :: "string option \<Rightarrow> string" where
  "opt_text x = (case x of Some s \<Rightarrow> s | None \<Rightarrow> [])"

text \<open>The object the parser is to build from the parts.\<close>

definition url_of_parts :: "url_parts \<Rightarrow> url" where
  "url_of_parts p =
     \<lparr>full_url = render_url p, scheme = p_scheme p, host = p_host p, port = opt_text (p_port p),
      user = (case p_login p of Some (u, _) \<Rightarrow> u | None \<Rightarrow> []),
      pass = (case p_login p of Some (_, w) \<Rightarrow> w | None \<Rightarrow> []),
      path = (if p_path p = [] then ''/'' else p_path p),
      full_path = (if p_path p = [] then ''/'' else p_rest p),
      query = opt_text (p_query p), fragment = opt_text (p_fragment p)\<rparr>"

section \<open>Parsing a rendered URL\<close>

lemma free_of_simps [simp]:
  "free_of [] s" "free_of (c # seps) s \<longleftrightarrow> c \<notin> set s \<and> free_of seps s"
  by (auto simp: free_of_def)

lemma search_scheme:
  assumes "search ''://'' (a @ ''://'') = (a, ''://'')"
  shows "search ''://'' (a @ ''://'' @ r) = (a, ''://'' @ r)"
  using search_replace_tail [of "''://''" a "[]" r] assms by simp

text \<open>The authority ends at the first slash, which only the path can start with.\<close>

lemma search_authority:
  assumes "wf_parts p"
  shows "search ''/'' (p_authority p @ p_rest p) = (p_authority p, p_rest p)"
proof -
  have no: "CHR ''/'' \<notin> set (p_authority p)"
    using assms by (auto simp: wf_parts_def p_authority_def split: option.splits)
  show ?thesis
  proof (cases "p_path p")
    case Nil
    then have "p_rest p = []"
      using assms by (simp add: wf_parts_def p_rest_def)
    with no show ?thesis by (simp add: search_char_absent)
  next
    case (Cons c cs)
    then have "p_rest p = CHR ''/'' # tl (p_rest p)"
      using assms by (simp add: wf_parts_def p_rest_def)
    with no show ?thesis using search_char_first [OF no] by metis
  qed
qed

lemma parse_login_parts:
  "free_of '':'' u \<Longrightarrow> parse_login (u @ '':'' @ w) = (u, w)"
  using search_char_first [of "CHR '':''" u w] by (simp add: parse_login_def sep_defs)

lemma search_host_port:
  assumes "free_of '':'' h"
  shows "search '':'' (h @ (case n of Some n \<Rightarrow> '':'' @ n | None \<Rightarrow> []))
           = (h, (case n of Some n \<Rightarrow> '':'' @ n | None \<Rightarrow> []))"
  using assms search_char_first [of "CHR '':''" h] search_char_absent [of "CHR '':''" h]
  by (auto split: option.splits)

lemma parse_authority:
  assumes "wf_parts p"
  defines "a \<equiv> p_authority p"
    and "hp \<equiv> p_host p @ (case p_port p of Some n \<Rightarrow> '':'' @ n | None \<Rightarrow> [])"
  shows "(let (login, at_login) = search ''@'' a
          in if at_login \<noteq> [] then (parse_login login, drop 1 at_login) else (([], []), a))
         = ((case p_login p of Some uw \<Rightarrow> uw | None \<Rightarrow> ([], [])), hp)"
proof (cases "p_login p")
  case None
  have "CHR ''@'' \<notin> set a"
    using assms(1) None by (auto simp: a_def wf_parts_def p_authority_def split: option.splits)
  with None show ?thesis
    by (simp add: search_char_absent) (simp add: a_def hp_def p_authority_def None)
next
  case (Some uw)
  obtain u w where uw: "uw = (u, w)" by (cases uw)
  have no: "CHR ''@'' \<notin> set (u @ '':'' @ w)" and nc: "free_of '':'' u"
    using assms(1) Some uw by (auto simp: wf_parts_def)
  have "a = (u @ '':'' @ w) @ CHR ''@'' # hp"
    by (simp add: a_def hp_def p_authority_def Some uw)
  then have "search ''@'' a = (u @ '':'' @ w, CHR ''@'' # hp)"
    using search_char_first [OF no] by simp
  with Some uw show ?thesis
    using parse_login_parts [OF nc, of w] by simp
qed

lemma ParsePath_rest:
  assumes "wf_parts p" and "p_path p \<noteq> []"
  shows "ParsePath u (p_rest p) =
    u\<lparr>path := p_path p, full_path := p_rest p, query := opt_text (p_query p),
      fragment := opt_text (p_fragment p)\<rparr>"
proof (cases "p_query p")
  case None
  then have "CHR ''?'' \<notin> set (p_rest p)" and "CHR ''#'' \<notin> set (p_path p)"
    using assms by (auto simp: wf_parts_def p_rest_def split: option.splits)
  then show ?thesis
    using None search_char_first [of "CHR ''#''" "p_path p"]
    by (cases "p_fragment p")
       (auto simp: ParsePath_def sep_defs search_char_absent p_rest_def opt_text_def)
next
  case (Some q)
  then have "CHR ''?'' \<notin> set (p_path p)" and no: "CHR ''#'' \<notin> set (''?'' @ q)"
    using assms by (auto simp: wf_parts_def)
  then have "search ''?'' (p_rest p)
       = (p_path p, CHR ''?'' # q @ (case p_fragment p of Some f \<Rightarrow> ''#'' @ f | None \<Rightarrow> []))"
    using search_char_first [of "CHR ''?''" "p_path p"] by (simp add: p_rest_def Some)
  then show ?thesis
    using Some search_char_first [OF no] search_char_absent [OF no]
    by (cases "p_fragment p") (auto simp: ParsePath_def sep_defs opt_text_def)
qed

lemma Url_render_parts:
  assumes "wf_parts p"
  shows "Url (render_url p) = Some (url_of_parts p)"
proof -
  have "search ''://'' (render_url p) = (p_scheme p, ''://'' @ p_authority p @ p_rest p)"
    using assms search_scheme by (simp add: render_url_def wf_parts_def)
  moreover note search_authority [OF assms] parse_authority [OF assms]
  moreover have "search '':'' (p_host p @ (case p_port p of Some n \<Rightarrow> '':'' @ n | None \<Rightarrow> []))
      = (p_host p, (case p_port p of Some n \<Rightarrow> '':'' @ n | None \<Rightarrow> []))"
    using assms by (intro search_host_port) (simp add: wf_parts_def)
  moreover have "p_rest p = [] \<longleftrightarrow> p_path p = []"
    and "p_path p = [] \<Longrightarrow> p_query p = None \<and> p_fragment p = None"
    using assms by (auto simp: wf_parts_def p_rest_def)
  moreover have "p_path p \<noteq> [] \<Longrightarrow> ParsePath u (p_rest p) =
      u\<lparr>path := p_path p, full_path := p_rest p, query := opt_text (p_query p),
        fragment := opt_text (p_fragment p)\<rparr>" for u
    by (rule ParsePath_rest [OF assms])
  ultimately show ?thesis
    by (auto simp: Url_def sep_defs Let_def split_beta url_of_parts_def opt_text_def prod_eq_iff
        split: option.splits if_splits)
qed


definition example_parts :: url_parts where
  "example_parts = \<lparr>p_scheme = ''http'', p_login = Some (''user'', ''pass''),
     p_host = ''www.host.com'', p_port = Some ''8080'', p_path = ''/myfiles.php'',
     p_query = Some ''abc=5'', p_fragment = Some ''123''\<rparr>"

lemma wf_example_parts: "wf_parts example_parts"
  by (simp add: wf_parts_def example_parts_def starts_with_def)


section \<open>Redirects\<close>

text \<open>
  The parts of a URL object with an absolute path of a redirect in place of its own: what
  \<^verbatim>\<open>FromRedirect\<close> puts together again.
\<close>

definition redirect_parts :: "url_parts \<Rightarrow> string \<Rightarrow> string option \<Rightarrow> string option \<Rightarrow> url_parts" where
  "redirect_parts p new_path q f = p\<lparr>p_path := new_path, p_query := q, p_fragment := f\<rparr>"

text \<open>A login or port that is present but empty is dropped when the URL is put together again.\<close>

definition solid_parts :: "url_parts \<Rightarrow> bool" where
  "solid_parts p \<longleftrightarrow> p_login p \<noteq> Some ([], []) \<and> p_port p \<noteq> Some []"

lemma FromRedirect_text:
  assumes "solid_parts p" and "snd (search ''://'' r) = []" and "\<not> starts_with ''//'' r"
  shows "FromRedirect (url_of_parts p) r = Url (p_scheme p @ ''://'' @ p_authority p @ r)"
  using assms
  by (auto simp: FromRedirect_def sep_defs url_of_parts_def p_authority_def opt_text_def
      solid_parts_def split: option.splits)

text \<open>
  a redirect to an absolute path on the same host keeps scheme, login, host and port and
  takes path, query and fragment from the redirect alone.
\<close>

theorem FromRedirect_same_host:
  assumes "wf_parts p" and "solid_parts p"
    and "wf_parts (redirect_parts p new_path q f)" and "r = p_rest (redirect_parts p new_path q f)"
    and "snd (search ''://'' r) = []" and "\<not> starts_with ''//'' r"
  shows "FromRedirect (url_of_parts p) r = Some (url_of_parts (redirect_parts p new_path q f))"
proof -
  let ?p' = "redirect_parts p new_path q f"
  have "p_scheme p @ ''://'' @ p_authority p @ r = render_url ?p'"
    by (simp add: render_url_def redirect_parts_def p_authority_def assms(4))
  then show ?thesis
    using FromRedirect_text [OF assms(2,5,6)] Url_render_parts [OF assms(3)] by simp
qed

theorem FromRedirect_same_host_witness:
  "FromRedirect (url_of_parts example_parts) ''/login?next=1''
     = Some (url_of_parts (redirect_parts example_parts ''/login'' (Some ''next=1'') None))"
  by (rule FromRedirect_same_host)
     (simp_all add: wf_example_parts, simp_all add: wf_parts_def solid_parts_def example_parts_def
        redirect_parts_def p_rest_def starts_with_def)

text \<open>
  a redirect relative to the current document is glued to the host name (or the port),
  and an absolute path whose query holds a URL is read as a URL of its own, with the path as
  its scheme.
\<close>

theorem FromRedirect_relative:
  assumes "wf_parts p" and "solid_parts p" and "p_port p = None"
    and "free_of ''/@:'' r"
  shows "map_option host (FromRedirect (url_of_parts p) r) = Some (p_host p @ r)
    \<and> map_option scheme (FromRedirect (url_of_parts p) (''/a?u=http://'' @ r)) = Some ''/a?u=http''"
proof
  let ?p' = "p\<lparr>p_host := p_host p @ r, p_path := [], p_query := None, p_fragment := None\<rparr>"
  have wf: "wf_parts ?p'"
    using assms(1,3,4) by (auto simp: wf_parts_def split: option.splits)
  have "snd (search ''://'' r) = []"
    using assms(4) by (simp add: search_absent)
  moreover have "\<not> starts_with ''//'' r"
    using assms(4) by (cases r) (auto simp: starts_with_def)
  moreover have "p_scheme p @ ''://'' @ p_authority p @ r = render_url ?p'"
    by (simp add: render_url_def p_authority_def p_rest_def assms(3) split: option.splits)
  ultimately show "map_option host (FromRedirect (url_of_parts p) r) = Some (p_host p @ r)"
    using FromRedirect_text [OF assms(2)] Url_render_parts [OF wf]
    by (simp add: url_of_parts_def)
next
  have "search ''://'' (''/a?u=http://'' @ r) = (''/a?u=http'', ''://'' @ r)"
    by (simp add: starts_with_def)
  then show "map_option scheme (FromRedirect (url_of_parts p) (''/a?u=http://'' @ r))
      = Some ''/a?u=http''"
    by (simp add: FromRedirect_def Url_def prot_end_def Let_def split_beta scheme_ParsePath)
qed

theorem FromRedirect_relative_witness:
  "map_option host (FromRedirect (url_of_parts (example_parts\<lparr>p_port := None\<rparr>)) ''page.html'')
     = Some ''www.host.compage.html''"
proof -
  have "wf_parts (example_parts\<lparr>p_port := None\<rparr>)" "solid_parts (example_parts\<lparr>p_port := None\<rparr>)"
    by (simp_all add: wf_parts_def solid_parts_def example_parts_def starts_with_def)
  from FromRedirect_relative [OF this, of "''page.html''"] show ?thesis
    by (simp add: example_parts_def)
qed

end
