(* ===== verification/Container_Algorithms.thy ===== *)
theory Container_Algorithms
  imports Prelude
begin

text \<open>
  \<^verbatim>\<open>utils/container_algorithms.hpp\<close>: the split of two sorted containers into what only
  the first, only the second and both of them hold.
\<close>

text \<open>
  The loop over two iterators, with the three output containers it appends to. The iterators
  are the rests of the containers after \<^verbatim>\<open>std::unique\<close>, which keeps the first of
  consecutive equal elements (\<^const>\<open>remdups_adj\<close>).
\<close>

fun repartition_loop ::
  "('a \<Rightarrow> 'a \<Rightarrow> bool) \<Rightarrow> 'a list \<Rightarrow> 'a list \<Rightarrow> 'a list \<Rightarrow> 'a list \<Rightarrow> 'a list
   \<Rightarrow> 'a list \<times> 'a list \<times> 'a list" where
  "repartition_loop compare (a # as) (b # bs) a_unique b_unique both =
     (if a = b then repartition_loop compare as bs a_unique b_unique (both @ [a])
      else if compare a b then repartition_loop compare as (b # bs) (a_unique @ [a]) b_unique both
      else repartition_loop compare (a # as) bs a_unique (b_unique @ [b]) both)"
| "repartition_loop compare as bs a_unique b_unique both = (a_unique @ as, b_unique @ bs, both)"

definition RepartitionIntersection ::
  "('a \<Rightarrow> 'a \<Rightarrow> bool) \<Rightarrow> 'a list \<Rightarrow> 'a list \<Rightarrow> 'a list \<Rightarrow> 'a list \<times> 'a list \<times> 'a list" where
  "RepartitionIntersection compare sorted_a sorted_b intersection =
     repartition_loop compare (remdups_adj sorted_a) (remdups_adj sorted_b) [] [] intersection"

text \<open>The specification, element by element.\<close>

definition partition_spec :: "'a list \<Rightarrow> 'a list \<Rightarrow> 'a list \<times> 'a list \<times> 'a list" where
  "partition_spec a b =
     (filter (\<lambda>x. x \<notin> set b) a, filter (\<lambda>x. x \<notin> set a) b, filter (\<lambda>x. x \<in> set b) a)"

text \<open>How the specification changes when one head is taken off.\<close>

lemma partition_spec_both:
  assumes "x \<notin> set as" and "x \<notin> set bs"
  shows "partition_spec (x # as) (x # bs) =
    (case partition_spec as bs of (p, q, r) \<Rightarrow> (p, q, x # r))"
  using assms by (auto simp: partition_spec_def intro: filter_cong)

lemma partition_spec_left:
  assumes "x \<notin> set bs"
  shows "partition_spec (x # as) bs = (case partition_spec as bs of (p, q, r) \<Rightarrow> (x # p, q, r))"
  using assms by (auto simp: partition_spec_def intro: filter_cong)

lemma partition_spec_right:
  assumes "x \<notin> set as"
  shows "partition_spec as (x # bs) = (case partition_spec as bs of (p, q, r) \<Rightarrow> (p, x # q, r))"
  using assms by (auto simp: partition_spec_def intro: filter_cong)

lemma repartition_loop_spec:
  fixes a b :: "'a::linorder list"
  assumes "sorted_wrt (<) a" and "sorted_wrt (<) b"
  shows "repartition_loop (<) a b ua ub both =
    (case partition_spec a b of (x, y, z) \<Rightarrow> (ua @ x, ub @ y, both @ z))"
  using assms
proof (induction "(<) :: 'a \<Rightarrow> 'a \<Rightarrow> bool" a b ua ub both rule: repartition_loop.induct)
  case (1 a as b bs ua ub both)
  consider "a = b" | "a < b" | "b < a" by fastforce
  then show ?case
  proof cases
    assume "a = b"
    moreover from this "1.prems" have "b \<notin> set as" "b \<notin> set bs" by auto
    ultimately show ?thesis
      using "1.hyps"(1) "1.prems" by (simp add: partition_spec_both split: prod.splits)
  next
    assume "a < b"
    moreover from this "1.prems" have "a \<notin> set (b # bs)" by auto
    ultimately show ?thesis
      using "1.hyps"(2) "1.prems" by (simp add: partition_spec_left split: prod.splits)
  next
    assume "b < a"
    moreover from this "1.prems" have "b \<notin> set (a # as)" by auto
    moreover from \<open>b < a\<close> have "a \<noteq> b" "\<not> a < b" by auto
    ultimately show ?thesis
      using "1.hyps"(3) "1.prems"
      by (simp add: partition_spec_right split: prod.splits)
  qed
qed (simp_all add: partition_spec_def)

lemma strict_remdups_adj:
  fixes a :: "'a::linorder list"
  assumes "sorted a"
  shows "sorted_wrt (<) (remdups_adj a)"
  using assms by (induction a rule: remdups_adj.induct) (auto simp: order.strict_iff_order)

text \<open>
  on sorted containers the three results hold, in order and without repetition, exactly
  the elements of the first only, of the second only, and of both, the last appended to what
  the output container held before.
\<close>

theorem RepartitionIntersection_correct:
  fixes a b :: "'a::linorder list"
  assumes "sorted a" and "sorted b"
    and "RepartitionIntersection (<) a b old = (only_a, only_b, both)"
  shows "set only_a = set a - set b \<and> set only_b = set b - set a
    \<and> (\<exists>new. both = old @ new \<and> set new = set a \<inter> set b \<and> sorted_wrt (<) new)
    \<and> sorted_wrt (<) only_a \<and> sorted_wrt (<) only_b"
proof -
  let ?a = "remdups_adj a" and ?b = "remdups_adj b"
  note sa = strict_remdups_adj [OF assms(1)] and sb = strict_remdups_adj [OF assms(2)]
  have "only_a = filter (\<lambda>x. x \<notin> set ?b) ?a" "only_b = filter (\<lambda>x. x \<notin> set ?a) ?b"
    "both = old @ filter (\<lambda>x. x \<in> set ?b) ?a"
    using assms(3) repartition_loop_spec [OF sa sb]
    by (simp_all add: RepartitionIntersection_def partition_spec_def)
  then show ?thesis
    using sa sb by (auto simp: sorted_wrt_filter)
qed

theorem RepartitionIntersection_correct_witness:
  "RepartitionIntersection (<) [1, 2, 2, 4] [2, 3 :: nat] [9] = ([1, 4], [3], [9, 2])
   \<and> set [1, 4] = set [1, 2, 2, 4] - set [2, 3 :: nat]"
proof -
  have e: "RepartitionIntersection (<) [1, 2, 2, 4] [2, 3 :: nat] [9] = ([1, 4], [3], [9, 2])"
    by (simp add: RepartitionIntersection_def)
  from RepartitionIntersection_correct [OF _ _ e] e show ?thesis by simp
qed

end
