(* ===== verification/Errors.thy ===== *)
theory Errors
  imports Prelude
begin

text \<open>
  The error codes of the SDK: \<^verbatim>\<open>api/error/codes/*\<close>, \<^verbatim>\<open>api/error/conditions/generic.*\<close>,
  \<^verbatim>\<open>http/error/error_impl.*\<close> and the predicates of \<^verbatim>\<open>api/error.cpp\<close>. A
  \<^verbatim>\<open>std::error_code\<close> is a category with a value; it tests as an error when the value is
  not zero; it equals an enumerator of a code enumeration when both parts agree, and one of
  a condition enumeration when either category says that it is equivalent. Large
  enumerations are the list of their enumerators, so that an enumerator is its name.
\<close>

section \<open>Codes and conditions of the C++ library\<close>

datatype category =
    ResultCategory       \<comment> \<open>\<^verbatim>\<open>result_category()\<close>\<close>
  | ApiCategory          \<comment> \<open>\<^verbatim>\<open>api_category()\<close>\<close>
  | HttpStatusCategory   \<comment> \<open>\<^verbatim>\<open>http_status_category()\<close>\<close>
  | HttpCategory         \<comment> \<open>\<^verbatim>\<open>http_category()\<close>\<close>
  | GenericApiCategory   \<comment> \<open>\<^verbatim>\<open>generic_api_category()\<close>\<close>
  | StdGenericCategory   \<comment> \<open>\<^verbatim>\<open>std::generic_category()\<close>\<close>

record error_code =
  ec_category :: category
  ec_value :: int

text \<open>\<^verbatim>\<open>std::error_condition\<close> has the same two parts.\<close>

type_synonym error_condition = error_code

abbreviation mk_error :: "category \<Rightarrow> int \<Rightarrow> error_code" where
  "mk_error c v \<equiv> \<lparr>ec_category = c, ec_value = v\<rparr>"

text \<open>\<^verbatim>\<open>error_code::operator bool\<close>\<close>

definition is_error :: "error_code \<Rightarrow> bool" where [code_defs]:
  "is_error e \<longleftrightarrow> ec_value e \<noteq> 0"

section \<open>The code enumerations\<close>

datatype result_code = SessionTokenInvalid | CredentialsInvalid | SignatureInvalid
  | ParametersInvalid | AsyncOperationInProgress | FacebookAuthenticationFailure

primrec result_code_value :: "result_code \<Rightarrow> int" where
  "result_code_value SessionTokenInvalid = 105"
| "result_code_value CredentialsInvalid = 107"
| "result_code_value SignatureInvalid = 127"
| "result_code_value ParametersInvalid = 129"
| "result_code_value AsyncOperationInProgress = 208"
| "result_code_value FacebookAuthenticationFailure = 220"

datatype api_code = UnknownApiError | ContentInvalidData | ContentInvalidFormat
  | SessionTokenUnavailableTimeout | ConnectionUnavailableTimeout

primrec api_code_value :: "api_code \<Rightarrow> int" where
  "api_code_value UnknownApiError = 1"
| "api_code_value ContentInvalidData = 2"
| "api_code_value ContentInvalidFormat = 3"
| "api_code_value SessionTokenUnavailableTimeout = 4"
| "api_code_value ConnectionUnavailableTimeout = 5"

datatype http_status = BadRequest | Forbidden | NotFound | InternalServerError
  | ApiInternalServerError

primrec http_status_value :: "http_status \<Rightarrow> int" where
  "http_status_value BadRequest = 400"
| "http_status_value Forbidden = 403"
| "http_status_value NotFound = 404"
| "http_status_value InternalServerError = 500"
| "http_status_value ApiInternalServerError = 900"

text \<open>This enumeration starts at zero.\<close>

datatype http_error = InvalidUrl | InvalidRedirectUrl | RedirectPermissionDenied
  | UnableToResolve | UnableToConnect | UnableToConnectToProxy | ProxyProtocolFailure
  | SslHandshakeFailure | WriteFailure | ReadFailure | CompressionFailure | UnparsableHeaders
  | UnsupportedEncoding | PostInterfaceReadFailure | Cancelled | IoTimeout

primrec http_error_value :: "http_error \<Rightarrow> int" where
  "http_error_value InvalidUrl = 0"
| "http_error_value InvalidRedirectUrl = 1"
| "http_error_value RedirectPermissionDenied = 2"
| "http_error_value UnableToResolve = 3"
| "http_error_value UnableToConnect = 4"
| "http_error_value UnableToConnectToProxy = 5"
| "http_error_value ProxyProtocolFailure = 6"
| "http_error_value SslHandshakeFailure = 7"
| "http_error_value WriteFailure = 8"
| "http_error_value ReadFailure = 9"
| "http_error_value CompressionFailure = 10"
| "http_error_value UnparsableHeaders = 11"
| "http_error_value UnsupportedEncoding = 12"
| "http_error_value PostInterfaceReadFailure = 13"
| "http_error_value Cancelled = 14"
| "http_error_value IoTimeout = 15"

text \<open>\<^verbatim>\<open>make_error_code\<close> of each enumeration.\<close>

definition result_error :: "result_code \<Rightarrow> error_code" where [code_defs]:
  "result_error e = mk_error ResultCategory (result_code_value e)"

definition api_error :: "api_code \<Rightarrow> error_code" where [code_defs]:
  "api_error e = mk_error ApiCategory (api_code_value e)"

definition http_status_error :: "http_status \<Rightarrow> error_code" where [code_defs]:
  "http_status_error e = mk_error HttpStatusCategory (http_status_value e)"

definition http_error_error :: "http_error \<Rightarrow> error_code" where [code_defs]:
  "http_error_error e = mk_error HttpCategory (http_error_value e)"

section \<open>The condition enumeration \<^verbatim>\<open>errc\<close>\<close>

text \<open>The enumerators in the order of the header; the first has the value 1.\<close>

definition errc_enumerators :: "string list" where
  "errc_enumerators = [
    ''ContentInvalidFormat'', ''ContentInvalidData'', ''BadRequest'', ''Forbidden'',
    ''NotFound'', ''InternalServerError'', ''ApiInternalServerError'', ''UnknownApiError'',
    ''SessionTokenUnavailableTimeout'', ''ConnectionUnavailableTimeout'', ''AccessDenied'',
    ''AccountAlreadyLinked'', ''ApiRequestLimitExceeded'', ''ApiVersionDeprecated'',
    ''ApiVersionMissing'', ''ApiVersionRemoved'', ''ApplicationIdDisabled'',
    ''ApplicationIdSuspended'', ''ApplicationInvalid'', ''AsyncOperationInProgress'',
    ''BillingFailure'', ''BillingTransactionDuplicate'', ''BulkFileCountExceeded'',
    ''BulkFileCountZero'', ''BulkFilesizeLimitConfirmationNeeded'',
    ''BulkFilesizeLimitExceeded'', ''BulkInsufficientPremiumBandwidth'',
    ''BulkInsufficientUnifiedBandwidth'', ''BulkOperationIllegal'', ''BulkOperationInvalid'',
    ''BulkPackageFailure'', ''BulkRequiresBandwidthConfirmtion'', ''BusinessSeatLimitation'',
    ''BusinessUpgradeFailure'', ''ContactAlreadyAdded'', ''ContactInvalid'',
    ''CredentialsInvalid'', ''CreditCardInvalid'', ''DateInvalid'', ''DeviceInvalid'',
    ''DmcaBan'', ''DmcaInvalidRange'', ''DmcaInvalidUser'', ''DowngradeIllegal'',
    ''DuplicateEntry'', ''EmailAlreadyInUse'', ''EmailMisformatted'', ''EmailRejected'',
    ''EmailRequiresValidation'', ''FacebookAccessTokenRequired'',
    ''FacebookEmailRegisteredWithOtherAccount'', ''FacebookAuthenticationFailure'',
    ''FileAlreadyExists'', ''FileAlreadyReported'', ''FileRemoved'', ''FileUpdateDuplicate'',
    ''FilenameInvalid'', ''FiletypeInvalid'', ''FolderAlreadyExists'',
    ''FolderDepthLimitExceeded'', ''FolderPrivacyRestriction'', ''FolderkeyInvalid'',
    ''FolderkeyMissing'', ''FoldernameMissing'', ''GoogleAuthenticationFailure'',
    ''GroupAlreadyAdded'', ''GroupInvalid'', ''IllegalEmail'', ''IllegalMove'',
    ''IllegalRename'', ''IllegalUnshare'', ''InstallIdIncidentIdInvalidMatch'',
    ''InstallIdInvalid'', ''InsufficientCredits'', ''KeyInvalid'', ''KeyMissing'',
    ''LoginRequired'', ''MessageSendFailure'', ''NoAvatarImage'', ''NoInvoiceForUser'',
    ''NonPremiumLimitReached'', ''ParametersInvalid'', ''ParametersMissing'',
    ''PasswordMisformatted'', ''PlanBandwidthInsufficient'', ''PlanBusinessChangeInvalid'',
    ''PlanChangeIllegal'', ''PlanClassChangeInvalid'', ''PlanExpirationLimitation'',
    ''PlanStorageInsufficient'', ''PremiumRequired'', ''ProductChangeIllegal'',
    ''ProductIdInvalid'', ''QuickkeyInvalid'', ''QuickkeyMissing'',
    ''RequiresBandwidthConfirmtion'', ''ResellerTosAcceptanceRequired'',
    ''ResourceAlreadyFollowed'', ''ResourceAlreadyOwned'', ''ResourceGrantPermissionFailure'',
    ''ResourcePermissionFailure'', ''ServiceUnrecognized'', ''SessionTokenInvalid'',
    ''SessionTokenMissing'', ''ShareResourceLimit'', ''SignatureInvalid'',
    ''SoftwareTokenInvalid'', ''StorageLimitExceeded'', ''SubdomainInvalid'',
    ''TosAcceptanceRequired'', ''TosTokenInvalid'', ''TwitterAccessTokenRequired'',
    ''UnableToShareFromAnon'', ''UnableToShareWithSelf'', ''UploadFailed'', ''UploadKeyInvalid'',
    ''UrlInvalid'', ''UserInvalid'', ''AccountTemporarilyLocked'', ''FileTooBig'']"

fun position :: "'a \<Rightarrow> 'a list \<Rightarrow> nat" where
  "position x [] = 0"
| "position x (y # ys) = (if x = y then 0 else Suc (position x ys))"

definition errc_value :: "string \<Rightarrow> int" where
  "errc_value n = int (position n errc_enumerators) + 1"

definition errc :: "string \<Rightarrow> error_condition" where
  "errc n = mk_error GenericApiCategory (errc_value n)"

text \<open>\<^verbatim>\<open>ApiConditionImpl::message\<close>\<close>

definition errc_messages :: "(string \<times> string) list" where
  "errc_messages = [
    (''ContentInvalidFormat'', ''content invalid format''),
    (''ContentInvalidData'', ''content invalid data''), (''BadRequest'', ''bad request''),
    (''Forbidden'', ''forbidden''), (''NotFound'', ''not found''),
    (''InternalServerError'', ''internal server error''),
    (''ApiInternalServerError'', ''api internal server error''),
    (''UnknownApiError'', ''unknown api error''),
    (''SessionTokenUnavailableTimeout'', ''session token unavailable timeout''),
    (''ConnectionUnavailableTimeout'', ''connection unavailable timeout''),
    (''AccessDenied'', ''access denied''),
    (''AccountAlreadyLinked'', ''account already linked''),
    (''ApiRequestLimitExceeded'', ''api request limit exceeded''),
    (''ApiVersionDeprecated'', ''api version deprecated''),
    (''ApiVersionMissing'', ''api version missing''),
    (''ApiVersionRemoved'', ''api version removed''),
    (''ApplicationIdDisabled'', ''application id disabled''),
    (''ApplicationIdSuspended'', ''application id suspended''),
    (''ApplicationInvalid'', ''application invalid''),
    (''AsyncOperationInProgress'', ''async operation in progress''),
    (''BillingFailure'', ''billing failure''),
    (''BillingTransactionDuplicate'', ''billing transaction duplicate''),
    (''BulkFileCountExceeded'', ''bulk file count exceeded''),
    (''BulkFileCountZero'', ''bulk filecount zero''),
    (''BulkFilesizeLimitConfirmationNeeded'', ''bulk filesize limit confirmation needed''),
    (''BulkFilesizeLimitExceeded'', ''bulk filesize limit exceeded''),
    (''BulkInsufficientPremiumBandwidth'', ''bulk insufficient premium bandwidth''),
    (''BulkInsufficientUnifiedBandwidth'', ''bulk insufficient unified bandwidth''),
    (''BulkOperationIllegal'', ''bulk operation illegal''),
    (''BulkOperationInvalid'', ''bulk operation invalid''),
    (''BulkPackageFailure'', ''bulk package failure''),
    (''BulkRequiresBandwidthConfirmtion'', ''bulk requires bandwidth confirmtion''),
    (''BusinessSeatLimitation'', ''business seat limitation''),
    (''BusinessUpgradeFailure'', ''business upgrade failure''),
    (''ContactAlreadyAdded'', ''contact already added''),
    (''ContactInvalid'', ''contact invalid''), (''CredentialsInvalid'', ''credentials invalid''),
    (''CreditCardInvalid'', ''credit card invalid''), (''DateInvalid'', ''date invalid''),
    (''DeviceInvalid'', ''device invalid''), (''DmcaBan'', ''dmca ban''),
    (''DmcaInvalidRange'', ''dmca invalid range''), (''DmcaInvalidUser'', ''dmca invalid user''),
    (''DowngradeIllegal'', ''downgrade illegal''), (''DuplicateEntry'', ''duplicate entry''),
    (''EmailAlreadyInUse'', ''email already in use''),
    (''EmailMisformatted'', ''email misformatted''), (''EmailRejected'', ''email rejected''),
    (''EmailRequiresValidation'', ''email requires validation''),
    (''FacebookAccessTokenRequired'', ''facebook access token required''),
    (''FacebookEmailRegisteredWithOtherAccount'', ''facebook registered with other account''),
    (''FacebookAuthenticationFailure'', ''facebook authentication failure''),
    (''FileAlreadyExists'', ''file already exists''),
    (''FileAlreadyReported'', ''file already reported''), (''FileRemoved'', ''file removed''),
    (''FileUpdateDuplicate'', ''file update duplicate''),
    (''FilenameInvalid'', ''filename invalid''), (''FiletypeInvalid'', ''filetype invalid''),
    (''FolderAlreadyExists'', ''folder already exists''),
    (''FolderDepthLimitExceeded'', ''folder depth limit exceeded''),
    (''FolderPrivacyRestriction'', ''folder privacy restriction''),
    (''FolderkeyInvalid'', ''folderkey invalid''), (''FolderkeyMissing'', ''folderkey missing''),
    (''FoldernameMissing'', ''foldername missing''),
    (''GoogleAuthenticationFailure'', ''google authentication failure''),
    (''GroupAlreadyAdded'', ''group already added''), (''GroupInvalid'', ''group invalid''),
    (''IllegalEmail'', ''illegal email''), (''IllegalMove'', ''illegal move''),
    (''IllegalRename'', ''illegal rename''), (''IllegalUnshare'', ''illegal unshare''),
    (''InstallIdIncidentIdInvalidMatch'', ''install id incident id invalid match''),
    (''InstallIdInvalid'', ''install id invalid''),
    (''InsufficientCredits'', ''insufficient credits''), (''KeyInvalid'', ''key invalid''),
    (''KeyMissing'', ''key missing''), (''LoginRequired'', ''login required''),
    (''MessageSendFailure'', ''message send failure''), (''NoAvatarImage'', ''no avatar image''),
    (''NoInvoiceForUser'', ''no invoice for user''),
    (''NonPremiumLimitReached'', ''non premium limit reached''),
    (''ParametersInvalid'', ''parameters invalid''),
    (''ParametersMissing'', ''parameters missing''),
    (''PasswordMisformatted'', ''password misformatted''),
    (''PlanBandwidthInsufficient'', ''plan bandwidth insufficient''),
    (''PlanBusinessChangeInvalid'', ''plan business change invalid''),
    (''PlanChangeIllegal'', ''plan change illegal''),
    (''PlanClassChangeInvalid'', ''plan class change invalid''),
    (''PlanExpirationLimitation'', ''plan expiration limitation''),
    (''PlanStorageInsufficient'', ''plan storage insufficient''),
    (''PremiumRequired'', ''premium required''),
    (''ProductChangeIllegal'', ''product change illegal''),
    (''ProductIdInvalid'', ''product id invalid''), (''QuickkeyInvalid'', ''quickkey invalid''),
    (''QuickkeyMissing'', ''quickkey missing''),
    (''RequiresBandwidthConfirmtion'', ''requires bandwidth confirmtion''),
    (''ResellerTosAcceptanceRequired'', ''reseller tos acceptance required''),
    (''ResourceAlreadyFollowed'', ''resource already followed''),
    (''ResourceAlreadyOwned'', ''resource already owned''),
    (''ResourceGrantPermissionFailure'', ''resource grant permission failure''),
    (''ResourcePermissionFailure'', ''resource permission failure''),
    (''ServiceUnrecognized'', ''service unrecognized''),
    (''SessionTokenInvalid'', ''session token invalid''),
    (''SessionTokenMissing'', ''session token missing''),
    (''ShareResourceLimit'', ''share resource limit''),
    (''SignatureInvalid'', ''signature invalid''),
    (''SoftwareTokenInvalid'', ''software token invalid''),
    (''StorageLimitExceeded'', ''storage limit exceeded''),
    (''SubdomainInvalid'', ''subdomain invalid''),
    (''TosAcceptanceRequired'', ''tos acceptance required''),
    (''TosTokenInvalid'', ''tos token invalid''),
    (''TwitterAccessTokenRequired'', ''twitter access token required''),
    (''UnableToShareFromAnon'', ''unable to share from anon''),
    (''UnableToShareWithSelf'', ''unable to share with self''),
    (''UploadFailed'', ''upload failed''), (''UploadKeyInvalid'', ''upload key invalid''),
    (''UrlInvalid'', ''url invalid''), (''UserInvalid'', ''user invalid''),
    (''AccountTemporarilyLocked'', ''account temporarily locked''),
    (''FileTooBig'', ''file size exceeds maximum limit'')]"

text \<open>
  The \<^verbatim>\<open>switch\<close> of \<^verbatim>\<open>default_error_condition\<close> of the result codes.
\<close>

definition result_conditions :: "(int \<times> string) list" where
  "result_conditions = [
    (100, ''ApiInternalServerError''), (102, ''KeyMissing''), (103, ''KeyInvalid''),
    (104, ''SessionTokenMissing''), (105, ''SessionTokenInvalid''), (106, ''IllegalRename''),
    (107, ''CredentialsInvalid''), (108, ''UserInvalid''), (109, ''ApplicationInvalid''),
    (110, ''QuickkeyInvalid''), (111, ''QuickkeyMissing''), (112, ''FolderkeyInvalid''),
    (113, ''FolderkeyMissing''), (114, ''AccessDenied''), (115, ''IllegalMove''),
    (116, ''DateInvalid''), (117, ''FoldernameMissing''), (118, ''FilenameInvalid''),
    (119, ''IllegalEmail''), (120, ''EmailAlreadyInUse''), (121, ''EmailRejected''),
    (122, ''EmailMisformatted''), (123, ''PasswordMisformatted''), (124, ''ApiVersionMissing''),
    (125, ''ApiVersionRemoved''), (126, ''ApiVersionDeprecated''), (127, ''SignatureInvalid''),
    (128, ''ParametersMissing''), (129, ''ParametersInvalid''),
    (130, ''NonPremiumLimitReached''), (131, ''UnableToShareWithSelf''),
    (132, ''IllegalUnshare''), (133, ''UnableToShareFromAnon''), (134, ''DmcaInvalidUser''),
    (135, ''DmcaInvalidRange''), (136, ''DmcaBan''), (137, ''ContactAlreadyAdded''),
    (138, ''ContactInvalid''), (139, ''GroupAlreadyAdded''), (140, ''GroupInvalid''),
    (141, ''DeviceInvalid''), (142, ''FiletypeInvalid''), (143, ''FileAlreadyExists''),
    (144, ''FolderAlreadyExists''), (145, ''ApplicationIdDisabled''),
    (146, ''ApplicationIdSuspended''), (147, ''BulkOperationInvalid''),
    (148, ''BulkOperationIllegal''), (149, ''RequiresBandwidthConfirmtion''),
    (150, ''BulkFilesizeLimitExceeded''), (151, ''BulkFileCountZero''),
    (152, ''BulkPackageFailure''), (153, ''BulkFilesizeLimitConfirmationNeeded''),
    (154, ''BulkFileCountExceeded''), (155, ''BulkRequiresBandwidthConfirmtion''),
    (156, ''BulkInsufficientPremiumBandwidth''), (157, ''BulkInsufficientUnifiedBandwidth''),
    (158, ''FileAlreadyExists''), (159, ''FolderAlreadyExists''), (160, ''TosTokenInvalid''),
    (161, ''TosAcceptanceRequired''), (162, ''StorageLimitExceeded''),
    (163, ''ApiRequestLimitExceeded''), (164, ''FileAlreadyReported''), (165, ''FileRemoved''),
    (166, ''FolderPrivacyRestriction''), (167, ''FolderDepthLimitExceeded''),
    (168, ''ProductIdInvalid''), (169, ''UploadFailed''), (170, ''PlanClassChangeInvalid''),
    (171, ''PlanBusinessChangeInvalid''), (172, ''PlanExpirationLimitation''),
    (173, ''PremiumRequired''), (174, ''UrlInvalid''), (175, ''UploadKeyInvalid''),
    (176, ''PlanStorageInsufficient''), (177, ''DuplicateEntry''), (178, ''PlanChangeIllegal''),
    (179, ''ProductChangeIllegal''), (180, ''DowngradeIllegal''),
    (181, ''BusinessUpgradeFailure''), (182, ''InsufficientCredits''),
    (183, ''PlanBandwidthInsufficient''), (184, ''AccountAlreadyLinked''),
    (188, ''LoginRequired''), (189, ''ResellerTosAcceptanceRequired''),
    (190, ''BusinessSeatLimitation''), (191, ''BillingFailure''), (192, ''BillingFailure''),
    (193, ''BillingFailure''), (194, ''SubdomainInvalid''), (195, ''BillingFailure''),
    (196, ''CreditCardInvalid''), (197, ''BillingFailure''), (198, ''BillingFailure''),
    (199, ''BillingTransactionDuplicate''), (200, ''CreditCardInvalid''),
    (201, ''BillingFailure''), (202, ''BillingFailure''), (203, ''BillingFailure''),
    (204, ''BillingFailure''), (205, ''BillingFailure''), (206, ''InternalServerError''),
    (208, ''AsyncOperationInProgress''), (219, ''FacebookEmailRegisteredWithOtherAccount''),
    (220, ''FacebookAuthenticationFailure''), (224, ''NoInvoiceForUser''),
    (225, ''InternalServerError''), (226, ''InstallIdInvalid''),
    (227, ''InstallIdIncidentIdInvalidMatch''), (228, ''FacebookAccessTokenRequired''),
    (229, ''TwitterAccessTokenRequired''), (230, ''NoAvatarImage''),
    (231, ''SoftwareTokenInvalid''), (232, ''EmailRequiresValidation''),
    (233, ''GoogleAuthenticationFailure''), (234, ''MessageSendFailure''),
    (235, ''ResourceAlreadyOwned''), (236, ''ResourceAlreadyFollowed''),
    (237, ''ResourcePermissionFailure''), (238, ''FileUpdateDuplicate''),
    (239, ''ShareResourceLimit''), (240, ''ResourceGrantPermissionFailure''),
    (241, ''ServiceUnrecognized''), (243, ''AccountTemporarilyLocked''), (282, ''FileTooBig'')]"

definition api_conditions :: "(int \<times> string) list" where
  "api_conditions =
     [(api_code_value UnknownApiError, ''UnknownApiError''),
      (api_code_value ContentInvalidData, ''ContentInvalidData''),
      (api_code_value ContentInvalidFormat, ''ContentInvalidFormat''),
      (api_code_value SessionTokenUnavailableTimeout, ''SessionTokenUnavailableTimeout''),
      (api_code_value ConnectionUnavailableTimeout, ''ConnectionUnavailableTimeout'')]"

definition default_error_condition :: "error_code \<Rightarrow> error_condition" where
  "default_error_condition e =
     (case ec_category e of
        ResultCategory \<Rightarrow>
          (case map_of result_conditions (ec_value e) of Some n \<Rightarrow> errc n | None \<Rightarrow> e)
      | ApiCategory \<Rightarrow>
          (case map_of api_conditions (ec_value e) of Some n \<Rightarrow> errc n | None \<Rightarrow> e)
      | _ \<Rightarrow> e)"

text \<open>
  \<^verbatim>\<open>ApiConditionImpl::equivalent(code, condition)\<close>: the switch has only its default case.
  The other categories keep the library's \<^verbatim>\<open>equivalent\<close>, which compares the parts.
\<close>

definition condition_equivalent :: "category \<Rightarrow> error_code \<Rightarrow> int \<Rightarrow> bool" where
  "condition_equivalent c e v \<longleftrightarrow>
     (if c = GenericApiCategory then False else ec_category e = c \<and> ec_value e = v)"

text \<open>\<^verbatim>\<open>operator==(error_code, error_condition)\<close>\<close>

definition matches :: "error_code \<Rightarrow> error_condition \<Rightarrow> bool" where
  "matches e c \<longleftrightarrow>
     default_error_condition e = c \<or> condition_equivalent (ec_category c) e (ec_value c)"

section \<open>\<^verbatim>\<open>api/error.cpp\<close>\<close>

definition IsInvalidSessionTokenError :: "error_code \<Rightarrow> bool" where [code_defs]:
  "IsInvalidSessionTokenError e \<longleftrightarrow>
     e = result_error SessionTokenInvalid \<or> e = result_error SignatureInvalid"

definition IsInvalidCredentialsError :: "error_code \<Rightarrow> bool" where [code_defs]:
  "IsInvalidCredentialsError e \<longleftrightarrow>
     e = result_error CredentialsInvalid \<or> e = result_error ParametersInvalid
     \<or> e = result_error FacebookAuthenticationFailure"

section \<open>Facts\<close>

lemma position_nth:
  "position x xs < length xs \<Longrightarrow> xs ! position x xs = x"
  by (induction xs) auto

lemma position_less: "x \<in> set xs \<Longrightarrow> position x xs < length xs"
  by (induction xs) auto

text \<open>A condition that is an enumerator equals no condition of another name.\<close>

lemma errc_eq_iff:
  assumes "n \<in> set errc_enumerators"
  shows "errc m = errc n \<longleftrightarrow> m = n"
proof
  assume "errc m = errc n"
  then have "position m errc_enumerators = position n errc_enumerators"
    by (simp add: errc_def errc_value_def)
  then show "m = n"
    using position_less [OF assms] position_nth by metis
qed simp

lemma errc_category [simp]: "ec_category (errc n) = GenericApiCategory"
  by (simp add: errc_def)

lemma not_equivalent_generic [simp]: "\<not> condition_equivalent GenericApiCategory e v"
  by (simp add: condition_equivalent_def)

lemma errc_neq_other: "ec_category e \<noteq> GenericApiCategory \<Longrightarrow> e \<noteq> errc n"
  by auto

section \<open>Properties\<close>

text \<open>
  which error codes equal a condition \<^verbatim>\<open>errc::n\<close>. Exactly those result codes of the API
  and those codes of the client that a \<^verbatim>\<open>default_error_condition\<close> switch maps to \<open>n\<close>, and
  the condition itself used as a code.
\<close>

theorem matches_errc:
  assumes "n \<in> set errc_enumerators"
  shows "matches e (errc n) \<longleftrightarrow>
    ec_category e = ResultCategory \<and> map_of result_conditions (ec_value e) = Some n
    \<or> ec_category e = ApiCategory \<and> map_of api_conditions (ec_value e) = Some n
    \<or> e = errc n"
proof -
  have *: "matches e (errc n) \<longleftrightarrow> default_error_condition e = errc n"
    by (simp add: matches_def)
  show ?thesis
    unfolding *
    by (cases "ec_category e")
       (auto simp: default_error_condition_def errc_eq_iff [OF assms] errc_neq_other
          split: option.splits)
qed

lemma AsyncOperationInProgress_enumerator:
  "''AsyncOperationInProgress'' \<in> set errc_enumerators"
  unfolding errc_enumerators_def by (rule list.set_intros)+

theorem matches_errc_witness:
  "matches (result_error AsyncOperationInProgress) (errc ''AsyncOperationInProgress'')"
  using matches_errc [OF AsyncOperationInProgress_enumerator,
      of "result_error AsyncOperationInProgress"]
  by (simp add: result_error_def result_conditions_def)

text \<open>
  \<^verbatim>\<open>errc\<close> lists bad request, forbidden, not found and internal server error, but the
  category of the http statuses has no case for them: a status code never equals any
  condition of \<^verbatim>\<open>errc\<close>.
\<close>

theorem http_status_matches_no_errc:
  "\<not> matches (http_status_error s) (errc n)"
  by (auto simp: matches_def http_status_error_def default_error_condition_def errc_def
      condition_equivalent_def)

text \<open>
  an error code made from an enumerator tests as an error, with the one exception of
  \<^verbatim>\<open>http_error::InvalidUrl\<close>: its value is zero, so \<^verbatim>\<open>if (error_code)\<close> takes an invalid URL for
  a success.
\<close>

theorem only_InvalidUrl_is_no_error:
  "is_error (http_error_error h) = (h \<noteq> InvalidUrl)
   \<and> is_error (result_error r) \<and> is_error (api_error a) \<and> is_error (http_status_error s)
   \<and> 0 < errc_value n"
  by (cases h; cases r; cases a; cases s) (simp_all add: code_defs errc_value_def)


end
