(* ===== verification/Session_Types.thy ===== *)
theory Session_Types
  imports Errors
begin

text \<open>
  The data that the session maintainer shares with its locker: credentials
  (\<^verbatim>\<open>api/credentials.*\<close>), the session and connection states (\<^verbatim>\<open>api/session_state.*\<close>,
  \<^verbatim>\<open>api/connection_state.*\<close>) with their own notion of equality, session tokens
  (\<^verbatim>\<open>api/types.hpp\<close>), the responses, and the handle of an API request.
\<close>

section \<open>Credentials and tokens\<close>

datatype Credentials =
    Email string string      \<comment> \<open>email, password\<close>
  | Ekey string string       \<comment> \<open>ekey, password\<close>
  | Facebook string          \<comment> \<open>access token\<close>

text \<open>
  \<^verbatim>\<open>AreVariantsEqual\<close> on credentials: the comparison operators compare every field, and
  different alternatives are unequal.
\<close>

fun credentials_equal :: "Credentials \<Rightarrow> Credentials \<Rightarrow> bool" where
  "credentials_equal (Email e p) (Email e' p') \<longleftrightarrow> (e, p) = (e', p')"
| "credentials_equal (Ekey e p) (Ekey e' p') \<longleftrightarrow> (e, p) = (e', p')"
| "credentials_equal (Facebook t) (Facebook t') \<longleftrightarrow> t = t'"
| "credentials_equal _ _ \<longleftrightarrow> False"

record SessionTokenData =
  session_token :: string
  pkey :: string
  time :: string
  secret_key :: int32

section \<open>Responses\<close>

text \<open>
  The part of \<^verbatim>\<open>ResponseBase\<close> that the maintainer reads: the error code, its text, and
  whether the content has \<^verbatim>\<open>response.new_key\<close> equal to \<^verbatim>\<open>yes\<close>.
\<close>

record ResponseBase =
  rb_error_code :: error_code
  rb_error_string :: string
  rb_new_key :: bool

record get_session_token_Response = ResponseBase +
  rb_session_token :: string
  rb_pkey :: string
  rb_time :: string
  rb_secret_key :: int32

text \<open>The value of \<^verbatim>\<open>std::error_code()\<close>.\<close>

definition no_error :: error_code where [code_defs]:
  "no_error = mk_error StdGenericCategory 0"

section \<open>Session state\<close>

datatype SessionState =
    Uninitialized
  | Initialized
  | CredentialsFailure "string option" error_code get_session_token_Response
  | ProlongedError error_code get_session_token_Response
  | Running get_session_token_Response

text \<open>\<^verbatim>\<open>AreVariantsEqual\<close> with the comparison operators of \<^verbatim>\<open>session_state.cpp\<close>\<close>

fun session_state_equal :: "SessionState \<Rightarrow> SessionState \<Rightarrow> bool" where
  "session_state_equal Uninitialized Uninitialized \<longleftrightarrow> True"
| "session_state_equal Initialized Initialized \<longleftrightarrow> True"
| "session_state_equal (CredentialsFailure p e r) (CredentialsFailure p' e' r') \<longleftrightarrow>
     (p, e) = (p', e')"
| "session_state_equal (ProlongedError e r) (ProlongedError e' r') \<longleftrightarrow> e = e'"
| "session_state_equal (Running l) (Running r) \<longleftrightarrow>
     (rb_session_token l, rb_pkey l) = (rb_session_token r, rb_pkey r)"
| "session_state_equal _ _ \<longleftrightarrow> False"

text \<open>The predicates of \<^verbatim>\<open>session_maintainer.cpp\<close>\<close>

fun IsUninitialized :: "SessionState \<Rightarrow> bool" where
  "IsUninitialized Uninitialized \<longleftrightarrow> True"
| "IsUninitialized _ \<longleftrightarrow> False"

fun IsInitialized :: "SessionState \<Rightarrow> bool" where
  "IsInitialized Initialized \<longleftrightarrow> True"
| "IsInitialized _ \<longleftrightarrow> False"

fun IsCredentialsError :: "SessionState \<Rightarrow> bool" where
  "IsCredentialsError (CredentialsFailure _ _ _) \<longleftrightarrow> True"
| "IsCredentialsError _ \<longleftrightarrow> False"

fun IsProlongedError :: "SessionState \<Rightarrow> bool" where
  "IsProlongedError (ProlongedError _ _) \<longleftrightarrow> True"
| "IsProlongedError _ \<longleftrightarrow> False"

fun IsRunning :: "SessionState \<Rightarrow> bool" where
  "IsRunning (Running _) \<longleftrightarrow> True"
| "IsRunning _ \<longleftrightarrow> False"

section \<open>Connection state\<close>

datatype ConnectionState =
    ConnectionUninitialized
  | Unconnected error_code
  | Connected

fun connection_state_equal :: "ConnectionState \<Rightarrow> ConnectionState \<Rightarrow> bool" where
  "connection_state_equal ConnectionUninitialized ConnectionUninitialized \<longleftrightarrow> True"
| "connection_state_equal (Unconnected e) (Unconnected e') \<longleftrightarrow> e = e'"
| "connection_state_equal Connected Connected \<longleftrightarrow> True"
| "connection_state_equal _ _ \<longleftrightarrow> False"

fun IsConnected :: "ConnectionState \<Rightarrow> bool" where
  "IsConnected Connected \<longleftrightarrow> True"
| "IsConnected _ \<longleftrightarrow> False"

fun IsUnconnected :: "ConnectionState \<Rightarrow> bool" where
  "IsUnconnected (Unconnected _) \<longleftrightarrow> True"
| "IsUnconnected _ \<longleftrightarrow> False"

section \<open>Requests\<close>

text \<open>
  \<^verbatim>\<open>STRequest\<close>, a shared pointer to a request. Pointers are compared by identity, which
  is the number; the other fields never change after construction: whether the API functor
  has \<^verbatim>\<open>SetSessionToken\<close>, the timeout in seconds, and \<^verbatim>\<open>max_retry_time_\<close> in seconds.
\<close>

record STRequest =
  req_id :: nat
  UsesSessionToken :: bool
  TimeoutSeconds :: nat
  max_retry_time :: nat

section \<open>Facts\<close>

lemma credentials_equal_iff [simp]: "credentials_equal c d \<longleftrightarrow> c = d"
  by (cases c; cases d) auto

lemma connection_state_equal_iff [simp]: "connection_state_equal c d \<longleftrightarrow> c = d"
  by (cases c; cases d) auto

lemma session_state_equal_refl [simp]: "session_state_equal s s"
  by (cases s) auto

lemma session_state_equal_kind:
  assumes "session_state_equal s t"
  shows "IsRunning s = IsRunning t" "IsInitialized s = IsInitialized t"
    "IsCredentialsError s = IsCredentialsError t" "IsUninitialized s = IsUninitialized t"
    "IsProlongedError s = IsProlongedError t"
  using assms by (cases s; cases t; simp)+

lemma IsRunning_iff: "IsRunning s \<longleftrightarrow> (\<exists>r. s = Running r)"
  by (cases s) auto

end
