(* ===== verification/Timed_Events.thy ===== *)
theory Timed_Events
  imports Prelude "HOL-Library.Multiset"
begin

text \<open>
  \<^verbatim>\<open>utils/timed_events.hpp\<close>: the class \<^verbatim>\<open>TimedEvents\<close>, one timer for many timed
  events. The state holds the multimap of pending events, the asio timer (the expiry of its
  pending wait), the handlers posted to the io_service, and the activations of
  \<^verbatim>\<open>ResetTimer\<close> that are inside their loop, each with the time it read when it began: the
  loop unlocks the mutex around every callback, so other threads and the callback itself run
  operations between two iterations. Each operation, and each iteration of the loop, is
  one step, because the mutex makes it atomic. Time is a number of milliseconds.
\<close>

section \<open>State\<close>

datatype 'e job =
    ResetJob              \<comment> \<open>\<^verbatim>\<open>post(ResetTimer)\<close>\<close>
  | TimeoutJob bool       \<comment> \<open>\<^verbatim>\<open>HandleTimeout(err)\<close>, the flag says whether \<^verbatim>\<open>err\<close> is set\<close>
  | CancelJob 'e          \<comment> \<open>\<^verbatim>\<open>post(event_processor_(event, operation_canceled))\<close>\<close>

record 'e timed_events =
  running :: bool
  data :: "(nat \<times> 'e) list"
  timer :: "nat option"
  jobs :: "'e job list"
  loops :: "nat list"
  clock :: nat
  fired :: "(nat \<times> nat \<times> 'e) list"    \<comment> \<open>timeout, time of the call, event\<close>
  aborted :: "'e list"
  added :: "'e list"

definition te_create :: "'e timed_events" where
  "te_create = \<lparr>running = True, data = [], timer = None, jobs = [], loops = [], clock = 0,
                fired = [], aborted = [], added = []\<rparr>"

section \<open>Operations\<close>

text \<open>\<^verbatim>\<open>std::multimap::insert\<close>: behind the entries with the same or a smaller key.\<close>

fun multimap_insert :: "nat \<Rightarrow> 'e \<Rightarrow> (nat \<times> 'e) list \<Rightarrow> (nat \<times> 'e) list" where
  "multimap_insert t e [] = [(t, e)]"
| "multimap_insert t e ((u, f) # rest) =
     (if u \<le> t then (u, f) # multimap_insert t e rest else (t, e) # (u, f) # rest)"

text \<open>\<^verbatim>\<open>Add(TimePoint, Event)\<close> and \<^verbatim>\<open>Add(milliseconds, Event)\<close>\<close>

definition te_Add :: "nat \<Rightarrow> 'e \<Rightarrow> 'e timed_events \<Rightarrow> 'e timed_events" where
  "te_Add timeout_time event s =
     s\<lparr>data := multimap_insert timeout_time event (data s), jobs := jobs s @ [ResetJob],
       added := added s @ [event]\<rparr>"

definition te_AddAfter :: "nat \<Rightarrow> 'e \<Rightarrow> 'e timed_events \<Rightarrow> 'e timed_events" where
  "te_AddAfter duration event s = te_Add (clock s + duration) event s"

definition te_Size :: "'e timed_events \<Rightarrow> nat" where
  "te_Size s = length (data s)"

text \<open>Cancelling the timer completes a pending wait with \<^verbatim>\<open>operation_aborted\<close>.\<close>

definition cancel_timer :: "'e timed_events \<Rightarrow> 'e timed_events" where
  "cancel_timer s =
     (case timer s of
        None \<Rightarrow> s
      | Some _ \<Rightarrow> s\<lparr>timer := None, jobs := jobs s @ [TimeoutJob True]\<rparr>)"

definition te_CancelAll :: "'e timed_events \<Rightarrow> 'e timed_events" where
  "te_CancelAll s =
     (let s = cancel_timer s
      in s\<lparr>data := [], jobs := jobs s @ map (\<lambda>(t, e). CancelJob e) (data s)\<rparr>)"

definition te_Stop :: "'e timed_events \<Rightarrow> 'e timed_events" where
  "te_Stop s = te_CancelAll (s\<lparr>running := False\<rparr>)"

text \<open>
  One iteration of the loop of \<^verbatim>\<open>ResetTimer\<close> that began at \<^verbatim>\<open>now\<close>; the flag says whether
  the loop goes on. The callback of a fired event is the entry in the log, what it does to
  the object is a later step.
\<close>

definition reset_iteration :: "nat \<Rightarrow> 'e timed_events \<Rightarrow> bool \<times> 'e timed_events" where
  "reset_iteration now s =
     (if \<not> running s then (False, s)
      else case data s of
          [] \<Rightarrow> (False, s)
        | (timeout, event) # rest \<Rightarrow>
            if timeout \<le> now
            then (True, s\<lparr>data := rest, fired := fired s @ [(timeout, clock s, event)]\<rparr>)
            else (False, (cancel_timer s)\<lparr>timer := Some timeout\<rparr>))"

text \<open>Running a posted handler.\<close>

fun run_job :: "'e job \<Rightarrow> 'e timed_events \<Rightarrow> 'e timed_events" where
  "run_job ResetJob s = s\<lparr>loops := clock s # loops s\<rparr>"
| "run_job (TimeoutJob err) s = (if err then s else s\<lparr>loops := clock s # loops s\<rparr>)"
| "run_job (CancelJob event) s = s\<lparr>aborted := aborted s @ [event]\<rparr>"

section \<open>Steps\<close>

text \<open>
  Any thread may call an operation; the io_service runs any posted handler; the timer
  expires once its time has come; time passes.
\<close>

inductive te_step :: "'e timed_events \<Rightarrow> 'e timed_events \<Rightarrow> bool" where
  Add: "te_step s (te_Add t e s)"
| CancelAll: "te_step s (te_CancelAll s)"
| Stop: "te_step s (te_Stop s)"
| Run: "j \<in> set (jobs s) \<Longrightarrow> te_step s (run_job j (s\<lparr>jobs := remove1 j (jobs s)\<rparr>))"
| Iterate: "now \<in> set (loops s) \<Longrightarrow> reset_iteration now s = (True, s') \<Longrightarrow> te_step s s'"
| Leave: "now \<in> set (loops s) \<Longrightarrow> reset_iteration now s = (False, s')
    \<Longrightarrow> te_step s (s'\<lparr>loops := remove1 now (loops s')\<rparr>)"
| Expire: "timer s = Some t \<Longrightarrow> t \<le> clock s
    \<Longrightarrow> te_step s (s\<lparr>timer := None, jobs := jobs s @ [TimeoutJob False]\<rparr>)"
| Tick: "te_step s (s\<lparr>clock := clock s + d\<rparr>)"

inductive te_reachable :: "'e timed_events \<Rightarrow> bool" where
  create: "te_reachable te_create"
| step: "te_reachable s \<Longrightarrow> te_step s t \<Longrightarrow> te_reachable t"

section \<open>The multimap\<close>

lemma set_multimap_insert [simp]: "set (multimap_insert t e d) = insert (t, e) (set d)"
  by (induction t e d rule: multimap_insert.induct) auto

lemma mset_multimap_insert [simp]: "mset (multimap_insert t e d) = add_mset (t, e) (mset d)"
  by (induction t e d rule: multimap_insert.induct) auto

lemma length_multimap_insert [simp]: "length (multimap_insert t e d) = Suc (length d)"
  by (induction t e d rule: multimap_insert.induct) auto

lemma sorted_multimap_insert [simp]:
  "sorted (map fst (multimap_insert t e d)) = sorted (map fst d)"
  by (induction t e d rule: multimap_insert.induct) (auto simp: order.trans)

section \<open>The invariant\<close>

fun pending_cancels :: "'e job list \<Rightarrow> 'e list" where
  "pending_cancels [] = []"
| "pending_cancels (CancelJob e # js) = e # pending_cancels js"
| "pending_cancels (_ # js) = pending_cancels js"

text \<open>Every event added is in exactly one place, as often as it was added.\<close>

definition te_conserved :: "'e timed_events \<Rightarrow> bool" where
  "te_conserved s \<longleftrightarrow>
     mset (added s) = mset (map snd (data s)) + mset (map (\<lambda>(t, c, e). e) (fired s))
                      + mset (aborted s) + mset (pending_cancels (jobs s))"

definition te_on_time :: "'e timed_events \<Rightarrow> bool" where
  "te_on_time s \<longleftrightarrow>
     list_all (\<lambda>(t, c, e). t \<le> c) (fired s) \<and> list_all (\<lambda>n. n \<le> clock s) (loops s)"

text \<open>
  While events wait, something will look at the first of them in time: a posted or running
  \<^verbatim>\<open>ResetTimer\<close>, an expired timer, or a timer armed for no later than that event.
\<close>

definition te_wakeup :: "'e timed_events \<Rightarrow> bool" where
  "te_wakeup s \<longleftrightarrow>
     (running s \<and> data s \<noteq> [] \<longrightarrow>
        ResetJob \<in> set (jobs s) \<or> TimeoutJob False \<in> set (jobs s) \<or> loops s \<noteq> []
        \<or> (\<exists>t. timer s = Some t \<and> t \<le> fst (hd (data s))))"

definition te_inv :: "'e timed_events \<Rightarrow> bool" where
  "te_inv s \<longleftrightarrow> sorted (map fst (data s)) \<and> te_conserved s \<and> te_on_time s \<and> te_wakeup s"

lemmas te_inv_defs = te_inv_def te_conserved_def te_on_time_def te_wakeup_def

lemma pending_cancels_append [simp]:
  "pending_cancels (js @ ks) = pending_cancels js @ pending_cancels ks"
  by (induction js rule: pending_cancels.induct) auto

lemma pending_cancels_map [simp]: "pending_cancels (map (\<lambda>(t, e). CancelJob e) d) = map snd d"
  by (induction d) auto

lemma pending_cancels_remove1:
  assumes "j \<in> set js"
  shows "mset (pending_cancels js)
    = mset (pending_cancels (remove1 j js)) + (case j of CancelJob e \<Rightarrow> {#e#} | _ \<Rightarrow> {#})"
  using assms by (induction js rule: pending_cancels.induct) (auto split: job.splits)

lemma remove1_keeps: "j \<noteq> k \<Longrightarrow> k \<in> set js \<Longrightarrow> k \<in> set (remove1 j js)"
  by (induction js) auto

text \<open>Each operation keeps the invariant.\<close>

lemma te_Add_inv [inv_intros]: "te_inv s \<Longrightarrow> te_inv (te_Add t e s)"
  by (auto simp: te_inv_defs te_Add_def)

lemma cancel_timer_simps [frame_simps]:
  "data (cancel_timer s) = data s" "running (cancel_timer s) = running s"
  "loops (cancel_timer s) = loops s" "clock (cancel_timer s) = clock s"
  "fired (cancel_timer s) = fired s" "aborted (cancel_timer s) = aborted s"
  "added (cancel_timer s) = added s"
  "pending_cancels (jobs (cancel_timer s)) = pending_cancels (jobs s)"
  by (simp_all add: cancel_timer_def split: option.splits)

lemma te_CancelAll_inv [inv_intros]: "te_inv s \<Longrightarrow> te_inv (te_CancelAll s)"
  by (auto simp: te_inv_defs te_CancelAll_def Let_def frame_simps split: option.splits)

lemma te_Stop_inv [inv_intros]: "te_inv s \<Longrightarrow> te_inv (te_Stop s)"
  unfolding te_Stop_def by (rule te_CancelAll_inv) (auto simp: te_inv_defs)

lemma run_job_inv [inv_intros]:
  assumes "te_inv s" and "j \<in> set (jobs s)"
  shows "te_inv (run_job j (s\<lparr>jobs := remove1 j (jobs s)\<rparr>))"
  using assms pending_cancels_remove1 [OF assms(2)]
  by (cases j) (auto simp: te_inv_defs remove1_keeps)

lemma reset_iteration_inv [inv_intros]:
  assumes "te_inv s" and "now \<in> set (loops s)" and "reset_iteration now s = (True, s')"
  shows "te_inv s'"
proof -
  have "now \<le> clock s"
    using assms(1,2) by (simp add: te_inv_defs list_all_iff)
  with assms show ?thesis
    by (auto simp: te_inv_defs reset_iteration_def split: list.splits if_splits)
qed

lemma te_on_time_leave: "te_on_time s \<Longrightarrow> te_on_time (s\<lparr>loops := remove1 now (loops s)\<rparr>)"
  using set_remove1_subset [of now "loops s"] by (auto simp: te_on_time_def list_all_iff)

lemma reset_leave_inv [inv_intros]:
  assumes "te_inv s" and "reset_iteration now s = (False, s')"
  shows "te_inv (s'\<lparr>loops := remove1 now (loops s')\<rparr>)"
proof -
  have "te_on_time s'" and "sorted (map fst (data s'))" and "te_conserved s'"
    using assms
    by (auto simp: te_inv_defs reset_iteration_def frame_simps split: list.splits if_splits)
  moreover have "te_wakeup (s'\<lparr>loops := ls\<rparr>)" for ls
    using assms
    by (auto simp: te_wakeup_def reset_iteration_def frame_simps split: list.splits if_splits)
  ultimately show ?thesis
    using te_on_time_leave by (simp add: te_inv_def te_conserved_def)
qed

lemma te_step_inv: "te_step s t \<Longrightarrow> te_inv s \<Longrightarrow> te_inv t"
proof (induction rule: te_step.induct)
  case (Expire s t)
  then show ?case by (auto simp: te_inv_defs)
next
  case (Tick s d)
  then show ?case by (auto simp: te_inv_defs list_all_iff)
qed (auto intro: inv_intros)

lemma te_create_inv: "te_inv te_create"
  by (simp add: te_inv_defs te_create_def)

lemma te_reachable_inv: "te_reachable s \<Longrightarrow> te_inv s"
  by (induction rule: te_reachable.induct) (auto intro: te_create_inv te_step_inv)

section \<open>Properties\<close>

text \<open>
  C14: in every reachable state each event that was added is waiting, fired, aborted or about
  to be aborted, exactly as often as it was added, and no event fired before its time,
  whatever the interleaving of threads, callbacks, cancellations and timer.
\<close>

theorem te_exactly_once:
  assumes "te_reachable s"
  shows "mset (added s) = mset (map snd (data s)) + mset (map (\<lambda>(t, c, e). e) (fired s))
           + mset (aborted s) + mset (pending_cancels (jobs s))
         \<and> (\<forall>(t, c, e)\<in>set (fired s). t \<le> c)"
  using te_reachable_inv [OF assms] by (simp add: te_inv_defs list_all_iff)

lemma te_reachable_example: "te_reachable (te_Add 5 ''x'' te_create)"
  by (rule te_reachable.step [OF te_reachable.create te_step.Add])

theorem te_exactly_once_witness:
  "mset (added (te_Add 5 ''x'' te_create)) = {#''x''#}"
  using te_exactly_once [OF te_reachable_example] by (simp add: te_Add_def te_create_def)

text \<open>
  C26: no wake-up is lost. While a running object holds events, a \<^verbatim>\<open>ResetTimer\<close> is posted or
  under way, or the timer has expired, or it is armed for no later than the first event.
\<close>

theorem te_no_lost_wakeup:
  assumes "te_reachable s" and "running s" and "data s \<noteq> []"
  shows "ResetJob \<in> set (jobs s) \<or> TimeoutJob False \<in> set (jobs s) \<or> loops s \<noteq> []
    \<or> (\<exists>t. timer s = Some t \<and> t \<le> fst (hd (data s)) \<and> (\<forall>(u, e)\<in>set (data s). t \<le> u))"
proof -
  have inv: "te_wakeup s" "sorted (map fst (data s))"
    using te_reachable_inv [OF assms(1)] by (simp_all add: te_inv_def)
  moreover have "\<forall>(u, e)\<in>set (data s). fst (hd (data s)) \<le> u"
    using inv(2) assms(3) by (cases "data s") auto
  ultimately show ?thesis
    using assms(2,3) by (fastforce simp: te_wakeup_def)
qed

theorem te_no_lost_wakeup_witness: "ResetJob \<in> set (jobs (te_Add 5 ''x'' te_create))"
  using te_no_lost_wakeup [OF te_reachable_example] by (simp add: te_Add_def te_create_def)

lemma run_job_simps [frame_simps]:
  "running (run_job j s) = running s" "fired (run_job j s) = fired s" "data (run_job j s) = data s"
  by (cases j; simp)+

lemma te_stopped_step:
  assumes "te_step s t" and "\<not> running s"
  shows "\<not> running t \<and> fired t = fired s"
  using assms
  by (induction rule: te_step.induct)
     (simp_all add: te_Add_def te_CancelAll_def te_Stop_def Let_def frame_simps
        reset_iteration_def)

text \<open>
  after \<^verbatim>\<open>Stop\<close> no event fires any more, and the events that were waiting are handed
  to the processor with an error.
\<close>

theorem te_stop_silences:
  assumes "te_step\<^sup>*\<^sup>* (te_Stop s) t"
  shows "\<not> running t \<and> fired t = fired s
    \<and> pending_cancels (jobs (te_Stop s)) = pending_cancels (jobs s) @ map snd (data s)"
proof -
  have start: "\<not> running (te_Stop s)" "fired (te_Stop s) = fired s"
    "pending_cancels (jobs (te_Stop s)) = pending_cancels (jobs s) @ map snd (data s)"
    by (simp_all add: te_Stop_def te_CancelAll_def Let_def frame_simps)
  from assms have "\<not> running t \<and> fired t = fired (te_Stop s)"
    by (induction rule: rtranclp_induct) (use start te_stopped_step in auto)
  with start show ?thesis by simp
qed

theorem te_stop_silences_witness:
  "\<not> running (te_Add 9 ''y'' (te_Stop (te_Add 5 ''x'' te_create)))
   \<and> pending_cancels (jobs (te_Stop (te_Add 5 ''x'' te_create))) = [''x'']"
  using te_stop_silences [OF r_into_rtranclp [of te_step],
      OF te_step.Add [of "te_Stop (te_Add 5 ''x'' te_create)" 9 "''y''"]]
  by (simp add: te_Add_def te_create_def)

section \<open>The interface the session maintainer's locker uses\<close>

text \<open>
  The locker adds events, counts them and stops the object. It relies on the count following
  its own operations.
\<close>

locale event_timer =
  fixes add_event :: "nat \<Rightarrow> 'e \<Rightarrow> 'q \<Rightarrow> 'q"
    and waiting :: "'q \<Rightarrow> 'e multiset"
    and count :: "'q \<Rightarrow> nat"
    and stop :: "'q \<Rightarrow> 'q"
  assumes waiting_add: "waiting (add_event t e q) = add_mset e (waiting q)"
    and waiting_stop: "waiting (stop q) = {#}"
    and count_waiting: "count q = size (waiting q)"
begin

lemma count_add [simp]: "count (add_event t e q) = Suc (count q)"
  by (simp add: count_waiting waiting_add)

lemma count_stop [simp]: "count (stop q) = 0"
  by (simp add: count_waiting waiting_stop)

lemma waiting_addD: "x \<in># waiting (add_event t e q) \<longleftrightarrow> x = e \<or> x \<in># waiting q"
  by (simp add: waiting_add)

end

definition te_waiting :: "'e timed_events \<Rightarrow> 'e multiset" where
  "te_waiting s = mset (map snd (data s))"

interpretation te: event_timer te_AddAfter te_waiting te_Size te_Stop
proof
  fix t and e :: 'e and q :: "'e timed_events"
  show "te_waiting (te_AddAfter t e q) = add_mset e (te_waiting q)"
    by (simp add: te_waiting_def te_AddAfter_def te_Add_def)
  show "te_waiting (te_Stop q) = {#}"
    by (simp add: te_waiting_def te_Stop_def te_CancelAll_def Let_def)
  show "te_Size q = size (te_waiting q)"
    by (simp add: te_Size_def te_waiting_def)
qed

end
