(* ===== verification/Session_Locker.thy ===== *)
theory Session_Locker
  imports Session_Types Timed_Events "HOL-Library.AList"
begin

text \<open>
  \<^verbatim>\<open>api/detail/session_maintainer_locker.*\<close>: the state of the session maintainer behind one
  mutex. Every method takes the mutex once, so each is one atomic operation on the record;
  what several threads do is a sequence of them. The callbacks that are set are flags,
  calling them is an entry in the list of what was posted to \<^verbatim>\<open>callback_ios_\<close>.
\<close>

section \<open>State\<close>

record locker =
  session_state :: SessionState
  connection_state :: ConnectionState
  session_state_change_count :: uint32
  session_state_change_callback :: bool
  connection_state_change_callback :: bool
  posted_session_states :: "SessionState list"
  posted_connection_states :: "ConnectionState list"
  credentials :: "Credentials option"
  waiting_st_requests :: "STRequest list"
  waiting_non_st_requests :: "STRequest list"
  in_progress_requests :: "STRequest set"
  checked_out_tokens :: "(STRequest \<times> SessionTokenData) list"
  delayed_requests :: "STRequest timed_events"
  session_tokens :: "SessionTokenData list"
  in_progress_session_token_requests :: nat
  time_out_requests :: "STRequest timed_events"
  failure_count :: uint32

text \<open>The constants of \<^verbatim>\<open>SessionMaintainer\<close>\<close>

definition max_in_progress_token_requests :: nat where [code_defs]:
  "max_in_progress_token_requests = 4"

definition max_tokens :: nat where [code_defs]:
  "max_tokens = 10"

definition SessionMaintainerLocker :: locker where
  "SessionMaintainerLocker =
     \<lparr>session_state = Uninitialized, connection_state = ConnectionUninitialized,
      session_state_change_count = 0, session_state_change_callback = False,
      connection_state_change_callback = False, posted_session_states = [],
      posted_connection_states = [], credentials = None, waiting_st_requests = [],
      waiting_non_st_requests = [], in_progress_requests = {}, checked_out_tokens = [],
      delayed_requests = te_create, session_tokens = [],
      in_progress_session_token_requests = 0, time_out_requests = te_create,
      failure_count = 0\<rparr>"

section \<open>Session and connection state\<close>

text \<open>The visitor \<^verbatim>\<open>NewStateVisitor\<close>\<close>

fun NewStateVisitor :: "SessionState \<Rightarrow> locker \<Rightarrow> locker" where
  "NewStateVisitor Uninitialized l =
     l\<lparr>credentials := None, session_tokens := [], checked_out_tokens := []\<rparr>"
| "NewStateVisitor Initialized l = l\<lparr>session_tokens := [], checked_out_tokens := []\<rparr>"
| "NewStateVisitor (CredentialsFailure _ _ _) l =
     l\<lparr>session_tokens := [], checked_out_tokens := []\<rparr>"
| "NewStateVisitor (ProlongedError _ _) l = l"
| "NewStateVisitor (Running _) l = l"

definition ChangeSessionStateInternal :: "SessionState \<Rightarrow> locker \<Rightarrow> locker" where
  "ChangeSessionStateInternal state l =
     (if \<not> session_state_equal (session_state l) state then
        let l = NewStateVisitor state (l\<lparr>session_state := state\<rparr>);
            l = l\<lparr>session_state_change_count := session_state_change_count l + 1\<rparr>
        in if session_state_change_callback l
           then l\<lparr>posted_session_states := posted_session_states l @ [session_state l]\<rparr>
           else l
      else l)"

definition ChangeConnectionStateInternal :: "ConnectionState \<Rightarrow> locker \<Rightarrow> locker" where
  "ChangeConnectionStateInternal state l =
     (if \<not> connection_state_equal (connection_state l) state then
        let l = l\<lparr>connection_state := state\<rparr>
        in if connection_state_change_callback l
           then l\<lparr>posted_connection_states := posted_connection_states l @ [connection_state l]\<rparr>
           else l
      else l)"

definition GetSessionState :: "locker \<Rightarrow> SessionState \<times> uint32" where
  "GetSessionState l = (session_state l, session_state_change_count l)"

definition SetSessionState :: "SessionState \<Rightarrow> locker \<Rightarrow> locker" where
  "SetSessionState state l = ChangeSessionStateInternal state l"

definition GetConnectionState :: "locker \<Rightarrow> ConnectionState" where
  "GetConnectionState l = connection_state l"

definition SetConnectionState :: "ConnectionState \<Rightarrow> locker \<Rightarrow> locker" where
  "SetConnectionState state l = ChangeConnectionStateInternal state l"

definition SetSessionStateSafe :: "SessionState \<Rightarrow> uint32 \<Rightarrow> locker \<Rightarrow> bool \<times> locker" where
  "SetSessionStateSafe state state_change_count l =
     (if session_state_change_count l = state_change_count
      then (True, ChangeSessionStateInternal state l)
      else (False, l))"

definition SetSessionStateChangeCallback :: "bool \<Rightarrow> locker \<Rightarrow> locker" where
  "SetSessionStateChangeCallback callback l = l\<lparr>session_state_change_callback := callback\<rparr>"

definition SetConnectionStateChangeCallback :: "bool \<Rightarrow> locker \<Rightarrow> locker" where
  "SetConnectionStateChangeCallback callback l =
     l\<lparr>connection_state_change_callback := callback\<rparr>"

section \<open>Credentials\<close>

definition GetCredenials :: "locker \<Rightarrow> Credentials option" where
  "GetCredenials l = credentials l"

definition SetCredentials :: "Credentials \<Rightarrow> locker \<Rightarrow> locker" where
  "SetCredentials c l =
     (if (case credentials l of None \<Rightarrow> True | Some d \<Rightarrow> \<not> credentials_equal c d)
      then ChangeSessionStateInternal Initialized (l\<lparr>credentials := Some c\<rparr>)
      else l)"

section \<open>Requests\<close>

definition push_waiting :: "STRequest \<Rightarrow> locker \<Rightarrow> locker" where
  "push_waiting request l =
     (if UsesSessionToken request
      then l\<lparr>waiting_st_requests := waiting_st_requests l @ [request]\<rparr>
      else l\<lparr>waiting_non_st_requests := waiting_non_st_requests l @ [request]\<rparr>)"

definition AddWaitingRequest :: "STRequest \<Rightarrow> locker \<Rightarrow> locker" where
  "AddWaitingRequest request l =
     push_waiting request
       (l\<lparr>time_out_requests :=
            te_AddAfter (1000 * TimeoutSeconds request) request (time_out_requests l)\<rparr>)"

definition RemoveInProgressRequest :: "STRequest \<Rightarrow> locker \<Rightarrow> locker" where
  "RemoveInProgressRequest request l =
     l\<lparr>in_progress_requests := in_progress_requests l - {request}\<rparr>"

definition MoveInProgressToWaiting :: "STRequest \<Rightarrow> locker \<Rightarrow> locker" where
  "MoveInProgressToWaiting request l = push_waiting request (RemoveInProgressRequest request l)"

definition DeleteCheckedOutToken :: "STRequest \<Rightarrow> locker \<Rightarrow> locker" where
  "DeleteCheckedOutToken request l =
     l\<lparr>checked_out_tokens := AList.delete request (checked_out_tokens l)\<rparr>"

definition MoveInProgressToDelayed :: "STRequest \<Rightarrow> nat \<Rightarrow> locker \<Rightarrow> locker" where
  "MoveInProgressToDelayed request delay_sec l =
     (RemoveInProgressRequest request l)
       \<lparr>delayed_requests := te_AddAfter (1000 * delay_sec) request (delayed_requests l)\<rparr>"

definition NextWaitingNonSessionTokenRequest :: "locker \<Rightarrow> STRequest option \<times> locker" where
  "NextWaitingNonSessionTokenRequest l =
     (case waiting_non_st_requests l of
        [] \<Rightarrow> (None, l)
      | request # rest \<Rightarrow> (Some request, l\<lparr>waiting_non_st_requests := rest\<rparr>))"

definition NextWaitingSessionTokenRequest ::
  "locker \<Rightarrow> (STRequest \<times> SessionTokenData) option \<times> locker" where
  "NextWaitingSessionTokenRequest l =
     (case waiting_st_requests l of
        [] \<Rightarrow> (None, l)
      | request # rest \<Rightarrow>
          if session_tokens l = [] then (None, l)
          else (Some (request, last (session_tokens l)),
                l\<lparr>session_tokens := butlast (session_tokens l), waiting_st_requests := rest\<rparr>))"

text \<open>\<^verbatim>\<open>AddInProgressRequest\<close>, without and with a token. \<^verbatim>\<open>std::map::insert\<close> keeps an
  entry that is already there.\<close>

definition AddInProgressRequest :: "STRequest \<Rightarrow> locker \<Rightarrow> locker" where
  "AddInProgressRequest request l =
     l\<lparr>in_progress_requests := insert request (in_progress_requests l)\<rparr>"

definition map_insert :: "'k \<Rightarrow> 'v \<Rightarrow> ('k \<times> 'v) list \<Rightarrow> ('k \<times> 'v) list" where
  "map_insert k v m = (if map_of m k = None then m @ [(k, v)] else m)"

definition AddInProgressRequestToken :: "STRequest \<Rightarrow> SessionTokenData \<Rightarrow> locker \<Rightarrow> locker" where
  "AddInProgressRequestToken request token l =
     (AddInProgressRequest request l)
       \<lparr>checked_out_tokens := map_insert request token (checked_out_tokens l)\<rparr>"

definition TotalRequests :: "locker \<Rightarrow> nat" where
  "TotalRequests l =
     length (waiting_st_requests l) + length (waiting_non_st_requests l)
     + card (in_progress_requests l) + te_Size (delayed_requests l)"

section \<open>Session tokens\<close>

definition StartRequestSessionToken :: "locker \<Rightarrow> bool \<times> locker" where
  "StartRequestSessionToken l =
     (let pending = in_progress_session_token_requests l;
          stored = length (session_tokens l);
          out = length (checked_out_tokens l)
      in if (pending = 0 \<and> stored + out = 0)
            \<or> (length (waiting_st_requests l) > pending + stored
               \<and> pending < max_in_progress_token_requests
               \<and> pending + stored + out < max_tokens)
         then (True, l\<lparr>in_progress_session_token_requests := pending + 1\<rparr>)
         else (False, l))"

text \<open>The assertion is that the count is positive.\<close>

definition DecrementSessionTokenInProgressCount :: "locker \<Rightarrow> locker option" where
  "DecrementSessionTokenInProgressCount l =
     (if 0 < in_progress_session_token_requests l
      then Some (l\<lparr>in_progress_session_token_requests :=
                     in_progress_session_token_requests l - 1\<rparr>)
      else None)"

text \<open>
  The assertion of \<^verbatim>\<open>AddSessionToken\<close> and \<^verbatim>\<open>ReuseToken\<close> on a token they insert: none is
  stored with the same string. A failed assertion is \<^const>\<open>None\<close>.
\<close>

definition push_token :: "SessionTokenData \<Rightarrow> locker \<Rightarrow> locker option" where
  "push_token token l =
     (if session_token token \<in> session_token ` set (session_tokens l) then None
      else Some (l\<lparr>session_tokens := session_tokens l @ [token]\<rparr>))"

definition AddSessionToken ::
  "SessionTokenData \<Rightarrow> Credentials \<Rightarrow> locker \<Rightarrow> (bool \<times> locker) option" where
  "AddSessionToken token old_credentials l =
     (case credentials l of
        None \<Rightarrow> Some (False, l)
      | Some c \<Rightarrow>
          if credentials_equal old_credentials c
          then (case push_token token l of None \<Rightarrow> None | Some l \<Rightarrow> Some (True, l))
          else Some (False, l))"

text \<open>
  The key is renewed by one step of a multiplicative generator: the \<^verbatim>\<open>int\<close> is converted to
  \<^verbatim>\<open>uint64_t\<close> with its sign, multiplied without overflow check, and cut down to \<^verbatim>\<open>int\<close>.
\<close>

definition next_secret_key :: "int32 \<Rightarrow> int32" where
  "next_secret_key k = ucast (((scast k :: uint64) * 16807) mod 2147483647)"

definition ReuseToken :: "STRequest \<Rightarrow> bool \<Rightarrow> locker \<Rightarrow> locker option" where
  "ReuseToken request new_key l =
     (if UsesSessionToken request then
        (case map_of (checked_out_tokens l) request of
           None \<Rightarrow> Some l
         | Some st \<Rightarrow>
             push_token
               (if new_key then st\<lparr>secret_key := next_secret_key (secret_key st)\<rparr> else st)
               (l\<lparr>checked_out_tokens := AList.delete request (checked_out_tokens l)\<rparr>))
      else Some l)"

section \<open>Timeouts, failures and destruction\<close>

definition StopTimeouts :: "locker \<Rightarrow> locker" where
  "StopTimeouts l =
     l\<lparr>delayed_requests := te_Stop (delayed_requests l),
       time_out_requests := te_Stop (time_out_requests l)\<rparr>"

text \<open>
  \<^verbatim>\<open>HandleTimedOutRequest\<close> of a request that still exists: the result says with which code
  \<^verbatim>\<open>Fail\<close> is called on it, if it is.
\<close>

definition HandleTimedOutRequest :: "STRequest \<Rightarrow> locker \<Rightarrow> api_code option \<times> locker" where
  "HandleTimedOutRequest request l =
     (if UsesSessionToken request then
        if request \<in> set (waiting_st_requests l)
        then (Some SessionTokenUnavailableTimeout,
              l\<lparr>waiting_st_requests := remove1 request (waiting_st_requests l)\<rparr>)
        else (None, l)
      else
        if request \<in> set (waiting_non_st_requests l)
        then (Some ConnectionUnavailableTimeout,
              l\<lparr>waiting_non_st_requests := remove1 request (waiting_non_st_requests l)\<rparr>)
        else (None, l))"

definition IncrementFailureCount :: "locker \<Rightarrow> locker" where
  "IncrementFailureCount l = l\<lparr>failure_count := failure_count l + 1\<rparr>"

definition GetFailureCount :: "locker \<Rightarrow> uint32" where
  "GetFailureCount l = failure_count l"

definition ResetFailureCount :: "locker \<Rightarrow> locker" where
  "ResetFailureCount l = l\<lparr>failure_count := 0\<rparr>"

text \<open>The destructor: the state it leaves and the requests it cancels, in some order.\<close>

definition locker_destroy :: "locker \<Rightarrow> locker \<times> STRequest list \<times> STRequest set" where
  "locker_destroy l =
     (let l = StopTimeouts l
      in (l\<lparr>waiting_st_requests := [], waiting_non_st_requests := [],
            in_progress_requests := {}\<rparr>,
          waiting_st_requests l @ waiting_non_st_requests l, in_progress_requests l))"

section \<open>Facts\<close>

lemmas locker_operations =
  GetSessionState_def SetSessionState_def GetConnectionState_def SetConnectionState_def
  GetCredenials_def push_waiting_def AddWaitingRequest_def RemoveInProgressRequest_def
  MoveInProgressToWaiting_def DeleteCheckedOutToken_def MoveInProgressToDelayed_def
  AddInProgressRequest_def AddInProgressRequestToken_def IncrementFailureCount_def
  GetFailureCount_def ResetFailureCount_def StopTimeouts_def

declare locker_operations [locker_defs]

lemma NewStateVisitor_simps [frame_simps]:
  "session_state (NewStateVisitor s l) = session_state l"
  "connection_state (NewStateVisitor s l) = connection_state l"
  "waiting_st_requests (NewStateVisitor s l) = waiting_st_requests l"
  "waiting_non_st_requests (NewStateVisitor s l) = waiting_non_st_requests l"
  "in_progress_requests (NewStateVisitor s l) = in_progress_requests l"
  "delayed_requests (NewStateVisitor s l) = delayed_requests l"
  "time_out_requests (NewStateVisitor s l) = time_out_requests l"
  "in_progress_session_token_requests (NewStateVisitor s l) = in_progress_session_token_requests l"
  by (cases s; simp)+

lemma ChangeSessionStateInternal_simps [frame_simps]:
  "connection_state (ChangeSessionStateInternal s l) = connection_state l"
  "waiting_st_requests (ChangeSessionStateInternal s l) = waiting_st_requests l"
  "waiting_non_st_requests (ChangeSessionStateInternal s l) = waiting_non_st_requests l"
  "in_progress_requests (ChangeSessionStateInternal s l) = in_progress_requests l"
  "delayed_requests (ChangeSessionStateInternal s l) = delayed_requests l"
  "time_out_requests (ChangeSessionStateInternal s l) = time_out_requests l"
  "in_progress_session_token_requests (ChangeSessionStateInternal s l)
     = in_progress_session_token_requests l"
  by (simp_all add: ChangeSessionStateInternal_def Let_def frame_simps)

lemma ChangeConnectionStateInternal_simps [frame_simps]:
  "session_state (ChangeConnectionStateInternal c l) = session_state l"
  "session_state_change_count (ChangeConnectionStateInternal c l) = session_state_change_count l"
  "credentials (ChangeConnectionStateInternal c l) = credentials l"
  "waiting_st_requests (ChangeConnectionStateInternal c l) = waiting_st_requests l"
  "waiting_non_st_requests (ChangeConnectionStateInternal c l) = waiting_non_st_requests l"
  "in_progress_requests (ChangeConnectionStateInternal c l) = in_progress_requests l"
  "checked_out_tokens (ChangeConnectionStateInternal c l) = checked_out_tokens l"
  "delayed_requests (ChangeConnectionStateInternal c l) = delayed_requests l"
  "session_tokens (ChangeConnectionStateInternal c l) = session_tokens l"
  "time_out_requests (ChangeConnectionStateInternal c l) = time_out_requests l"
  "in_progress_session_token_requests (ChangeConnectionStateInternal c l)
     = in_progress_session_token_requests l"
  "connection_state (ChangeConnectionStateInternal c l) = c"
  by (simp_all add: ChangeConnectionStateInternal_def Let_def)

lemma session_state_after_change:
  "session_state_equal (session_state (ChangeSessionStateInternal s l)) s"
  by (simp add: ChangeSessionStateInternal_def Let_def frame_simps)

text \<open>What a change of the session state leaves of the tokens.\<close>

lemma tokens_after_change:
  "session_tokens (ChangeSessionStateInternal s l) \<in> {[], session_tokens l}"
  "checked_out_tokens (ChangeSessionStateInternal s l) \<in> {[], checked_out_tokens l}"
  by (cases s; simp add: ChangeSessionStateInternal_def Let_def)+

section \<open>Where a request is\<close>

text \<open>Every request the locker holds, with its multiplicity.\<close>

definition held_requests :: "locker \<Rightarrow> STRequest multiset" where
  "held_requests l =
     mset (waiting_st_requests l) + mset (waiting_non_st_requests l)
     + mset_set (in_progress_requests l) + te_waiting (delayed_requests l)"

lemma TotalRequests_held: "TotalRequests l = size (held_requests l)"
  by (simp add: TotalRequests_def held_requests_def te.count_waiting)

lemma held_push_waiting [simp]:
  "held_requests (push_waiting r l) = add_mset r (held_requests l)"
  by (simp add: push_waiting_def held_requests_def)

lemma held_RemoveInProgressRequest:
  assumes "finite (in_progress_requests l)" and "r \<in> in_progress_requests l"
  shows "held_requests l = add_mset r (held_requests (RemoveInProgressRequest r l))"
  using assms
  by (simp add: held_requests_def RemoveInProgressRequest_def mset_set.remove)

lemma held_AddInProgressRequest:
  assumes "finite (in_progress_requests l)" and "r \<notin> in_progress_requests l"
  shows "held_requests (AddInProgressRequest r l) = add_mset r (held_requests l)"
  using assms by (simp add: held_requests_def AddInProgressRequest_def)

lemma held_next_st:
  "case NextWaitingSessionTokenRequest l of
     (Some (q, t), l') \<Rightarrow> held_requests l = add_mset q (held_requests l')
   | (None, l') \<Rightarrow> l' = l"
  by (simp add: NextWaitingSessionTokenRequest_def held_requests_def split: list.split)

lemma held_next_non_st:
  "case NextWaitingNonSessionTokenRequest l of
     (Some q, l') \<Rightarrow> held_requests l = add_mset q (held_requests l')
   | (None, l') \<Rightarrow> l' = l"
  by (simp add: NextWaitingNonSessionTokenRequest_def held_requests_def split: list.split)

text \<open>
  no request is lost or duplicated while it moves between the queues of the locker. Adding
  a request adds it once; retrying moves it from the requests in progress to a waiting queue
  or to the delayed ones; starting takes it out of its queue; and the total that is reported
  is the number of requests held.
\<close>

theorem requests_conserved:
  assumes "finite (in_progress_requests l)" and "r \<in> in_progress_requests l"
  shows "held_requests (MoveInProgressToWaiting r l) = held_requests l
    \<and> held_requests (MoveInProgressToDelayed r n l) = held_requests l
    \<and> add_mset r (held_requests (RemoveInProgressRequest r l)) = held_requests l
    \<and> held_requests (AddWaitingRequest q l) = add_mset q (held_requests l)
    \<and> (case NextWaitingSessionTokenRequest l of
          (Some (q, t), l') \<Rightarrow> held_requests l = add_mset q (held_requests l')
        | (None, l') \<Rightarrow> l' = l)
    \<and> (case NextWaitingNonSessionTokenRequest l of
          (Some q, l') \<Rightarrow> held_requests l = add_mset q (held_requests l')
        | (None, l') \<Rightarrow> l' = l)
    \<and> TotalRequests l = size (held_requests l)"
proof -
  have remove: "held_requests l = add_mset r (held_requests (RemoveInProgressRequest r l))"
    by (rule held_RemoveInProgressRequest [OF assms])
  moreover have "held_requests (MoveInProgressToDelayed r n l)
      = add_mset r (held_requests (RemoveInProgressRequest r l))"
    by (simp add: MoveInProgressToDelayed_def held_requests_def te.waiting_add
        RemoveInProgressRequest_def)
  moreover have "held_requests (AddWaitingRequest q l) = add_mset q (held_requests l)"
    by (simp add: AddWaitingRequest_def) (simp add: held_requests_def)
  moreover have "held_requests (MoveInProgressToWaiting r l) = held_requests l"
    using remove by (simp add: MoveInProgressToWaiting_def)
  ultimately show ?thesis
    using held_next_st [of l] held_next_non_st [of l] by (simp add: TotalRequests_held)
qed

definition example_request :: "nat \<Rightarrow> STRequest" where [code_defs]:
  "example_request n =
     \<lparr>req_id = n, UsesSessionToken = True, TimeoutSeconds = 60, max_retry_time = 60\<rparr>"

theorem requests_conserved_witness:
  "held_requests (MoveInProgressToWaiting (example_request 1)
     (AddInProgressRequest (example_request 1) SessionMaintainerLocker))
   = {#example_request 1#}"
proof -
  let ?l = "AddInProgressRequest (example_request 1) SessionMaintainerLocker"
  have "finite (in_progress_requests ?l)" "example_request 1 \<in> in_progress_requests ?l"
    by (simp_all add: AddInProgressRequest_def SessionMaintainerLocker_def)
  from requests_conserved [OF this]
  have "held_requests (MoveInProgressToWaiting (example_request 1) ?l) = held_requests ?l"
    by simp
  then show ?thesis
    by (simp add: held_requests_def AddInProgressRequest_def SessionMaintainerLocker_def
        te_waiting_def te_create_def)
qed

section \<open>The renewed key\<close>

text \<open>Multiplication by 16807 modulo the Mersenne prime has an inverse.\<close>

lemma lehmer_inverse: "(k * 16807 mod 2147483647) * 1407677000 mod 2147483647 = k mod (2147483647 :: nat)"
proof -
  have "(k * 16807 mod 2147483647) * 1407677000 mod 2147483647
      = k * (16807 * 1407677000) mod (2147483647 :: nat)"
    by (simp only: mod_mult_left_eq mult.assoc)
  also have "\<dots> = k * (16807 * 1407677000 mod 2147483647) mod 2147483647"
    by (simp only: mod_mult_right_eq)
  also have "\<dots> = k mod 2147483647" by simp
  finally show ?thesis .
qed

lemma sint_positive:
  assumes "unat (w :: int32) < 2147483647"
  shows "sint w = int (unat w)"
proof -
  obtain n where w: "w = word_of_nat n" and n: "n < 2147483647"
    using assms that [of "unat w"] by simp
  then have "sint w = int n"
    by (simp add: signed_of_nat signed_take_bit_int_eq_self)
  with w n show ?thesis by (simp add: unat_of_nat)
qed

lemma unat_next_secret_key:
  assumes "unat k < 2147483647"
  shows "unat (next_secret_key k) = unat k * 16807 mod 2147483647"
proof -
  obtain n where k: "k = word_of_nat n" and n: "n < 2147483647"
    using assms that [of "unat k"] by simp
  have "unat k = n" using n by (simp add: k unat_of_nat)
  have key: "(scast k :: uint64) = word_of_nat n"
    using n by (simp add: k signed_of_nat signed_take_bit_int_eq_self)
  have "unat (word_of_nat n * 16807 :: uint64) = n * 16807"
    using n by (simp add: unat_word_ariths unat_of_nat)
  then have product: "unat ((word_of_nat n * 16807 :: uint64) mod 2147483647)
      = n * 16807 mod 2147483647"
    by (simp add: unat_mod)
  have "n * 16807 mod 2147483647 < 2147483647" by simp
  also have "(2147483647 :: nat) < 4294967296" by simp
  finally have small: "n * 16807 mod 2147483647 < 4294967296" .
  have "unat (next_secret_key k) = n * 16807 mod 2147483647 mod 4294967296"
    by (simp only: next_secret_key_def key unsigned_ucast_eq product) (simp add: take_bit_eq_mod)
  with small \<open>unat k = n\<close> show ?thesis by simp
qed

text \<open>
  renewing a key of the generator's range, \<open>0 < k < 2^31 - 1\<close>, gives a key of that range
  again, without any overflow, and different keys stay different, so client and server that
  agree on a key agree on its successors.
\<close>

theorem next_secret_key_range:
  assumes "0 < unat k" and "unat k < 2147483647"
  shows "0 < unat (next_secret_key k) \<and> unat (next_secret_key k) < 2147483647
    \<and> 0 \<le> sint (next_secret_key k)
    \<and> unat (next_secret_key k) * 1407677000 mod 2147483647 = unat k"
proof -
  let ?m = "unat (next_secret_key k)"
  have m: "?m = unat k * 16807 mod 2147483647"
    by (rule unat_next_secret_key [OF assms(2)])
  then have inverse: "?m * 1407677000 mod 2147483647 = unat k"
    using lehmer_inverse [of "unat k"] assms(2) by simp
  have less: "?m < 2147483647" by (simp add: m)
  have "?m \<noteq> 0" using inverse assms(1) by auto
  moreover have "0 \<le> sint (next_secret_key k)"
    using sint_positive [OF less] by simp
  ultimately show ?thesis using less inverse by simp
qed

theorem next_secret_key_range_witness:
  "unat (next_secret_key 7) * 1407677000 mod 2147483647 = 7"
  using next_secret_key_range [of 7] by simp

section \<open>What the mutex does not make atomic\<close>

definition stored_or_out :: "locker \<Rightarrow> SessionTokenData set" where
  "stored_or_out l = set (session_tokens l) \<union> snd ` set (checked_out_tokens l)"

text \<open>
  \<^verbatim>\<open>HandleRetryRequest\<close> puts a request back on the waiting queue before it deletes the
  request's bad token. Between the two calls another thread can start the same request with
  a new token: the map keeps the bad entry, the deletion removes it, and the new token is
  neither stored nor checked out any more.
\<close>

theorem retry_race_loses_token:
  assumes "UsesSessionToken r" and "waiting_st_requests l = []"
    and "map_of (checked_out_tokens l) r = Some bad"
    and "session_tokens l = ts @ [new]" and "new \<notin> set ts"
    and "new \<notin> snd ` set (checked_out_tokens l)"
    and "MoveInProgressToWaiting r l = l1"
    and "NextWaitingSessionTokenRequest l1 = (Some (q, t), l2)"
    and "AddInProgressRequestToken q t l2 = l3"
    and "DeleteCheckedOutToken r l3 = l4"
  shows "q = r \<and> t = new \<and> r \<in> in_progress_requests l4 \<and> new \<notin> stored_or_out l4"
proof -
  have pop: "q = r" "t = new" "session_tokens l2 = ts"
    "checked_out_tokens l2 = checked_out_tokens l"
    using assms(1,2,4,7,8)
    by (auto simp: MoveInProgressToWaiting_def push_waiting_def RemoveInProgressRequest_def
        NextWaitingSessionTokenRequest_def)
  with assms(3,9) have "checked_out_tokens l3 = checked_out_tokens l" "session_tokens l3 = ts"
    "r \<in> in_progress_requests l3"
    by (auto simp: AddInProgressRequestToken_def AddInProgressRequest_def map_insert_def)
  with assms(5,6,10) pop show ?thesis
    by (auto simp: stored_or_out_def DeleteCheckedOutToken_def AList.delete_eq)
qed

definition example_token :: "string \<Rightarrow> SessionTokenData" where [code_defs]:
  "example_token t = \<lparr>session_token = t, pkey = ''p'', time = ''0'', secret_key = 7\<rparr>"

definition example_retry_locker :: locker where [code_defs]:
  "example_retry_locker =
     SessionMaintainerLocker
       \<lparr>session_tokens := [example_token ''new''],
        checked_out_tokens := [(example_request 1, example_token ''bad'')],
        in_progress_requests := {example_request 1}\<rparr>"

theorem retry_race_loses_token_witness:
  "\<exists>q t l1 l2 l3 l4.
     MoveInProgressToWaiting (example_request 1) example_retry_locker = l1
     \<and> NextWaitingSessionTokenRequest l1 = (Some (q, t), l2)
     \<and> AddInProgressRequestToken q t l2 = l3
     \<and> DeleteCheckedOutToken (example_request 1) l3 = l4
     \<and> t = example_token ''new'' \<and> example_token ''new'' \<notin> stored_or_out l4"
proof -
  obtain l1 where l1: "MoveInProgressToWaiting (example_request 1) example_retry_locker = l1"
    by blast
  obtain q t l2 where popped: "NextWaitingSessionTokenRequest l1 = (Some (q, t), l2)"
    by (simp add: l1 [symmetric] code_defs locker_defs SessionMaintainerLocker_def
        NextWaitingSessionTokenRequest_def)
  have "UsesSessionToken (example_request 1)" "waiting_st_requests example_retry_locker = []"
    "map_of (checked_out_tokens example_retry_locker) (example_request 1)
       = Some (example_token ''bad'')"
    "session_tokens example_retry_locker = [] @ [example_token ''new'']"
    "example_token ''new'' \<notin> set []"
    "example_token ''new'' \<notin> snd ` set (checked_out_tokens example_retry_locker)"
    by (simp_all add: code_defs SessionMaintainerLocker_def)
  from retry_race_loses_token [OF this l1 popped refl refl] show ?thesis
    using l1 popped by blast
qed

text \<open>
  the response to a token request is handled in several calls of the locker. When another
  thread sets new credentials after the token was added and before the state becomes
  running, the locker still has the state \<^verbatim>\<open>Initialized\<close>: setting it again changes nothing,
  so neither the token is cleared nor the change count raised, and the session runs for the
  new account with a token of the old one.
\<close>

theorem credentials_race_keeps_token:
  assumes "credentials l = Some a" and "a \<noteq> b" and "session_state l = Initialized"
    and "GetSessionState l = (state, changes)"
    and "AddSessionToken t a l = Some (True, l1)"
    and "SetCredentials b l1 = l2"
    and "SetSessionStateSafe (Running response) changes l2 = (ok, l3)"
  shows "ok \<and> session_state l3 = Running response \<and> credentials l3 = Some b
    \<and> t \<in> set (session_tokens l3)"
proof -
  have l1: "l1 = l\<lparr>session_tokens := session_tokens l @ [t]\<rparr>"
    using assms(1,5) by (auto simp: AddSessionToken_def push_token_def split: if_splits)
  then have "l2 = l1\<lparr>credentials := Some b\<rparr>"
    using assms(1-3,6) by (auto simp: SetCredentials_def ChangeSessionStateInternal_def)
  with assms(3,4,7) l1 show ?thesis
    by (auto simp: SetSessionStateSafe_def GetSessionState_def ChangeSessionStateInternal_def
        Let_def split: if_splits)
qed

definition example_response :: "error_code \<Rightarrow> string \<Rightarrow> get_session_token_Response" where [code_defs]:
  "example_response e t =
     \<lparr>rb_error_code = e, rb_error_string = [], rb_new_key = False, rb_session_token = t,
      rb_pkey = ''p'', rb_time = ''0'', rb_secret_key = 7\<rparr>"

theorem credentials_race_keeps_token_witness:
  "\<exists>l1 l2 l3. AddSessionToken (example_token ''t'') (Facebook ''a'')
        (SetCredentials (Facebook ''a'') SessionMaintainerLocker) = Some (True, l1)
     \<and> SetCredentials (Facebook ''b'') l1 = l2
     \<and> SetSessionStateSafe (Running (example_response no_error ''t'')) 1 l2 = (True, l3)
     \<and> credentials l3 = Some (Facebook ''b'') \<and> example_token ''t'' \<in> set (session_tokens l3)"
proof -
  define start where "start = SetCredentials (Facebook ''a'') SessionMaintainerLocker"
  have l: "start = SessionMaintainerLocker\<lparr>credentials := Some (Facebook ''a''),
      session_state := Initialized, session_state_change_count := 1\<rparr>"
    by (simp add: start_def SetCredentials_def ChangeSessionStateInternal_def SessionMaintainerLocker_def)
  then have at: "credentials start = Some (Facebook ''a'')" "Facebook ''a'' \<noteq> Facebook ''b''"
    "session_state start = Initialized" "GetSessionState start = (Initialized, 1)"
    by (simp_all add: GetSessionState_def)
  obtain l1 where l1: "AddSessionToken (example_token ''t'') (Facebook ''a'') start = Some (True, l1)"
    by (simp add: l AddSessionToken_def push_token_def SessionMaintainerLocker_def)
  obtain ok l3 where l3: "SetSessionStateSafe (Running (example_response no_error ''t'')) 1
      (SetCredentials (Facebook ''b'') l1) = (ok, l3)"
    by fastforce
  from credentials_race_keeps_token [OF at l1 refl l3] l1 l3 show ?thesis by (auto simp: start_def)
qed

end
