(* ===== verification/Session_Maintainer.thy ===== *)
theory Session_Maintainer
  imports Session_Locker "HOL-Library.Monad_Syntax"
begin

text \<open>
  \<^verbatim>\<open>api/session_maintainer.*\<close> with the request objects it manages
  (\<^verbatim>\<open>api/detail/session_maintainer_request.hpp\<close>, \<^verbatim>\<open>api/detail/requester_impl.hpp\<close>).
  The maintainer hands waiting requests to the HTTP layer, asks for session tokens within its
  limits, and reacts to responses, timers and new credentials. A handler runs on the work
  io_service as one step. What the server and the network do is the environment: any response
  may come for a request that is in flight.
\<close>

section \<open>State\<close>

text \<open>
  What a request has behind it: no HTTP request yet (\<^verbatim>\<open>request_\<close> is null), one that is under
  way with the token it carries, or one that has ended (\<^verbatim>\<open>request_\<close> is set, but the pointer
  inside \<^verbatim>\<open>RequesterImpl\<close> is reset).
\<close>

datatype attempt = NoAttempt | HttpActive "string option" | HttpFinished

record maintainer =
  locker :: locker
  token_requests :: "Credentials list"    \<comment> \<open>\<^verbatim>\<open>user/get_session_token\<close> calls in flight\<close>
  status_requests :: nat                  \<comment> \<open>\<^verbatim>\<open>system/get_status\<close> calls in flight\<close>
  session_token_failure_timer :: "nat option"
  session_token_failure_due :: nat        \<comment> \<open>expired waits whose handler is posted\<close>
  connection_state_recheck_timer :: "nat option"
  connection_state_recheck_due :: nat
  timeout_seconds :: nat
  attempts :: "STRequest \<Rightarrow> attempt"
  posted_responses :: "(STRequest \<times> ResponseBase) list"   \<comment> \<open>posted to the callback io_service\<close>
  callbacks :: "(STRequest \<times> error_code) list"            \<comment> \<open>calls of \<^verbatim>\<open>completion_callback_\<close>\<close>
  known :: "STRequest set"
  cancelled :: "STRequest list"           \<comment> \<open>\<^verbatim>\<open>Cancel\<close> calls before the request was sent\<close>
  issued :: "(string \<times> Credentials) list" \<comment> \<open>tokens the server gave, and for whom\<close>
  sent :: "(STRequest \<times> string \<times> Credentials option) list"

definition SessionMaintainer :: maintainer where
  "SessionMaintainer =
     \<lparr>locker = SessionMaintainerLocker, token_requests = [], status_requests = 0,
      session_token_failure_timer = None, session_token_failure_due = 0,
      connection_state_recheck_timer = None, connection_state_recheck_due = 0,
      timeout_seconds = 60, attempts = (\<lambda>_. NoAttempt), posted_responses = [], callbacks = [],
      known = {}, cancelled = [], issued = [], sent = []\<rparr>"

definition skProlongedFailureThreshold :: uint32 where [code_defs]:
  "skProlongedFailureThreshold = 10"

definition session_token_failure_wait_timeout_ms :: nat where [code_defs]:
  "session_token_failure_wait_timeout_ms = 2500"

definition connection_state_recheck_timeout_ms :: nat where [code_defs]:
  "connection_state_recheck_timeout_ms = 5000"

definition session_token_credential_failure_wait_timeout_ms :: nat where [code_defs]:
  "session_token_credential_failure_wait_timeout_ms = 60000"

definition session_token_account_locked_wait_timeout_ms :: nat where [code_defs]:
  "session_token_account_locked_wait_timeout_ms = 600000"

text \<open>The clock of the io_service, in milliseconds; \<^verbatim>\<open>second_clock\<close> drops the fraction.\<close>

definition now_ms :: "maintainer \<Rightarrow> nat" where
  "now_ms m = clock (delayed_requests (locker m))"

definition second_clock :: "maintainer \<Rightarrow> nat" where
  "second_clock m = now_ms m div 1000"

section \<open>Connection state\<close>

definition IsConnectionError :: "error_code \<Rightarrow> bool" where [code_defs]:
  "IsConnectionError ec \<longleftrightarrow>
     ec \<in> set (map http_error_error
       [UnableToConnect, UnableToConnectToProxy, UnableToResolve, SslHandshakeFailure,
        WriteFailure, ReadFailure, ProxyProtocolFailure, IoTimeout])"

text \<open>\<^verbatim>\<open>expires_from_now\<close> cancels the wait that is pending, \<^verbatim>\<open>async_wait\<close> starts one.\<close>

definition UpdateConnectionStateFromErrorCode :: "error_code \<Rightarrow> maintainer \<Rightarrow> maintainer" where
  "UpdateConnectionStateFromErrorCode ec m =
     (if IsConnectionError ec
      then m\<lparr>locker := SetConnectionState (Unconnected ec) (locker m),
             connection_state_recheck_timer :=
               Some (now_ms m + connection_state_recheck_timeout_ms)\<rparr>
      else m\<lparr>locker := SetConnectionState Connected (locker m)\<rparr>)"

definition AttemptConnection :: "maintainer \<Rightarrow> maintainer" where
  "AttemptConnection m = m\<lparr>status_requests := status_requests m + 1\<rparr>"

section \<open>Starting requests\<close>

text \<open>\<^verbatim>\<open>SessionMaintainerRequest::Init\<close> after \<^verbatim>\<open>SetSessionToken\<close>\<close>

definition Init :: "STRequest \<Rightarrow> string option \<Rightarrow> maintainer \<Rightarrow> maintainer" where
  "Init request token m =
     m\<lparr>attempts := (attempts m)(request := HttpActive token),
       sent := (case token of
                  None \<Rightarrow> sent m
                | Some t \<Rightarrow> sent m @ [(request, t, credentials (locker m))])\<rparr>"

text \<open>The first loop of \<^verbatim>\<open>AttemptRequests\<close>\<close>

function StartNonSessionTokenRequests :: "maintainer \<Rightarrow> maintainer" where
  "StartNonSessionTokenRequests m =
     (case NextWaitingNonSessionTokenRequest (locker m) of
        (None, l) \<Rightarrow> m
      | (Some request, l) \<Rightarrow>
          let m = Init request None (m\<lparr>locker := l\<rparr>)
          in StartNonSessionTokenRequests
               (m\<lparr>locker := AddInProgressRequest request (locker m)\<rparr>))"
  by pat_completeness auto

termination
  by (relation "measure (\<lambda>m. length (waiting_non_st_requests (locker m)))")
     (auto simp: NextWaitingNonSessionTokenRequest_def Init_def AddInProgressRequest_def
        split: list.splits)

text \<open>The second loop\<close>

function StartSessionTokenRequests :: "maintainer \<Rightarrow> maintainer" where
  "StartSessionTokenRequests m =
     (if IsRunning (session_state (locker m)) then
        (case NextWaitingSessionTokenRequest (locker m) of
           (None, l) \<Rightarrow> m
         | (Some (request, st), l) \<Rightarrow>
             let m = Init request (Some (session_token st)) (m\<lparr>locker := l\<rparr>)
             in StartSessionTokenRequests
                  (m\<lparr>locker := AddInProgressRequestToken request st (locker m)\<rparr>))
      else m)"
  by pat_completeness auto

termination
  by (relation "measure (\<lambda>m. length (waiting_st_requests (locker m)))")
     (auto simp: NextWaitingSessionTokenRequest_def Init_def AddInProgressRequestToken_def
        AddInProgressRequest_def split: list.splits if_splits)

section \<open>Requesting session tokens\<close>

definition TryRequestSessionToken :: "Credentials \<Rightarrow> maintainer \<Rightarrow> bool \<times> maintainer" where
  "TryRequestSessionToken c m =
     (case StartRequestSessionToken (locker m) of
        (False, l) \<Rightarrow> (False, m)
      | (True, l) \<Rightarrow> (True, m\<lparr>locker := l, token_requests := token_requests m @ [c]\<rparr>))"

text \<open>\<^verbatim>\<open>while (TryRequestSessionToken(*credentials)) {}\<close>\<close>

function RequestSessionTokens :: "Credentials \<Rightarrow> maintainer \<Rightarrow> maintainer" where
  "RequestSessionTokens c m =
     (case TryRequestSessionToken c m of
        (False, _) \<Rightarrow> m
      | (True, m') \<Rightarrow> RequestSessionTokens c m')"
  by pat_completeness auto

termination
  by (relation "measure (\<lambda>(c, m). max_in_progress_token_requests
                                     - in_progress_session_token_requests (locker m))")
     (auto simp: TryRequestSessionToken_def StartRequestSessionToken_def Let_def
        max_in_progress_token_requests_def split: if_splits)

datatype BadCredentialBehavior = Force | NoForce

definition RequestNeededSessionTokens :: "BadCredentialBehavior \<Rightarrow> maintainer \<Rightarrow> maintainer" where
  "RequestNeededSessionTokens badCredentialBehavior m =
     (let haveBadCredentials = IsCredentialsError (session_state (locker m)) in
      if \<not> haveBadCredentials \<or> badCredentialBehavior = Force then
        (case GetCredenials (locker m) of
           None \<Rightarrow> m
         | Some c \<Rightarrow>
             if haveBadCredentials then snd (TryRequestSessionToken c m)
             else RequestSessionTokens c m)
      else m)"

definition AttemptRequests :: "maintainer \<Rightarrow> maintainer" where
  "AttemptRequests m =
     (if IsUnconnected (GetConnectionState (locker m)) then AttemptConnection m
      else RequestNeededSessionTokens NoForce
             (StartSessionTokenRequests (StartNonSessionTokenRequests m)))"

declare StartNonSessionTokenRequests.simps [simp del] StartSessionTokenRequests.simps [simp del]
  RequestSessionTokens.simps [simp del]

section \<open>Handlers\<close>

definition SetLoginCredentials :: "Credentials \<Rightarrow> maintainer \<Rightarrow> maintainer" where
  "SetLoginCredentials c m = AttemptRequests (m\<lparr>locker := SetCredentials c (locker m)\<rparr>)"

definition SM_AddWaitingRequest :: "STRequest \<Rightarrow> maintainer \<Rightarrow> maintainer" where
  "SM_AddWaitingRequest request m =
     AttemptRequests (m\<lparr>locker := AddWaitingRequest request (locker m)\<rparr>)"

definition HandleCompletion :: "STRequest \<Rightarrow> ResponseBase \<Rightarrow> maintainer \<Rightarrow> maintainer option" where
  "HandleCompletion request response m = do {
     let l = RemoveInProgressRequest request (locker m);
     l \<leftarrow> (if IsInvalidSessionTokenError (rb_error_code response)
           then Some (DeleteCheckedOutToken request l)
           else ReuseToken request (rb_new_key response) l);
     Some (AttemptRequests (m\<lparr>locker := l\<rparr>))
   }"

definition HandleRetryRequest :: "STRequest \<Rightarrow> ResponseBase \<Rightarrow> maintainer \<Rightarrow> maintainer option" where
  "HandleRetryRequest request response m = do {
     l \<leftarrow> (if IsInvalidSessionTokenError (rb_error_code response)
           then Some (DeleteCheckedOutToken request (MoveInProgressToWaiting request (locker m)))
           else ReuseToken request (rb_new_key response)
                  (MoveInProgressToDelayed request 1 (locker m)));
     Some (AttemptRequests (m\<lparr>locker := l\<rparr>))
   }"

definition HandleCompletionNotification :: "ResponseBase \<Rightarrow> maintainer \<Rightarrow> maintainer" where
  "HandleCompletionNotification response m =
     UpdateConnectionStateFromErrorCode (rb_error_code response) m"

definition HandleCheckConnectionStatusResponse :: "ResponseBase \<Rightarrow> maintainer \<Rightarrow> maintainer" where
  "HandleCheckConnectionStatusResponse response m =
     (let m = UpdateConnectionStateFromErrorCode (rb_error_code response) m
      in if IsConnected (GetConnectionState (locker m)) then AttemptRequests m else m)"

text \<open>
  The failure branch of \<^verbatim>\<open>HandleSessionTokenResponse\<close>: \<open>state\<close> and \<open>changes\<close> were read before
  the connection state was updated.
\<close>

definition HandleTokenFailure ::
  "get_session_token_Response \<Rightarrow> Credentials \<Rightarrow> SessionState \<Rightarrow> uint32 \<Rightarrow> maintainer \<Rightarrow> maintainer"
where
  "HandleTokenFailure response old_credentials state changes m =
     (let ec = rb_error_code response;
          m = m\<lparr>locker := IncrementFailureCount (locker m)\<rparr>
      in if IsInvalidCredentialsError ec then
           let m = m\<lparr>session_token_failure_timer :=
                       Some (now_ms m + session_token_credential_failure_wait_timeout_ms)\<rparr>
           in if \<not> IsUninitialized state \<and> \<not> IsCredentialsError state
                 \<and> GetCredenials (locker m) = Some old_credentials
              then m\<lparr>locker := snd (SetSessionStateSafe
                        (CredentialsFailure
                          (if rb_pkey response = [] then None else Some (rb_pkey response))
                          ec response) changes (locker m))\<rparr>
              else m
         else
           let accountIsLocked = matches ec (errc ''AccountTemporarilyLocked'');
               wait_time = (if accountIsLocked then session_token_account_locked_wait_timeout_ms
                            else session_token_failure_wait_timeout_ms);
               m = m\<lparr>session_token_failure_timer := Some (now_ms m + wait_time)\<rparr>
           in if (skProlongedFailureThreshold \<le> GetFailureCount (locker m) \<or> accountIsLocked)
                 \<and> (IsInitialized state \<or> IsProlongedError state)
              then m\<lparr>locker := snd (SetSessionStateSafe (ProlongedError ec response) changes
                                     (locker m))\<rparr>
              else m)"

definition token_of_response :: "get_session_token_Response \<Rightarrow> SessionTokenData" where [code_defs]:
  "token_of_response r =
     \<lparr>session_token = rb_session_token r, pkey = rb_pkey r, time = rb_time r,
      secret_key = rb_secret_key r\<rparr>"

definition HandleTokenSuccess ::
  "get_session_token_Response \<Rightarrow> Credentials \<Rightarrow> SessionState \<Rightarrow> uint32 \<Rightarrow> maintainer
     \<Rightarrow> maintainer option" where
  "HandleTokenSuccess response old_credentials state changes m = do {
     (added, l) \<leftarrow> AddSessionToken (token_of_response response) old_credentials
                     (ResetFailureCount (locker m));
     let l = (if added \<and> \<not> IsUninitialized state \<and> \<not> IsRunning state
              then snd (SetSessionStateSafe (Running response) changes l) else l);
     Some (AttemptRequests (m\<lparr>locker := l\<rparr>))
   }"

definition HandleSessionTokenResponse ::
  "get_session_token_Response \<Rightarrow> Credentials \<Rightarrow> maintainer \<Rightarrow> maintainer option" where
  "HandleSessionTokenResponse response old_credentials m = do {
     l \<leftarrow> DecrementSessionTokenInProgressCount (locker m);
     let (state, changes) = GetSessionState l;
     let m = UpdateConnectionStateFromErrorCode (rb_error_code response) (m\<lparr>locker := l\<rparr>);
     if is_error (rb_error_code response)
     then Some (HandleTokenFailure response old_credentials state changes m)
     else HandleTokenSuccess response old_credentials state changes m
   }"

definition HandleSessionTokenFailureTimeout :: "maintainer \<Rightarrow> maintainer" where
  "HandleSessionTokenFailureTimeout m = RequestNeededSessionTokens Force (AttemptRequests m)"

definition HandleConnectionStateRecheckTimeout :: "maintainer \<Rightarrow> maintainer" where
  "HandleConnectionStateRecheckTimeout m = AttemptRequests m"

section \<open>The request object\<close>

definition complete :: "STRequest \<Rightarrow> error_code \<Rightarrow> maintainer \<Rightarrow> maintainer" where
  "complete request ec m = m\<lparr>callbacks := callbacks m @ [(request, ec)]\<rparr>"

text \<open>
  \<^verbatim>\<open>SessionMaintainerRequest::Fail\<close>. On an HTTP request under way it asks the HTTP layer to
  fail, which answers later; on one that has ended \<^verbatim>\<open>RequesterImpl::Fail\<close> does nothing.
\<close>

definition Fail :: "STRequest \<Rightarrow> error_code \<Rightarrow> maintainer \<Rightarrow> maintainer" where
  "Fail request ec m =
     (case attempts m request of
        NoAttempt \<Rightarrow> complete request ec m
      | HttpActive _ \<Rightarrow> m
      | HttpFinished \<Rightarrow> m)"

definition Cancel :: "STRequest \<Rightarrow> maintainer \<Rightarrow> maintainer" where
  "Cancel request m =
     (case attempts m request of
        NoAttempt \<Rightarrow>
          (complete request (http_error_error Cancelled) m)
            \<lparr>cancelled := cancelled m @ [request]\<rparr>
      | HttpActive _ \<Rightarrow> m
      | HttpFinished \<Rightarrow> m)"

text \<open>\<^verbatim>\<open>RequesterImpl::RequestResponseErrorEvent\<close> and \<^verbatim>\<open>RequestResponseCompleteEvent\<close>\<close>

definition RequestResponseEvent :: "STRequest \<Rightarrow> ResponseBase \<Rightarrow> maintainer \<Rightarrow> maintainer" where
  "RequestResponseEvent request response m =
     m\<lparr>attempts := (attempts m)(request := HttpFinished),
       posted_responses := posted_responses m @ [(request, response)]\<rparr>"

definition CallbackProxy :: "STRequest \<Rightarrow> ResponseBase \<Rightarrow> maintainer \<Rightarrow> maintainer option" where
  "CallbackProxy request response m = do {
     let ec = rb_error_code response;
     let m = HandleCompletionNotification response m;
     if (\<not> UsesSessionToken request \<or> \<not> is_error ec)
        \<or> \<not> second_clock m < max_retry_time request
        \<or> \<not> (IsInvalidSessionTokenError ec \<or> ec = result_error AsyncOperationInProgress)
     then do {
       m \<leftarrow> HandleCompletion request response m;
       Some (complete request ec m)
     }
     else HandleRetryRequest request response m
   }"

text \<open>The event processors of the two timers of the locker\<close>

definition HandleRequestTimeout :: "STRequest \<Rightarrow> maintainer \<Rightarrow> maintainer" where
  "HandleRequestTimeout request m =
     (case HandleTimedOutRequest request (locker m) of
        (None, l) \<Rightarrow> m
      | (Some code, l) \<Rightarrow> Fail request (api_error code) (m\<lparr>locker := l\<rparr>))"

definition Call :: "STRequest \<Rightarrow> maintainer \<Rightarrow> maintainer" where
  "Call request m = SM_AddWaitingRequest request (m\<lparr>known := insert request (known m)\<rparr>)"

definition pass_time :: "nat \<Rightarrow> locker \<Rightarrow> locker" where
  "pass_time d l =
     l\<lparr>delayed_requests := (delayed_requests l)\<lparr>clock := clock (delayed_requests l) + d\<rparr>,
       time_out_requests := (time_out_requests l)\<lparr>clock := clock (time_out_requests l) + d\<rparr>\<rparr>"

section \<open>Steps\<close>

text \<open>
  The work a timer object does by itself: posted handlers, leaving its loop, its expiry.
\<close>

definition te_quiet :: "'e timed_events \<Rightarrow> 'e timed_events \<Rightarrow> bool" where
  "te_quiet q q' \<longleftrightarrow>
     te_step q q' \<and> data q' = data q \<and> fired q' = fired q \<and> clock q' = clock q
     \<and> running q' = running q"

text \<open>
  The environment gives a token string once. A request handle is new when no known request
  has its address.
\<close>

inductive mstep :: "maintainer \<Rightarrow> maintainer \<Rightarrow> bool" where
  Credentials: "mstep m (SetLoginCredentials c m)"
| Call: "req_id r \<notin> req_id ` known m \<Longrightarrow> TimeoutSeconds r = timeout_seconds m
    \<Longrightarrow> max_retry_time r = second_clock m + timeout_seconds m \<Longrightarrow> mstep m (Call r m)"
| Cancel: "r \<in> known m \<Longrightarrow> mstep m (Cancel r m)"
| Timeout_Seconds: "mstep m (m\<lparr>timeout_seconds := n\<rparr>)"
| Callback_Setters: "mstep m (m\<lparr>locker := SetSessionStateChangeCallback a
      (SetConnectionStateChangeCallback b (locker m))\<rparr>)"
| Stop_Timeouts: "mstep m (m\<lparr>locker := StopTimeouts (locker m)\<rparr>)"
| Token_Failure: "c \<in> set (token_requests m) \<Longrightarrow> is_error (rb_error_code response)
    \<Longrightarrow> HandleSessionTokenResponse response c
          (m\<lparr>token_requests := remove1 c (token_requests m)\<rparr>) = Some m' \<Longrightarrow> mstep m m'"
| Token_Success: "c \<in> set (token_requests m) \<Longrightarrow> \<not> is_error (rb_error_code response)
    \<Longrightarrow> rb_session_token response \<notin> fst ` set (issued m)
    \<Longrightarrow> HandleSessionTokenResponse response c
          (m\<lparr>token_requests := remove1 c (token_requests m),
             issued := (rb_session_token response, c) # issued m\<rparr>) = Some m' \<Longrightarrow> mstep m m'"
| Status_Response: "0 < status_requests m \<Longrightarrow>
    mstep m (HandleCheckConnectionStatusResponse response
               (m\<lparr>status_requests := status_requests m - 1\<rparr>))"
| Http_Response: "attempts m r = HttpActive t \<Longrightarrow> mstep m (RequestResponseEvent r response m)"
| Callback: "(r, response) \<in> set (posted_responses m)
    \<Longrightarrow> CallbackProxy r response
          (m\<lparr>posted_responses := remove1 (r, response) (posted_responses m)\<rparr>) = Some m'
    \<Longrightarrow> mstep m m'"
| Failure_Expires: "session_token_failure_timer m = Some t \<Longrightarrow> t \<le> now_ms m
    \<Longrightarrow> mstep m (m\<lparr>session_token_failure_timer := None,
                   session_token_failure_due := session_token_failure_due m + 1\<rparr>)"
| Failure_Timeout: "0 < session_token_failure_due m
    \<Longrightarrow> mstep m (HandleSessionTokenFailureTimeout
                 (m\<lparr>session_token_failure_due := session_token_failure_due m - 1\<rparr>))"
| Recheck_Expires: "connection_state_recheck_timer m = Some t \<Longrightarrow> t \<le> now_ms m
    \<Longrightarrow> mstep m (m\<lparr>connection_state_recheck_timer := None,
                   connection_state_recheck_due := connection_state_recheck_due m + 1\<rparr>)"
| Recheck_Timeout: "0 < connection_state_recheck_due m
    \<Longrightarrow> mstep m (HandleConnectionStateRecheckTimeout
                 (m\<lparr>connection_state_recheck_due := connection_state_recheck_due m - 1\<rparr>))"
| Request_Timeout: "n \<in> set (loops (time_out_requests (locker m)))
    \<Longrightarrow> reset_iteration n (time_out_requests (locker m)) = (True, q)
    \<Longrightarrow> data (time_out_requests (locker m)) = (t, r) # rest
    \<Longrightarrow> mstep m (HandleRequestTimeout r (m\<lparr>locker := (locker m)\<lparr>time_out_requests := q\<rparr>\<rparr>))"
| Delay_Over: "n \<in> set (loops (delayed_requests (locker m)))
    \<Longrightarrow> reset_iteration n (delayed_requests (locker m)) = (True, q)
    \<Longrightarrow> data (delayed_requests (locker m)) = (t, r) # rest
    \<Longrightarrow> mstep m (SM_AddWaitingRequest r (m\<lparr>locker := (locker m)\<lparr>delayed_requests := q\<rparr>\<rparr>))"
| Delay_Work: "te_quiet (delayed_requests (locker m)) q
    \<Longrightarrow> mstep m (m\<lparr>locker := (locker m)\<lparr>delayed_requests := q\<rparr>\<rparr>)"
| Timeout_Work: "te_quiet (time_out_requests (locker m)) q
    \<Longrightarrow> mstep m (m\<lparr>locker := (locker m)\<lparr>time_out_requests := q\<rparr>\<rparr>)"
| Time: "mstep m (m\<lparr>locker := pass_time d (locker m)\<rparr>)"

inductive mreachable :: "maintainer \<Rightarrow> bool" where
  start: "mreachable SessionMaintainer"
| step: "mreachable m \<Longrightarrow> mstep m m' \<Longrightarrow> mreachable m'"

section \<open>The loops keep what one round keeps\<close>

text \<open>One round of each loop.\<close>

definition start_non_st :: "STRequest \<Rightarrow> locker \<Rightarrow> maintainer \<Rightarrow> maintainer" where
  "start_non_st r l m = (Init r None (m\<lparr>locker := l\<rparr>))\<lparr>locker := AddInProgressRequest r l\<rparr>"

definition start_st :: "STRequest \<Rightarrow> SessionTokenData \<Rightarrow> locker \<Rightarrow> maintainer \<Rightarrow> maintainer" where
  "start_st r t l m =
     (Init r (Some (session_token t)) (m\<lparr>locker := l\<rparr>))
       \<lparr>locker := AddInProgressRequestToken r t l\<rparr>"

lemma locker_Init [simp]: "locker (Init r t m) = locker m"
  by (simp add: Init_def)

lemma StartNonSessionTokenRequests_step:
  "StartNonSessionTokenRequests m =
     (case NextWaitingNonSessionTokenRequest (locker m) of
        (None, l) \<Rightarrow> m | (Some r, l) \<Rightarrow> StartNonSessionTokenRequests (start_non_st r l m))"
  by (subst StartNonSessionTokenRequests.simps)
     (simp add: start_non_st_def Let_def split: prod.split option.split)

lemma StartSessionTokenRequests_step:
  "StartSessionTokenRequests m =
     (if IsRunning (session_state (locker m)) then
        (case NextWaitingSessionTokenRequest (locker m) of
           (None, l) \<Rightarrow> m | (Some (r, t), l) \<Rightarrow> StartSessionTokenRequests (start_st r t l m))
      else m)"
  by (subst StartSessionTokenRequests.simps)
     (simp add: start_st_def Let_def split: prod.split option.split)

lemma StartNonSessionTokenRequests_invariant:
  assumes round: "\<And>m r l. P m \<Longrightarrow> NextWaitingNonSessionTokenRequest (locker m) = (Some r, l)
      \<Longrightarrow> P (start_non_st r l m)"
  shows "P m \<Longrightarrow> P (StartNonSessionTokenRequests m)"
proof (induction m rule: StartNonSessionTokenRequests.induct)
  case (1 m)
  then show ?case
    using round [of m]
    by (subst StartNonSessionTokenRequests_step)
       (auto simp: start_non_st_def split: prod.split option.split)
qed

lemma StartSessionTokenRequests_invariant:
  assumes round: "\<And>m r t l. P m \<Longrightarrow> IsRunning (session_state (locker m))
      \<Longrightarrow> NextWaitingSessionTokenRequest (locker m) = (Some (r, t), l) \<Longrightarrow> P (start_st r t l m)"
  shows "P m \<Longrightarrow> P (StartSessionTokenRequests m)"
proof (induction m rule: StartSessionTokenRequests.induct)
  case (1 m)
  then show ?case
    using round [of m]
    by (subst StartSessionTokenRequests_step)
       (auto simp: start_st_def split: prod.split option.split)
qed

lemma RequestSessionTokens_invariant:
  assumes round: "\<And>m m'. P m \<Longrightarrow> TryRequestSessionToken c m = (True, m') \<Longrightarrow> P m'"
  shows "P m \<Longrightarrow> P (RequestSessionTokens c m)"
  using round
proof (induction c m rule: RequestSessionTokens.induct)
  case (1 c m)
  obtain b m' where asked: "TryRequestSessionToken c m = (b, m')" by fastforce
  show ?case
  proof (cases b)
    case True
    with asked have go: "TryRequestSessionToken c m = (True, m')" by simp
    then have "P m'" using "1.prems" by blast
    then have "P (RequestSessionTokens c m')"
      using "1.IH" [OF go [symmetric] refl] "1.prems"(2) by blast
    with True asked show ?thesis by (simp add: RequestSessionTokens.simps [of c m])
  next
    case False
    with asked "1.prems" show ?thesis by (simp add: RequestSessionTokens.simps [of c m])
  qed
qed

text \<open>
  What \<^verbatim>\<open>AttemptRequests\<close> and the token requests keep, from what their rounds keep.
\<close>

lemma RequestNeededSessionTokens_invariant:
  assumes "\<And>m m' c. P m \<Longrightarrow> credentials (locker m) = Some c
      \<Longrightarrow> TryRequestSessionToken c m = (True, m') \<Longrightarrow> P m'"
    and "P m"
  shows "P (RequestNeededSessionTokens b m)"
proof -
  have keep: "credentials (locker m'') = credentials (locker m')"
    if "TryRequestSessionToken c m' = (True, m'')" for c m' m''
    using that
    by (auto simp: TryRequestSessionToken_def StartRequestSessionToken_def Let_def
        split: prod.splits bool.splits if_splits)
  have many: "P (RequestSessionTokens c m)" if c: "credentials (locker m) = Some c" for c
  proof -
    have "P (RequestSessionTokens c m) \<and> credentials (locker (RequestSessionTokens c m)) = Some c"
    proof (rule RequestSessionTokens_invariant
        [where P = "\<lambda>m. P m \<and> credentials (locker m) = Some c"])
      show "P m'' \<and> credentials (locker m'') = Some c"
        if "P m' \<and> credentials (locker m') = Some c"
          and "TryRequestSessionToken c m' = (True, m'')" for m' m''
        using assms(1) [of m' c m''] keep [OF that(2)] that by simp
    qed (use assms(2) c in simp)
    then show ?thesis by simp
  qed
  have one: "P (snd (TryRequestSessionToken c m))" if c: "credentials (locker m) = Some c" for c
  proof (cases "fst (TryRequestSessionToken c m)")
    case True
    then show ?thesis using assms(1) [OF assms(2) c] by (simp add: prod_eq_iff)
  next
    case False
    then show ?thesis
      using assms(2) by (simp add: TryRequestSessionToken_def split: prod.splits bool.splits)
  qed
  show ?thesis
    using assms(2) many one
    by (simp add: RequestNeededSessionTokens_def GetCredenials_def Let_def split: option.split)
qed

lemma AttemptRequests_invariant:
  assumes "\<And>m r l. P m \<Longrightarrow> NextWaitingNonSessionTokenRequest (locker m) = (Some r, l)
      \<Longrightarrow> P (start_non_st r l m)"
    and "\<And>m r t l. P m \<Longrightarrow> IsRunning (session_state (locker m))
      \<Longrightarrow> NextWaitingSessionTokenRequest (locker m) = (Some (r, t), l) \<Longrightarrow> P (start_st r t l m)"
    and "\<And>m m' c. P m \<Longrightarrow> credentials (locker m) = Some c
      \<Longrightarrow> TryRequestSessionToken c m = (True, m') \<Longrightarrow> P m'"
    and "\<And>m. P m \<Longrightarrow> P (AttemptConnection m)"
    and "P m"
  shows "P (AttemptRequests m)"
proof -
  have "P (StartNonSessionTokenRequests m)"
    using assms(5) by (rule StartNonSessionTokenRequests_invariant [rotated]) (erule (1) assms(1))
  then have "P (StartSessionTokenRequests (StartNonSessionTokenRequests m))"
    by (rule StartSessionTokenRequests_invariant [rotated]) (erule (2) assms(2))
  then have "P (RequestNeededSessionTokens NoForce
      (StartSessionTokenRequests (StartNonSessionTokenRequests m)))"
    by (rule RequestNeededSessionTokens_invariant [rotated]) (erule (2) assms(3))
  then show ?thesis
    using assms(4) [OF assms(5)] by (simp add: AttemptRequests_def)
qed

end
