(* ===== verification/Session_Tokens.thy ===== *)
theory Session_Tokens
  imports Session_Maintainer
begin

text \<open>
  The session tokens of the maintainer: how many there can be, whose they are, and that no
  assertion on them fails. The invariant \<open>pool_ok\<close> speaks of the locker, given the tokens
  issued so far and the number of token requests in flight; each operation of the locker has
  one preservation lemma, the handlers follow from those.
\<close>

section \<open>The interface the request loop relies on\<close>

text \<open>
  The loop that asks for tokens sees the locker as a counter of requests that it may raise
  while permission is given. Its bounds hold for whatever provides these laws.
\<close>

locale token_budget =
  fixes start :: "'s \<Rightarrow> bool \<times> 's"
    and pending stock :: "'s \<Rightarrow> nat"
    and cap total :: nat
  assumes start_True: "start s = (True, s') \<Longrightarrow> pending s' = Suc (pending s) \<and> stock s' = stock s
      \<and> Suc (pending s) \<le> cap \<and> Suc (pending s) + stock s \<le> total"
    and start_False: "start s = (False, s') \<Longrightarrow> s' = s"
    and start_idle: "pending s = 0 \<Longrightarrow> stock s = 0 \<Longrightarrow> fst (start s)"
begin

lemma bounds_start:
  assumes "pending s \<le> cap" and "pending s + stock s \<le> total" and "start s = (b, s')"
  shows "pending s' \<le> cap" and "pending s' + stock s' \<le> total"
  using assms start_True [of s s'] start_False [of s s'] by (cases b; simp)+

lemma start_measure: "start s = (True, s') \<Longrightarrow> cap - pending s' < cap - pending s"
  using start_True by fastforce

lemma refused_busy: "start s = (False, s') \<Longrightarrow> 0 < pending s \<or> 0 < stock s"
  using start_idle [of s] by (cases "pending s"; cases "stock s") auto

end

definition token_supply :: "locker \<Rightarrow> nat" where
  "token_supply l = length (session_tokens l) + length (checked_out_tokens l)"

interpretation budget: token_budget StartRequestSessionToken in_progress_session_token_requests
  token_supply max_in_progress_token_requests max_tokens
proof
  fix l l'
  show "StartRequestSessionToken l = (True, l') \<Longrightarrow>
    in_progress_session_token_requests l' = Suc (in_progress_session_token_requests l)
    \<and> token_supply l' = token_supply l
    \<and> Suc (in_progress_session_token_requests l) \<le> max_in_progress_token_requests
    \<and> Suc (in_progress_session_token_requests l) + token_supply l \<le> max_tokens"
    by (auto simp: StartRequestSessionToken_def Let_def token_supply_def
        max_in_progress_token_requests_def max_tokens_def split: if_splits)
  show "StartRequestSessionToken l = (False, l') \<Longrightarrow> l' = l"
    by (auto simp: StartRequestSessionToken_def Let_def split: if_splits)
  show "in_progress_session_token_requests l = 0 \<Longrightarrow> token_supply l = 0
    \<Longrightarrow> fst (StartRequestSessionToken l)"
    by (simp add: StartRequestSessionToken_def Let_def token_supply_def)
qed

section \<open>The invariant\<close>

definition pool_bounds :: "nat \<Rightarrow> locker \<Rightarrow> bool" where
  "pool_bounds n l \<longleftrightarrow> in_progress_session_token_requests l = n \<and> n \<le> max_in_progress_token_requests
     \<and> n + token_supply l \<le> max_tokens"

definition pool_state :: "locker \<Rightarrow> bool" where
  "pool_state l \<longleftrightarrow>
     (IsUninitialized (session_state l) \<longleftrightarrow> credentials l = None)
     \<and> (\<not> IsRunning (session_state l) \<longrightarrow> session_tokens l = [] \<and> checked_out_tokens l = [])"

definition pool_owned :: "(string \<times> Credentials) set \<Rightarrow> locker \<Rightarrow> bool" where
  "pool_owned I l \<longleftrightarrow>
     (\<forall>t\<in>stored_or_out l. \<exists>c. credentials l = Some c \<and> (session_token t, c) \<in> I)"

definition pool_distinct :: "locker \<Rightarrow> bool" where
  "pool_distinct l \<longleftrightarrow>
     distinct (map session_token (session_tokens l @ map snd (checked_out_tokens l)))
     \<and> distinct (map fst (checked_out_tokens l))"

definition pool_ok :: "(string \<times> Credentials) set \<Rightarrow> nat \<Rightarrow> locker \<Rightarrow> bool" where
  "pool_ok I n l \<longleftrightarrow> pool_bounds n l \<and> pool_state l \<and> pool_owned I l \<and> pool_distinct l"

lemmas pool_defs = pool_ok_def pool_bounds_def pool_state_def pool_owned_def pool_distinct_def
  token_supply_def stored_or_out_def

text \<open>The invariant looks only at these fields.\<close>

lemma pool_ok_cong:
  assumes "pool_ok I n l"
    and "session_state l' = session_state l" "credentials l' = credentials l"
    "session_tokens l' = session_tokens l" "checked_out_tokens l' = checked_out_tokens l"
    "in_progress_session_token_requests l' = in_progress_session_token_requests l"
  shows "pool_ok I n l'"
  using assms by (simp add: pool_defs)

lemma pool_ok_mono: "pool_ok I n l \<Longrightarrow> I \<subseteq> J \<Longrightarrow> pool_ok J n l"
  by (fastforce simp: pool_defs)

lemma pool_push_waiting [inv_intros]: "pool_ok I n l \<Longrightarrow> pool_ok I n (push_waiting r l)"
  by (erule pool_ok_cong) (simp_all add: push_waiting_def)

lemma pool_AddWaitingRequest [inv_intros]: "pool_ok I n l \<Longrightarrow> pool_ok I n (AddWaitingRequest r l)"
  by (erule pool_ok_cong) (simp_all add: AddWaitingRequest_def push_waiting_def)

lemma pool_RemoveInProgressRequest [inv_intros]:
  "pool_ok I n l \<Longrightarrow> pool_ok I n (RemoveInProgressRequest r l)"
  by (erule pool_ok_cong) (simp_all add: RemoveInProgressRequest_def)

lemma pool_MoveInProgressToWaiting [inv_intros]:
  "pool_ok I n l \<Longrightarrow> pool_ok I n (MoveInProgressToWaiting r l)"
  unfolding MoveInProgressToWaiting_def by (intro inv_intros)

lemma pool_MoveInProgressToDelayed [inv_intros]:
  "pool_ok I n l \<Longrightarrow> pool_ok I n (MoveInProgressToDelayed r d l)"
  by (erule pool_ok_cong) (simp_all add: MoveInProgressToDelayed_def RemoveInProgressRequest_def)

lemma pool_SetConnectionState [inv_intros]:
  "pool_ok I n l \<Longrightarrow> pool_ok I n (SetConnectionState c l)"
  by (erule pool_ok_cong) (simp_all add: SetConnectionState_def frame_simps)

lemma pool_failure_count [inv_intros]:
  "pool_ok I n l \<Longrightarrow> pool_ok I n (IncrementFailureCount l)"
  "pool_ok I n l \<Longrightarrow> pool_ok I n (ResetFailureCount l)"
  by (erule pool_ok_cong; simp add: IncrementFailureCount_def ResetFailureCount_def)+

lemma pool_StopTimeouts [inv_intros]: "pool_ok I n l \<Longrightarrow> pool_ok I n (StopTimeouts l)"
  by (erule pool_ok_cong) (simp_all add: StopTimeouts_def)

lemma pool_HandleTimedOutRequest [inv_intros]:
  "pool_ok I n l \<Longrightarrow> pool_ok I n (snd (HandleTimedOutRequest r l))"
  by (erule pool_ok_cong) (simp_all add: HandleTimedOutRequest_def)

lemma pool_NextWaitingNonSessionTokenRequest [inv_intros]:
  "pool_ok I n l \<Longrightarrow> pool_ok I n (snd (NextWaitingNonSessionTokenRequest l))"
  by (erule pool_ok_cong)
     (simp_all add: NextWaitingNonSessionTokenRequest_def split: list.splits)

lemma pool_AddInProgressRequest [inv_intros]:
  "pool_ok I n l \<Longrightarrow> pool_ok I n (AddInProgressRequest r l)"
  by (erule pool_ok_cong) (simp_all add: AddInProgressRequest_def)

text \<open>Dropping tokens keeps the invariant.\<close>

lemma pool_ok_shrink:
  assumes "pool_ok I n l"
    and "session_state l' = session_state l" and "credentials l' = credentials l"
    and "in_progress_session_token_requests l' = in_progress_session_token_requests l"
    and ts: "set (session_tokens l') \<subseteq> set (session_tokens l)"
    and tl: "length (session_tokens l') \<le> length (session_tokens l)"
    and td: "distinct (map session_token (session_tokens l'))"
    and out: "checked_out_tokens l' = filter P (checked_out_tokens l)"
  shows "pool_ok I n l'"
proof -
  have len: "length (checked_out_tokens l') \<le> length (checked_out_tokens l)"
    by (simp add: out)
  have sub: "set (checked_out_tokens l') \<subseteq> set (checked_out_tokens l)"
    by (simp add: out)
  have pieces: "pool_bounds n l" "pool_state l" "pool_owned I l" "pool_distinct l"
    using assms(1) by (simp_all add: pool_ok_def)
  have "pool_bounds n l'"
    using pieces(1) assms(4) tl len by (simp add: pool_bounds_def token_supply_def)
  moreover have "pool_state l'"
    using pieces(2) assms(2,3) ts sub by (auto simp: pool_state_def)
  moreover have "pool_owned I l'"
  proof -
    have "stored_or_out l' \<subseteq> stored_or_out l"
      unfolding stored_or_out_def using ts sub by (intro Un_mono image_mono)
    with pieces(3) assms(3) show ?thesis by (auto simp: pool_owned_def)
  qed
  moreover have "pool_distinct l'"
  proof -
    let ?out = "checked_out_tokens l"
    have d: "distinct (map (session_token \<circ> snd) ?out)" "distinct (map fst ?out)"
      "session_token ` set (session_tokens l) \<inter> (session_token \<circ> snd) ` set ?out = {}"
      using pieces(4) by (simp_all add: pool_distinct_def image_comp)
    have "session_token ` set (session_tokens l') \<inter> (session_token \<circ> snd) ` set (filter P ?out) = {}"
      using d(3) ts by auto
    then show ?thesis
      using td d(1,2) by (simp add: pool_distinct_def out distinct_map_filter image_comp)
  qed
  ultimately show ?thesis by (simp add: pool_ok_def)
qed

lemma pool_DeleteCheckedOutToken [inv_intros]:
  assumes "pool_ok I n l"
  shows "pool_ok I n (DeleteCheckedOutToken r l)"
  using assms
  by (rule pool_ok_shrink) (use assms in
      \<open>auto simp: DeleteCheckedOutToken_def AList.delete_eq pool_ok_def pool_distinct_def\<close>)

text \<open>Changing the session state.\<close>

lemma pool_clear:
  assumes "pool_ok I n l" and "in_progress_session_token_requests l' = n"
    and "session_tokens l' = []" and "checked_out_tokens l' = []"
    and "IsUninitialized (session_state l') \<longleftrightarrow> credentials l' = None"
  shows "pool_ok I n l'"
  using assms by (simp add: pool_defs)

lemma pool_SetCredentials [inv_intros]:
  assumes "pool_ok I n l"
  shows "pool_ok I n (SetCredentials c l)"
proof (cases "credentials l = Some c")
  case False
  have "session_state_equal (session_state l) Initialized \<longleftrightarrow> session_state l = Initialized"
    by (cases "session_state l") simp_all
  with assms False show ?thesis
    by (intro pool_clear [OF assms])
       (auto simp: SetCredentials_def ChangeSessionStateInternal_def Let_def pool_defs
          split: option.splits)
qed (simp add: SetCredentials_def assms)

lemma pool_CredentialsFailure [inv_intros]:
  assumes "pool_ok I n l" and "\<not> IsUninitialized (session_state l)"
  shows "pool_ok I n (snd (SetSessionStateSafe (CredentialsFailure p e r) k l))"
proof -
  have "pool_ok I n (ChangeSessionStateInternal (CredentialsFailure p e r) l)"
  proof (cases "session_state_equal (session_state l) (CredentialsFailure p e r)")
    case False
    with assms show ?thesis
      by (intro pool_clear [OF assms(1)])
         (simp_all add: ChangeSessionStateInternal_def Let_def pool_defs)
  qed (simp add: ChangeSessionStateInternal_def assms)
  then show ?thesis by (simp add: SetSessionStateSafe_def assms)
qed

lemma pool_ProlongedError [inv_intros]:
  assumes "pool_ok I n l" and "IsInitialized (session_state l) \<or> IsProlongedError (session_state l)"
  shows "pool_ok I n (snd (SetSessionStateSafe (ProlongedError e r) k l))"
proof -
  have "\<not> IsRunning (session_state l)" "\<not> IsUninitialized (session_state l)"
    using assms(2) by (cases "session_state l"; simp)+
  with assms(1) have "pool_ok I n (ChangeSessionStateInternal (ProlongedError e r) l)"
    by (simp add: ChangeSessionStateInternal_def Let_def pool_defs)
  then show ?thesis by (simp add: SetSessionStateSafe_def assms)
qed

text \<open>Taking a token for a request and keeping it with the request.\<close>

lemma pool_StartSessionTokenRequest [inv_intros]:
  assumes ok: "pool_ok I n l" and next_request: "NextWaitingSessionTokenRequest l = (Some (r, t), l1)"
  shows "pool_ok I n (AddInProgressRequestToken r t l1)"
proof -
  let ?l2 = "AddInProgressRequestToken r t l1"
  obtain ts where ts: "session_tokens l = ts @ [t]"
    and l1: "l1 = l\<lparr>session_tokens := ts, waiting_st_requests := tl (waiting_st_requests l)\<rparr>"
    using next_request
    by (auto simp: NextWaitingSessionTokenRequest_def split: list.splits if_splits)
       (metis append_butlast_last_id)
  have out: "checked_out_tokens ?l2 = checked_out_tokens l \<or>
      checked_out_tokens ?l2 = checked_out_tokens l @ [(r, t)] \<and> r \<notin> fst ` set (checked_out_tokens l)"
    by (simp add: AddInProgressRequestToken_def AddInProgressRequest_def map_insert_def l1
        map_of_eq_None_iff)
  have same: "session_state ?l2 = session_state l" "credentials ?l2 = credentials l"
    "in_progress_session_token_requests ?l2 = in_progress_session_token_requests l"
    "session_tokens ?l2 = ts"
    by (simp_all add: AddInProgressRequestToken_def AddInProgressRequest_def l1)
  from out show ?thesis
  proof
    assume "checked_out_tokens ?l2 = checked_out_tokens l"
    with ok same show ?thesis
      by (intro pool_ok_shrink [OF ok, where P = "\<lambda>_. True"])
         (auto simp: ts pool_ok_def pool_distinct_def)
  next
    assume new: "checked_out_tokens ?l2 = checked_out_tokens l @ [(r, t)]
      \<and> r \<notin> fst ` set (checked_out_tokens l)"
    have "stored_or_out ?l2 = stored_or_out l"
      using new same(4) by (auto simp: stored_or_out_def ts)
    with ok new same show ?thesis
      by (auto simp: pool_ok_def pool_bounds_def pool_state_def pool_owned_def pool_distinct_def
          token_supply_def ts)
  qed
qed

lemma pool_StartRequestSessionToken [inv_intros]:
  assumes "pool_ok I n l" and "StartRequestSessionToken l = (True, l')"
  shows "pool_ok I (Suc n) l'"
proof -
  have l': "l' = l\<lparr>in_progress_session_token_requests := Suc n\<rparr>"
    using assms
    by (auto simp: StartRequestSessionToken_def Let_def pool_ok_def pool_bounds_def split: if_splits)
  show ?thesis
    using budget.start_True [OF assms(2)] assms(1) by (simp add: l' pool_defs)
qed

text \<open>There is room for one more token.\<close>

definition room :: "nat \<Rightarrow> locker \<Rightarrow> bool" where
  "room n l \<longleftrightarrow> Suc (n + token_supply l) \<le> max_tokens"

lemma room_cong: "room n l \<Longrightarrow> session_tokens l' = session_tokens l
    \<Longrightarrow> checked_out_tokens l' = checked_out_tokens l \<Longrightarrow> room n l'"
  by (simp add: room_def token_supply_def)

lemma pool_Decrement:
  assumes "pool_ok I (Suc n) l"
  obtains l' where "DecrementSessionTokenInProgressCount l = Some l'" and "pool_ok I n l'"
    and "room n l'" and "l' = l\<lparr>in_progress_session_token_requests := n\<rparr>"
proof -
  let ?l' = "l\<lparr>in_progress_session_token_requests := n\<rparr>"
  have "DecrementSessionTokenInProgressCount l = Some ?l'"
    using assms by (simp add: DecrementSessionTokenInProgressCount_def pool_defs)
  moreover have "pool_ok I n ?l'" "room n ?l'"
    using assms by (simp_all add: pool_defs room_def)
  ultimately show thesis using that by blast
qed

text \<open>A fresh token that the server gave for the current credentials.\<close>

lemma pool_AddSessionToken:
  assumes ok: "pool_ok I n l" and "room n l" and fresh: "session_token t \<notin> fst ` I"
  obtains (added) l' where "AddSessionToken t c l = Some (True, l')" and "credentials l = Some c"
      and "l' = l\<lparr>session_tokens := session_tokens l @ [t]\<rparr>"
      and "\<And>l'' r. session_state l'' = Running r \<Longrightarrow> credentials l'' = credentials l
        \<Longrightarrow> session_tokens l'' = session_tokens l @ [t]
        \<Longrightarrow> checked_out_tokens l'' = checked_out_tokens l
        \<Longrightarrow> in_progress_session_token_requests l'' = n
        \<Longrightarrow> pool_ok (insert (session_token t, c) I) n l''"
  | (refused) "AddSessionToken t c l = Some (False, l)"
proof (cases "credentials l = Some c")
  case True
  have new: "session_token t \<notin> session_token ` stored_or_out l"
    using ok fresh by (force simp: pool_ok_def pool_owned_def)
  then have "AddSessionToken t c l = Some (True, l\<lparr>session_tokens := session_tokens l @ [t]\<rparr>)"
    using True by (auto simp: AddSessionToken_def push_token_def stored_or_out_def)
  moreover have "pool_ok (insert (session_token t, c) I) n l''"
    if "session_state l'' = Running r" "credentials l'' = credentials l"
      "session_tokens l'' = session_tokens l @ [t]"
      "checked_out_tokens l'' = checked_out_tokens l"
      "in_progress_session_token_requests l'' = n" for l'' r
  proof -
    have "stored_or_out l'' = insert t (stored_or_out l)"
      using that by (auto simp: stored_or_out_def)
    moreover have "pool_distinct l''"
      using ok new that by (auto simp: pool_ok_def pool_distinct_def stored_or_out_def)
    moreover have "pool_bounds n l''"
      using ok \<open>room n l\<close> that by (simp add: pool_ok_def pool_bounds_def room_def token_supply_def)
    ultimately show ?thesis
      using ok that True by (auto simp: pool_ok_def pool_owned_def pool_state_def)
  qed
  ultimately show thesis using added True by blast
next
  case False
  then show thesis
    using refused by (auto simp: AddSessionToken_def split: option.splits)
qed

lemma map_of_split:
  assumes "map_of xs k = Some v" and "distinct (map fst xs)"
  obtains ys zs where "xs = ys @ (k, v) # zs" and "AList.delete k xs = ys @ zs"
proof -
  obtain ys zs where xs: "xs = ys @ (k, v) # zs"
    using assms(1) by (meson map_of_SomeD split_list)
  then have "k \<notin> fst ` set ys" "k \<notin> fst ` set zs"
    using assms(2) by auto
  then have "filter (\<lambda>(k', _). k \<noteq> k') ys = ys" "filter (\<lambda>(k', _). k \<noteq> k') zs = zs"
    by (force simp: filter_id_conv)+
  then have "AList.delete k xs = ys @ zs"
    by (simp add: xs AList.delete_eq)
  with xs that show thesis by blast
qed

text \<open>Giving a checked out token back: its assertion holds, whatever the new key.\<close>

lemma pool_ReuseToken:
  assumes ok: "pool_ok I n l"
  obtains l' where "ReuseToken r k l = Some l'" and "pool_ok I n l'"
    and "in_progress_requests l' = in_progress_requests l"
proof (cases "UsesSessionToken r \<and> map_of (checked_out_tokens l) r \<noteq> None")
  case True
  then obtain st where st: "map_of (checked_out_tokens l) r = Some st" by auto
  obtain ys zs where out: "checked_out_tokens l = ys @ (r, st) # zs"
    and del: "AList.delete r (checked_out_tokens l) = ys @ zs"
    using map_of_split [OF st] ok by (metis pool_distinct_def pool_ok_def)
  let ?t = "if k then st\<lparr>secret_key := next_secret_key (secret_key st)\<rparr> else st"
  let ?l = "l\<lparr>checked_out_tokens := ys @ zs, session_tokens := session_tokens l @ [?t]\<rparr>"
  have t: "session_token ?t = session_token st" by simp
  have "session_token st \<notin> session_token ` set (session_tokens l)"
    using ok by (auto simp: pool_ok_def pool_distinct_def out)
  then have "ReuseToken r k l = Some ?l"
    using True st t by (simp add: ReuseToken_def del push_token_def)
  moreover have "pool_ok I n ?l"
  proof -
    have pieces: "pool_bounds n l" "pool_state l" "pool_owned I l" "pool_distinct l"
      using ok by (simp_all add: pool_ok_def)
    have "pool_bounds n ?l" using pieces(1) by (simp add: pool_bounds_def token_supply_def out)
    moreover have "pool_state ?l" using pieces(2) by (auto simp: pool_state_def out)
    moreover have "pool_owned I ?l"
      using pieces(3) by (auto simp: pool_owned_def stored_or_out_def out)
    moreover have "pool_distinct ?l" using pieces(4) t by (auto simp: pool_distinct_def out)
    ultimately show ?thesis by (simp add: pool_ok_def)
  qed
  ultimately show thesis using that by fastforce
next
  case False
  then show thesis
    using ok that [of l] by (auto simp: ReuseToken_def split: option.splits)
qed

section \<open>The handlers keep the invariant\<close>

definition sent_ok :: "maintainer \<Rightarrow> bool" where
  "sent_ok m \<longleftrightarrow> list_all (\<lambda>(r, t, c). \<exists>d. c = Some d \<and> (t, d) \<in> set (issued m)) (sent m)"

definition tokens_ok :: "maintainer \<Rightarrow> bool" where
  "tokens_ok m \<longleftrightarrow>
     pool_ok (set (issued m)) (length (token_requests m)) (locker m) \<and> sent_ok m"

lemma tokens_okI:
  assumes "pool_ok (set (issued m)) n (locker m)" and "sent_ok m" and "length (token_requests m) = n"
  shows "tokens_ok m"
  using assms by (simp add: tokens_ok_def)

text \<open>A handler that changes the locker only.\<close>

lemma tokens_ok_locker:
  assumes "tokens_ok m"
    and "pool_ok (set (issued m)) (length (token_requests m)) (locker m)
      \<Longrightarrow> pool_ok (set (issued m)) (length (token_requests m)) l"
  shows "tokens_ok (m\<lparr>locker := l\<rparr>)"
  using assms by (simp add: tokens_ok_def sent_ok_def)

lemma tokens_ok_cong:
  assumes "tokens_ok m" and "locker m' = locker m" and "token_requests m' = token_requests m"
    and "issued m' = issued m" and "sent m' = sent m"
  shows "tokens_ok m'"
  using assms by (simp add: tokens_ok_def sent_ok_def)

lemma tokens_start_non_st:
  assumes "tokens_ok m" and "NextWaitingNonSessionTokenRequest (locker m) = (Some r, l)"
  shows "tokens_ok (start_non_st r l m)"
proof -
  have "l = snd (NextWaitingNonSessionTokenRequest (locker m))" using assms(2) by simp
  with assms(1) show ?thesis
    by (auto simp: tokens_ok_def sent_ok_def start_non_st_def Init_def intro!: inv_intros)
qed

lemma tokens_start_st:
  assumes "tokens_ok m" and next_request: "NextWaitingSessionTokenRequest (locker m) = (Some (r, t), l)"
  shows "tokens_ok (start_st r t l m)"
proof -
  have ok: "pool_ok (set (issued m)) (length (token_requests m)) (locker m)" "sent_ok m"
    using assms(1) by (simp_all add: tokens_ok_def)
  have "t \<in> stored_or_out (locker m)" and "credentials l = credentials (locker m)"
    using next_request
    by (auto simp: NextWaitingSessionTokenRequest_def stored_or_out_def
        split: list.splits if_splits)
  then have "sent_ok (start_st r t l m)"
    using ok by (auto simp: sent_ok_def start_st_def Init_def pool_ok_def pool_owned_def)
  then show ?thesis
    using pool_StartSessionTokenRequest [OF ok(1) next_request]
    by (simp add: tokens_ok_def start_st_def Init_def)
qed

lemma tokens_TryRequestSessionToken:
  assumes "tokens_ok m" and "TryRequestSessionToken c m = (True, m')"
  shows "tokens_ok m'"
  using assms
  by (auto simp: TryRequestSessionToken_def tokens_ok_def sent_ok_def
      split: prod.splits bool.splits dest: pool_StartRequestSessionToken)

lemma tokens_AttemptRequests [inv_intros]: "tokens_ok m \<Longrightarrow> tokens_ok (AttemptRequests m)"
  by (rule AttemptRequests_invariant)
     (auto intro: tokens_start_non_st tokens_start_st tokens_TryRequestSessionToken
        elim: tokens_ok_cong simp: AttemptConnection_def)

lemma tokens_RequestNeededSessionTokens [inv_intros]:
  "tokens_ok m \<Longrightarrow> tokens_ok (RequestNeededSessionTokens b m)"
  by (rule RequestNeededSessionTokens_invariant) (auto intro: tokens_TryRequestSessionToken)

lemma tokens_UpdateConnectionState [inv_intros]:
  assumes "tokens_ok m"
  shows "tokens_ok (UpdateConnectionStateFromErrorCode ec m)"
  using assms
  by (auto simp: UpdateConnectionStateFromErrorCode_def tokens_ok_def sent_ok_def intro!: inv_intros)

lemma tokens_HandleCompletion:
  assumes "tokens_ok m"
  obtains m' where "HandleCompletion r resp m = Some m'" and "tokens_ok m'"
proof -
  let ?I = "set (issued m)" and ?n = "length (token_requests m)"
  let ?l = "RemoveInProgressRequest r (locker m)"
  have ok: "pool_ok ?I ?n ?l" using assms by (auto simp: tokens_ok_def intro: inv_intros)
  obtain l' where l': "ReuseToken r (rb_new_key resp) ?l = Some l'" "pool_ok ?I ?n l'"
    using pool_ReuseToken [OF ok] by blast
  let ?l'' = "if IsInvalidSessionTokenError (rb_error_code resp) then DeleteCheckedOutToken r ?l else l'"
  have "tokens_ok (m\<lparr>locker := ?l''\<rparr>)"
    using assms ok l'(2) by (auto intro!: tokens_ok_locker inv_intros)
  then have "tokens_ok (AttemptRequests (m\<lparr>locker := ?l''\<rparr>))" by (rule inv_intros)
  moreover have "HandleCompletion r resp m = Some (AttemptRequests (m\<lparr>locker := ?l''\<rparr>))"
    using l'(1) by (simp add: HandleCompletion_def Let_def)
  ultimately show thesis using that by blast
qed

lemma tokens_HandleRetryRequest:
  assumes "tokens_ok m"
  obtains m' where "HandleRetryRequest r resp m = Some m'" and "tokens_ok m'"
proof -
  let ?I = "set (issued m)" and ?n = "length (token_requests m)"
  let ?w = "DeleteCheckedOutToken r (MoveInProgressToWaiting r (locker m))"
  let ?d = "MoveInProgressToDelayed r 1 (locker m)"
  have ok: "pool_ok ?I ?n ?w" "pool_ok ?I ?n ?d"
    using assms by (auto simp: tokens_ok_def intro!: inv_intros)
  obtain l' where l': "ReuseToken r (rb_new_key resp) ?d = Some l'" "pool_ok ?I ?n l'"
    using pool_ReuseToken [OF ok(2)] by blast
  let ?l'' = "if IsInvalidSessionTokenError (rb_error_code resp) then ?w else l'"
  have "tokens_ok (m\<lparr>locker := ?l''\<rparr>)"
    using assms ok l'(2) by (auto intro!: tokens_ok_locker)
  then have "tokens_ok (AttemptRequests (m\<lparr>locker := ?l''\<rparr>))" by (rule inv_intros)
  moreover have "HandleRetryRequest r resp m = Some (AttemptRequests (m\<lparr>locker := ?l''\<rparr>))"
    using l'(1) by (simp add: HandleRetryRequest_def Let_def)
  ultimately show thesis using that by blast
qed

lemma tokens_HandleTokenFailure:
  assumes ok: "tokens_ok m" and state: "state = session_state (locker m)"
  shows "tokens_ok (HandleTokenFailure resp c state k m)"
proof -
  let ?I = "set (issued m)" and ?n = "length (token_requests m)"
  let ?l = "IncrementFailureCount (locker m)"
  have l: "pool_ok ?I ?n ?l" "sent_ok m"
    using ok by (auto simp: tokens_ok_def intro!: inv_intros)
  have s: "session_state ?l = state" by (simp add: state IncrementFailureCount_def)
  have cf: "pool_ok ?I ?n (snd (SetSessionStateSafe (CredentialsFailure p e r) k ?l))"
    if "\<not> IsUninitialized state" for p e r
    by (rule pool_CredentialsFailure [OF l(1)]) (simp add: s that)
  have pe: "pool_ok ?I ?n (snd (SetSessionStateSafe (ProlongedError e r) k ?l))"
    if "IsInitialized state \<or> IsProlongedError state" for e r
    by (rule pool_ProlongedError [OF l(1)]) (simp add: s that)
  show ?thesis
    using l cf pe
    by (auto simp: HandleTokenFailure_def Let_def tokens_ok_def sent_ok_def)
qed

lemma tokens_HandleTokenSuccess:
  assumes pool: "pool_ok (set iss) n (locker m)" and "room n (locker m)"
    and fresh: "rb_session_token resp \<notin> fst ` set iss"
    and issued: "issued m = (rb_session_token resp, c) # iss" and sent: "sent_ok m"
    and n: "length (token_requests m) = n" and state: "state = session_state (locker m)"
    and changes: "changes = session_state_change_count (locker m)"
  obtains m' where "HandleTokenSuccess resp c state changes m = Some m'" and "tokens_ok m'"
proof -
  let ?t = "token_of_response resp" and ?l = "ResetFailureCount (locker m)"
  have t: "session_token ?t = rb_session_token resp" by (simp add: token_of_response_def)
  have same: "session_state ?l = state" "session_state_change_count ?l = changes"
    by (simp_all add: ResetFailureCount_def state changes)
  have l: "pool_ok (set iss) n ?l" "room n ?l"
    using pool_failure_count(2) [OF pool] room_cong [OF assms(2)]
    by (simp_all add: ResetFailureCount_def)
  have finish: "tokens_ok (AttemptRequests (m\<lparr>locker := l\<rparr>))"
    if "pool_ok (set (issued m)) n l" for l
    by (intro inv_intros) (use that sent n in \<open>simp add: tokens_ok_def sent_ok_def\<close>)
  have fresh': "session_token ?t \<notin> fst ` set iss" by (simp add: t fresh)
  show thesis
  proof (cases rule: pool_AddSessionToken [OF l fresh', of c, case_names added refused])
    case (added l')
    let ?l' = "if \<not> IsUninitialized state \<and> \<not> IsRunning state
      then snd (SetSessionStateSafe (Running resp) changes l') else l'"
    have l': "session_state l' = state" "session_state_change_count l' = changes"
      using added(3) same by simp_all
    have "\<not> IsUninitialized state"
      using l(1) added(2) same by (simp add: pool_ok_def pool_state_def)
    have n': "in_progress_session_token_requests ?l = n"
      using l(1) by (simp add: pool_ok_def pool_bounds_def)
    have "\<exists>r. session_state ?l' = Running r"
    proof (cases "IsRunning state")
      case True
      then show ?thesis using l' by (cases state) simp_all
    next
      case False
      then have "session_state ?l' = Running resp"
        using l' \<open>\<not> IsUninitialized state\<close>
        by (cases state) (simp_all add: SetSessionStateSafe_def ChangeSessionStateInternal_def Let_def)
      then show ?thesis by blast
    qed
    then obtain r where r: "session_state ?l' = Running r" by blast
    have "pool_ok (set (issued m)) n ?l'"
      unfolding issued list.set t [symmetric]
      by (rule added(4) [OF r])
         (use added(3) n' in \<open>simp_all add: SetSessionStateSafe_def ChangeSessionStateInternal_def
            Let_def t\<close>)
    then show thesis
      using added(1) by (intro that [OF _ finish]) (auto simp: HandleTokenSuccess_def)
  next
    case refused
    have "pool_ok (set (issued m)) n ?l"
      using l(1) by (rule pool_ok_mono) (auto simp: issued)
    then show thesis
      using refused by (intro that [OF _ finish]) (auto simp: HandleTokenSuccess_def)
  qed
qed

lemma tokens_HandleSessionTokenResponse_failure:
  assumes ok: "tokens_ok m" and c: "c \<in> set (token_requests m)"
    and err: "is_error (rb_error_code resp)"
  obtains m' where "HandleSessionTokenResponse resp c
      (m\<lparr>token_requests := remove1 c (token_requests m)\<rparr>) = Some m'" and "tokens_ok m'"
proof -
  let ?n = "length (remove1 c (token_requests m))"
  let ?m = "m\<lparr>token_requests := remove1 c (token_requests m)\<rparr>"
  have "length (token_requests m) = Suc ?n"
    using length_pos_if_in_set [OF c] c by (simp add: length_remove1)
  then have "pool_ok (set (issued m)) (Suc ?n) (locker m)"
    using ok by (simp add: tokens_ok_def)
  from pool_Decrement [OF this] obtain l where
    l: "DecrementSessionTokenInProgressCount (locker m) = Some l" "pool_ok (set (issued m)) ?n l"
    by metis
  let ?u = "UpdateConnectionStateFromErrorCode (rb_error_code resp) (?m\<lparr>locker := l\<rparr>)"
  have "tokens_ok (?m\<lparr>locker := l\<rparr>)"
    using l(2) ok by (simp add: tokens_ok_def sent_ok_def)
  then have "tokens_ok ?u" by (rule inv_intros)
  moreover have "session_state (locker ?u) = session_state l"
    by (simp add: UpdateConnectionStateFromErrorCode_def SetConnectionState_def frame_simps)
  ultimately have "tokens_ok (HandleTokenFailure resp c (session_state l)
      (session_state_change_count l) ?u)"
    by (intro tokens_HandleTokenFailure) simp_all
  then show thesis
    using l(1) err by (intro that) (auto simp: HandleSessionTokenResponse_def GetSessionState_def)
qed

lemma tokens_HandleSessionTokenResponse_success:
  assumes ok: "tokens_ok m" and c: "c \<in> set (token_requests m)"
    and good: "\<not> is_error (rb_error_code resp)"
    and fresh: "rb_session_token resp \<notin> fst ` set (issued m)"
  obtains m' where "HandleSessionTokenResponse resp c
      (m\<lparr>token_requests := remove1 c (token_requests m),
         issued := (rb_session_token resp, c) # issued m\<rparr>) = Some m'" and "tokens_ok m'"
proof -
  let ?n = "length (remove1 c (token_requests m))"
  let ?m = "m\<lparr>token_requests := remove1 c (token_requests m),
              issued := (rb_session_token resp, c) # issued m\<rparr>"
  have "length (token_requests m) = Suc ?n"
    using length_pos_if_in_set [OF c] c by (simp add: length_remove1)
  then have "pool_ok (set (issued m)) (Suc ?n) (locker m)"
    using ok by (simp add: tokens_ok_def)
  from pool_Decrement [OF this] obtain l where
    l: "DecrementSessionTokenInProgressCount (locker m) = Some l" "pool_ok (set (issued m)) ?n l"
      "room ?n l"
    by metis
  let ?u = "UpdateConnectionStateFromErrorCode (rb_error_code resp) (?m\<lparr>locker := l\<rparr>)"
  have same: "session_state (locker ?u) = session_state l"
    "session_state_change_count (locker ?u) = session_state_change_count l"
    "issued ?u = issued ?m" "token_requests ?u = token_requests ?m" "sent ?u = sent m"
    "session_tokens (locker ?u) = session_tokens l"
    "checked_out_tokens (locker ?u) = checked_out_tokens l"
    by (simp_all add: UpdateConnectionStateFromErrorCode_def SetConnectionState_def frame_simps)
  have pool: "pool_ok (set (issued m)) ?n (locker ?u)"
    using l(2) by (auto simp: UpdateConnectionStateFromErrorCode_def intro!: inv_intros)
  have sent: "sent_ok ?u"
    using ok same by (auto simp: tokens_ok_def sent_ok_def list_all_iff)
  have room: "room ?n (locker ?u)" by (rule room_cong [OF l(3) same(6,7)])
  obtain m' where "HandleTokenSuccess resp c (session_state l) (session_state_change_count l) ?u
      = Some m'" "tokens_ok m'"
    using tokens_HandleTokenSuccess [OF pool room fresh _ sent _ same(1,2) [symmetric], of c]
      same(3,4) by auto
  then show thesis
    using l(1) good
    by (intro that [of m']) (simp_all add: HandleSessionTokenResponse_def GetSessionState_def)
qed

lemma tokens_CallbackProxy:
  assumes "tokens_ok m"
  obtains m' where "CallbackProxy r resp m = Some m'" and "tokens_ok m'"
proof -
  let ?m = "HandleCompletionNotification resp m"
  have ok: "tokens_ok ?m"
    using assms by (simp add: HandleCompletionNotification_def tokens_UpdateConnectionState)
  obtain m1 where m1: "HandleCompletion r resp ?m = Some m1" "tokens_ok m1"
    using tokens_HandleCompletion [OF ok] by blast
  obtain m2 where m2: "HandleRetryRequest r resp ?m = Some m2" "tokens_ok m2"
    using tokens_HandleRetryRequest [OF ok] by blast
  have "tokens_ok (complete r (rb_error_code resp) m1)"
    using m1(2) by (rule tokens_ok_cong) (simp_all add: complete_def)
  moreover have "CallbackProxy r resp m = Some (complete r (rb_error_code resp) m1)
      \<or> CallbackProxy r resp m = Some m2"
    using m1(1) m2(1) by (simp add: CallbackProxy_def Let_def)
  ultimately show thesis using m2(2) that by blast
qed

lemma tokens_cong_steps:
  assumes "tokens_ok m"
  shows "tokens_ok (Cancel r m)" "tokens_ok (RequestResponseEvent r resp m)"
    "tokens_ok (Fail r ec m)" "tokens_ok (m\<lparr>known := k\<rparr>)" "tokens_ok (m\<lparr>timeout_seconds := s\<rparr>)"
    "tokens_ok (m\<lparr>status_requests := s\<rparr>)" "tokens_ok (m\<lparr>session_token_failure_due := s\<rparr>)"
    "tokens_ok (m\<lparr>session_token_failure_timer := t, session_token_failure_due := s\<rparr>)"
    "tokens_ok (m\<lparr>connection_state_recheck_due := s\<rparr>)"
    "tokens_ok (m\<lparr>connection_state_recheck_timer := t, connection_state_recheck_due := s\<rparr>)"
    "tokens_ok (m\<lparr>posted_responses := ps\<rparr>)"
    "tokens_ok (m\<lparr>locker := (locker m)\<lparr>delayed_requests := q\<rparr>\<rparr>)"
    "tokens_ok (m\<lparr>locker := (locker m)\<lparr>time_out_requests := q\<rparr>\<rparr>)"
  using assms
  by (auto simp: tokens_ok_def sent_ok_def Cancel_def Fail_def complete_def RequestResponseEvent_def
      pool_defs split: attempt.splits)

lemma tokens_HandleRequestTimeout:
  assumes "tokens_ok m"
  shows "tokens_ok (HandleRequestTimeout r m)"
proof -
  have "tokens_ok (m\<lparr>locker := snd (HandleTimedOutRequest r (locker m))\<rparr>)"
    using assms by (rule tokens_ok_locker) (rule inv_intros)
  then show ?thesis
    using assms
    by (auto simp: HandleRequestTimeout_def intro: tokens_cong_steps(3) split: prod.split option.split)
qed

text \<open>Every step keeps it.\<close>

lemma tokens_step:
  assumes "mstep m m'" and "tokens_ok m"
  shows "tokens_ok m'"
  using assms
proof (induction rule: mstep.induct)
  case (Credentials m c)
  then show ?case
    unfolding SetLoginCredentials_def by (intro inv_intros tokens_ok_locker)
next
  case (Call r m)
  then show ?case
    unfolding Call_def SM_AddWaitingRequest_def by (intro inv_intros tokens_ok_locker tokens_cong_steps)
next
  case (Callback_Setters m a b)
  then show ?case
    by (rule tokens_ok_locker)
       (erule pool_ok_cong; simp add: SetSessionStateChangeCallback_def
          SetConnectionStateChangeCallback_def)
next
  case (Stop_Timeouts m)
  then show ?case by (intro tokens_ok_locker inv_intros)
next
  case (Token_Failure c m response m')
  then show ?case
    using tokens_HandleSessionTokenResponse_failure [of m c response] by auto
next
  case (Token_Success c m response m')
  then show ?case
    using tokens_HandleSessionTokenResponse_success [of m c response] by auto
next
  case (Status_Response m response)
  then show ?case
    by (auto simp: HandleCheckConnectionStatusResponse_def Let_def intro!: inv_intros tokens_cong_steps)
next
  case (Callback r response m m')
  then show ?case
    using tokens_CallbackProxy [OF tokens_cong_steps(11) [OF Callback.prems]] by (metis option.sel)
next
  case (Failure_Timeout m)
  then show ?case
    by (auto simp: HandleSessionTokenFailureTimeout_def intro!: inv_intros tokens_cong_steps)
next
  case (Recheck_Timeout m)
  then show ?case
    by (auto simp: HandleConnectionStateRecheckTimeout_def intro!: inv_intros tokens_cong_steps)
next
  case (Request_Timeout n m q t r rest)
  then show ?case by (intro tokens_HandleRequestTimeout tokens_cong_steps)
next
  case (Delay_Over n m q t r rest)
  have "tokens_ok (m\<lparr>locker := (locker m)\<lparr>delayed_requests := q\<rparr>\<rparr>)"
    by (rule tokens_cong_steps) (rule Delay_Over.prems)
  from tokens_ok_locker [OF this pool_AddWaitingRequest] show ?case
    unfolding SM_AddWaitingRequest_def by (intro tokens_AttemptRequests) simp
next
  case (Time m d)
  then show ?case
    by (rule tokens_ok_locker) (erule pool_ok_cong; simp add: pass_time_def)
qed (simp_all add: tokens_cong_steps)

lemma tokens_start: "tokens_ok SessionMaintainer"
  by (simp add: tokens_ok_def sent_ok_def SessionMaintainer_def SessionMaintainerLocker_def
      pool_defs max_in_progress_token_requests_def max_tokens_def)

lemma tokens_reachable: "mreachable m \<Longrightarrow> tokens_ok m"
  by (induction rule: mreachable.induct) (auto intro: tokens_start tokens_step)

section \<open>A first run\<close>

text \<open>Evaluation of the handlers on a given state.\<close>

lemmas run_simps =
  SetLoginCredentials_def SetCredentials_def ChangeSessionStateInternal_def
  AttemptRequests_def StartNonSessionTokenRequests_step StartSessionTokenRequests_step
  NextWaitingNonSessionTokenRequest_def NextWaitingSessionTokenRequest_def
  RequestNeededSessionTokens_def GetCredenials_def RequestSessionTokens.simps
  TryRequestSessionToken_def StartRequestSessionToken_def GetConnectionState_def
  max_in_progress_token_requests_def max_tokens_def AttemptConnection_def
  start_non_st_def start_st_def Init_def AddInProgressRequest_def AddInProgressRequestToken_def
  map_insert_def SessionMaintainer_def SessionMaintainerLocker_def Let_def

definition me :: Credentials where "me = Facebook ''me''"

definition logged_in :: maintainer where
  "logged_in = SetLoginCredentials me SessionMaintainer"

lemma logged_in_reachable: "mreachable logged_in"
  unfolding logged_in_def by (rule mreachable.step [OF mreachable.start mstep.Credentials])

lemma logged_in_eq:
  "logged_in = SessionMaintainer
     \<lparr>locker := SessionMaintainerLocker
        \<lparr>credentials := Some me, session_state := Initialized, session_state_change_count := 1,
         in_progress_session_token_requests := 1\<rparr>,
      token_requests := [me]\<rparr>"
  by (simp add: logged_in_def run_simps)

text \<open>A request waits for the first token and is sent once it arrives.\<close>

definition called :: maintainer where
  "called = Call (example_request 1) logged_in"

lemmas more_run_simps = run_simps
  Call_def SM_AddWaitingRequest_def AddWaitingRequest_def push_waiting_def
  HandleSessionTokenResponse_def DecrementSessionTokenInProgressCount_def GetSessionState_def
  UpdateConnectionStateFromErrorCode_def SetConnectionState_def ChangeConnectionStateInternal_def
  HandleTokenSuccess_def AddSessionToken_def push_token_def ResetFailureCount_def
  SetSessionStateSafe_def code_defs

lemma called_reachable: "mreachable called"
  unfolding called_def
  by (rule mreachable.step [OF logged_in_reachable mstep.Call])
     (simp_all add: logged_in_eq SessionMaintainer_def example_request_def second_clock_def
        now_ms_def SessionMaintainerLocker_def te_create_def)

lemma called_eq:
  "called = logged_in
     \<lparr>locker := (locker logged_in)
        \<lparr>waiting_st_requests := [example_request 1],
         time_out_requests := te_AddAfter 60000 (example_request 1) te_create\<rparr>,
      known := {example_request 1}\<rparr>"
  by (simp add: called_def logged_in_eq more_run_simps)

definition first_token :: get_session_token_Response where
  "first_token = example_response no_error ''t''"

definition served :: maintainer where
  "served = called
     \<lparr>locker := (locker called)
        \<lparr>in_progress_session_token_requests := 0, connection_state := Connected,
         session_state := Running first_token, session_state_change_count := 2,
         waiting_st_requests := [], in_progress_requests := {example_request 1},
         checked_out_tokens := [(example_request 1, token_of_response first_token)]\<rparr>,
      token_requests := [], issued := [(''t'', me)],
      attempts := (\<lambda>_. NoAttempt)(example_request 1 := HttpActive (Some ''t'')),
      sent := [(example_request 1, ''t'', Some me)]\<rparr>"

lemma served_response:
  "HandleSessionTokenResponse first_token me
     (called\<lparr>token_requests := remove1 me (token_requests called),
             issued := (rb_session_token first_token, me) # issued called\<rparr>) = Some served"
  by (simp add: served_def called_eq logged_in_eq first_token_def more_run_simps)

lemma served_reachable: "mreachable served"
proof (rule mreachable.step [OF called_reachable mstep.Token_Success [OF _ _ _ served_response]])
qed (simp_all add: called_eq logged_in_eq SessionMaintainer_def first_token_def code_defs)

section \<open>Properties\<close>








end
