(* ===== verification/Session_Requests.thy ===== *)
theory Session_Requests
  imports Session_Tokens
begin

text \<open>
  The requests of the maintainer: where each of them is, and how often its completion
  callback is called. A request is queued (waiting or delayed), in progress, or neither; it
  is in progress exactly while its HTTP request is under way or its response is posted.
\<close>

section \<open>The invariant\<close>

definition queued :: "locker \<Rightarrow> STRequest list" where
  "queued l =
     waiting_st_requests l @ waiting_non_st_requests l @ map snd (data (delayed_requests l))"

definition held :: "locker \<Rightarrow> STRequest set" where
  "held l = set (queued l) \<union> in_progress_requests l"

fun is_active :: "attempt \<Rightarrow> bool" where
  "is_active (HttpActive _) \<longleftrightarrow> True"
| "is_active _ \<longleftrightarrow> False"

text \<open>The queues; \<open>X\<close> holds the request whose response is being handled.\<close>

definition queues_ok :: "locker \<Rightarrow> bool" where
  "queues_ok l \<longleftrightarrow>
     distinct (queued l) \<and> set (queued l) \<inter> in_progress_requests l = {}
     \<and> list_all UsesSessionToken (waiting_st_requests l)
     \<and> list_all (\<lambda>r. \<not> UsesSessionToken r) (waiting_non_st_requests l)
     \<and> (\<forall>(r, t)\<in>set (checked_out_tokens l). r \<in> in_progress_requests l \<and> UsesSessionToken r)"

definition attempts_ok :: "STRequest set \<Rightarrow> maintainer \<Rightarrow> bool" where
  "attempts_ok X m \<longleftrightarrow>
     (\<forall>r. r \<in> in_progress_requests (locker m) \<longleftrightarrow>
        is_active (attempts m r) \<or> r \<in> fst ` set (posted_responses m) \<or> r \<in> X)
     \<and> (\<forall>r\<in>fst ` set (posted_responses m). attempts m r = HttpFinished)
     \<and> distinct (map fst (posted_responses m))
     \<and> held (locker m) \<subseteq> known m
     \<and> (\<forall>r. r \<notin> known m \<longrightarrow> attempts m r = NoAttempt)"

definition calls :: "maintainer \<Rightarrow> STRequest \<Rightarrow> nat" where
  "calls m r = count_list (map fst (callbacks m)) r"

definition callbacks_ok :: "maintainer \<Rightarrow> bool" where
  "callbacks_ok m \<longleftrightarrow>
     (\<forall>r. calls m r + of_bool (r \<in> held (locker m)) \<le> 1 + count_list (cancelled m) r)
     \<and> (\<forall>r. r \<notin> known m \<longrightarrow> calls m r = 0)"

definition requests_ok :: "STRequest set \<Rightarrow> maintainer \<Rightarrow> bool" where
  "requests_ok X m \<longleftrightarrow> queues_ok (locker m) \<and> attempts_ok X m \<and> callbacks_ok m"

lemmas requests_defs = requests_ok_def queues_ok_def attempts_ok_def callbacks_ok_def calls_def

text \<open>The fields the invariant looks at.\<close>

definition same_queues :: "locker \<Rightarrow> locker \<Rightarrow> bool" where
  "same_queues l l' \<longleftrightarrow>
     waiting_st_requests l' = waiting_st_requests l
     \<and> waiting_non_st_requests l' = waiting_non_st_requests l
     \<and> data (delayed_requests l') = data (delayed_requests l)
     \<and> in_progress_requests l' = in_progress_requests l
     \<and> set (checked_out_tokens l') \<subseteq> set (checked_out_tokens l)"

lemma same_queues_refl [simp]: "same_queues l l"
  by (simp add: same_queues_def)

lemma same_queues_trans [trans]: "same_queues k l \<Longrightarrow> same_queues l m \<Longrightarrow> same_queues k m"
  by (auto simp: same_queues_def)

lemma same_queues_held: "same_queues l l' \<Longrightarrow> queued l' = queued l \<and> held l' = held l"
  by (simp add: same_queues_def queued_def held_def)

lemma requests_ok_cong:
  assumes "requests_ok X m" and "same_queues (locker m) (locker m')"
    and "attempts m' = attempts m" and "posted_responses m' = posted_responses m"
    and "known m' = known m" and "callbacks m' = callbacks m" and "cancelled m' = cancelled m"
  shows "requests_ok X m'"
proof -
  have q: "queued (locker m') = queued (locker m)" "held (locker m') = held (locker m)"
    using same_queues_held [OF assms(2)] by simp_all
  have "queues_ok (locker m')"
    using assms(1,2) q by (auto simp: requests_ok_def queues_ok_def same_queues_def)
  moreover have "attempts_ok X m'" "callbacks_ok m'"
    using assms q by (auto simp: requests_ok_def attempts_ok_def callbacks_ok_def calls_def
        same_queues_def)
  ultimately show ?thesis by (simp add: requests_ok_def)
qed

section \<open>Operations of the locker that leave the queues\<close>

lemma same_queues_ops [simp]:
  "same_queues l (ChangeSessionStateInternal s l)"
  "same_queues l (SetConnectionState c l)"
  "same_queues l (SetCredentials cr l)"
  "same_queues l (snd (SetSessionStateSafe s k l))"
  "same_queues l (IncrementFailureCount l)" "same_queues l (ResetFailureCount l)"
  "same_queues l (l\<lparr>in_progress_session_token_requests := n\<rparr>)"
  "same_queues l (l\<lparr>session_tokens := ts\<rparr>)"
  "same_queues l (l\<lparr>time_out_requests := q\<rparr>)"
proof -
  show change: "same_queues l (ChangeSessionStateInternal s l)" for s l
    using tokens_after_change [of s l] by (auto simp: same_queues_def frame_simps)
  show "same_queues l (SetCredentials cr l)"
    using change [of "l\<lparr>credentials := Some cr\<rparr>" Initialized]
    by (simp add: SetCredentials_def same_queues_def)
  show "same_queues l (snd (SetSessionStateSafe s k l))"
    by (simp add: SetSessionStateSafe_def change)
qed (simp_all add: same_queues_def SetConnectionState_def frame_simps IncrementFailureCount_def
    ResetFailureCount_def)

lemma same_queues_StartRequestSessionToken:
  "StartRequestSessionToken l = (b, l') \<Longrightarrow> same_queues l l'"
  by (auto simp: StartRequestSessionToken_def Let_def same_queues_def split: if_splits)

lemma held_StartRequestSessionToken: "StartRequestSessionToken l = (b, l') \<Longrightarrow> held l' = held l"
  using same_queues_held [OF same_queues_StartRequestSessionToken] by simp

lemma same_queues_AddSessionToken:
  "AddSessionToken t c l = Some (b, l') \<Longrightarrow> same_queues l l'"
  by (auto simp: AddSessionToken_def push_token_def same_queues_def split: option.splits if_splits)

lemma map_of_NoneD: "map_of xs k = None \<Longrightarrow> (k, v) \<notin> set xs"
  by (force simp: map_of_eq_None_iff)

text \<open>Reusing a token takes at most the request's own entry away.\<close>

lemma ReuseToken_frame:
  assumes "ReuseToken r k l = Some l'"
  shows "waiting_st_requests l' = waiting_st_requests l"
    "waiting_non_st_requests l' = waiting_non_st_requests l"
    "delayed_requests l' = delayed_requests l" "in_progress_requests l' = in_progress_requests l"
    "set (checked_out_tokens l')
       = {(q, t)\<in>set (checked_out_tokens l). \<not> (UsesSessionToken r \<and> q = r)}"
  using assms
  by (auto simp: ReuseToken_def push_token_def AList.delete_eq
      split: if_splits option.splits dest: map_of_NoneD)

lemma distinct_multimap_insert [simp]:
  "distinct (map snd (multimap_insert t e d)) \<longleftrightarrow> e \<notin> snd ` set d \<and> distinct (map snd d)"
  by (induction t e d rule: multimap_insert.induct) auto

section \<open>The loops\<close>

lemma requests_start_non_st:
  assumes ok: "requests_ok {} m"
    and next_request: "NextWaitingNonSessionTokenRequest (locker m) = (Some r, l)"
  shows "requests_ok {} (start_non_st r l m)"
proof -
  obtain rest where w: "waiting_non_st_requests (locker m) = r # rest"
    and l: "l = (locker m)\<lparr>waiting_non_st_requests := rest\<rparr>"
    using next_request by (auto simp: NextWaitingNonSessionTokenRequest_def split: list.splits)
  let ?m = "start_non_st r l m"
  have lock: "locker ?m = (locker m)\<lparr>waiting_non_st_requests := rest,
      in_progress_requests := insert r (in_progress_requests (locker m))\<rparr>"
    by (simp add: start_non_st_def AddInProgressRequest_def l)
  have held: "held (locker ?m) = held (locker m)"
    using w by (auto simp: lock held_def queued_def)
  have "queues_ok (locker ?m)"
    using ok w by (auto simp: requests_ok_def queues_ok_def lock queued_def)
  moreover have "attempts_ok {} ?m"
  proof -
    have "r \<notin> in_progress_requests (locker m)" "r \<in> held (locker m)"
      using ok w by (auto simp: requests_ok_def queues_ok_def queued_def held_def)
    with ok held show ?thesis
      by (auto simp: requests_ok_def attempts_ok_def start_non_st_def Init_def
          AddInProgressRequest_def l)
  qed
  moreover have "callbacks_ok ?m"
    using ok held
    by (simp add: requests_ok_def callbacks_ok_def calls_def start_non_st_def Init_def)
  ultimately show ?thesis by (simp add: requests_ok_def)
qed

lemma requests_start_st:
  assumes ok: "requests_ok {} m"
    and next_request: "NextWaitingSessionTokenRequest (locker m) = (Some (r, t), l)"
  shows "requests_ok {} (start_st r t l m)"
proof -
  obtain rest ts where w: "waiting_st_requests (locker m) = r # rest"
    and l: "l = (locker m)\<lparr>session_tokens := ts, waiting_st_requests := rest\<rparr>"
    using next_request
    by (auto simp: NextWaitingSessionTokenRequest_def split: list.splits if_splits)
  let ?m = "start_st r t l m"
  have lock: "locker ?m = (locker m)\<lparr>session_tokens := ts, waiting_st_requests := rest,
      in_progress_requests := insert r (in_progress_requests (locker m)),
      checked_out_tokens := map_insert r t (checked_out_tokens (locker m))\<rparr>"
    by (simp add: start_st_def AddInProgressRequestToken_def AddInProgressRequest_def l)
  have held: "held (locker ?m) = held (locker m)"
    using w by (auto simp: lock held_def queued_def)
  have "queues_ok (locker ?m)"
    using ok w by (auto simp: requests_ok_def queues_ok_def lock queued_def map_insert_def)
  moreover have "attempts_ok {} ?m"
  proof -
    have "r \<notin> in_progress_requests (locker m)" "r \<in> held (locker m)"
      using ok w by (auto simp: requests_ok_def queues_ok_def queued_def held_def)
    with ok held show ?thesis
      by (auto simp: requests_ok_def attempts_ok_def start_st_def Init_def
          AddInProgressRequestToken_def AddInProgressRequest_def l)
  qed
  moreover have "callbacks_ok ?m"
    using ok held
    by (simp add: requests_ok_def callbacks_ok_def calls_def start_st_def Init_def)
  ultimately show ?thesis by (simp add: requests_ok_def)
qed

lemma requests_TryRequestSessionToken:
  assumes "requests_ok X m" and "TryRequestSessionToken c m = (b, m')"
  shows "requests_ok X m'"
  using assms(1)
  by (rule requests_ok_cong)
     (use assms(2) in \<open>auto simp: TryRequestSessionToken_def
        split: prod.splits bool.splits dest: same_queues_StartRequestSessionToken\<close>)

lemma requests_AttemptRequests [inv_intros]:
  assumes "requests_ok {} m"
  shows "requests_ok {} (AttemptRequests m)"
proof (rule AttemptRequests_invariant [where P = "requests_ok {}"])
  show "requests_ok {} (AttemptConnection m)" if "requests_ok {} m" for m
    using that by (rule requests_ok_cong) (simp_all add: AttemptConnection_def)
qed (use assms in \<open>auto intro: requests_start_non_st requests_start_st
       requests_TryRequestSessionToken\<close>)

lemma requests_RequestNeededSessionTokens [inv_intros]:
  assumes "requests_ok {} m"
  shows "requests_ok {} (RequestNeededSessionTokens b m)"
  by (rule RequestNeededSessionTokens_invariant [where P = "requests_ok {}"])
     (use assms in \<open>auto intro: requests_TryRequestSessionToken\<close>)

section \<open>The handlers\<close>

text \<open>
  Leaving a queue or the requests in progress. \<open>Y\<close> is what may leave the latter: nothing, or
  the request whose response is handled.
\<close>

lemma requests_shrink:
  assumes ok: "requests_ok X m" and idle: "\<forall>r\<in>X. \<not> is_active (attempts m r) \<and> r \<notin> fst ` set (posted_responses m)"
    and in_progress: "in_progress_requests l = in_progress_requests (locker m) - X"
    and distinct: "distinct (queued l)" and queued: "set (queued l) \<subseteq> set (queued (locker m))"
    and waiting: "set (waiting_st_requests l) \<subseteq> set (waiting_st_requests (locker m))"
      "set (waiting_non_st_requests l) \<subseteq> set (waiting_non_st_requests (locker m))"
    and out: "\<forall>(q, t)\<in>set (checked_out_tokens l).
        (q, t) \<in> set (checked_out_tokens (locker m)) \<and> q \<notin> X"
  shows "requests_ok {} (m\<lparr>locker := l\<rparr>)"
proof -
  have held: "held l \<subseteq> held (locker m)"
    using in_progress queued by (auto simp: held_def)
  have pieces: "queues_ok (locker m)" "attempts_ok X m" "callbacks_ok m"
    using ok by (simp_all add: requests_ok_def)
  have "queues_ok l"
  proof -
    have "set (queued l) \<inter> in_progress_requests l = {}"
      using pieces(1) queued in_progress by (auto simp: queues_ok_def)
    moreover have "list_all UsesSessionToken (waiting_st_requests l)"
      "list_all (\<lambda>r. \<not> UsesSessionToken r) (waiting_non_st_requests l)"
      using pieces(1) waiting by (auto simp: queues_ok_def list_all_iff)
    moreover have "\<forall>(r, t)\<in>set (checked_out_tokens l). r \<in> in_progress_requests l \<and> UsesSessionToken r"
      using pieces(1) out in_progress by (fastforce simp: queues_ok_def)
    ultimately show ?thesis using distinct by (simp add: queues_ok_def)
  qed
  moreover have "attempts_ok {} (m\<lparr>locker := l\<rparr>)"
    using pieces(2) held idle in_progress by (auto simp: attempts_ok_def)
  moreover have "callbacks_ok (m\<lparr>locker := l\<rparr>)"
    unfolding callbacks_ok_def
  proof (intro conjI allI impI)
    fix q
    have "calls m q + of_bool (q \<in> held (locker m)) \<le> 1 + count_list (cancelled m) q"
      using pieces(3) by (simp add: callbacks_ok_def)
    then show "calls (m\<lparr>locker := l\<rparr>) q + of_bool (q \<in> held (locker (m\<lparr>locker := l\<rparr>)))
        \<le> 1 + count_list (cancelled (m\<lparr>locker := l\<rparr>)) q"
      using held by (cases "q \<in> held (locker m)") (auto simp: calls_def)
    show "calls (m\<lparr>locker := l\<rparr>) q = 0" if "q \<notin> known (m\<lparr>locker := l\<rparr>)"
      using pieces(3) that by (simp add: callbacks_ok_def calls_def)
  qed
  ultimately show ?thesis by (simp add: requests_ok_def)
qed

text \<open>What is known of a request that is held, or no longer.\<close>

lemma held_calls:
  assumes "requests_ok X m" and "r \<in> held (locker m)"
  shows "calls m r \<le> count_list (cancelled m) r" and "r \<in> known m"
proof -
  have "calls m r + of_bool (r \<in> held (locker m)) \<le> 1 + count_list (cancelled m) r"
    using assms(1) by (simp add: requests_ok_def callbacks_ok_def)
  then show "calls m r \<le> count_list (cancelled m) r" using assms(2) by simp
  show "r \<in> known m" using assms by (auto simp: requests_ok_def attempts_ok_def)
qed

lemma requests_complete:
  assumes ok: "requests_ok X m" and r: "r \<notin> held (locker m)" "r \<in> known m"
    and room: "calls m r \<le> count_list (cancelled m) r"
  shows "requests_ok X (complete r ec m)"
proof -
  have "callbacks_ok (complete r ec m)"
    unfolding callbacks_ok_def
  proof (intro conjI allI impI)
    fix q
    have "calls m q + of_bool (q \<in> held (locker m)) \<le> 1 + count_list (cancelled m) q"
      using ok by (simp add: requests_ok_def callbacks_ok_def)
    then show "calls (complete r ec m) q + of_bool (q \<in> held (locker (complete r ec m)))
        \<le> 1 + count_list (cancelled (complete r ec m)) q"
      using r(1) room by (auto simp: calls_def complete_def)
    show "calls (complete r ec m) q = 0" if "q \<notin> known (complete r ec m)"
      using ok that r(2) by (auto simp: requests_ok_def callbacks_ok_def calls_def complete_def)
  qed
  with ok show ?thesis by (simp add: requests_ok_def attempts_ok_def complete_def)
qed

text \<open>A request that is not held is queued again.\<close>

lemma requests_queue:
  assumes ok: "requests_ok {} (m\<lparr>locker := l\<rparr>)" and r: "r \<notin> held l" "r \<in> known m"
    and room: "calls m r \<le> count_list (cancelled m) r"
    and in_progress: "in_progress_requests l' = in_progress_requests l"
    and out: "set (checked_out_tokens l') \<subseteq> set (checked_out_tokens l)"
    and place: "(UsesSessionToken r \<and> waiting_st_requests l' = waiting_st_requests l @ [r]
        \<and> waiting_non_st_requests l' = waiting_non_st_requests l
        \<and> data (delayed_requests l') = data (delayed_requests l))
      \<or> (\<not> UsesSessionToken r \<and> waiting_non_st_requests l' = waiting_non_st_requests l @ [r]
        \<and> waiting_st_requests l' = waiting_st_requests l
        \<and> data (delayed_requests l') = data (delayed_requests l))
      \<or> (\<exists>t. data (delayed_requests l') = multimap_insert t r (data (delayed_requests l))
        \<and> waiting_st_requests l' = waiting_st_requests l
        \<and> waiting_non_st_requests l' = waiting_non_st_requests l)"
  shows "requests_ok {} (m\<lparr>locker := l'\<rparr>)"
proof -
  have mset: "mset (queued l') = mset (r # queued l)"
    using place by (auto simp: queued_def)
  have queue: "set (queued l') = insert r (set (queued l))"
    using mset_eq_setD [OF mset] by simp
  have distinct: "distinct (queued l')"
    using mset_eq_imp_distinct_iff [OF mset] ok r
    by (simp add: requests_ok_def queues_ok_def held_def)
  have held: "held l' = insert r (held l)"
    by (simp add: held_def queue in_progress)
  have "queues_ok l'"
    using place ok r queue distinct out in_progress
    by (auto simp: requests_ok_def queues_ok_def held_def)
  moreover have "attempts_ok {} (m\<lparr>locker := l'\<rparr>)"
    using ok r held in_progress by (auto simp: requests_ok_def attempts_ok_def)
  moreover have "callbacks_ok (m\<lparr>locker := l'\<rparr>)"
    unfolding callbacks_ok_def
  proof (intro conjI allI impI)
    fix q
    have "calls (m\<lparr>locker := l\<rparr>) q + of_bool (q \<in> held l) \<le> 1 + count_list (cancelled m) q"
      using ok by (simp add: requests_ok_def callbacks_ok_def)
    then show "calls (m\<lparr>locker := l'\<rparr>) q + of_bool (q \<in> held (locker (m\<lparr>locker := l'\<rparr>)))
        \<le> 1 + count_list (cancelled (m\<lparr>locker := l'\<rparr>)) q"
      using room held by (cases "q = r") (simp_all add: calls_def)
    show "calls (m\<lparr>locker := l'\<rparr>) q = 0" if "q \<notin> known (m\<lparr>locker := l'\<rparr>)"
      using ok that by (simp add: requests_ok_def callbacks_ok_def calls_def)
  qed
  ultimately show ?thesis by (simp add: requests_ok_def)
qed

text \<open>\<^verbatim>\<open>AttemptRequests\<close> moves requests, but lets none go.\<close>

lemma held_rounds:
  "NextWaitingNonSessionTokenRequest (locker m) = (Some r, l)
      \<Longrightarrow> held (locker (start_non_st r l m)) = held (locker m)"
  "NextWaitingSessionTokenRequest (locker m) = (Some (r, t), l)
      \<Longrightarrow> held (locker (start_st r t l m)) = held (locker m)"
  by (auto simp: NextWaitingNonSessionTokenRequest_def NextWaitingSessionTokenRequest_def
      start_non_st_def start_st_def AddInProgressRequest_def AddInProgressRequestToken_def
      held_def queued_def split: list.splits if_splits)

lemma AttemptRequests_frame:
  "held (locker (AttemptRequests m)) = held (locker m)"
  "callbacks (AttemptRequests m) = callbacks m" "cancelled (AttemptRequests m) = cancelled m"
  "known (AttemptRequests m) = known m"
proof -
  let ?P = "\<lambda>m' :: maintainer. held (locker m') = held (locker m) \<and> callbacks m' = callbacks m
    \<and> cancelled m' = cancelled m \<and> known m' = known m"
  have "?P (AttemptRequests m)"
  proof (rule AttemptRequests_invariant [where P = ?P])
    fix m' :: maintainer and r l
    assume "?P m'" and "NextWaitingNonSessionTokenRequest (locker m') = (Some r, l)"
    with held_rounds(1) [of m' r l] show "?P (start_non_st r l m')"
      by (simp add: start_non_st_def Init_def)
  next
    fix m' :: maintainer and r t l
    assume "?P m'" and "NextWaitingSessionTokenRequest (locker m') = (Some (r, t), l)"
    with held_rounds(2) [of m' r t l] show "?P (start_st r t l m')"
      by (simp add: start_st_def Init_def)
  next
    fix m' m'' :: maintainer and c
    assume "?P m'" and "TryRequestSessionToken c m' = (True, m'')"
    then show "?P m''"
      by (auto simp: TryRequestSessionToken_def split: prod.splits bool.splits
          dest: held_StartRequestSessionToken)
  qed (simp_all add: AttemptConnection_def)
  then show "held (locker (AttemptRequests m)) = held (locker m)"
    "callbacks (AttemptRequests m) = callbacks m" "cancelled (AttemptRequests m) = cancelled m"
    "known (AttemptRequests m) = known m"
    by simp_all
qed

lemma requests_UpdateConnectionState [inv_intros]:
  "requests_ok X m \<Longrightarrow> requests_ok X (UpdateConnectionStateFromErrorCode ec m)"
  by (erule requests_ok_cong) (simp_all add: UpdateConnectionStateFromErrorCode_def)

lemma requests_locker:
  "requests_ok X m \<Longrightarrow> same_queues (locker m) l \<Longrightarrow> requests_ok X (m\<lparr>locker := l\<rparr>)"
  by (erule requests_ok_cong) simp_all

text \<open>The two ways in which the response to a request in progress is handled.\<close>

definition handling :: "STRequest \<Rightarrow> maintainer \<Rightarrow> bool" where
  "handling r m \<longleftrightarrow>
     requests_ok {r} m \<and> r \<in> in_progress_requests (locker m)
     \<and> \<not> is_active (attempts m r) \<and> r \<notin> fst ` set (posted_responses m)"

lemma handling_facts:
  assumes "handling r m"
  shows "r \<in> known m" "calls m r \<le> count_list (cancelled m) r" "r \<notin> set (queued (locker m))"
    "(q, t) \<in> set (checked_out_tokens (locker m)) \<Longrightarrow> UsesSessionToken q"
  using assms held_calls [of "{r}" m r]
  by (auto simp: handling_def requests_ok_def queues_ok_def held_def)

lemma requests_finished:
  assumes h: "handling r m"
    and "waiting_st_requests l = waiting_st_requests (locker m)"
    "waiting_non_st_requests l = waiting_non_st_requests (locker m)"
    "delayed_requests l = delayed_requests (locker m)"
    "in_progress_requests l = in_progress_requests (locker m) - {r}"
    and out: "set (checked_out_tokens l)
      = {(q, t)\<in>set (checked_out_tokens (locker m)). \<not> (UsesSessionToken r \<and> q = r)}"
  shows "requests_ok {} (m\<lparr>locker := l\<rparr>)" and "r \<notin> held l"
proof -
  have same: "queued l = queued (locker m)" using assms(2-4) by (simp add: queued_def)
  have "\<forall>(q, t)\<in>set (checked_out_tokens l). (q, t) \<in> set (checked_out_tokens (locker m)) \<and> q \<notin> {r}"
    unfolding out using handling_facts(4) [OF h] by auto
  then show "requests_ok {} (m\<lparr>locker := l\<rparr>)"
    using h assms(2,3,5) same
    by (intro requests_shrink [of "{r}"]) (auto simp: handling_def requests_ok_def queues_ok_def)
  show "r \<notin> held l"
    using same handling_facts(3) [OF h] assms(5) by (simp add: held_def)
qed

lemma requests_HandleCompletion:
  assumes h: "handling r m" and "HandleCompletion r resp m = Some m'"
  shows "requests_ok {} (complete r ec m')"
proof -
  let ?l = "RemoveInProgressRequest r (locker m)"
  obtain l where m': "m' = AttemptRequests (m\<lparr>locker := l\<rparr>)"
    and l: "l = DeleteCheckedOutToken r ?l \<or> ReuseToken r (rb_new_key resp) ?l = Some l"
    using assms(2) by (auto simp: HandleCompletion_def Let_def bind_eq_Some_conv split: if_splits)
  from l have "requests_ok {} (m\<lparr>locker := l\<rparr>) \<and> r \<notin> held l"
  proof
    assume "l = DeleteCheckedOutToken r ?l"
    then show ?thesis
      using handling_facts(4) [OF h]
      by (intro conjI requests_finished [OF h])
         (auto simp: RemoveInProgressRequest_def DeleteCheckedOutToken_def AList.delete_eq)
  next
    assume "ReuseToken r (rb_new_key resp) ?l = Some l"
    from ReuseToken_frame [OF this] show ?thesis
      by (intro conjI requests_finished [OF h]) (simp_all add: RemoveInProgressRequest_def)
  qed
  then show ?thesis
    using handling_facts(1,2) [OF h] unfolding m'
    by (intro requests_complete inv_intros) (simp_all add: AttemptRequests_frame calls_def)
qed

lemma requests_HandleRetryRequest:
  assumes h: "handling r m" and "HandleRetryRequest r resp m = Some m'"
  shows "requests_ok {} m'"
proof -
  let ?w = "MoveInProgressToWaiting r (locker m)" and ?d = "MoveInProgressToDelayed r 1 (locker m)"
  obtain l where m': "m' = AttemptRequests (m\<lparr>locker := l\<rparr>)"
    and l: "l = DeleteCheckedOutToken r ?w \<or> ReuseToken r (rb_new_key resp) ?d = Some l"
    using assms(2) by (auto simp: HandleRetryRequest_def Let_def bind_eq_Some_conv split: if_splits)
  let ?gone = "(RemoveInProgressRequest r (locker m))
      \<lparr>checked_out_tokens := AList.delete r (checked_out_tokens (locker m))\<rparr>"
  have gone: "requests_ok {} (m\<lparr>locker := ?gone\<rparr>)" "r \<notin> held ?gone"
    using handling_facts(4) [OF h]
    by (intro requests_finished [OF h];
        auto simp: RemoveInProgressRequest_def AList.delete_eq)+
  note queue = requests_queue [OF gone handling_facts(1,2) [OF h]]
  from l have "requests_ok {} (m\<lparr>locker := l\<rparr>)"
  proof
    assume "l = DeleteCheckedOutToken r ?w"
    then show ?thesis
      by (intro queue) (auto simp: RemoveInProgressRequest_def DeleteCheckedOutToken_def
          MoveInProgressToWaiting_def push_waiting_def)
  next
    assume *: "ReuseToken r (rb_new_key resp) ?d = Some l"
    have "set (checked_out_tokens l) \<subseteq> set (checked_out_tokens ?gone)"
      using ReuseToken_frame(5) [OF *] handling_facts(4) [OF h]
      by (auto simp: MoveInProgressToDelayed_def RemoveInProgressRequest_def AList.delete_eq)
    moreover have "\<exists>t. data (delayed_requests l) = multimap_insert t r (data (delayed_requests ?gone))"
      using ReuseToken_frame(3) [OF *]
      by (auto simp: MoveInProgressToDelayed_def RemoveInProgressRequest_def te_AddAfter_def te_Add_def)
    ultimately show ?thesis
      using ReuseToken_frame(1,2,4) [OF *]
      by (intro queue disjI2)
         (simp_all add: MoveInProgressToDelayed_def RemoveInProgressRequest_def)
  qed
  then show ?thesis unfolding m' by (rule inv_intros)
qed

section \<open>Every step keeps the invariant\<close>

lemma HandleTokenFailure_frame:
  "same_queues (locker m) (locker (HandleTokenFailure resp c s k m))"
  "attempts (HandleTokenFailure resp c s k m) = attempts m"
  "posted_responses (HandleTokenFailure resp c s k m) = posted_responses m"
  "known (HandleTokenFailure resp c s k m) = known m"
  "callbacks (HandleTokenFailure resp c s k m) = callbacks m"
  "cancelled (HandleTokenFailure resp c s k m) = cancelled m"
proof -
  have "same_queues (locker m) (snd (SetSessionStateSafe s' k (IncrementFailureCount (locker m))))" for s'
    by (rule same_queues_trans [OF same_queues_ops(5) same_queues_ops(4)])
  then show "same_queues (locker m) (locker (HandleTokenFailure resp c s k m))"
    by (simp add: HandleTokenFailure_def Let_def)
qed (simp_all add: HandleTokenFailure_def Let_def)

lemma requests_HandleSessionTokenResponse:
  assumes ok: "requests_ok {} m" and "HandleSessionTokenResponse resp c m = Some m'"
  shows "requests_ok {} m'"
proof -
  obtain l where l: "DecrementSessionTokenInProgressCount (locker m) = Some l"
    using assms(2) by (auto simp: HandleSessionTokenResponse_def bind_eq_Some_conv)
  let ?u = "UpdateConnectionStateFromErrorCode (rb_error_code resp) (m\<lparr>locker := l\<rparr>)"
  have "same_queues (locker m) l"
    using l by (auto simp: DecrementSessionTokenInProgressCount_def split: if_splits)
  with ok have u: "requests_ok {} ?u" by (intro inv_intros requests_locker)
  show ?thesis
  proof (cases "is_error (rb_error_code resp)")
    case True
    then have "m' = HandleTokenFailure resp c (session_state l) (session_state_change_count l) ?u"
      using assms(2) l by (simp add: HandleSessionTokenResponse_def GetSessionState_def)
    with u show ?thesis
      by (simp only:) (rule requests_ok_cong [OF _ HandleTokenFailure_frame(1)],
        simp_all add: HandleTokenFailure_frame)
  next
    case False
    then have "HandleTokenSuccess resp c (session_state l) (session_state_change_count l) ?u = Some m'"
      using assms(2) l by (simp add: HandleSessionTokenResponse_def GetSessionState_def)
    then obtain added l1 where l1: "AddSessionToken (token_of_response resp) c
        (ResetFailureCount (locker ?u)) = Some (added, l1)"
      and m': "m' = AttemptRequests (?u\<lparr>locker :=
         if added \<and> \<not> IsUninitialized (session_state l) \<and> \<not> IsRunning (session_state l)
         then snd (SetSessionStateSafe (Running resp) (session_state_change_count l) l1) else l1\<rparr>)"
      by (auto simp: HandleTokenSuccess_def bind_eq_Some_conv)
    have "same_queues (locker ?u) l1"
      using same_queues_AddSessionToken [OF l1] same_queues_ops(6) same_queues_trans by blast
    then show ?thesis
      unfolding m' by (intro inv_intros requests_locker [OF u])
        (auto intro: same_queues_trans same_queues_ops(4))
  qed
qed

lemma fst_remove1:
  assumes "distinct (map fst xs)" and "(k, v) \<in> set xs"
  shows "fst ` set (remove1 (k, v) xs) = fst ` set xs - {k}"
  using assms
proof (induction xs)
  case (Cons x xs)
  show ?case
  proof (cases "x = (k, v)")
    case False
    with Cons have "(k, v) \<in> set xs" "fst x \<noteq> k" by (auto simp: image_iff)
    with Cons False show ?thesis by auto
  qed (use Cons.prems in auto)
qed simp

lemma distinct_map_remove1: "distinct (map f xs) \<Longrightarrow> distinct (map f (remove1 x xs))"
  using set_remove1_subset [of x] by (induction xs) fastforce+

lemma requests_CallbackProxy:
  assumes ok: "requests_ok {} m" and p: "(r, resp) \<in> set (posted_responses m)"
    and "CallbackProxy r resp
      (m\<lparr>posted_responses := remove1 (r, resp) (posted_responses m)\<rparr>) = Some m'"
  shows "requests_ok {} m'"
proof -
  let ?m = "m\<lparr>posted_responses := remove1 (r, resp) (posted_responses m)\<rparr>"
  let ?n = "HandleCompletionNotification resp ?m"
  have posted: "distinct (map fst (posted_responses m))" and r: "r \<in> fst ` set (posted_responses m)"
    using ok p by (auto simp: requests_ok_def attempts_ok_def rev_image_eqI)
  note only = fst_remove1 [OF posted p]
  have "attempts_ok {r} ?m"
    using ok r posted only
    by (simp add: requests_ok_def attempts_ok_def distinct_map_remove1) blast
  moreover have "callbacks_ok ?m" "queues_ok (locker ?m)"
    using ok by (simp_all add: requests_ok_def callbacks_ok_def calls_def)
  ultimately have m: "requests_ok {r} ?m" by (simp add: requests_ok_def)
  have same: "in_progress_requests (locker ?n) = in_progress_requests (locker m)"
    "attempts ?n = attempts m" "posted_responses ?n = posted_responses ?m"
    by (simp_all add: HandleCompletionNotification_def UpdateConnectionStateFromErrorCode_def
        SetConnectionState_def frame_simps)
  have "requests_ok {r} ?n"
    using m unfolding HandleCompletionNotification_def by (rule inv_intros)
  moreover have "r \<in> in_progress_requests (locker m)" "attempts m r = HttpFinished"
    using ok r by (auto simp: requests_ok_def attempts_ok_def)
  ultimately have "handling r ?n" using only same by (simp add: handling_def)
  then show ?thesis
    using assms(3) requests_HandleCompletion requests_HandleRetryRequest
    by (auto simp: CallbackProxy_def Let_def bind_eq_Some_conv split: if_splits)
qed

text \<open>A request that is new, or whose delay is over, is queued and the requests are attempted.\<close>

lemma requests_SM_AddWaitingRequest:
  assumes "requests_ok {} m" and "r \<notin> held (locker m)" and "r \<in> known m"
    and "calls m r \<le> count_list (cancelled m) r"
  shows "requests_ok {} (SM_AddWaitingRequest r m)"
proof -
  have "requests_ok {} (m\<lparr>locker := locker m\<rparr>)" using assms(1) by simp
  then have "requests_ok {} (m\<lparr>locker := AddWaitingRequest r (locker m)\<rparr>)"
    by (rule requests_queue) (use assms(2-4) in \<open>auto simp: AddWaitingRequest_def push_waiting_def\<close>)
  then show ?thesis unfolding SM_AddWaitingRequest_def by (rule inv_intros)
qed

lemma requests_Call:
  assumes ok: "requests_ok {} m" and new: "r \<notin> known m"
  shows "requests_ok {} (Call r m)"
proof -
  have "r \<notin> held (locker m)" "calls m r = 0"
    using ok new by (auto simp: requests_ok_def attempts_ok_def callbacks_ok_def)
  moreover have "requests_ok {} (m\<lparr>known := insert r (known m)\<rparr>)"
    using ok by (auto simp: requests_ok_def attempts_ok_def callbacks_ok_def calls_def)
  ultimately show ?thesis
    unfolding Call_def by (intro requests_SM_AddWaitingRequest) (simp_all add: calls_def)
qed

lemma requests_Cancel:
  assumes "requests_ok X m" and "r \<in> known m"
  shows "requests_ok X (Cancel r m)"
proof (cases "attempts m r")
  case NoAttempt
  have "callbacks_ok (Cancel r m)"
    unfolding callbacks_ok_def
  proof (intro conjI allI impI)
    fix q
    have "calls m q + of_bool (q \<in> held (locker m)) \<le> 1 + count_list (cancelled m) q"
      using assms(1) by (simp add: requests_ok_def callbacks_ok_def)
    then show "calls (Cancel r m) q + of_bool (q \<in> held (locker (Cancel r m)))
        \<le> 1 + count_list (cancelled (Cancel r m)) q"
      using NoAttempt by (simp add: calls_def Cancel_def complete_def)
    show "calls (Cancel r m) q = 0" if "q \<notin> known (Cancel r m)"
      using that NoAttempt assms
      by (auto simp: requests_ok_def callbacks_ok_def calls_def Cancel_def complete_def)
  qed
  with assms(1) NoAttempt show ?thesis
    by (simp add: requests_ok_def attempts_ok_def Cancel_def complete_def)
qed (use assms in \<open>simp_all add: Cancel_def\<close>)

lemma requests_RequestResponseEvent:
  assumes ok: "requests_ok {} m" and active: "attempts m r = HttpActive t"
  shows "requests_ok {} (RequestResponseEvent r resp m)"
proof -
  have "r \<notin> fst ` set (posted_responses m)" "r \<in> in_progress_requests (locker m)"
    using ok active by (auto simp: requests_ok_def attempts_ok_def)
  then have "attempts_ok {} (RequestResponseEvent r resp m)"
    using ok active by (auto simp: requests_ok_def attempts_ok_def RequestResponseEvent_def held_def)
  with ok show ?thesis
    by (simp add: requests_ok_def callbacks_ok_def calls_def RequestResponseEvent_def)
qed

lemma requests_HandleRequestTimeout:
  assumes ok: "requests_ok {} m"
  shows "requests_ok {} (HandleRequestTimeout r m)"
proof (cases "HandleTimedOutRequest r (locker m)")
  case (Pair code l)
  show ?thesis
  proof (cases code)
    case None
    with Pair ok show ?thesis by (simp add: HandleRequestTimeout_def)
  next
    case (Some e)
    have d: "distinct (queued (locker m))" "in_progress_requests (locker m) \<inter> set (queued (locker m)) = {}"
      using ok by (auto simp: requests_ok_def queues_ok_def)
    have in_queue: "r \<in> set (queued (locker m))"
      using Pair Some by (auto simp: HandleTimedOutRequest_def queued_def split: if_splits)
    have queue: "mset (queued (locker m)) = mset (r # queued l)"
      using Pair Some by (auto simp: HandleTimedOutRequest_def queued_def split: if_splits)
    have frame: "in_progress_requests l = in_progress_requests (locker m)"
      "checked_out_tokens l = checked_out_tokens (locker m)"
      "set (waiting_st_requests l) \<subseteq> set (waiting_st_requests (locker m))"
      "set (waiting_non_st_requests l) \<subseteq> set (waiting_non_st_requests (locker m))"
      using Pair Some set_remove1_subset
      by (fastforce simp: HandleTimedOutRequest_def split: if_splits)+
    have "distinct (r # queued l)" "set (queued (locker m)) = set (r # queued l)"
      using d(1) mset_eq_imp_distinct_iff [OF queue] mset_eq_setD [OF queue] by auto
    then have q: "distinct (queued l)" "set (queued l) \<subseteq> set (queued (locker m))" "r \<notin> set (queued l)"
      by auto
    have "requests_ok {} (m\<lparr>locker := l\<rparr>)"
      by (rule requests_shrink [OF ok]) (use q frame in auto)
    moreover have "r \<notin> held l" using q(3) frame(1) in_queue d(2) by (auto simp: held_def)
    moreover have "r \<in> known m" "calls m r \<le> count_list (cancelled m) r"
      using held_calls [OF ok] in_queue by (simp_all add: held_def)
    ultimately have "requests_ok {} (Fail r (api_error e) (m\<lparr>locker := l\<rparr>))"
      by (auto simp: Fail_def calls_def intro: requests_complete split: attempt.split)
    with Pair Some show ?thesis by (simp add: HandleRequestTimeout_def)
  qed
qed

lemma requests_StopTimeouts:
  assumes "requests_ok {} m"
  shows "requests_ok {} (m\<lparr>locker := StopTimeouts (locker m)\<rparr>)"
  by (rule requests_shrink [OF assms])
     (use assms in \<open>auto simp: StopTimeouts_def queued_def te_Stop_def te_CancelAll_def Let_def
        requests_ok_def queues_ok_def\<close>)

lemma requests_delay_over:
  assumes ok: "requests_ok {} m" and q: "data (delayed_requests (locker m)) = (t, r) # data q"
  shows "requests_ok {} (SM_AddWaitingRequest r (m\<lparr>locker := (locker m)\<lparr>delayed_requests := q\<rparr>\<rparr>))"
proof -
  let ?l = "(locker m)\<lparr>delayed_requests := q\<rparr>"
  have "r \<in> held (locker m)" using q by (simp add: held_def queued_def)
  from held_calls [OF ok this] have r: "calls m r \<le> count_list (cancelled m) r" "r \<in> known m" .
  have "requests_ok {} (m\<lparr>locker := ?l\<rparr>)"
    by (rule requests_shrink [OF ok])
       (use ok q in \<open>auto simp: queued_def requests_ok_def queues_ok_def\<close>)
  moreover have "r \<notin> held ?l"
    using ok q by (auto simp: held_def queued_def requests_ok_def queues_ok_def)
  ultimately show ?thesis
    using r by (intro requests_SM_AddWaitingRequest) (simp_all add: calls_def)
qed

lemma requests_step:
  assumes "mstep m m'" and "requests_ok {} m"
  shows "requests_ok {} m'"
  using assms
proof (induction rule: mstep.induct)
  case (Credentials m c)
  then show ?case
    unfolding SetLoginCredentials_def by (intro inv_intros requests_locker same_queues_ops)
next
  case (Call r m)
  then show ?case by (intro requests_Call) auto
next
  case (Token_Failure c m response m')
  have "requests_ok {} (m\<lparr>token_requests := remove1 c (token_requests m)\<rparr>)"
    using Token_Failure.prems by (rule requests_ok_cong) simp_all
  then show ?case
    by (rule requests_HandleSessionTokenResponse [OF _ Token_Failure.hyps(3)])
next
  case (Token_Success c m response m')
  have "requests_ok {} (m\<lparr>token_requests := remove1 c (token_requests m),
      issued := (rb_session_token response, c) # issued m\<rparr>)"
    using Token_Success.prems by (rule requests_ok_cong) simp_all
  then show ?case
    by (rule requests_HandleSessionTokenResponse [OF _ Token_Success.hyps(4)])
next
  case (Status_Response m response)
  have "requests_ok {} (m\<lparr>status_requests := status_requests m - 1\<rparr>)"
    using Status_Response.prems by (rule requests_ok_cong) simp_all
  then show ?case
    by (auto simp: HandleCheckConnectionStatusResponse_def Let_def intro!: inv_intros)
next
  case (Callback r response m m')
  show ?case by (rule requests_CallbackProxy [OF Callback.prems Callback.hyps])
next
  case (Failure_Timeout m)
  have "requests_ok {} (m\<lparr>session_token_failure_due := session_token_failure_due m - 1\<rparr>)"
    using Failure_Timeout.prems by (rule requests_ok_cong) simp_all
  then show ?case
    unfolding HandleSessionTokenFailureTimeout_def by (intro inv_intros)
next
  case (Recheck_Timeout m)
  have "requests_ok {} (m\<lparr>connection_state_recheck_due := connection_state_recheck_due m - 1\<rparr>)"
    using Recheck_Timeout.prems by (rule requests_ok_cong) simp_all
  then show ?case
    unfolding HandleConnectionStateRecheckTimeout_def by (intro inv_intros)
next
  case (Request_Timeout n m q t r rest)
  then show ?case by (intro requests_HandleRequestTimeout requests_locker same_queues_ops)
next
  case (Delay_Over n m q t r rest)
  then have "data (delayed_requests (locker m)) = (t, r) # data q"
    by (auto simp: reset_iteration_def split: if_splits)
  with Delay_Over.prems show ?case by (rule requests_delay_over)
next
  case (Cancel r m)
  then show ?case by (intro requests_Cancel)
next
  case (Http_Response m r t response)
  then show ?case by (intro requests_RequestResponseEvent)
next
  case (Stop_Timeouts m)
  then show ?case by (rule requests_StopTimeouts)
qed (auto simp: te_quiet_def pass_time_def same_queues_def SetSessionStateChangeCallback_def
       SetConnectionStateChangeCallback_def elim!: requests_ok_cong)

lemma requests_start: "requests_ok {} SessionMaintainer"
  by (simp add: requests_defs SessionMaintainer_def SessionMaintainerLocker_def queued_def held_def
      te_create_def)

lemma requests_reachable: "mreachable m \<Longrightarrow> requests_ok {} m"
  by (induction rule: mreachable.induct) (auto intro: requests_start requests_step)

section \<open>Properties\<close>

text \<open>
  a request is in one place. In every reachable state no request is queued twice or both
  queued and in progress, and a request is in progress exactly while its HTTP request is
  under way or its response is posted, of which there is at most one.
\<close>

theorem request_places:
  assumes "mreachable m"
  shows "distinct (queued (locker m)) \<and> set (queued (locker m)) \<inter> in_progress_requests (locker m) = {}
    \<and> distinct (map fst (posted_responses m))
    \<and> (r \<in> in_progress_requests (locker m)
        \<longleftrightarrow> is_active (attempts m r) \<or> r \<in> fst ` set (posted_responses m))"
  using requests_reachable [OF assms]
  by (auto simp: requests_ok_def queues_ok_def attempts_ok_def)

theorem request_places_witness:
  "example_request 1 \<in> in_progress_requests (locker served)
   \<and> is_active (attempts served (example_request 1))"
proof -
  have "is_active (attempts served (example_request 1))" by (simp add: served_def)
  then show ?thesis
    using request_places [OF served_reachable, of "example_request 1"] by simp
qed

text \<open>
  C2: the completion callback of a request is called at most once, not counting the calls
  that \<^verbatim>\<open>Cancel\<close> makes before the request was sent, and not before the request is done.
\<close>

theorem callback_at_most_once:
  assumes "mreachable m"
  shows "count_list (map fst (callbacks m)) r + of_bool (r \<in> held (locker m))
    \<le> 1 + count_list (cancelled m) r"
  using requests_reachable [OF assms] by (simp add: requests_ok_def callbacks_ok_def calls_def)

theorem callback_at_most_once_witness:
  "count_list (map fst (callbacks served)) (example_request 1) = 0"
proof -
  have "example_request 1 \<in> held (locker served)" "cancelled served = []"
    by (simp_all add: served_def held_def called_eq logged_in_eq SessionMaintainer_def)
  then show ?thesis
    using callback_at_most_once [OF served_reachable, of "example_request 1"] by simp
qed

subsection \<open>A cancelled request that still runs\<close>

definition cancelled_call :: maintainer where
  "cancelled_call = Cancel (example_request 1) called"

definition cancelled_served :: maintainer where
  "cancelled_served = served
     \<lparr>callbacks := [(example_request 1, http_error_error Cancelled)],
      cancelled := [example_request 1]\<rparr>"

lemma cancelled_call_reachable: "mreachable cancelled_call"
  unfolding cancelled_call_def
  by (rule mreachable.step [OF called_reachable mstep.Cancel]) (simp add: called_eq)

lemma cancelled_served_response:
  "HandleSessionTokenResponse first_token me
     (cancelled_call\<lparr>token_requests := remove1 me (token_requests cancelled_call),
        issued := (rb_session_token first_token, me) # issued cancelled_call\<rparr>)
   = Some cancelled_served"
  by (simp add: cancelled_call_def Cancel_def complete_def cancelled_served_def served_def
      called_eq logged_in_eq first_token_def more_run_simps)

lemma cancelled_served_reachable: "mreachable cancelled_served"
proof (rule mreachable.step [OF cancelled_call_reachable
      mstep.Token_Success [OF _ _ _ cancelled_served_response]])
qed (simp_all add: cancelled_call_def Cancel_def complete_def called_eq logged_in_eq
       SessionMaintainer_def first_token_def code_defs)

definition good_response :: ResponseBase where
  "good_response = \<lparr>rb_error_code = no_error, rb_error_string = [], rb_new_key = False\<rparr>"

lemmas callback_run_simps = more_run_simps
  RequestResponseEvent_def CallbackProxy_def HandleCompletionNotification_def
  HandleCompletion_def HandleRetryRequest_def complete_def RemoveInProgressRequest_def
  DeleteCheckedOutToken_def MoveInProgressToWaiting_def ReuseToken_def second_clock_def now_ms_def
  te_create_def is_error_def IsInvalidSessionTokenError_def

text \<open>
  \<^verbatim>\<open>Cancel\<close> on a request that waits for a session token calls the callback with
  \<^verbatim>\<open>Cancelled\<close>, but leaves the request in its queue: it is sent nevertheless when a token
  arrives, and its callback is called a second time, with the response.
\<close>

theorem cancelled_request_completes_again:
  "\<exists>m r. mreachable m
     \<and> callbacks m = [(r, http_error_error Cancelled), (r, no_error)]
     \<and> sent m = [(r, ''t'', Some me)]"
proof -
  let ?r = "example_request 1"
  let ?m = "RequestResponseEvent ?r good_response cancelled_served"
  have responded: "mreachable ?m"
    by (rule mreachable.step [OF cancelled_served_reachable mstep.Http_Response [of _ _ "Some ''t''"]])
       (simp add: cancelled_served_def served_def)
  have posted: "(?r, good_response) \<in> set (posted_responses ?m)"
    by (simp add: RequestResponseEvent_def)
  obtain m' where m': "CallbackProxy ?r good_response
      (?m\<lparr>posted_responses := remove1 (?r, good_response) (posted_responses ?m)\<rparr>) = Some m'"
    and "callbacks m' = [(?r, http_error_error Cancelled), (?r, no_error)]"
    and "sent m' = [(?r, ''t'', Some me)]"
    by (simp add: cancelled_served_def served_def called_eq logged_in_eq good_response_def
        first_token_def callback_run_simps)
  then show ?thesis
    using mreachable.step [OF responded mstep.Callback [OF posted m']] by blast
qed

subsection \<open>A request that is dropped without a callback\<close>

definition bad_token_response :: ResponseBase where
  "bad_token_response =
     \<lparr>rb_error_code = result_error SessionTokenInvalid, rb_error_string = [], rb_new_key = False\<rparr>"

text \<open>The server rejects the token; the request waits for a new one.\<close>

definition retried :: maintainer where
  "retried = served
     \<lparr>locker := (locker served)
        \<lparr>waiting_st_requests := [example_request 1], in_progress_requests := {},
         checked_out_tokens := [], in_progress_session_token_requests := 1\<rparr>,
      token_requests := [me],
      attempts := (\<lambda>_. NoAttempt)(example_request 1 := HttpFinished)\<rparr>"

lemma retried_reachable: "mreachable retried"
proof -
  let ?r = "example_request 1"
  let ?m = "RequestResponseEvent ?r bad_token_response served"
  have responded: "mreachable ?m"
    by (rule mreachable.step [OF served_reachable mstep.Http_Response [of _ _ "Some ''t''"]])
       (simp add: served_def)
  have posted: "(?r, bad_token_response) \<in> set (posted_responses ?m)"
    by (simp add: RequestResponseEvent_def)
  have "CallbackProxy ?r bad_token_response
      (?m\<lparr>posted_responses := remove1 (?r, bad_token_response) (posted_responses ?m)\<rparr>) = Some retried"
    by (simp add: retried_def served_def called_eq logged_in_eq bad_token_response_def
        first_token_def callback_run_simps)
  from mreachable.step [OF responded mstep.Callback [OF posted this]] show ?thesis .
qed

text \<open>A minute passes, the timer of the timeouts begins its loop and reaches the request.\<close>

definition timed_out_timer :: "STRequest timed_events" where
  "timed_out_timer =
     te_create\<lparr>data := [(60000, example_request 1)], added := [example_request 1],
               clock := 60000, loops := [60000]\<rparr>"

definition late :: maintainer where
  "late = retried\<lparr>locker := (pass_time 60000 (locker retried))\<lparr>time_out_requests := timed_out_timer\<rparr>\<rparr>"

definition posted_timer :: "STRequest timed_events" where
  "posted_timer =
     te_create\<lparr>data := [(60000, example_request 1)], jobs := [ResetJob],
               added := [example_request 1], clock := 60000\<rparr>"

lemma posted_timer_work: "te_quiet posted_timer timed_out_timer"
  using te_step.Run [of ResetJob posted_timer]
  by (simp add: te_quiet_def posted_timer_def timed_out_timer_def te_create_def)

lemma late_reachable: "mreachable late"
proof -
  let ?m = "retried\<lparr>locker := pass_time 60000 (locker retried)\<rparr>"
  have "mreachable ?m" by (rule mreachable.step [OF retried_reachable mstep.Time])
  moreover have "time_out_requests (locker ?m) = posted_timer"
    by (simp add: posted_timer_def pass_time_def retried_def served_def called_eq te_AddAfter_def
        te_Add_def te_create_def)
  then have "mstep ?m (?m\<lparr>locker := (locker ?m)\<lparr>time_out_requests := timed_out_timer\<rparr>\<rparr>)"
    using mstep.Timeout_Work [of ?m timed_out_timer] posted_timer_work by simp
  then have "mstep ?m late" by (simp add: late_def)
  ultimately show ?thesis by (rule mreachable.step)
qed

text \<open>
  a request that was sent once, got back into the waiting queue because its token was
  rejected, and then waits longer than its timeout, disappears: the locker erases it and
  calls \<^verbatim>\<open>Fail\<close>, which does nothing because the HTTP request it forwards to has ended. The
  callback is never called. Reachable: the request is known and was not cancelled, nothing
  holds it any more, no response is posted for it, and there was no callback.
\<close>

theorem retried_request_lost:
  "\<exists>m r. mreachable m \<and> r \<in> known m \<and> r \<notin> set (cancelled m) \<and> r \<notin> held (locker m)
     \<and> \<not> is_active (attempts m r) \<and> posted_responses m = [] \<and> callbacks m = []"
proof -
  let ?r = "example_request 1"
  let ?q = "timed_out_timer\<lparr>data := [], fired := [(60000, 60000, ?r)]\<rparr>"
  let ?l = "locker late"
  let ?m = "HandleRequestTimeout ?r (late\<lparr>locker := ?l\<lparr>time_out_requests := ?q\<rparr>\<rparr>)"
  have timer: "time_out_requests ?l = timed_out_timer" by (simp add: late_def)
  have "mstep late ?m"
    by (rule mstep.Request_Timeout [of 60000 _ _ 60000 _ "[]"])
       (simp_all add: timer timed_out_timer_def reset_iteration_def te_create_def)
  then have "mreachable ?m" by (rule mreachable.step [OF late_reachable])
  moreover have "?r \<in> known ?m \<and> ?r \<notin> set (cancelled ?m) \<and> ?r \<notin> held (locker ?m)
     \<and> \<not> is_active (attempts ?m ?r) \<and> posted_responses ?m = [] \<and> callbacks ?m = []"
    by (simp add: HandleRequestTimeout_def HandleTimedOutRequest_def Fail_def late_def pass_time_def
        retried_def served_def called_eq logged_in_eq held_def queued_def example_request_def
        SessionMaintainer_def SessionMaintainerLocker_def te_create_def)
  ultimately show ?thesis by blast
qed

end
