(* ===== verification/Session_Progress.thy ===== *)
theory Session_Progress
  imports Session_Requests
begin

text \<open>
  What the session maintainer promises over time: the states a session goes through, that
  starting requests is not left half done, that bad credentials are not tried again at once,
  and that waiting requests are never forgotten.
\<close>

section \<open>The session states as an abstract machine\<close>

datatype phase = No_Credentials | Logging_In | Rejected_Credentials | Stuck_Logging_In | Active

fun phase_of :: "SessionState \<Rightarrow> phase" where
  "phase_of Uninitialized = No_Credentials"
| "phase_of Initialized = Logging_In"
| "phase_of (CredentialsFailure _ _ _) = Rejected_Credentials"
| "phase_of (ProlongedError _ _) = Stuck_Logging_In"
| "phase_of (Running _) = Active"

text \<open>
  New credentials begin a login; a login can be rejected, be reported as stuck, or succeed.
  There is no way back to having no credentials, and a session that runs or whose credentials
  were rejected is never reported as stuck in its login.
\<close>

inductive phase_step :: "phase \<Rightarrow> phase \<Rightarrow> bool" where
  Stay: "phase_step p p"
| New_Credentials: "phase_step p Logging_In"
| Rejected: "p \<in> {Logging_In, Stuck_Logging_In, Active} \<Longrightarrow> phase_step p Rejected_Credentials"
| Prolonged: "phase_step Logging_In Stuck_Logging_In"
| Succeeds: "p \<in> {Logging_In, Stuck_Logging_In, Rejected_Credentials} \<Longrightarrow> phase_step p Active"

inductive_simps phase_step_simps:
  "phase_step p No_Credentials" "phase_step p Stuck_Logging_In"

abbreviation phase :: "maintainer \<Rightarrow> phase" where
  "phase m \<equiv> phase_of (session_state (locker m))"

lemma phase_of_change:
  "phase_of (session_state (ChangeSessionStateInternal s l)) = phase_of s"
  by (cases "session_state l"; cases s)
     (auto simp: ChangeSessionStateInternal_def Let_def frame_simps)

lemma phase_SetSessionStateSafe:
  "phase_of (session_state (snd (SetSessionStateSafe s k l))) \<in> {phase_of s, phase_of (session_state l)}"
  by (simp add: SetSessionStateSafe_def phase_of_change)

text \<open>What starting requests leaves alone.\<close>

lemma AttemptRequests_session:
  "session_state (locker (AttemptRequests m)) = session_state (locker m)"
  "credentials (locker (AttemptRequests m)) = credentials (locker m)"
  "connection_state (locker (AttemptRequests m)) = connection_state (locker m)"
proof -
  let ?P = "\<lambda>m' :: maintainer. session_state (locker m') = session_state (locker m)
    \<and> credentials (locker m') = credentials (locker m)
    \<and> connection_state (locker m') = connection_state (locker m)"
  have "?P (AttemptRequests m)"
    by (rule AttemptRequests_invariant [where P = ?P])
       (auto simp: start_non_st_def start_st_def AddInProgressRequest_def
          AddInProgressRequestToken_def NextWaitingNonSessionTokenRequest_def
          NextWaitingSessionTokenRequest_def TryRequestSessionToken_def
          StartRequestSessionToken_def Let_def AttemptConnection_def
          split: list.splits if_splits prod.splits bool.splits)
  then show "session_state (locker (AttemptRequests m)) = session_state (locker m)"
    "credentials (locker (AttemptRequests m)) = credentials (locker m)"
    "connection_state (locker (AttemptRequests m)) = connection_state (locker m)"
    by simp_all
qed

lemma RequestNeeded_session [simp]:
  "session_state (locker (RequestNeededSessionTokens b m)) = session_state (locker m)"
  by (rule RequestNeededSessionTokens_invariant
        [where P = "\<lambda>m'. session_state (locker m') = session_state (locker m)"])
     (auto simp: TryRequestSessionToken_def StartRequestSessionToken_def Let_def
        split: if_splits prod.splits bool.splits)

lemma UpdateConnection_session [simp]:
  "session_state (locker (UpdateConnectionStateFromErrorCode ec m)) = session_state (locker m)"
  by (simp add: UpdateConnectionStateFromErrorCode_def SetConnectionState_def frame_simps)

lemma phase_HandleTokenFailure:
  "phase_step (phase_of (session_state (locker m)))
     (phase (HandleTokenFailure resp c (session_state (locker m)) k m))"
proof -
  let ?l = "IncrementFailureCount (locker m)"
  have l: "session_state ?l = session_state (locker m)" by (simp add: IncrementFailureCount_def)
  have "phase_step (phase m) (phase_of (session_state (snd (SetSessionStateSafe
      (CredentialsFailure p e r) k ?l))))"
    if "\<not> IsUninitialized (session_state (locker m))" for p e r
    using phase_SetSessionStateSafe [of "CredentialsFailure p e r" k ?l] that
    by (cases "session_state (locker m)") (auto simp: l intro: phase_step.intros)
  moreover have "phase_step (phase m) (phase_of (session_state (snd (SetSessionStateSafe
      (ProlongedError e r) k ?l))))"
    if "IsInitialized (session_state (locker m)) \<or> IsProlongedError (session_state (locker m))" for e r
    using phase_SetSessionStateSafe [of "ProlongedError e r" k ?l] that
    by (cases "session_state (locker m)") (auto simp: l intro: phase_step.intros)
  ultimately show ?thesis
    by (auto simp: HandleTokenFailure_def Let_def l intro: phase_step.Stay)
qed

lemma phase_HandleTokenSuccess:
  assumes "HandleTokenSuccess resp c (session_state (locker m)) k m = Some m'"
  shows "phase_step (phase m) (phase m')"
proof -
  let ?s = "session_state (locker m)"
  obtain added l where l: "AddSessionToken (token_of_response resp) c (ResetFailureCount (locker m))
      = Some (added, l)"
    and m': "m' = AttemptRequests (m\<lparr>locker := if added \<and> \<not> IsUninitialized ?s \<and> \<not> IsRunning ?s
         then snd (SetSessionStateSafe (Running resp) k l) else l\<rparr>)"
    using assms by (auto simp: HandleTokenSuccess_def bind_eq_Some_conv)
  have same: "session_state l = ?s"
    using l by (auto simp: AddSessionToken_def push_token_def ResetFailureCount_def
        split: option.splits if_splits)
  have "phase_of (session_state (snd (SetSessionStateSafe (Running resp) k l))) \<in> {Active, phase m}"
    using phase_SetSessionStateSafe [of "Running resp" k l] same by simp
  then show ?thesis
    unfolding m' using same
    by (cases ?s) (auto simp: AttemptRequests_session intro: phase_step.intros)
qed

lemma phase_HandleSessionTokenResponse:
  assumes "HandleSessionTokenResponse resp c m = Some m'"
  shows "phase_step (phase m) (phase m')"
proof -
  obtain l where l: "DecrementSessionTokenInProgressCount (locker m) = Some l"
    using assms by (auto simp: HandleSessionTokenResponse_def bind_eq_Some_conv)
  then have s: "session_state l = session_state (locker m)"
    by (auto simp: DecrementSessionTokenInProgressCount_def split: if_splits)
  let ?u = "UpdateConnectionStateFromErrorCode (rb_error_code resp) (m\<lparr>locker := l\<rparr>)"
  have "phase_step (phase ?u) (phase m')"
    using assms l phase_HandleTokenFailure [of ?u] phase_HandleTokenSuccess [of resp c ?u _ m']
    by (auto simp: HandleSessionTokenResponse_def GetSessionState_def Let_def split: if_splits)
  then show ?thesis by (simp add: s)
qed

lemma session_ReuseToken: "ReuseToken r k l = Some l' \<Longrightarrow> session_state l' = session_state l"
  by (auto simp: ReuseToken_def push_token_def split: if_splits option.splits)

lemma session_CallbackProxy:
  assumes "CallbackProxy r resp m = Some m'"
  shows "session_state (locker m') = session_state (locker m)"
  using assms
  by (auto simp: CallbackProxy_def Let_def bind_eq_Some_conv HandleCompletion_def
      HandleRetryRequest_def HandleCompletionNotification_def complete_def AttemptRequests_session
      locker_defs UpdateConnectionStateFromErrorCode_def frame_simps
      dest!: session_ReuseToken split: if_splits)

text \<open>
  C35: the session states refine the abstract machine. Every step of the maintainer keeps the
  phase or makes one allowed transition.
\<close>

theorem session_state_machine:
  assumes "mstep m m'"
  shows "phase_step (phase m) (phase m')"
  using assms
proof (induction rule: mstep.induct)
  case (Credentials m c)
  then show ?case
    by (auto simp: SetLoginCredentials_def AttemptRequests_session SetCredentials_def phase_of_change
        intro: phase_step.intros split: option.splits)
next
  case (Token_Failure c m response m')
  then show ?case using phase_HandleSessionTokenResponse [of response c _ m'] by fastforce
next
  case (Token_Success c m response m')
  then show ?case using phase_HandleSessionTokenResponse [of response c _ m'] by fastforce
next
  case (Callback r response m m')
  then show ?case using session_CallbackProxy by (fastforce intro: phase_step.Stay)
qed (auto simp: Call_def SM_AddWaitingRequest_def AttemptRequests_session locker_defs Cancel_def
      complete_def RequestResponseEvent_def HandleSessionTokenFailureTimeout_def
      HandleConnectionStateRecheckTimeout_def HandleCheckConnectionStatusResponse_def Let_def
      HandleRequestTimeout_def HandleTimedOutRequest_def Fail_def pass_time_def
      SetSessionStateChangeCallback_def SetConnectionStateChangeCallback_def
      intro: phase_step.Stay split: attempt.splits)

theorem session_state_machine_witness:
  "phase_step (phase SessionMaintainer) (phase logged_in) \<and> phase logged_in = Logging_In"
  using session_state_machine [OF mstep.Credentials [of SessionMaintainer me]]
  by (simp add: logged_in_eq flip: logged_in_def)

section \<open>Starting requests\<close>

text \<open>The loops run until nothing is left to do.\<close>

lemma StartNon_done: "waiting_non_st_requests (locker (StartNonSessionTokenRequests m)) = []"
proof (induction m rule: StartNonSessionTokenRequests.induct)
  case (1 m)
  then show ?case
    by (subst StartNonSessionTokenRequests_step)
       (auto simp: NextWaitingNonSessionTokenRequest_def start_non_st_def split: list.splits)
qed

lemma StartST_done:
  "IsRunning (session_state (locker (StartSessionTokenRequests m)))
    \<Longrightarrow> waiting_st_requests (locker (StartSessionTokenRequests m)) = []
      \<or> session_tokens (locker (StartSessionTokenRequests m)) = []"
proof (induction m rule: StartSessionTokenRequests.induct)
  case (1 m)
  show ?case
  proof (cases "IsRunning (session_state (locker m))
      \<and> waiting_st_requests (locker m) \<noteq> [] \<and> session_tokens (locker m) \<noteq> []")
    case True
    then obtain r t l where "NextWaitingSessionTokenRequest (locker m) = (Some (r, t), l)"
      by (auto simp: NextWaitingSessionTokenRequest_def neq_Nil_conv)
    with True 1 show ?thesis
      by (simp add: StartSessionTokenRequests_step [of m] start_st_def)
  next
    case False
    then have "StartSessionTokenRequests m = m"
      by (auto simp: StartSessionTokenRequests_step [of m] NextWaitingSessionTokenRequest_def
          split: list.split)
    with False 1(2) show ?thesis by auto
  qed
qed

lemma RequestSessionTokens_done: "\<not> fst (StartRequestSessionToken (locker (RequestSessionTokens c m)))"
proof (induction c m rule: RequestSessionTokens.induct)
  case (1 c m)
  show ?case
  proof (cases "StartRequestSessionToken (locker m)")
    case (Pair b l)
    with 1 show ?thesis
      by (cases b) (simp_all add: RequestSessionTokens.simps [of c m] TryRequestSessionToken_def)
  qed
qed

text \<open>What each part of \<^verbatim>\<open>AttemptRequests\<close> leaves alone.\<close>

lemma TryRequest_frame:
  assumes "TryRequestSessionToken c m = (b, m')"
  shows "waiting_st_requests (locker m') = waiting_st_requests (locker m)"
    "waiting_non_st_requests (locker m') = waiting_non_st_requests (locker m)"
    "session_tokens (locker m') = session_tokens (locker m)"
    "checked_out_tokens (locker m') = checked_out_tokens (locker m)"
    "in_progress_requests (locker m') = in_progress_requests (locker m)"
    "status_requests m' = status_requests m"
    "session_token_failure_timer m' = session_token_failure_timer m"
    "session_token_failure_due m' = session_token_failure_due m"
    "connection_state_recheck_timer m' = connection_state_recheck_timer m"
    "connection_state_recheck_due m' = connection_state_recheck_due m"
  using assms
  by (auto simp: TryRequestSessionToken_def StartRequestSessionToken_def Let_def
      split: if_splits prod.splits bool.splits)

lemma RequestNeeded_frame:
  "waiting_st_requests (locker (RequestNeededSessionTokens b m)) = waiting_st_requests (locker m)
   \<and> waiting_non_st_requests (locker (RequestNeededSessionTokens b m))
       = waiting_non_st_requests (locker m)
   \<and> session_tokens (locker (RequestNeededSessionTokens b m)) = session_tokens (locker m)
   \<and> checked_out_tokens (locker (RequestNeededSessionTokens b m)) = checked_out_tokens (locker m)
   \<and> credentials (locker (RequestNeededSessionTokens b m)) = credentials (locker m)"
proof (rule RequestNeededSessionTokens_invariant [where P =
      "\<lambda>m'. waiting_st_requests (locker m') = waiting_st_requests (locker m)
       \<and> waiting_non_st_requests (locker m') = waiting_non_st_requests (locker m)
       \<and> session_tokens (locker m') = session_tokens (locker m)
       \<and> checked_out_tokens (locker m') = checked_out_tokens (locker m)
       \<and> credentials (locker m') = credentials (locker m)"])
qed (auto simp: TryRequestSessionToken_def StartRequestSessionToken_def Let_def
       split: if_splits prod.splits bool.splits)

lemma Start_frame:
  "token_requests (StartNonSessionTokenRequests m) = token_requests m
   \<and> session_state (locker (StartNonSessionTokenRequests m)) = session_state (locker m)
   \<and> credentials (locker (StartNonSessionTokenRequests m)) = credentials (locker m)"
  "token_requests (StartSessionTokenRequests m) = token_requests m
   \<and> session_state (locker (StartSessionTokenRequests m)) = session_state (locker m)
   \<and> credentials (locker (StartSessionTokenRequests m)) = credentials (locker m)
   \<and> waiting_non_st_requests (locker (StartSessionTokenRequests m))
       = waiting_non_st_requests (locker m)"
proof (rule StartNonSessionTokenRequests_invariant [where P =
      "\<lambda>m'. token_requests m' = token_requests m \<and> session_state (locker m') = session_state (locker m)
        \<and> credentials (locker m') = credentials (locker m)"])
  show "token_requests (StartSessionTokenRequests m) = token_requests m
    \<and> session_state (locker (StartSessionTokenRequests m)) = session_state (locker m)
    \<and> credentials (locker (StartSessionTokenRequests m)) = credentials (locker m)
    \<and> waiting_non_st_requests (locker (StartSessionTokenRequests m))
        = waiting_non_st_requests (locker m)"
    by (rule StartSessionTokenRequests_invariant [where P =
          "\<lambda>m'. token_requests m' = token_requests m
            \<and> session_state (locker m') = session_state (locker m)
            \<and> credentials (locker m') = credentials (locker m)
            \<and> waiting_non_st_requests (locker m') = waiting_non_st_requests (locker m)"])
       (auto simp: start_st_def Init_def AddInProgressRequestToken_def AddInProgressRequest_def
          NextWaitingSessionTokenRequest_def split: list.splits if_splits)
qed (auto simp: start_non_st_def Init_def AddInProgressRequest_def
       NextWaitingNonSessionTokenRequest_def split: list.splits)

lemma RequestNeeded_done:
  assumes "credentials (locker m) \<noteq> None" and "\<not> IsCredentialsError (session_state (locker m))"
  shows "\<not> fst (StartRequestSessionToken (locker (RequestNeededSessionTokens b m)))"
  using assms RequestSessionTokens_done
  by (auto simp: RequestNeededSessionTokens_def GetCredenials_def)

lemma AttemptRequests_saturates':
  assumes "\<not> IsUnconnected (connection_state (locker m))"
  shows "waiting_non_st_requests (locker (AttemptRequests m)) = []
    \<and> (IsRunning (session_state (locker m)) \<longrightarrow>
        waiting_st_requests (locker (AttemptRequests m)) = []
        \<or> session_tokens (locker (AttemptRequests m)) = [])
    \<and> (credentials (locker m) \<noteq> None \<and> \<not> IsCredentialsError (session_state (locker m)) \<longrightarrow>
        \<not> fst (StartRequestSessionToken (locker (AttemptRequests m))))"
proof -
  let ?a = "StartNonSessionTokenRequests m"
  let ?b = "StartSessionTokenRequests ?a"
  have final: "AttemptRequests m = RequestNeededSessionTokens NoForce ?b"
    using assms by (simp add: AttemptRequests_def GetConnectionState_def)
  have same: "session_state (locker ?b) = session_state (locker m)"
    "credentials (locker ?b) = credentials (locker m)"
    "waiting_non_st_requests (locker ?b) = []"
    using Start_frame(1) [of m] Start_frame(2) [of ?a] StartNon_done [of m] by simp_all
  show ?thesis
    unfolding final
    using RequestNeeded_frame [of NoForce ?b] RequestNeeded_done [of ?b NoForce] same
      StartST_done [of ?a]
    by simp
qed

text \<open>
  \<^verbatim>\<open>AttemptRequests\<close> does all it can. Unless the connection is known to be down, no
  request without session token is left waiting; a running session has no request waiting
  while a token is stored; and with credentials that were not rejected it has asked for
  every token that the limits allow.
\<close>

theorem AttemptRequests_saturates:
  assumes "\<not> IsUnconnected (connection_state (locker m))"
  shows "waiting_non_st_requests (locker (AttemptRequests m)) = []
    \<and> (IsRunning (session_state (locker m)) \<longrightarrow>
        waiting_st_requests (locker (AttemptRequests m)) = []
        \<or> session_tokens (locker (AttemptRequests m)) = [])
    \<and> (credentials (locker m) \<noteq> None \<and> \<not> IsCredentialsError (session_state (locker m)) \<longrightarrow>
        \<not> fst (StartRequestSessionToken (locker (AttemptRequests m))))"
  by (rule AttemptRequests_saturates' [OF assms])

theorem AttemptRequests_saturates_witness:
  "waiting_non_st_requests (locker (AttemptRequests called)) = []
   \<and> \<not> fst (StartRequestSessionToken (locker (AttemptRequests called)))"
proof -
  have "\<not> IsUnconnected (connection_state (locker called))" "credentials (locker called) \<noteq> None"
    "\<not> IsCredentialsError (session_state (locker called))"
    by (simp_all add: called_eq logged_in_eq SessionMaintainerLocker_def)
  then show ?thesis using AttemptRequests_saturates [of called] by blast
qed

text \<open>
  rejected credentials are throttled. While the session state is a credentials failure,
  \<^verbatim>\<open>AttemptRequests\<close> asks for no session token, and the failure timeout, after a wait of a
  minute, for at most one.
\<close>

theorem credentials_failure_throttled:
  assumes "IsCredentialsError (session_state (locker m))"
  shows "token_requests (AttemptRequests m) = token_requests m
    \<and> length (token_requests (HandleSessionTokenFailureTimeout m)) \<le> Suc (length (token_requests m))"
proof -
  have "token_requests (RequestNeededSessionTokens NoForce m') = token_requests m'"
    if "IsCredentialsError (session_state (locker m'))" for m'
    using that by (simp add: RequestNeededSessionTokens_def)
  then have quiet: "token_requests (AttemptRequests m) = token_requests m"
    using assms Start_frame(1) [of m] Start_frame(2) [of "StartNonSessionTokenRequests m"]
    by (simp add: AttemptRequests_def AttemptConnection_def)
  have "length (token_requests (RequestNeededSessionTokens Force m')) \<le> Suc (length (token_requests m'))"
    if "IsCredentialsError (session_state (locker m'))" for m'
    using that
    by (auto simp: RequestNeededSessionTokens_def TryRequestSessionToken_def
        split: option.splits prod.splits bool.splits)
  then show ?thesis
    using quiet assms by (simp add: HandleSessionTokenFailureTimeout_def AttemptRequests_session
        flip: quiet)
qed

definition rejected_login :: maintainer where
  "rejected_login =
     logged_in\<lparr>locker := (locker logged_in)\<lparr>session_state :=
       CredentialsFailure None (result_error CredentialsInvalid)
         (example_response (result_error CredentialsInvalid) [])\<rparr>\<rparr>"

theorem credentials_failure_throttled_witness:
  "token_requests (AttemptRequests rejected_login) = [me]"
  using credentials_failure_throttled [of rejected_login]
  by (simp add: rejected_login_def logged_in_eq)

section \<open>Waiting requests are not forgotten\<close>

definition work_waits :: "maintainer \<Rightarrow> bool" where
  "work_waits m \<longleftrightarrow>
     waiting_non_st_requests (locker m) \<noteq> []
     \<or> (waiting_st_requests (locker m) \<noteq> [] \<and> credentials (locker m) \<noteq> None
        \<and> \<not> IsCredentialsError (session_state (locker m)))"

text \<open>Something whose completion makes the maintainer look at its queues again.\<close>

definition outstanding :: "maintainer \<Rightarrow> bool" where
  "outstanding m \<longleftrightarrow>
     token_requests m \<noteq> [] \<or> 0 < status_requests m \<or> in_progress_requests (locker m) \<noteq> {}
     \<or> session_token_failure_timer m \<noteq> None \<or> 0 < session_token_failure_due m
     \<or> connection_state_recheck_timer m \<noteq> None \<or> 0 < connection_state_recheck_due m"

definition live :: "maintainer \<Rightarrow> bool" where
  "live m \<longleftrightarrow> (work_waits m \<longrightarrow> outstanding m)"

definition saturated :: "maintainer \<Rightarrow> bool" where
  "saturated m \<longleftrightarrow>
     0 < status_requests m
     \<or> (waiting_non_st_requests (locker m) = []
        \<and> (IsRunning (session_state (locker m)) \<longrightarrow>
             waiting_st_requests (locker m) = [] \<or> session_tokens (locker m) = [])
        \<and> (credentials (locker m) \<noteq> None \<and> \<not> IsCredentialsError (session_state (locker m)) \<longrightarrow>
             \<not> fst (StartRequestSessionToken (locker m))))"

lemma saturated_AttemptRequests: "saturated (AttemptRequests m)"
proof (cases "IsUnconnected (connection_state (locker m))")
  case True
  then show ?thesis
    by (simp add: saturated_def AttemptRequests_def GetConnectionState_def AttemptConnection_def)
next
  case False
  from AttemptRequests_saturates' [OF this] show ?thesis
    by (simp add: saturated_def AttemptRequests_session)
qed

lemma saturated_RequestNeeded:
  assumes "saturated m"
  shows "saturated (RequestNeededSessionTokens b m)"
proof -
  have "status_requests (RequestNeededSessionTokens b m) = status_requests m"
    by (rule RequestNeededSessionTokens_invariant [where P = "\<lambda>m'. status_requests m' = status_requests m"])
       (auto dest: TryRequest_frame(6))
  with assms show ?thesis
    using RequestNeeded_frame [of b m] RequestNeeded_done [of m b]
    by (auto simp: saturated_def)
qed

lemma saturated_live:
  assumes "saturated m" and "tokens_ok m" and "requests_ok {} m"
  shows "live m"
  unfolding live_def
proof
  assume w: "work_waits m"
  let ?l = "locker m"
  show "outstanding m"
  proof (cases "0 < status_requests m \<or> token_requests m \<noteq> []")
    case False
    with assms(1) w have st: "waiting_st_requests ?l \<noteq> []" and refused: "\<not> fst (StartRequestSessionToken ?l)"
      and run: "IsRunning (session_state ?l) \<Longrightarrow> session_tokens ?l = []"
      by (auto simp: saturated_def work_waits_def)
    have "in_progress_session_token_requests ?l = 0"
      using assms(2) False by (simp add: tokens_ok_def pool_ok_def pool_bounds_def)
    then have "0 < token_supply ?l"
      using budget.refused_busy [of ?l "snd (StartRequestSessionToken ?l)"] refused
      by (simp add: prod_eq_iff)
    then have "checked_out_tokens ?l \<noteq> []"
      using run assms(2) by (cases "IsRunning (session_state ?l)")
        (auto simp: token_supply_def tokens_ok_def pool_ok_def pool_state_def)
    then have "in_progress_requests ?l \<noteq> {}"
      using assms(3) by (cases "checked_out_tokens ?l") (auto simp: requests_ok_def queues_ok_def)
    then show ?thesis by (simp add: outstanding_def)
  qed (auto simp: outstanding_def)
qed

lemma saturated_complete: "saturated m \<Longrightarrow> saturated (complete r ec m)"
  by (simp add: saturated_def complete_def)

lemma saturated_CallbackProxy: "CallbackProxy r resp m = Some m' \<Longrightarrow> saturated m'"
  by (auto simp: CallbackProxy_def HandleCompletion_def HandleRetryRequest_def Let_def
      bind_eq_Some_conv saturated_AttemptRequests intro!: saturated_complete split: if_splits)

lemma live_HandleSessionTokenResponse:
  assumes "HandleSessionTokenResponse resp c m = Some m'"
  shows "saturated m' \<or> outstanding m'"
proof (cases "is_error (rb_error_code resp)")
  case True
  then have "session_token_failure_timer m' \<noteq> None"
    using assms
    by (auto simp: HandleSessionTokenResponse_def bind_eq_Some_conv HandleTokenFailure_def Let_def
        GetSessionState_def split: if_splits)
  then show ?thesis by (simp add: outstanding_def)
next
  case False
  then obtain m'' where "m' = AttemptRequests m''"
    using assms by (auto simp: HandleSessionTokenResponse_def bind_eq_Some_conv HandleTokenSuccess_def
        Let_def GetSessionState_def)
  then show ?thesis by (simp add: saturated_AttemptRequests)
qed

lemma live_status:
  "saturated (HandleCheckConnectionStatusResponse resp m)
   \<or> outstanding (HandleCheckConnectionStatusResponse resp m)"
  by (auto simp: HandleCheckConnectionStatusResponse_def Let_def saturated_AttemptRequests
      UpdateConnectionStateFromErrorCode_def outstanding_def SetConnectionState_def
      GetConnectionState_def frame_simps)

lemma live_step:
  assumes "mstep m m'" and "live m" and "tokens_ok m'" and "requests_ok {} m'"
  shows "live m'"
proof -
  have "saturated m' \<or> outstanding m' \<or> live m'"
    using assms(1,2)
  proof (induction rule: mstep.induct)
    case (Token_Failure c m response m')
    then show ?case using live_HandleSessionTokenResponse by blast
  next
    case (Token_Success c m response m')
    then show ?case using live_HandleSessionTokenResponse by blast
  next
    case (Status_Response m response)
    then show ?case using live_status by blast
  next
    case (Callback r response m m')
    then show ?case using saturated_CallbackProxy by blast
  next
    case (Request_Timeout n m q t r rest)
    then show ?case
      by (auto simp: HandleRequestTimeout_def HandleTimedOutRequest_def Fail_def complete_def
          live_def work_waits_def outstanding_def split: attempt.splits)
  qed (auto simp: SetLoginCredentials_def Call_def SM_AddWaitingRequest_def saturated_AttemptRequests
        HandleSessionTokenFailureTimeout_def HandleConnectionStateRecheckTimeout_def
        saturated_RequestNeeded Cancel_def complete_def RequestResponseEvent_def StopTimeouts_def
        pass_time_def SetSessionStateChangeCallback_def SetConnectionStateChangeCallback_def
        live_def work_waits_def outstanding_def split: attempt.splits)
  then show ?thesis
    using saturated_live assms(3,4) by (auto simp: live_def)
qed

lemma live_reachable: "mreachable m \<Longrightarrow> live m"
proof (induction rule: mreachable.induct)
  case start
  then show ?case
    by (simp add: live_def work_waits_def SessionMaintainer_def SessionMaintainerLocker_def)
next
  case (step m m')
  then have "mreachable m'" by (blast intro: mreachable.step)
  with step live_step tokens_reachable requests_reachable show ?case by blast
qed



end
