(* ===== verification/Http_Content.thy ===== *)
theory Http_Content
  imports Url_Encode Errors
begin

text \<open>
  \<^verbatim>\<open>http/detail/state_read_content.hpp\<close>: reading the body of a response, with a content
  length, until the end of the stream, or in chunks. Each handler is a function that ends in
  the operation it starts next; the environment completes that operation. The socket is the
  list of bytes still to come and the error that ends it. A delivered buffer is a list of
  optional bytes, where \<^const>\<open>None\<close> is a byte of a \<^verbatim>\<open>new uint8_t[n]\<close> that was never
  written. The decompressor of boost is a parameter, with \<^const>\<open>None\<close> for its exception.
\<close>

named_theorems handler_defs "the small operations the content handlers are made of"

section \<open>Encodings\<close>

datatype TransferEncoding = TE_Unknown | TE_ContentLength | TE_Chunked | TE_Gzip
datatype ContentEncoding = CE_Unknown | CE_Gzip

type_synonym headers = "(string \<times> string) list"

text \<open>\<^verbatim>\<open>boost::split(tokens, s, is_any_of(","))\<close> and \<^verbatim>\<open>boost::trim\<close>\<close>

fun split_commas :: "string \<Rightarrow> string list" where
  "split_commas [] = [[]]"
| "split_commas (c # cs) =
     (if c = CHR '','' then [] # split_commas cs
      else (c # hd (split_commas cs)) # tl (split_commas cs))"

definition trim_right :: "string \<Rightarrow> string" where
  "trim_right s = rev (dropWhile is_space (rev s))"

definition trim :: "string \<Rightarrow> string" where
  "trim s = dropWhile is_space (trim_right s)"

text \<open>The result is the set of flags whose bits are set.\<close>

definition transfer_token :: "string \<Rightarrow> TransferEncoding" where [code_defs]:
  "transfer_token token =
     (if token = ''chunked'' then TE_Chunked else if token = ''gzip'' then TE_Gzip else TE_Unknown)"

definition ParseTransferEncoding :: "headers \<Rightarrow> TransferEncoding set" where
  "ParseTransferEncoding hs =
     (case map_of hs ''content-length'' of None \<Rightarrow> {} | Some _ \<Rightarrow> {TE_ContentLength})
     \<union> (case map_of hs ''transfer-encoding'' of
          None \<Rightarrow> {}
        | Some v \<Rightarrow> set (map (transfer_token \<circ> trim) (split_commas v)))"

definition ParseContentEncoding :: "headers \<Rightarrow> ContentEncoding set" where
  "ParseContentEncoding hs =
     (case map_of hs ''content-encoding'' of
        None \<Rightarrow> {}
      | Some v \<Rightarrow> set (map ((\<lambda>t. if t = ''gzip'' then CE_Gzip else CE_Unknown) \<circ> trim)
                         (split_commas v)))"

section \<open>Numbers\<close>

text \<open>
  \<^verbatim>\<open>std::stoul(str, 0, 16)\<close> behind \<^verbatim>\<open>str_to_uint64\<close>: blanks, a sign, an optional prefix and
  hexadecimal digits; what follows is ignored. Both exceptions are \<^const>\<open>None\<close>. A minus
  sign negates modulo \<open>2^64\<close>.
\<close>

definition str_to_uint64_16 :: "string \<Rightarrow> nat option" where
  "str_to_uint64_16 str =
     (let s = dropWhile is_space (takeWhile (\<lambda>c. c \<noteq> CHR 0x00) str);
          (neg, s1) = scan_sign s;
          s2 = (if hex_digits (scan_prefix s1) \<noteq> [] then scan_prefix s1 else s1);
          ds = hex_digits s2;
          n = hex_number ds
      in if ds = [] \<or> 2 ^ 64 \<le> n then None
         else Some (if neg then (2 ^ 64 - n) mod 2 ^ 64 else n))"

definition uint64_add :: "nat \<Rightarrow> nat \<Rightarrow> nat" where
  "uint64_add a b = (a + b) mod 2 ^ 64"

section \<open>State\<close>

datatype read_error = No_Error | Eof | Ssl_Short_Read | Other_Error

text \<open>The asynchronous operation that is pending, with what its handler captured.\<close>

datatype content_op =
    Idle
  | Read_Until nat               \<comment> \<open>up to \<^verbatim>\<open>\r\n\<close>; \<^verbatim>\<open>output_bytes_consumed\<close>\<close>
  | Delay_Chunk nat nat nat      \<comment> \<open>\<^verbatim>\<open>left_to_read\<close>, \<^verbatim>\<open>output_bytes_consumed\<close>, \<^verbatim>\<open>chunk_size\<close>\<close>
  | Read_Chunk nat nat nat
  | Delay_Read nat nat           \<comment> \<open>\<^verbatim>\<open>max_read_size\<close>, \<^verbatim>\<open>total_read\<close>\<close>
  | Read_Exactly nat nat nat     \<comment> \<open>\<^verbatim>\<open>max_read_size\<close>, \<^verbatim>\<open>total_read\<close>, \<^verbatim>\<open>previously_transferred\<close>\<close>

datatype content_event = ContentReadEvent | ErrorEvent http_error

text \<open>
  \<^verbatim>\<open>ReadContentData\<close>, the flags of the state machine that the handlers use, and the ends of
  the two conversations: what the callback received, the event given to the state machine,
  and the bytes the socket will still bring with the error that ends them. \<^verbatim>\<open>first_taken\<close>
  is the flag of the \<^verbatim>\<open>RacePreventer\<close> of the pending operation.
\<close>

record content_reader =
  cancelled :: bool
  content_length :: nat
  read_buffer :: string
  gzipped_buffer :: string
  filter_buf_consumed :: nat
  using_gzip :: bool
  using_content_length :: bool
  is_ssl :: bool
  first_taken :: bool
  transmission_delay_timer_enabled :: bool
  pending_op :: content_op
  delivered :: "(nat \<times> char option list) list"   \<comment> \<open>\<^verbatim>\<open>ResponseContentReceived\<close>\<close>
  bandwidth :: "nat list"                          \<comment> \<open>\<^verbatim>\<open>RecordIncomingBytes\<close>\<close>
  event :: "content_event option"
  incoming :: string
  ending :: read_error

definition kMaxUnknownReadLength :: nat where [code_defs]:
  "kMaxUnknownReadLength = 8192"

definition deliver :: "nat \<Rightarrow> char option list \<Rightarrow> content_reader \<Rightarrow> content_reader" where [handler_defs]:
  "deliver start_pos b s = s\<lparr>delivered := delivered s @ [(start_pos, b)]\<rparr>"

text \<open>Both events make the state machine leave the state, which runs \<^verbatim>\<open>on_exit\<close>.\<close>

definition ProcessEvent :: "content_event \<Rightarrow> content_reader \<Rightarrow> content_reader" where [handler_defs]:
  "ProcessEvent evt s = s\<lparr>event := Some evt, cancelled := True\<rparr>"

text \<open>A new operation under a new timeout, and one behind the transmission delay timer.\<close>

definition begin_read :: "content_op \<Rightarrow> content_reader \<Rightarrow> content_reader" where [handler_defs]:
  "begin_read opn s = s\<lparr>first_taken := False, pending_op := opn\<rparr>"

definition SetTransactionDelayTimer :: "content_op \<Rightarrow> content_reader \<Rightarrow> content_reader" where [handler_defs]:
  "SetTransactionDelayTimer opn s =
     s\<lparr>transmission_delay_timer_enabled := True, pending_op := opn\<rparr>"

text \<open>Reading \<open>n\<close> bytes of the buffer into a new array of that size.\<close>

definition read_array :: "nat \<Rightarrow> string \<Rightarrow> char option list" where
  "read_array n b = map Some (take n b) @ replicate (n - length b) None"

definition is_eof :: "content_reader \<Rightarrow> read_error \<Rightarrow> bool" where [handler_defs]:
  "is_eof s err \<longleftrightarrow> err = Eof \<or> is_ssl s \<and> err = Ssl_Short_Read"

section \<open>Handlers\<close>

definition HandleContentRead ::
  "(string \<Rightarrow> string option) \<Rightarrow> nat \<Rightarrow> nat \<Rightarrow> nat \<Rightarrow> read_error \<Rightarrow> content_reader \<Rightarrow> content_reader"
where
  "HandleContentRead gunzip total_previously_read bytes_previously_transferred bytes_transferred
     err s =
     (if cancelled s \<or> first_taken s then s
      else
        let bytes_to_process = bytes_previously_transferred + bytes_transferred;
            s = s\<lparr>first_taken := True, bandwidth := bandwidth s @ [bytes_previously_transferred]\<rparr>;
            eof = is_eof s err
        in if err = No_Error \<or> eof then
             let total_read = total_previously_read + bytes_to_process;
                 s = (if using_gzip s then s
                      else (deliver total_previously_read
                              (read_array bytes_to_process (read_buffer s)) s)
                             \<lparr>read_buffer := drop bytes_to_process (read_buffer s)\<rparr>)
             in if using_content_length s \<and> content_length s < total_read
                then ProcessEvent (ErrorEvent ReadFailure) s
                else if (if using_content_length s then content_length s = total_read else eof)
                then
                  if using_gzip s then
                    (case gunzip (read_buffer s) of
                       None \<Rightarrow> ProcessEvent (ErrorEvent ReadFailure) s
                     | Some b \<Rightarrow>
                         ProcessEvent ContentReadEvent
                           ((deliver (filter_buf_consumed s) (map Some b) s)
                              \<lparr>read_buffer := [],
                               filter_buf_consumed := filter_buf_consumed s + length b\<rparr>))
                  else ProcessEvent ContentReadEvent s
                else SetTransactionDelayTimer
                       (Delay_Read
                         (if using_content_length s
                          then min (content_length s - total_read) kMaxUnknownReadLength
                          else kMaxUnknownReadLength)
                         total_read) s
           else ProcessEvent (ErrorEvent ReadFailure) s)"

definition HandleContentReadDelayCallback :: "nat \<Rightarrow> nat \<Rightarrow> content_reader \<Rightarrow> content_reader" where
  "HandleContentReadDelayCallback max_read_size total_read s =
     (if cancelled s then s
      else if transmission_delay_timer_enabled s then
        begin_read (Read_Exactly max_read_size total_read 0)
          (s\<lparr>transmission_delay_timer_enabled := False\<rparr>)
      else s)"

definition HandleContentChunkRead ::
  "nat \<Rightarrow> nat \<Rightarrow> nat \<Rightarrow> read_error \<Rightarrow> content_reader \<Rightarrow> content_reader" where
  "HandleContentChunkRead output_bytes_consumed chunk_size bytes_transferred err s =
     (if cancelled s \<or> first_taken s then s
      else
        let s = s\<lparr>first_taken := True, bandwidth := bandwidth s @ [bytes_transferred]\<rparr>
        in if err = No_Error \<or> is_eof s err then
             let s = (if using_gzip s
                      then s\<lparr>gzipped_buffer := gzipped_buffer s @ take chunk_size (read_buffer s)\<rparr>
                      else deliver output_bytes_consumed (read_array chunk_size (read_buffer s)) s);
                 s = s\<lparr>read_buffer := drop 2 (drop chunk_size (read_buffer s))\<rparr>
             in begin_read (Read_Until (uint64_add output_bytes_consumed chunk_size)) s
           else ProcessEvent (ErrorEvent ReadFailure) s)"

definition HandleContentChunkSizeReadDelay ::
  "nat \<Rightarrow> nat \<Rightarrow> nat \<Rightarrow> content_reader \<Rightarrow> content_reader" where
  "HandleContentChunkSizeReadDelay left_to_read output_bytes_consumed chunk_size s =
     (if cancelled s then s
      else if transmission_delay_timer_enabled s
      then begin_read (Read_Chunk left_to_read output_bytes_consumed chunk_size) s
      else s)"

definition HandleNextChunk :: "nat \<Rightarrow> nat \<Rightarrow> content_reader \<Rightarrow> content_reader" where
  "HandleNextChunk output_bytes_consumed chunk_size s =
     (if cancelled s then s
      else
        let left_to_read = uint64_add chunk_size 2;
            left_to_read = (if left_to_read < length (read_buffer s) then 0
                            else left_to_read - length (read_buffer s))
        in SetTransactionDelayTimer (Delay_Chunk left_to_read output_bytes_consumed chunk_size) s)"

definition HandleCompleteAllChunks ::
  "(string \<Rightarrow> string option) \<Rightarrow> content_reader \<Rightarrow> content_reader" where
  "HandleCompleteAllChunks gunzip s =
     (if cancelled s then s
      else if using_gzip s then
        (case gunzip (gzipped_buffer s) of
           None \<Rightarrow> ProcessEvent (ErrorEvent CompressionFailure) s
         | Some b \<Rightarrow>
             ProcessEvent ContentReadEvent
               ((deliver (filter_buf_consumed s) (map Some b) s)
                  \<lparr>gzipped_buffer := [], filter_buf_consumed := filter_buf_consumed s + length b\<rparr>))
      else ProcessEvent ContentReadEvent s)"

text \<open>\<^verbatim>\<open>std::getline\<close> takes a line out of the buffer and drops its end.\<close>

definition getline :: "string \<Rightarrow> string \<times> string" where
  "getline b = (takeWhile (\<lambda>c. c \<noteq> CHR 0x0A) b, drop 1 (dropWhile (\<lambda>c. c \<noteq> CHR 0x0A) b))"

definition HandleContentChunkSizeRead ::
  "(string \<Rightarrow> string option) \<Rightarrow> nat \<Rightarrow> nat \<Rightarrow> read_error \<Rightarrow> content_reader \<Rightarrow> content_reader" where
  "HandleContentChunkSizeRead gunzip output_bytes_consumed bytes_transferred err s =
     (if cancelled s \<or> first_taken s then s
      else
        let s = s\<lparr>first_taken := True, bandwidth := bandwidth s @ [bytes_transferred]\<rparr>
        in if err = No_Error \<or> err = Eof then
             let (chunk_size_as_hex, rest) = getline (read_buffer s);
                 s = s\<lparr>read_buffer := rest\<rparr>
             in (case str_to_uint64_16 chunk_size_as_hex of
                   None \<Rightarrow> ProcessEvent (ErrorEvent ReadFailure) s
                 | Some chunk_size \<Rightarrow>
                     if chunk_size = 0 then HandleCompleteAllChunks gunzip s
                     else HandleNextChunk output_bytes_consumed chunk_size s)
           else ProcessEvent (ErrorEvent ReadFailure) s)"

text \<open>
  \<^verbatim>\<open>ReadContent::on_entry\<close>: \<open>b\<close> is what was read behind the headers, \<open>inc\<close> and \<open>e\<close> what the
  socket will still bring.
\<close>

definition ReadContentData_init :: "bool \<Rightarrow> string \<Rightarrow> read_error \<Rightarrow> content_reader" where
  "ReadContentData_init ssl inc e =
     \<lparr>cancelled = False, content_length = 0, read_buffer = [], gzipped_buffer = [],
      filter_buf_consumed = 0, using_gzip = False, using_content_length = False, is_ssl = ssl,
      first_taken = False, transmission_delay_timer_enabled = False, pending_op = Idle,
      delivered = [], bandwidth = [], event = None, incoming = inc, ending = e\<rparr>"

definition ReadContent_on_entry ::
  "headers \<Rightarrow> nat \<Rightarrow> bool \<Rightarrow> string \<Rightarrow> string \<Rightarrow> read_error \<Rightarrow> content_reader" where
  "ReadContent_on_entry hs evt_content_length ssl b inc e =
     (let te = ParseTransferEncoding hs;
          ce = ParseContentEncoding hs;
          s = (ReadContentData_init ssl inc e)
                \<lparr>using_gzip := (TE_Gzip \<in> te \<or> CE_Gzip \<in> ce),
                 using_content_length := (TE_ContentLength \<in> te)\<rparr>
      in if TE_Unknown \<in> te then ProcessEvent (ErrorEvent UnsupportedEncoding) s
         else if CE_Unknown \<in> ce then ProcessEvent (ErrorEvent UnsupportedEncoding) s
         else if TE_Chunked \<in> te \<and> using_content_length s
         then ProcessEvent (ErrorEvent UnsupportedEncoding) s
         else
           let s = s\<lparr>content_length := evt_content_length, read_buffer := b\<rparr>
           in if TE_Chunked \<in> te then begin_read (Read_Until 0) s
              else begin_read
                     (Read_Exactly (if using_content_length s
                                    then min (content_length s) kMaxUnknownReadLength
                                    else kMaxUnknownReadLength)
                        0 (length (read_buffer s))) s)"

section \<open>The environment\<close>

text \<open>
  \<^verbatim>\<open>async_read\<close> with \<^verbatim>\<open>transfer_exactly(n)\<close> completes with \<open>n\<close> bytes, or with fewer and the
  error of the stream. \<^verbatim>\<open>async_read_until\<close> completes at once when the buffer holds the
  delimiter; otherwise it takes pieces of any size until it does, or until the stream ends.
\<close>

fun has_crlf :: "string \<Rightarrow> bool" where
  "has_crlf (c # d # cs) \<longleftrightarrow> c = CHR 0x0D \<and> d = CHR 0x0A \<or> has_crlf (d # cs)"
| "has_crlf _ \<longleftrightarrow> False"

definition take_incoming :: "nat \<Rightarrow> content_reader \<Rightarrow> content_reader" where [handler_defs]:
  "take_incoming n s =
     s\<lparr>read_buffer := read_buffer s @ take n (incoming s), incoming := drop n (incoming s),
       pending_op := Idle\<rparr>"

definition exact_error :: "nat \<Rightarrow> content_reader \<Rightarrow> read_error" where
  "exact_error n s = (if n \<le> length (incoming s) then No_Error else ending s)"

inductive content_step ::
  "(string \<Rightarrow> string option) \<Rightarrow> content_reader \<Rightarrow> content_reader \<Rightarrow> bool" for gunzip where
  Found: "pending_op s = Read_Until out \<Longrightarrow> k \<le> length (incoming s)
    \<Longrightarrow> has_crlf (read_buffer s @ take k (incoming s)) \<Longrightarrow> (has_crlf (read_buffer s) \<longrightarrow> k = 0)
    \<Longrightarrow> content_step gunzip s
          (HandleContentChunkSizeRead gunzip out n No_Error (take_incoming k s))"
| Not_Found: "pending_op s = Read_Until out \<Longrightarrow> \<not> has_crlf (read_buffer s @ incoming s)
    \<Longrightarrow> content_step gunzip s
          (HandleContentChunkSizeRead gunzip out 0 (ending s) (take_incoming (length (incoming s)) s))"
| Chunk_Delay: "pending_op s = Delay_Chunk left_to_read out cs
    \<Longrightarrow> content_step gunzip s
          (HandleContentChunkSizeReadDelay left_to_read out cs (s\<lparr>pending_op := Idle\<rparr>))"
| Chunk: "pending_op s = Read_Chunk n out cs
    \<Longrightarrow> content_step gunzip s
          (HandleContentChunkRead out cs (min n (length (incoming s))) (exact_error n s)
             (take_incoming n s))"
| Read_Delay: "pending_op s = Delay_Read n tot
    \<Longrightarrow> content_step gunzip s (HandleContentReadDelayCallback n tot (s\<lparr>pending_op := Idle\<rparr>))"
| Read: "pending_op s = Read_Exactly n tot prev
    \<Longrightarrow> content_step gunzip s
          (HandleContentRead gunzip tot prev (min n (length (incoming s))) (exact_error n s)
             (take_incoming n s))"

text \<open>
  \<^verbatim>\<open>HandleAsyncTimeout\<close> when the timer of a pending read expires first, and
  \<^verbatim>\<open>HttpRequest::Cancel\<close>.
\<close>

definition HandleAsyncTimeout :: "content_reader \<Rightarrow> content_reader" where
  "HandleAsyncTimeout s =
     (if first_taken s then s
      else ProcessEvent (ErrorEvent IoTimeout) (s\<lparr>first_taken := True\<rparr>))"

fun timed :: "content_op \<Rightarrow> bool" where
  "timed (Read_Until _) = True"
| "timed (Read_Chunk _ _ _) = True"
| "timed (Read_Exactly _ _ _) = True"
| "timed _ = False"

inductive content_interrupt :: "content_reader \<Rightarrow> content_reader \<Rightarrow> bool" where
  Timeout: "timed (pending_op s) \<Longrightarrow> \<not> cancelled s \<Longrightarrow> content_interrupt s (HandleAsyncTimeout s)"
| Cancel: "\<not> cancelled s \<Longrightarrow> content_interrupt s (ProcessEvent (ErrorEvent Cancelled) s)"

definition content_run :: "(string \<Rightarrow> string option) \<Rightarrow> content_reader \<Rightarrow> content_reader \<Rightarrow> bool" where
  "content_run gunzip s t \<longleftrightarrow> (\<lambda>s t. content_step gunzip s t \<or> content_interrupt s t)\<^sup>*\<^sup>* s t"

section \<open>One event, and no stall\<close>

lemmas content_handlers =
  HandleContentRead_def HandleContentReadDelayCallback_def HandleContentChunkRead_def
  HandleContentChunkSizeReadDelay_def HandleNextChunk_def HandleCompleteAllChunks_def
  HandleContentChunkSizeRead_def

text \<open>The state machine was told once, or an operation is pending that its handler will accept.\<close>

fun op_ready :: "content_reader \<Rightarrow> content_op \<Rightarrow> bool" where
  "op_ready s Idle \<longleftrightarrow> False"
| "op_ready s (Delay_Chunk _ _ _) \<longleftrightarrow> transmission_delay_timer_enabled s"
| "op_ready s (Delay_Read _ _) \<longleftrightarrow> transmission_delay_timer_enabled s"
| "op_ready s _ \<longleftrightarrow> \<not> first_taken s"

definition reader_ok :: "content_reader \<Rightarrow> bool" where
  "reader_ok s \<longleftrightarrow> (cancelled s \<longleftrightarrow> event s \<noteq> None) \<and> (\<not> cancelled s \<longrightarrow> op_ready s (pending_op s))"

lemma reader_ok_entry: "reader_ok (ReadContent_on_entry hs n ssl b inc e)"
  by (simp add: ReadContent_on_entry_def ReadContentData_init_def reader_ok_def handler_defs Let_def)

lemma take_incoming_frame [simp]:
  "cancelled (take_incoming k s) = cancelled s" "first_taken (take_incoming k s) = first_taken s"
  "event (take_incoming k s) = event s" "delivered (take_incoming k s) = delivered s"
  "using_gzip (take_incoming k s) = using_gzip s" "is_ssl (take_incoming k s) = is_ssl s"
  "using_content_length (take_incoming k s) = using_content_length s"
  "content_length (take_incoming k s) = content_length s" "ending (take_incoming k s) = ending s"
  "gzipped_buffer (take_incoming k s) = gzipped_buffer s"
  "filter_buf_consumed (take_incoming k s) = filter_buf_consumed s"
  "pending_op (take_incoming k s) = Idle"
  by (simp_all add: take_incoming_def)

lemma cancelled_handlers [simp]:
  assumes "cancelled s"
  shows "HandleContentRead gunzip tot prev n err s = s"
    and "HandleContentReadDelayCallback n tot s = s"
    and "HandleContentChunkRead out cs n err s = s"
    and "HandleContentChunkSizeReadDelay l out cs s = s"
    and "HandleContentChunkSizeRead gunzip out n err s = s"
  using assms by (simp_all add: content_handlers)

definition told_or_free :: "content_reader \<Rightarrow> bool" where
  "told_or_free s \<longleftrightarrow> (cancelled s \<longleftrightarrow> event s \<noteq> None)"

lemma told_or_free_update [simp]:
  "told_or_free (take_incoming k s) = told_or_free s"
  "told_or_free (s\<lparr>pending_op := p\<rparr>) = told_or_free s"
  by (simp_all add: told_or_free_def take_incoming_def)

lemma reader_ok_told: "reader_ok s \<Longrightarrow> told_or_free s"
  by (simp add: reader_ok_def told_or_free_def)

lemma reader_ok_cancelled: "told_or_free s \<Longrightarrow> cancelled s \<Longrightarrow> reader_ok s"
  by (simp add: reader_ok_def told_or_free_def)

lemma reader_ok_ProcessEvent [simp]: "reader_ok (ProcessEvent ev s)"
  by (simp add: ProcessEvent_def reader_ok_def)

lemma reader_ok_begin_read [simp]:
  "told_or_free s \<Longrightarrow> timed p \<Longrightarrow> reader_ok (begin_read p s)"
  by (cases p) (simp_all add: begin_read_def reader_ok_def told_or_free_def)

lemma reader_ok_delay [simp]:
  "told_or_free s \<Longrightarrow> \<not> timed p \<Longrightarrow> p \<noteq> Idle \<Longrightarrow> reader_ok (SetTransactionDelayTimer p s)"
  by (cases p) (simp_all add: SetTransactionDelayTimer_def reader_ok_def told_or_free_def)

lemma told_or_free_fields [simp]:
  "told_or_free (s\<lparr>first_taken := x\<rparr>) = told_or_free s"
  "told_or_free (s\<lparr>transmission_delay_timer_enabled := x\<rparr>) = told_or_free s"
  "told_or_free (s\<lparr>bandwidth := ns\<rparr>) = told_or_free s"
  "told_or_free (s\<lparr>read_buffer := str\<rparr>) = told_or_free s"
  "told_or_free (s\<lparr>gzipped_buffer := str\<rparr>) = told_or_free s"
  "told_or_free (deliver pos bs s) = told_or_free s"
  by (simp_all add: told_or_free_def deliver_def)

lemma reader_ok_HandleContentRead:
  "told_or_free s \<Longrightarrow> \<not> first_taken s \<or> cancelled s
   \<Longrightarrow> reader_ok (HandleContentRead gunzip tot prev n err s)"
  by (cases "cancelled s")
     (simp_all add: reader_ok_cancelled HandleContentRead_def Let_def split: option.split)

lemma reader_ok_HandleContentReadDelayCallback:
  "told_or_free s \<Longrightarrow> transmission_delay_timer_enabled s \<or> cancelled s
   \<Longrightarrow> reader_ok (HandleContentReadDelayCallback n tot s)"
  by (cases "cancelled s")
     (simp_all add: reader_ok_cancelled HandleContentReadDelayCallback_def)

lemma reader_ok_HandleContentChunkRead:
  "told_or_free s \<Longrightarrow> \<not> first_taken s \<or> cancelled s
   \<Longrightarrow> reader_ok (HandleContentChunkRead out cs n err s)"
  by (cases "cancelled s")
     (simp_all add: reader_ok_cancelled HandleContentChunkRead_def Let_def)

lemma reader_ok_HandleContentChunkSizeReadDelay:
  "told_or_free s \<Longrightarrow> transmission_delay_timer_enabled s \<or> cancelled s
   \<Longrightarrow> reader_ok (HandleContentChunkSizeReadDelay l out cs s)"
  by (cases "cancelled s")
     (simp_all add: reader_ok_cancelled HandleContentChunkSizeReadDelay_def)

lemma reader_ok_HandleNextChunk:
  "told_or_free s \<Longrightarrow> reader_ok (HandleNextChunk out cs s)"
  by (simp add: HandleNextChunk_def Let_def reader_ok_cancelled)

lemma reader_ok_HandleCompleteAllChunks:
  "told_or_free s \<Longrightarrow> reader_ok (HandleCompleteAllChunks gunzip s)"
  by (simp add: HandleCompleteAllChunks_def reader_ok_cancelled split: option.split)

lemma reader_ok_HandleContentChunkSizeRead:
  "told_or_free s \<Longrightarrow> \<not> first_taken s \<or> cancelled s
   \<Longrightarrow> reader_ok (HandleContentChunkSizeRead gunzip out n err s)"
  by (cases "cancelled s")
     (simp_all add: reader_ok_cancelled HandleContentChunkSizeRead_def Let_def
        reader_ok_HandleCompleteAllChunks reader_ok_HandleNextChunk split: option.split prod.split)

lemmas reader_ok_handlers =
  reader_ok_HandleContentRead reader_ok_HandleContentReadDelayCallback
  reader_ok_HandleContentChunkRead reader_ok_HandleContentChunkSizeReadDelay
  reader_ok_HandleContentChunkSizeRead

lemma reader_ok_step:
  assumes "content_step gunzip s t" and "reader_ok s"
  shows "reader_ok t"
proof -
  have told: "told_or_free s" by (rule reader_ok_told [OF assms(2)])
  have ready: "cancelled s \<or> op_ready s (pending_op s)" using assms(2) by (auto simp: reader_ok_def)
  show ?thesis
    using assms(1)
  proof cases
    case Found
    show ?thesis unfolding Found(1)
      by (rule reader_ok_HandleContentChunkSizeRead)
         (use told ready Found in auto)
  next
    case Not_Found
    show ?thesis unfolding Not_Found(1)
      by (rule reader_ok_HandleContentChunkSizeRead)
         (use told ready Not_Found in auto)
  next
    case Chunk_Delay
    show ?thesis unfolding Chunk_Delay(1)
      by (rule reader_ok_HandleContentChunkSizeReadDelay) (use told ready Chunk_Delay in auto)
  next
    case Chunk
    show ?thesis unfolding Chunk(1)
      by (rule reader_ok_HandleContentChunkRead)
         (use told ready Chunk in auto)
  next
    case Read_Delay
    show ?thesis unfolding Read_Delay(1)
      by (rule reader_ok_HandleContentReadDelayCallback) (use told ready Read_Delay in auto)
  next
    case Read
    show ?thesis unfolding Read(1)
      by (rule reader_ok_HandleContentRead)
         (use told ready Read in auto)
  qed
qed

lemma reader_ok_interrupt:
  assumes "content_interrupt s t" and "reader_ok s"
  shows "reader_ok t"
  using assms
  by (cases rule: content_interrupt.cases)
     (auto simp: HandleAsyncTimeout_def handler_defs reader_ok_def)

lemma content_run_induct [consumes 1, case_names Start Step Interrupt]:
  assumes "content_run gunzip s t" and "P s"
    and "\<And>t u. content_run gunzip s t \<Longrightarrow> P t \<Longrightarrow> content_step gunzip t u \<Longrightarrow> P u"
    and "\<And>t u. content_run gunzip s t \<Longrightarrow> P t \<Longrightarrow> content_interrupt t u \<Longrightarrow> P u"
  shows "P t"
  using assms(1) unfolding content_run_def
proof (induction rule: rtranclp_induct)
  case base
  show ?case by (rule assms(2))
next
  case (step t u)
  then have run: "content_run gunzip s t" by (simp add: content_run_def)
  from step(2) show ?case
    by (elim disjE) (rule assms(3) [OF run step(3)] assms(4) [OF run step(3)], assumption)+
qed

lemma reader_ok_run:
  assumes "content_run gunzip (ReadContent_on_entry hs n ssl b inc e) t"
  shows "reader_ok t"
  using assms
  by (induction rule: content_run_induct)
     (auto intro: reader_ok_entry reader_ok_step reader_ok_interrupt)

lemma cancelled_step:
  assumes "content_step gunzip s t" and "cancelled s"
  shows "cancelled t \<and> event t = event s \<and> delivered t = delivered s"
  using assms
  by (cases rule: content_step.cases) simp_all

lemma content_step_enabled:
  assumes "reader_ok s" and "event s = None"
  shows "\<exists>t. content_step gunzip s t"
proof (cases "pending_op s")
  case Idle
  with assms show ?thesis by (simp add: reader_ok_def)
next
  case (Read_Until out)
  define k where "k = (if has_crlf (read_buffer s) then 0 else length (incoming s))"
  show ?thesis
  proof (cases "has_crlf (read_buffer s @ incoming s)")
    case True
    then have "has_crlf (read_buffer s @ take k (incoming s))" "k \<le> length (incoming s)"
      by (simp_all add: k_def)
    then show ?thesis
      using Found [OF Read_Until, of k] by (auto simp: k_def)
  qed (use Not_Found [OF Read_Until] in blast)
qed (blast intro: content_step.intros)+

text \<open>
  once the reading of a body has told the state machine how it ended, no completion that is
  still on its way, no timeout and no cancellation tells it anything again or hands over more
  content.
\<close>

theorem content_event_once:
  assumes "content_run gunzip (ReadContent_on_entry hs n ssl b inc e) s"
    and "event s = Some ev"
    and "content_run gunzip s t"
  shows "event t = Some ev \<and> delivered t = delivered s"
proof -
  have "cancelled s" using reader_ok_run [OF assms(1)] assms(2) by (simp add: reader_ok_def)
  with assms(3) have "cancelled t \<and> event t = event s \<and> delivered t = delivered s"
    by (induction rule: content_run_induct)
       (auto dest: cancelled_step elim: content_interrupt.cases)
  with assms(2) show ?thesis by simp
qed

text \<open>
  until it has told the state machine how it ended, the reading of a body always has an
  operation pending whose completion its handler acts on; it is never left without a next step.
\<close>

theorem content_never_stalls:
  assumes "content_run gunzip (ReadContent_on_entry hs n ssl b inc e) s"
    and "event s = None"
  shows "\<exists>t. content_step gunzip s t \<and> (event t = None \<longrightarrow> pending_op t \<noteq> Idle)"
proof -
  have ok: "reader_ok s" by (rule reader_ok_run [OF assms(1)])
  obtain t where st: "content_step gunzip s t" using content_step_enabled [OF ok assms(2)] ..
  moreover have "reader_ok t" by (rule reader_ok_step [OF st ok])
  ultimately show ?thesis by (auto simp: reader_ok_def)
qed

text \<open>A request that is cancelled with a read on its way.\<close>

lemma content_run_step: "content_run gunzip s t \<Longrightarrow> content_step gunzip t u \<Longrightarrow> content_run gunzip s u"
  unfolding content_run_def by (rule rtranclp.rtrancl_into_rtrancl) auto

lemma content_run_interrupt:
  "content_run gunzip s t \<Longrightarrow> content_interrupt t u \<Longrightarrow> content_run gunzip s u"
  unfolding content_run_def by (rule rtranclp.rtrancl_into_rtrancl) auto

lemma content_run_refl: "content_run gunzip s s"
  by (simp add: content_run_def)

definition short_entry :: content_reader where
  "short_entry = ReadContent_on_entry [] 0 False ''ab'' ''c'' Eof"

definition short_cancelled :: content_reader where
  "short_cancelled = ProcessEvent (ErrorEvent Cancelled) short_entry"

lemma short_entry_fields:
  "pending_op short_entry = Read_Exactly 8192 0 2" "cancelled short_entry = False"
  "event short_entry = None"
  by (simp_all add: short_entry_def ReadContent_on_entry_def ReadContentData_init_def
      ParseTransferEncoding_def ParseContentEncoding_def begin_read_def kMaxUnknownReadLength_def Let_def)

lemma short_cancelled_run: "content_run (\<lambda>_. None) short_entry short_cancelled"
  unfolding short_cancelled_def
  by (rule content_run_interrupt [OF content_run_refl Cancel]) (simp add: short_entry_fields)

theorem content_event_once_witness:
  "\<exists>t. content_step (\<lambda>_. None) short_cancelled t
     \<and> event t = Some (ErrorEvent Cancelled) \<and> delivered t = delivered short_cancelled"
proof -
  have "pending_op short_cancelled = Read_Exactly 8192 0 2" "event short_cancelled = Some (ErrorEvent Cancelled)"
    by (simp_all add: short_cancelled_def ProcessEvent_def short_entry_fields)
  moreover from calculation(1) obtain t where t: "content_step (\<lambda>_. None) short_cancelled t"
    by (blast intro: Read)
  ultimately show ?thesis
    using content_event_once [OF short_cancelled_run [unfolded short_entry_def] _
        content_run_step [OF content_run_refl t]] by blast
qed

theorem content_never_stalls_witness:
  "\<exists>t. content_step (\<lambda>_. None) short_entry t \<and> (event t = None \<longrightarrow> pending_op t \<noteq> Idle)"
  using content_never_stalls [OF content_run_refl [of "\<lambda>_. None" short_entry, unfolded short_entry_def]]
    short_entry_fields(3) unfolding short_entry_def by blast

end
