(* ===== verification/Http_Body.thy ===== *)
theory Http_Body
  imports Http_Content
begin

text \<open>
  What the callback receives of a response body: the data of the chunks of a chunked body, or
  the bytes of a body with a length or one that the end of the stream ends, whatever pieces the
  socket brings them in.
\<close>

section \<open>Chunks\<close>

fun pieces_from :: "nat \<Rightarrow> string list \<Rightarrow> (nat \<times> char option list) list" where
  "pieces_from pos [] = []"
| "pieces_from pos (d # ds) = (pos, map Some d) # pieces_from (pos + length d) ds"

lemma pieces_from_snoc:
  "pieces_from pos (ds @ [d]) = pieces_from pos ds @ [(pos + length (concat ds), map Some d)]"
  by (induction ds arbitrary: pos) (simp_all add: add.assoc)

text \<open>
  A chunked body: headers (size and extensions) with their data, and the header of the last chunk.
\<close>

abbreviation crlf :: string where "crlf \<equiv> [CHR 0x0D, CHR 0x0A]"

fun chunked_body :: "(string \<times> string) list \<Rightarrow> string \<Rightarrow> string" where
  "chunked_body [] h0 = h0 @ crlf"
| "chunked_body ((h, d) # cs) h0 = h @ crlf @ d @ crlf @ chunked_body cs h0"

definition header_ok :: "string \<Rightarrow> nat \<Rightarrow> bool" where
  "header_ok h n \<longleftrightarrow> CHR 0x0A \<notin> set h \<and> str_to_uint64_16 (h @ [CHR 0x0D]) = Some n"

definition chunks_ok :: "(string \<times> string) list \<Rightarrow> string \<Rightarrow> bool" where
  "chunks_ok cs h0 \<longleftrightarrow> (\<forall>(h, d) \<in> set cs. d \<noteq> [] \<and> header_ok h (length d)) \<and> header_ok h0 0
     \<and> length (concat (map snd cs)) + 2 < 2 ^ 64"

lemma has_crlf_newline: "has_crlf b \<Longrightarrow> CHR 0x0A \<in> set b"
  by (induction b rule: has_crlf.induct) auto

lemma has_crlf_append: "has_crlf (p @ crlf @ q)"
proof (induction p)
  case (Cons c p)
  then show ?case by (cases "p @ crlf @ q") auto
qed simp

lemma getline_split:
  assumes "b @ inc = h @ crlf @ r" and "has_crlf b" and "CHR 0x0A \<notin> set h"
  shows "\<exists>r'. getline b = (h @ [CHR 0x0D], r') \<and> r' @ inc = r"
proof -
  let ?P = "\<lambda>c. c \<noteq> CHR 0x0A"
  have nl: "CHR 0x0A \<in> set b" by (rule has_crlf_newline [OF assms(2)])
  have "takeWhile ?P (b @ inc) = h @ [CHR 0x0D]"
    using assms(3) unfolding assms(1) by (auto simp: takeWhile_append)
  moreover have "takeWhile ?P (b @ inc) = takeWhile ?P b"
    by (rule takeWhile_append1 [OF nl]) simp
  moreover have "dropWhile ?P (b @ inc) = CHR 0x0A # r"
    using assms(3) unfolding assms(1) by (auto simp: dropWhile_append)
  moreover have "dropWhile ?P (b @ inc) = dropWhile ?P b @ inc"
    by (rule dropWhile_append1 [OF nl]) simp
  moreover have "dropWhile ?P b \<noteq> []" using nl by (auto simp: dropWhile_eq_Nil_conv)
  ultimately show ?thesis by (cases "dropWhile ?P b") (auto simp: getline_def)
qed

text \<open>What has been handed over after the chunks \<open>pre\<close>, and the three places of the loop.\<close>

definition chunks_read :: "bool \<Rightarrow> string list \<Rightarrow> content_reader \<Rightarrow> bool" where
  "chunks_read gz ds s \<longleftrightarrow> \<not> cancelled s \<and> event s = None \<and> using_gzip s = gz
     \<and> filter_buf_consumed s = 0
     \<and> delivered s = (if gz then [] else pieces_from 0 ds)
     \<and> gzipped_buffer s = (if gz then concat ds else [])"

definition at_header :: "bool \<Rightarrow> string list \<Rightarrow> string \<Rightarrow> content_reader \<Rightarrow> bool" where
  "at_header gz ds r s \<longleftrightarrow> chunks_read gz ds s \<and> \<not> first_taken s
     \<and> pending_op s = Read_Until (length (concat ds)) \<and> read_buffer s @ incoming s = r"

definition chunk_missing :: "string \<Rightarrow> content_reader \<Rightarrow> nat" where
  "chunk_missing d s = length d + 2 - length (read_buffer s)"

definition at_delay :: "bool \<Rightarrow> string list \<Rightarrow> string \<Rightarrow> string \<Rightarrow> content_reader \<Rightarrow> bool" where
  "at_delay gz ds d r s \<longleftrightarrow> chunks_read gz ds s \<and> transmission_delay_timer_enabled s
     \<and> pending_op s = Delay_Chunk (chunk_missing d s) (length (concat ds)) (length d)
     \<and> read_buffer s @ incoming s = d @ crlf @ r"

definition at_chunk :: "bool \<Rightarrow> string list \<Rightarrow> string \<Rightarrow> string \<Rightarrow> content_reader \<Rightarrow> bool" where
  "at_chunk gz ds d r s \<longleftrightarrow> chunks_read gz ds s \<and> \<not> first_taken s
     \<and> pending_op s = Read_Chunk (chunk_missing d s) (length (concat ds)) (length d)
     \<and> read_buffer s @ incoming s = d @ crlf @ r"

definition chunks_complete ::
  "(string \<Rightarrow> string option) \<Rightarrow> bool \<Rightarrow> string list \<Rightarrow> content_reader \<Rightarrow> bool" where
  "chunks_complete gunzip gz ds s \<longleftrightarrow>
     (if gz then
        (case gunzip (concat ds) of
           None \<Rightarrow> event s = Some (ErrorEvent CompressionFailure) \<and> delivered s = []
         | Some b \<Rightarrow> event s = Some ContentReadEvent \<and> delivered s = [(0, map Some b)])
      else event s = Some ContentReadEvent \<and> delivered s = pieces_from 0 ds)"

lemma at_header_next:
  assumes "content_step gunzip s t" and "at_header gz ds (h @ crlf @ r) s" and "header_ok h n"
  obtains k out where "t = HandleContentChunkSizeRead gunzip (length (concat ds)) out No_Error (take_incoming k s)"
    and "has_crlf (read_buffer (take_incoming k s))"
    and "read_buffer (take_incoming k s) @ incoming (take_incoming k s) = h @ crlf @ r"
  using assms(1)
proof cases
  case (Found out k n)
  show thesis
    by (rule that [of n k])
       (use Found assms(2) in \<open>auto simp: at_header_def take_incoming_def\<close>)
next
  case (Not_Found out)
  then have "\<not> has_crlf (h @ crlf @ r)" using assms(2) by (simp add: at_header_def)
  then show thesis using has_crlf_append by blast
qed (use assms(2) in \<open>auto simp: at_header_def\<close>)

lemma header_step:
  assumes "content_step gunzip s t" and "at_header gz ds (h @ crlf @ d @ crlf @ r) s"
    and "header_ok h (length d)" and "d \<noteq> []" and "length d + 2 < 2 ^ 64"
  shows "at_delay gz ds d r t"
proof -
  obtain k out where t: "t = HandleContentChunkSizeRead gunzip (length (concat ds)) out No_Error (take_incoming k s)"
    and b: "has_crlf (read_buffer (take_incoming k s))"
      "read_buffer (take_incoming k s) @ incoming (take_incoming k s) = h @ crlf @ d @ crlf @ r"
    by (rule at_header_next [OF assms(1,2,3)])
  obtain r' where g: "getline (read_buffer (take_incoming k s)) = (h @ [CHR 0x0D], r')"
    "r' @ incoming (take_incoming k s) = d @ crlf @ r"
    using getline_split [OF b(2,1)] assms(3) by (auto simp: header_ok_def)
  show ?thesis
    using assms(2-5) g unfolding t
    by (simp add: HandleContentChunkSizeRead_def at_header_def chunks_read_def header_ok_def
        HandleNextChunk_def SetTransactionDelayTimer_def uint64_add_def at_delay_def chunk_missing_def
        Let_def)
qed

lemma last_header_step:
  assumes "content_step gunzip s t" and "at_header gz ds (h0 @ crlf @ r) s" and "header_ok h0 0"
  shows "chunks_complete gunzip gz ds t"
proof -
  obtain k out where t: "t = HandleContentChunkSizeRead gunzip (length (concat ds)) out No_Error (take_incoming k s)"
    and b: "has_crlf (read_buffer (take_incoming k s))"
      "read_buffer (take_incoming k s) @ incoming (take_incoming k s) = h0 @ crlf @ r"
    by (rule at_header_next [OF assms])
  obtain r' where g: "getline (read_buffer (take_incoming k s)) = (h0 @ [CHR 0x0D], r')"
    using getline_split [OF b(2,1)] assms(3) by (auto simp: header_ok_def)
  show ?thesis
    using assms(2,3) g unfolding t
    by (simp add: HandleContentChunkSizeRead_def at_header_def chunks_read_def header_ok_def
        HandleCompleteAllChunks_def ProcessEvent_def deliver_def chunks_complete_def
        Let_def split: option.split)
qed

lemma delay_step:
  assumes "content_step gunzip s t" and "at_delay gz ds d r s"
  shows "at_chunk gz ds d r t"
  using assms
  by (cases rule: content_step.cases)
     (auto simp: at_delay_def at_chunk_def chunks_read_def HandleContentChunkSizeReadDelay_def
        begin_read_def chunk_missing_def)

lemma append_split_prefix:
  assumes "b @ x = p @ r" and "length p \<le> length b"
  obtains us where "b = p @ us" and "us @ x = r"
proof (rule that)
  show "b = p @ drop (length p) b"
    using arg_cong [OF assms(1), of "take (length p)"] assms(2) append_take_drop_id [of "length p" b]
    by simp
  show "drop (length p) b @ x = r"
    using arg_cong [OF assms(1), of "drop (length p)"] assms(2) by simp
qed

lemma chunk_step:
  assumes "content_step gunzip s t" and "at_chunk gz ds d r s"
    and "length (concat ds) + length d < 2 ^ 64"
  shows "at_header gz (ds @ [d]) r t"
proof -
  let ?m = "chunk_missing d s"
  let ?b = "read_buffer s @ take ?m (incoming s)"
  have body: "read_buffer s @ incoming s = d @ crlf @ r" using assms(2) by (simp add: at_chunk_def)
  then have len: "length (read_buffer s) + length (incoming s) = length d + 2 + length r"
    by (metis add.assoc length_append length_Cons list.size(3) numeral_2_eq_2)
  then have m: "?m \<le> length (incoming s)" by (simp add: chunk_missing_def)
  have lb: "length d + 2 \<le> length ?b" using m by (simp add: chunk_missing_def)
  have split: "?b @ drop ?m (incoming s) = d @ crlf @ r" using body by simp
  obtain us where us: "?b = (d @ crlf) @ us" "us @ drop ?m (incoming s) = r"
    by (rule append_split_prefix [of ?b "drop ?m (incoming s)" "d @ crlf" r]) (use split lb in simp_all)
  have "t = HandleContentChunkRead (length (concat ds)) (length d) (min ?m (length (incoming s)))
      No_Error (take_incoming ?m s)"
    using assms(1,2) m by (cases rule: content_step.cases) (auto simp: at_chunk_def exact_error_def)
  then show ?thesis
    using assms(2,3) us
    by (simp add: HandleContentChunkRead_def take_incoming_def deliver_def begin_read_def Let_def at_header_def
        at_chunk_def chunks_read_def uint64_add_def pieces_from_snoc read_array_def add.commute)
qed

section \<open>A whole chunked body\<close>

lemma at_header_free: "at_header gz ds r s \<Longrightarrow> reader_ok s \<and> event s = None"
  by (simp add: at_header_def chunks_read_def reader_ok_def)

lemma at_delay_free: "at_delay gz ds d r s \<Longrightarrow> reader_ok s \<and> event s = None"
  by (simp add: at_delay_def chunks_read_def reader_ok_def)

lemma at_chunk_free: "at_chunk gz ds d r s \<Longrightarrow> reader_ok s \<and> event s = None"
  by (simp add: at_chunk_def chunks_read_def reader_ok_def)

lemmas at_free = at_header_free at_delay_free at_chunk_free

lemma chunk_round:
  assumes "at_header gz ds (h @ crlf @ d @ crlf @ r) s" and "header_ok h (length d)" and "d \<noteq> []"
    and "length (concat ds) + length d + 2 < 2 ^ 64"
  shows "\<exists>t. (content_step gunzip ^^ 3) s t"
    and "(content_step gunzip ^^ 3) s t \<Longrightarrow> at_header gz (ds @ [d]) r t"
proof -
  have delay: "content_step gunzip s u \<Longrightarrow> at_delay gz ds d r u" for u
    by (rule header_step [OF _ assms(1-3)]) (use assms(4) in simp_all)
  have again: "content_step gunzip u v \<Longrightarrow> at_chunk gz ds d r u \<Longrightarrow> at_header gz (ds @ [d]) r v" for u v
    by (rule chunk_step) (use assms(4) in simp_all)
  obtain u where u: "content_step gunzip s u"
    using content_step_enabled at_header_free [OF assms(1)] by blast
  obtain v where v: "content_step gunzip u v"
    using content_step_enabled at_delay_free [OF delay [OF u]] by blast
  obtain w where "content_step gunzip v w"
    using content_step_enabled at_chunk_free [OF delay_step [OF v delay [OF u]]] by blast
  with u v show "\<exists>t. (content_step gunzip ^^ 3) s t"
    by (auto simp: numeral_3_eq_3)
  show "at_header gz (ds @ [d]) r t" if "(content_step gunzip ^^ 3) s t"
    using that by (auto simp: numeral_3_eq_3 dest!: delay dest: delay_step again)
qed

lemma chunked_body_read:
  assumes "at_header gz ds (chunked_body cs h0 @ r) s"
    and "\<forall>(h, d) \<in> set cs. d \<noteq> [] \<and> header_ok h (length d)" and "header_ok h0 0"
    and "length (concat (ds @ map snd cs)) + 2 < 2 ^ 64"
  shows "(\<exists>t. (content_step gunzip ^^ (3 * length cs + 1)) s t)
    \<and> (\<forall>t. (content_step gunzip ^^ (3 * length cs + 1)) s t
           \<longrightarrow> chunks_complete gunzip gz (ds @ map snd cs) t)"
  using assms
proof (induction cs arbitrary: ds s)
  case Nil
  then have "at_header gz ds (h0 @ crlf @ r) s" by simp
  then show ?case
    using content_step_enabled [of s gunzip] at_header_free last_header_step [OF _ _ Nil(3), of gunzip s]
    by (simp add: eq_OO)
next
  case (Cons c cs)
  obtain h d where c: "c = (h, d)" by (cases c)
  let ?n = "3 * length cs + 1"
  have here: "at_header gz ds (h @ crlf @ d @ crlf @ chunked_body cs h0 @ r) s"
    using Cons.prems(1) by (simp add: c)
  have round: "\<exists>t. (content_step gunzip ^^ 3) s t"
    "\<And>t. (content_step gunzip ^^ 3) s t \<Longrightarrow> at_header gz (ds @ [d]) (chunked_body cs h0 @ r) t"
    using chunk_round [OF here, of gunzip] Cons.prems(2,4) by (auto simp: c)
  have rest: "(\<exists>t. (content_step gunzip ^^ ?n) u t)
      \<and> (\<forall>t. (content_step gunzip ^^ ?n) u t \<longrightarrow> chunks_complete gunzip gz (ds @ map snd (c # cs)) t)"
    if "(content_step gunzip ^^ 3) s u" for u
    using Cons.IH [OF round(2) [OF that]] Cons.prems(2-4) by (simp add: c)
  have n: "content_step gunzip ^^ (3 * length (c # cs) + 1)
      = content_step gunzip ^^ 3 OO content_step gunzip ^^ ?n"
    unfolding relpowp_add [symmetric] by simp
  show ?case
    unfolding n using round(1) rest by blast
qed

lemma chunked_entry:
  assumes "TE_Chunked \<in> ParseTransferEncoding hs" and "TE_Unknown \<notin> ParseTransferEncoding hs"
    and "TE_ContentLength \<notin> ParseTransferEncoding hs" and "CE_Unknown \<notin> ParseContentEncoding hs"
  shows "at_header (TE_Gzip \<in> ParseTransferEncoding hs \<or> CE_Gzip \<in> ParseContentEncoding hs) []
    (b @ inc) (ReadContent_on_entry hs n ssl b inc e)"
  using assms
  by (simp add: ReadContent_on_entry_def ReadContentData_init_def at_header_def chunks_read_def
      begin_read_def)

text \<open>
  C4: a chunked body is read to its end whatever part of it was read behind the headers and in
  whatever pieces the rest arrives: after three completions for every chunk and one for the last
  the state machine is told that the content was read, and the callback has been given the data
  of each chunk, complete and at its position, or once all of it decompressed.
\<close>

theorem chunked_body_delivered:
  assumes "TE_Chunked \<in> ParseTransferEncoding hs" and "TE_Unknown \<notin> ParseTransferEncoding hs"
    and "TE_ContentLength \<notin> ParseTransferEncoding hs" and "CE_Unknown \<notin> ParseContentEncoding hs"
    and "gz \<longleftrightarrow> TE_Gzip \<in> ParseTransferEncoding hs \<or> CE_Gzip \<in> ParseContentEncoding hs"
    and "b @ inc = chunked_body cs h0 @ trailer" and "chunks_ok cs h0"
    and start_def: "start = ReadContent_on_entry hs n ssl b inc e"
  shows "(\<exists>t. (content_step gunzip ^^ (3 * length cs + 1)) start t)
    \<and> (\<forall>t. (content_step gunzip ^^ (3 * length cs + 1)) start t \<longrightarrow>
          (if gz then
             (case gunzip (concat (map snd cs)) of
                None \<Rightarrow> event t = Some (ErrorEvent CompressionFailure) \<and> delivered t = []
              | Some out \<Rightarrow> event t = Some ContentReadEvent \<and> delivered t = [(0, map Some out)])
           else event t = Some ContentReadEvent \<and> delivered t = pieces_from 0 (map snd cs)))"
proof -
  have "at_header gz [] (chunked_body cs h0 @ trailer) start"
    using chunked_entry [OF assms(1-4), of b inc n ssl e] assms(5,6) by (simp add: start_def)
  then show ?thesis
    using chunked_body_read [of gz "[]" cs h0 trailer start gunzip] assms(7)
    by (simp add: chunks_ok_def chunks_complete_def)
qed

text \<open>Two chunks, the second with an extension, and a part of the first already read.\<close>

definition chunked_headers :: headers where
  "chunked_headers = [(''transfer-encoding'', ''chunked'')]"

lemma chunked_headers_encodings:
  "ParseTransferEncoding chunked_headers = {TE_Chunked}" "ParseContentEncoding chunked_headers = {}"
  by (simp_all add: chunked_headers_def ParseTransferEncoding_def ParseContentEncoding_def
      transfer_token_def trim_def trim_right_def is_space_def)

lemma two_chunks_ok: "chunks_ok [(''5'', ''hello''), (''01;x'', ''!'')] ''0''"
  by (simp add: chunks_ok_def header_ok_def str_to_uint64_16_def is_space_def scan_sign_def scan_prefix_def
      hex_value_def hex_number_def)

definition hello_entry :: content_reader where
  "hello_entry = ReadContent_on_entry chunked_headers 0 False (''5'' @ crlf @ ''he'')
     (''llo'' @ crlf @ ''01;x'' @ crlf @ ''!'' @ crlf @ ''0'' @ crlf @ crlf) Eof"

theorem chunked_body_delivered_witness:
  "\<exists>t. (content_step (\<lambda>_. None) ^^ 7) hello_entry t \<and> event t = Some ContentReadEvent
     \<and> delivered t = [(0, map Some ''hello''), (5, map Some ''!'')]"
proof -
  let ?cs = "[(''5'', ''hello''), (''01;x'', ''!'')]"
  have n: "3 * length ?cs + 1 = 7" by simp
  have out: "pieces_from 0 (map snd ?cs) = [(0, map Some ''hello''), (5, map Some ''!'')]" by simp
  have body: "(''5'' @ crlf @ ''he'')
      @ (''llo'' @ crlf @ ''01;x'' @ crlf @ ''!'' @ crlf @ ''0'' @ crlf @ crlf)
      = chunked_body ?cs ''0'' @ crlf" by simp
  have enc: "TE_Chunked \<in> ParseTransferEncoding chunked_headers"
    "TE_Unknown \<notin> ParseTransferEncoding chunked_headers"
    "TE_ContentLength \<notin> ParseTransferEncoding chunked_headers"
    "CE_Unknown \<notin> ParseContentEncoding chunked_headers"
    "False \<longleftrightarrow> TE_Gzip \<in> ParseTransferEncoding chunked_headers
       \<or> CE_Gzip \<in> ParseContentEncoding chunked_headers"
    by (simp_all add: chunked_headers_encodings)
  show ?thesis
    using chunked_body_delivered [OF enc body two_chunks_ok hello_entry_def]
    unfolding n out if_False by blast
qed

section \<open>A chunked body with interruptions\<close>

lemma interrupt_told:
  assumes "content_interrupt s t" and "reader_ok s"
  shows "event t \<in> {Some (ErrorEvent IoTimeout), Some (ErrorEvent Cancelled)}"
    and "delivered t = delivered s \<and> using_gzip t = using_gzip s
      \<and> read_buffer t = read_buffer s \<and> incoming t = incoming s"
proof -
  have "\<not> cancelled s \<Longrightarrow> timed (pending_op s) \<Longrightarrow> \<not> first_taken s"
    using assms(2) by (cases "pending_op s") (auto simp: reader_ok_def)
  with assms(1) show "event t \<in> {Some (ErrorEvent IoTimeout), Some (ErrorEvent Cancelled)}"
    "delivered t = delivered s \<and> using_gzip t = using_gzip s
      \<and> read_buffer t = read_buffer s \<and> incoming t = incoming s"
    by (cases; simp add: HandleAsyncTimeout_def ProcessEvent_def)+
qed

definition chunk_place ::
  "bool \<Rightarrow> (string \<times> string) list \<Rightarrow> string \<Rightarrow> string \<Rightarrow> content_reader \<Rightarrow> bool" where
  "chunk_place gz cs h0 r s \<longleftrightarrow> (\<exists>pre rest. cs = pre @ rest \<and>
     (at_header gz (map snd pre) (chunked_body rest h0 @ r) s
      \<or> (\<exists>h d rest'. rest = (h, d) # rest' \<and>
           (at_delay gz (map snd pre) d (chunked_body rest' h0 @ r) s
            \<or> at_chunk gz (map snd pre) d (chunked_body rest' h0 @ r) s))))"

lemma chunk_place_delivered:
  assumes "chunk_place False cs h0 r s"
  shows "event s = None \<and> (\<exists>k. delivered s = pieces_from 0 (take k (map snd cs)))"
proof -
  obtain pre rest where cs: "cs = pre @ rest" and read: "chunks_read False (map snd pre) s"
    using assms by (auto simp: chunk_place_def at_header_def at_delay_def at_chunk_def)
  then have "delivered s = pieces_from 0 (take (length pre) (map snd cs))" "event s = None"
    by (simp_all add: chunks_read_def)
  then show ?thesis by blast
qed

lemma chunk_place_step:
  assumes "chunk_place gz cs h0 r s" and "content_step gunzip s t" and "chunks_ok cs h0"
  shows "chunk_place gz cs h0 r t \<or> chunks_complete gunzip gz (map snd cs) t"
proof -
  obtain pre rest where cs: "cs = pre @ rest"
    and at: "at_header gz (map snd pre) (chunked_body rest h0 @ r) s
      \<or> (\<exists>h d rest'. rest = (h, d) # rest' \<and>
           (at_delay gz (map snd pre) d (chunked_body rest' h0 @ r) s
            \<or> at_chunk gz (map snd pre) d (chunked_body rest' h0 @ r) s))"
    using assms(1) by (auto simp: chunk_place_def)
  have total: "length (concat (map snd pre)) + length (concat (map snd rest)) + 2 < 2 ^ 64"
    using assms(3) by (simp add: chunks_ok_def cs)
  have ok: "header_ok h0 0" "\<And>h d. (h, d) \<in> set rest \<Longrightarrow> d \<noteq> [] \<and> header_ok h (length d)"
    using assms(3) by (auto simp: chunks_ok_def cs)
  have place: "chunk_place gz cs h0 r t"
    if "rest = (h, d) # rest'" "at_delay gz (map snd pre) d (chunked_body rest' h0 @ r) t
      \<or> at_chunk gz (map snd pre) d (chunked_body rest' h0 @ r) t" for h d rest'
    unfolding chunk_place_def using that cs by blast
  from at show ?thesis
  proof (elim disjE exE conjE)
    assume here: "at_header gz (map snd pre) (chunked_body rest h0 @ r) s"
    show ?thesis
    proof (cases rest)
      case Nil
      then show ?thesis using last_header_step [OF assms(2) _ ok(1)] here cs by simp
    next
      case (Cons c rest')
      obtain h d where c: "c = (h, d)" by (cases c)
      have "at_delay gz (map snd pre) d (chunked_body rest' h0 @ r) t"
        by (rule header_step [OF assms(2), of _ _ h]) (use here Cons c ok(2) [of h d] total in simp_all)
      then show ?thesis using place Cons c by blast
    qed
  next
    fix h d rest'
    assume "rest = (h, d) # rest'" "at_delay gz (map snd pre) d (chunked_body rest' h0 @ r) s"
    then show ?thesis using delay_step [OF assms(2)] place by blast
  next
    fix h d rest'
    assume rest: "rest = (h, d) # rest'"
      and here: "at_chunk gz (map snd pre) d (chunked_body rest' h0 @ r) s"
    have "at_header gz (map snd (pre @ [(h, d)])) (chunked_body rest' h0 @ r) t"
      using chunk_step [OF assms(2) here] total by (simp add: rest)
    then show ?thesis unfolding chunk_place_def using cs rest
      by (metis append.assoc append_Cons append_Nil)
  qed
qed

lemma chunks_complete_frozen:
  "chunks_complete gunzip gz ds s \<Longrightarrow> event t = event s \<Longrightarrow> delivered t = delivered s
   \<Longrightarrow> chunks_complete gunzip gz ds t"
  by (simp add: chunks_complete_def split: option.splits if_splits)



section \<open>A body without chunks\<close>

definition next_read :: "content_reader \<Rightarrow> nat \<Rightarrow> nat" where
  "next_read s tot =
     (if using_content_length s then min (content_length s - tot) kMaxUnknownReadLength
      else kMaxUnknownReadLength)"

fun plain_op :: "content_reader \<Rightarrow> nat \<Rightarrow> content_op \<Rightarrow> bool" where
  "plain_op s len (Delay_Read m tot) \<longleftrightarrow> transmission_delay_timer_enabled s \<and> tot = len
     \<and> read_buffer s = [] \<and> m = next_read s tot \<and> (using_content_length s \<longrightarrow> tot < content_length s)"
| "plain_op s len (Read_Exactly m tot prev) \<longleftrightarrow> \<not> first_taken s \<and> tot = len
     \<and> prev = length (read_buffer s) \<and> m = next_read s tot
     \<and> (using_content_length s \<and> 0 < tot \<longrightarrow> tot < content_length s \<and> prev = 0)"
| "plain_op s len _ \<longleftrightarrow> False"

definition plain_end :: "content_reader \<Rightarrow> nat \<Rightarrow> bool" where
  "plain_end s len \<longleftrightarrow> event s \<noteq> None \<and>
     (event s = Some ContentReadEvent \<longrightarrow>
        (if using_content_length s then len = content_length s else read_buffer s @ incoming s = []))"

definition plain_inv :: "string \<Rightarrow> content_reader \<Rightarrow> bool" where
  "plain_inv body s \<longleftrightarrow> \<not> using_gzip s \<and> (\<exists>ps. delivered s = pieces_from 0 ps
     \<and> concat ps @ read_buffer s @ incoming s = body
     \<and> (if cancelled s then plain_end s (length (concat ps))
        else event s = None \<and> plain_op s (length (concat ps)) (pending_op s)))"

lemma plain_entry:
  assumes "TE_Chunked \<notin> ParseTransferEncoding hs" and "TE_Unknown \<notin> ParseTransferEncoding hs"
    and "CE_Unknown \<notin> ParseContentEncoding hs"
    and "TE_Gzip \<notin> ParseTransferEncoding hs" and "CE_Gzip \<notin> ParseContentEncoding hs"
  shows "plain_inv (b @ inc) (ReadContent_on_entry hs n ssl b inc e)"
proof -
  have "delivered (ReadContent_on_entry hs n ssl b inc e) = pieces_from 0 []"
    using assms by (simp add: ReadContent_on_entry_def ReadContentData_init_def begin_read_def Let_def)
  then show ?thesis
    using assms unfolding plain_inv_def
    by (intro conjI exI [of _ "[]"])
       (simp_all add: ReadContent_on_entry_def ReadContentData_init_def begin_read_def next_read_def Let_def)
qed

lemma plain_entry_fields:
  assumes "TE_Chunked \<notin> ParseTransferEncoding hs" and "TE_Unknown \<notin> ParseTransferEncoding hs"
    and "CE_Unknown \<notin> ParseContentEncoding hs"
    and "TE_Gzip \<notin> ParseTransferEncoding hs" and "CE_Gzip \<notin> ParseContentEncoding hs"
    and "s = ReadContent_on_entry hs n ssl b inc e"
  shows "using_content_length s = (TE_ContentLength \<in> ParseTransferEncoding hs)"
    and "content_length s = n" and "is_ssl s = ssl" and "ending s = e"
    and "event s = None" and "read_buffer s = b" and "incoming s = inc"
    and "\<exists>m. pending_op s = Read_Exactly m 0 (length b)"
  using assms
  by (simp_all add: ReadContent_on_entry_def ReadContentData_init_def begin_read_def Let_def)

lemma plain_inv_frozen:
  assumes "plain_inv body s" and "cancelled s" and "content_step gunzip s t"
  shows "plain_inv body t"
proof -
  obtain k where t: "t = take_incoming k s \<or> t = s\<lparr>pending_op := Idle\<rparr>"
    using assms(3,2) by (cases rule: content_step.cases) auto
  have "read_buffer t @ incoming t = read_buffer s @ incoming s"
    using t by (auto simp: take_incoming_def)
  then show ?thesis
    using assms(1,2) t by (auto simp: plain_inv_def plain_end_def)
qed

text \<open>One completed read hands over everything the buffer holds.\<close>

lemma read_array_all: "read_array (length x) x = map Some x"
  by (simp add: read_array_def)

lemma is_eof_frame [simp]:
  "is_eof (take_incoming k s) err = is_eof s err"
  "is_eof (s\<lparr>first_taken := f\<rparr>) err = is_eof s err"
  "is_eof (s\<lparr>bandwidth := ns\<rparr>) err = is_eof s err"
  by (simp_all add: is_eof_def)

lemma plain_read:
  assumes "plain_op s len (pending_op s)" and "pending_op s = Read_Exactly m tot prev"
    and "\<not> cancelled s" and "\<not> using_gzip s" and "content_step gunzip s t"
  defines "x \<equiv> read_buffer s @ take m (incoming s)"
  shows "t = HandleContentRead gunzip len (length (read_buffer s)) (min m (length (incoming s)))
          (exact_error m s) (take_incoming m s)"
    and "length x = length (read_buffer s) + min m (length (incoming s))"
    and "read_buffer (take_incoming m s) = x" and "incoming (take_incoming m s) = drop m (incoming s)"
    and "m = next_read s len" and "\<not> first_taken s"
  using assms(1-5) by (auto simp: x_def take_incoming_def elim: content_step.cases)

lemma plain_inv_read:
  assumes inv: "plain_inv body s" and "pending_op s = Read_Exactly m tot prev"
    and nc: "\<not> cancelled s" and "content_step gunzip s t"
  shows "plain_inv body t"
proof -
  obtain ps where ps: "delivered s = pieces_from 0 ps" "concat ps @ read_buffer s @ incoming s = body"
    "plain_op s (length (concat ps)) (pending_op s)" and gz: "\<not> using_gzip s"
    using inv nc by (auto simp: plain_inv_def)
  define x where "x = read_buffer s @ take m (incoming s)"
  note rd = plain_read [OF ps(3) assms(2) nc gz assms(4), folded x_def]
  have body: "concat (ps @ [x]) @ drop m (incoming s) = body" using ps(2) by (simp add: x_def)
  have stream: "is_eof s' err \<Longrightarrow> err = exact_error m s \<Longrightarrow> drop m (incoming s) = []" for s' err
    by (auto simp: exact_error_def is_eof_def split: if_splits)
  show ?thesis
  proof (cases "exact_error m s = No_Error \<or> is_eof s (exact_error m s)")
    case True
    have del: "delivered t = pieces_from 0 (ps @ [x])" "read_buffer t = []" "incoming t = drop m (incoming s)"
      "\<not> using_gzip t"
      using True gz nc rd(6) ps(1) unfolding rd(1)
      by (simp_all add: HandleContentRead_def Let_def deliver_def ProcessEvent_def
          SetTransactionDelayTimer_def pieces_from_snoc rd(2) [symmetric] rd(3,4) read_array_all)
    have "if cancelled t then plain_end t (length (concat (ps @ [x])))
      else event t = None \<and> plain_op t (length (concat (ps @ [x]))) (pending_op t)"
      using True gz nc rd(6) inv stream [of s] unfolding rd(1)
      by (auto simp: HandleContentRead_def Let_def deliver_def ProcessEvent_def
          SetTransactionDelayTimer_def rd(2) [symmetric] rd(3,4) read_array_all plain_end_def plain_inv_def next_read_def)
    then show ?thesis unfolding plain_inv_def using del body by (intro conjI exI [of _ "ps @ [x]"]) simp_all
  next
    case False
    then have "delivered t = pieces_from 0 ps" "read_buffer t @ incoming t = read_buffer s @ incoming s"
      "\<not> using_gzip t" "plain_end t (length (concat ps))" "cancelled t"
      using gz nc rd(6) ps(1) unfolding rd(1)
      by (simp_all add: HandleContentRead_def Let_def deliver_def ProcessEvent_def
          plain_end_def rd(3,4) x_def)
    then show ?thesis unfolding plain_inv_def using ps(2) by (intro conjI exI [of _ ps]) simp_all
  qed
qed

lemma plain_inv_step:
  assumes "plain_inv body s" and "content_step gunzip s t"
  shows "plain_inv body t"
proof (cases "cancelled s")
  case False
  show ?thesis
  proof (cases "pending_op s")
    case (Delay_Read m tot)
    then have "t = HandleContentReadDelayCallback m tot (s\<lparr>pending_op := Idle\<rparr>)"
      using assms(2) by (auto elim: content_step.cases)
    then show ?thesis
      using assms(1) False Delay_Read
      by (auto simp: plain_inv_def HandleContentReadDelayCallback_def begin_read_def next_read_def)
  qed (use assms False plain_inv_read in \<open>auto simp: plain_inv_def\<close>)
qed (use assms plain_inv_frozen in blast)

text \<open>The fields that no step changes.\<close>

definition stream_config :: "content_reader \<Rightarrow> bool \<times> nat \<times> bool \<times> read_error" where
  "stream_config s = (using_content_length s, content_length s, is_ssl s, ending s)"

lemma stream_config_update [simp]:
  "stream_config (take_incoming k s) = stream_config s"
  "stream_config (ProcessEvent ev s) = stream_config s"
  "stream_config (begin_read opn s) = stream_config s"
  "stream_config (SetTransactionDelayTimer opn s) = stream_config s"
  "stream_config (deliver pos xs s) = stream_config s"
  "stream_config (s\<lparr>pending_op := opn\<rparr>) = stream_config s"
  "stream_config (s\<lparr>first_taken := f\<rparr>) = stream_config s"
  "stream_config (s\<lparr>bandwidth := ns\<rparr>) = stream_config s"
  "stream_config (s\<lparr>read_buffer := str\<rparr>) = stream_config s"
  "stream_config (s\<lparr>gzipped_buffer := str\<rparr>) = stream_config s"
  "stream_config (s\<lparr>filter_buf_consumed := m\<rparr>) = stream_config s"
  "stream_config (s\<lparr>transmission_delay_timer_enabled := f\<rparr>) = stream_config s"
  by (simp_all add: stream_config_def handler_defs)

lemma stream_config_handlers [simp]:
  "stream_config (HandleContentReadDelayCallback n tot s) = stream_config s"
  "stream_config (HandleContentChunkRead out cs n err s) = stream_config s"
  "stream_config (HandleContentChunkSizeReadDelay l out cs s) = stream_config s"
  "stream_config (HandleNextChunk out cs s) = stream_config s"
  "stream_config (HandleCompleteAllChunks gunzip s) = stream_config s"
  by (simp_all add: content_handlers Let_def split: option.split)

lemma stream_config_HandleContentChunkSizeRead [simp]:
  "stream_config (HandleContentChunkSizeRead gunzip out n err s) = stream_config s"
  by (simp add: HandleContentChunkSizeRead_def Let_def split: option.split prod.split)

lemma stream_config_HandleContentRead [simp]:
  "stream_config (HandleContentRead gunzip tot prev n err s) = stream_config s"
  by (cases "cancelled s"; cases "using_gzip s"; cases "using_content_length s")
     (simp_all add: HandleContentRead_def Let_def split: option.split)

lemma stream_config_step:
  assumes "content_step gunzip s t"
  shows "stream_config t = stream_config s"
  using assms by cases simp_all

lemma stream_config_interrupt:
  assumes "content_interrupt s t"
  shows "stream_config t = stream_config s"
  using assms by cases (simp_all add: HandleAsyncTimeout_def)

text \<open>
  with a timeout or a cancellation at any moment, what the callback has been given of a
  body that is not chunked are contiguous pieces from its first byte on; it is told that the
  content was read only when they are as long as the content length says, or, without one, when
  they are the whole stream.
\<close>

theorem plain_body_pieces:
  assumes "TE_Chunked \<notin> ParseTransferEncoding hs" and "TE_Unknown \<notin> ParseTransferEncoding hs"
    and "CE_Unknown \<notin> ParseContentEncoding hs"
    and "TE_Gzip \<notin> ParseTransferEncoding hs" and "CE_Gzip \<notin> ParseContentEncoding hs"
    and "content_run gunzip (ReadContent_on_entry hs n ssl b inc e) t"
  shows "\<exists>ps rest. delivered t = pieces_from 0 ps \<and> concat ps @ rest = b @ inc
    \<and> (event t = Some ContentReadEvent \<longrightarrow>
         (if TE_ContentLength \<in> ParseTransferEncoding hs then length (concat ps) = n else rest = []))"
proof -
  let ?start = "ReadContent_on_entry hs n ssl b inc e"
  have config: "stream_config ?start = (TE_ContentLength \<in> ParseTransferEncoding hs, n, ssl, e)"
    using assms(1-5)
    by (simp add: ReadContent_on_entry_def ReadContentData_init_def begin_read_def stream_config_def Let_def)
  have "plain_inv (b @ inc) t \<and> stream_config t = stream_config ?start"
    using assms(6)
  proof (induction rule: content_run_induct)
    case Start
    show ?case using plain_entry [OF assms(1-5)] by simp
  next
    case (Step t u)
    then show ?case using plain_inv_step stream_config_step by metis
  next
    case (Interrupt t u)
    have ok: "reader_ok t" "reader_ok u"
      using reader_ok_run reader_ok_interrupt Interrupt.hyps by blast+
    note told = interrupt_told [OF Interrupt.hyps(2) ok(1)]
    obtain ps where "delivered t = pieces_from 0 ps" "concat ps @ read_buffer t @ incoming t = b @ inc"
      "\<not> using_gzip t" using Interrupt.IH by (auto simp: plain_inv_def)
    moreover have "cancelled u" using told(1) ok(2) by (auto simp: reader_ok_def)
    ultimately have "plain_inv (b @ inc) u"
      unfolding plain_inv_def using told by (intro conjI exI [of _ ps]) (auto simp: plain_end_def)
    then show ?case using Interrupt.IH stream_config_interrupt [OF Interrupt.hyps(2)] by simp
  qed
  then obtain ps where ps: "delivered t = pieces_from 0 ps"
      "concat ps @ read_buffer t @ incoming t = b @ inc"
      "if cancelled t then plain_end t (length (concat ps))
       else event t = None \<and> plain_op t (length (concat ps)) (pending_op t)"
    and "using_content_length t \<longleftrightarrow> TE_ContentLength \<in> ParseTransferEncoding hs" "content_length t = n"
    using config by (auto simp: plain_inv_def stream_config_def)
  then show ?thesis
    by (intro exI [of _ ps] exI [of _ "read_buffer t @ incoming t"])
       (auto simp: plain_end_def split: if_splits)
qed

theorem plain_body_pieces_witness:
  "\<exists>ps rest. delivered short_cancelled = pieces_from 0 ps \<and> concat ps @ rest = ''ab'' @ ''c''
    \<and> (event short_cancelled = Some ContentReadEvent \<longrightarrow> rest = [])"
  using plain_body_pieces [OF _ _ _ _ _ short_cancelled_run [unfolded short_entry_def]]
  by (simp add: ParseTransferEncoding_def ParseContentEncoding_def)

section \<open>Whether a body without chunks ends\<close>

text \<open>
  The stream ends in order, or it need not end because the content length is known and nothing
  of the body was read with the headers.
\<close>

definition ends_well :: "content_reader \<Rightarrow> bool" where
  "ends_well s \<longleftrightarrow> is_eof s (ending s) \<or> using_content_length s \<and> read_buffer s = []"

fun reads_left :: "content_reader \<Rightarrow> content_op \<Rightarrow> nat" where
  "reads_left s (Read_Exactly _ _ _) = 2 * length (incoming s) + 1"
| "reads_left s (Delay_Read _ _) = 2 * length (incoming s) + 2"
| "reads_left s _ = 0"

lemma plain_read_outcome:
  assumes inv: "plain_inv body s" and op: "pending_op s = Read_Exactly m tot prev"
    and nc: "\<not> cancelled s" and st: "content_step gunzip s t"
    and err: "exact_error m s = No_Error \<or> is_eof s (exact_error m s)"
    and len: "using_content_length s \<longrightarrow> length body \<le> content_length s"
  shows "read_buffer t = []" and "incoming t = drop m (incoming s)"
    and "if (if using_content_length s
             then length body = content_length s + length (drop m (incoming s))
             else is_eof s (exact_error m s))
         then event t = Some ContentReadEvent \<and> pending_op t = Idle
         else event t = None \<and> (\<exists>m tot. pending_op t = Delay_Read m tot)"
proof -
  obtain ps where ps: "concat ps @ read_buffer s @ incoming s = body"
    "plain_op s (length (concat ps)) (pending_op s)" and gz: "\<not> using_gzip s" and ev: "event s = None"
    using inv nc by (auto simp: plain_inv_def)
  define x where "x = read_buffer s @ take m (incoming s)"
  note rd = plain_read [OF ps(2) op nc gz st, folded x_def]
  have body: "length body = length (concat ps) + length x + length (drop m (incoming s))"
    using ps(1) unfolding x_def by (metis append.assoc append_take_drop_id length_append)
  have le: "using_content_length s \<Longrightarrow> \<not> content_length s < length (concat ps) + length x"
    using len body by auto
  show "read_buffer t = []" "incoming t = drop m (incoming s)"
    using err gz nc rd(6) unfolding rd(1)
    by (simp_all add: HandleContentRead_def Let_def deliver_def ProcessEvent_def
        SetTransactionDelayTimer_def rd(2) [symmetric] rd(3,4))
  show "if (if using_content_length s
             then length body = content_length s + length (drop m (incoming s))
             else is_eof s (exact_error m s))
         then event t = Some ContentReadEvent \<and> pending_op t = Idle
         else event t = None \<and> (\<exists>m tot. pending_op t = Delay_Read m tot)"
    using err gz nc rd(6) body ev le unfolding rd(1)
    by (auto simp: HandleContentRead_def Let_def deliver_def ProcessEvent_def
        SetTransactionDelayTimer_def rd(2) [symmetric] rd(3,4))
qed

lemma plain_delay_outcome:
  assumes "plain_inv body s" and "pending_op s = Delay_Read m tot" and "\<not> cancelled s"
    and "content_step gunzip s t"
  shows "read_buffer t = [] \<and> incoming t = incoming s \<and> event t = None
    \<and> pending_op t = Read_Exactly m tot 0"
proof -
  have "t = HandleContentReadDelayCallback m tot (s\<lparr>pending_op := Idle\<rparr>)"
    using assms(4,2) by (auto elim: content_step.cases)
  then show ?thesis
    using assms(1-3) by (auto simp: plain_inv_def HandleContentReadDelayCallback_def begin_read_def)
qed

lemma plain_op_cases:
  assumes "plain_inv body s" and "\<not> cancelled s"
  obtains (delay) m tot where "pending_op s = Delay_Read m tot"
  | (read) m tot prev where "pending_op s = Read_Exactly m tot prev"
  using assms by (cases "pending_op s") (auto simp: plain_inv_def)

lemma plain_next_read:
  assumes "plain_inv body s" and "pending_op s = Read_Exactly m tot prev" and "\<not> cancelled s"
  shows "m = next_read s (length body - length (read_buffer s @ incoming s))"
  using assms by (auto simp: plain_inv_def)

text \<open>A read of a body that is as long as announced brings the end nearer.\<close>

lemma plain_progress:
  assumes inv: "plain_inv body s" and nc: "\<not> cancelled s" and st: "content_step gunzip s t"
    and len: "using_content_length s \<longrightarrow> length body = content_length s" and well: "ends_well s"
  shows "(event t = None \<or> event t = Some ContentReadEvent \<and> pending_op t = Idle) \<and> ends_well t
    \<and> reads_left t (pending_op t) < reads_left s (pending_op s)"
  using inv nc
proof (cases rule: plain_op_cases)
  case (delay m tot)
  have "stream_config t = stream_config s" by (rule stream_config_step [OF st])
  moreover have "read_buffer s = []" using inv nc delay by (auto simp: plain_inv_def)
  ultimately show ?thesis
    using plain_delay_outcome [OF inv delay nc st] delay well
    by (auto simp: ends_well_def is_eof_def stream_config_def)
next
  case (read m tot prev)
  have conf: "stream_config t = stream_config s" by (rule stream_config_step [OF st])
  have m: "m = next_read s (length body - length (read_buffer s @ incoming s))"
    by (rule plain_next_read [OF inv read nc])
  have body: "length (read_buffer s @ incoming s) \<le> length body" using inv by (auto simp: plain_inv_def)
  have err: "exact_error m s = No_Error \<or> is_eof s (exact_error m s)"
    using well len body m by (auto simp: ends_well_def exact_error_def next_read_def)
  have len': "using_content_length s \<longrightarrow> length body \<le> content_length s" using len by simp
  note out = plain_read_outcome [OF inv read nc st err len']
  have "incoming s \<noteq> [] \<Longrightarrow> 0 < m"
    using len body m
    by (auto simp: next_read_def kMaxUnknownReadLength_def simp flip: length_greater_0_conv)
  moreover have "incoming s = [] \<Longrightarrow> \<not> using_content_length s \<Longrightarrow> is_eof s (exact_error m s)"
    using well m by (auto simp: ends_well_def exact_error_def next_read_def kMaxUnknownReadLength_def)
  ultimately have "event t = None \<Longrightarrow> length (incoming t) < length (incoming s)"
    using out len by (cases "incoming s") (auto split: if_splits)
  moreover have "event t \<in> {None, Some ContentReadEvent}" "ends_well t"
    using out conf well by (auto simp: ends_well_def is_eof_def stream_config_def split: if_splits)
  moreover have "event t = Some ContentReadEvent \<Longrightarrow> pending_op t = Idle"
    "event t = None \<Longrightarrow> \<exists>m tot. pending_op t = Delay_Read m tot"
    using out(3) by (auto split: if_splits)
  ultimately show ?thesis using read by auto
qed

text \<open>
  a body that is not chunked, and is as long as its content length says or has none, is read
  to its end in at most two completions for every byte: the reading cannot go on for longer,
  does not stop before, and ends by telling the state machine that the content was read, with
  the callback given all of the body.
\<close>

theorem plain_body_delivered:
  assumes "TE_Chunked \<notin> ParseTransferEncoding hs" and "TE_Unknown \<notin> ParseTransferEncoding hs"
    and "CE_Unknown \<notin> ParseContentEncoding hs"
    and "TE_Gzip \<notin> ParseTransferEncoding hs" and "CE_Gzip \<notin> ParseContentEncoding hs"
    and "TE_ContentLength \<in> ParseTransferEncoding hs \<Longrightarrow> length (b @ inc) = n"
    and "e = Eof \<or> ssl \<and> e = Ssl_Short_Read \<or> TE_ContentLength \<in> ParseTransferEncoding hs \<and> b = []"
    and "(content_step gunzip ^^ k) (ReadContent_on_entry hs n ssl b inc e) t"
  shows "k \<le> 2 * length inc + 1
    \<and> (event t = None \<longrightarrow> (\<exists>u. content_step gunzip t u))
    \<and> (event t \<noteq> None \<longrightarrow> event t = Some ContentReadEvent
         \<and> (\<exists>ps. delivered t = pieces_from 0 ps \<and> concat ps = b @ inc))"
proof -
  let ?start = "ReadContent_on_entry hs n ssl b inc e"
  note start = plain_entry_fields [OF assms(1-5) refl, of n ssl b inc e]
  have "plain_inv (b @ inc) t \<and> reader_ok t \<and> ends_well t \<and> stream_config t = stream_config ?start
      \<and> (event t = None \<or> event t = Some ContentReadEvent \<and> pending_op t = Idle)
      \<and> k + reads_left t (pending_op t) \<le> 2 * length inc + 1"
    using assms(8)
  proof (induction k arbitrary: t)
    case 0
    obtain m where "pending_op ?start = Read_Exactly m 0 (length b)" using start(8) by blast
    then show ?case
      using 0 plain_entry [OF assms(1-5), of b inc n ssl e] reader_ok_entry [of hs n ssl b inc e]
        start assms(7) by (auto simp: ends_well_def is_eof_def)
  next
    case (Suc k)
    then obtain s where s: "(content_step gunzip ^^ k) ?start s" "content_step gunzip s t" by auto
    note IH = Suc.IH [OF s(1)]
    have nc: "\<not> cancelled s" using IH s(2) by (auto simp: reader_ok_def elim: content_step.cases)
    have len: "using_content_length s \<longrightarrow> length (b @ inc) = content_length s"
      using IH start assms(6) by (simp add: stream_config_def)
    show ?case
      using plain_progress [OF _ nc s(2) len] reader_ok_step [OF s(2)] plain_inv_step [OF _ s(2)]
        stream_config_step [OF s(2)] IH by fastforce
  qed
  then have t: "plain_inv (b @ inc) t" "reader_ok t" "k \<le> 2 * length inc + 1"
    "event t = None \<or> event t = Some ContentReadEvent"
    "using_content_length t \<longrightarrow> content_length t = length (b @ inc)"
    using start assms(6) by (auto simp: stream_config_def)
  have "\<exists>ps. delivered t = pieces_from 0 ps \<and> concat ps = b @ inc" if "event t \<noteq> None"
  proof -
    have "cancelled t" using that t(2) by (simp add: reader_ok_def)
    then obtain ps where ps: "delivered t = pieces_from 0 ps"
      "concat ps @ read_buffer t @ incoming t = b @ inc" "plain_end t (length (concat ps))"
      using t(1) unfolding plain_inv_def by (simp only: if_True) blast
    have "length (concat ps) + length (read_buffer t @ incoming t) = length (b @ inc)"
      using ps(2) by (metis length_append)
    then have "read_buffer t @ incoming t = []"
      using that t(4,5) ps(3) by (cases "using_content_length t") (auto simp: plain_end_def)
    then show ?thesis using ps by auto
  qed
  then show ?thesis using t(3,4) content_step_enabled [OF t(2), of gunzip] by (intro conjI impI) auto
qed

text \<open>
  a body that is shorter than its content length says is never finished: after the end of the
  stream the reading goes on with reads that bring nothing, each under a new timeout, and tells
  the state machine neither that the content was read nor that it failed.
\<close>

theorem truncated_body_never_ends:
  assumes "TE_Chunked \<notin> ParseTransferEncoding hs" and "TE_Unknown \<notin> ParseTransferEncoding hs"
    and "CE_Unknown \<notin> ParseContentEncoding hs"
    and "TE_Gzip \<notin> ParseTransferEncoding hs" and "CE_Gzip \<notin> ParseContentEncoding hs"
    and "TE_ContentLength \<in> ParseTransferEncoding hs" and "length (b @ inc) < n"
    and "e = Eof \<or> ssl \<and> e = Ssl_Short_Read"
    and "(content_step gunzip)\<^sup>*\<^sup>* (ReadContent_on_entry hs n ssl b inc e) t"
  shows "event t = None \<and> (\<exists>u. content_step gunzip t u)"
proof -
  let ?start = "ReadContent_on_entry hs n ssl b inc e"
  note start = plain_entry_fields [OF assms(1-5) refl, of n ssl b inc e]
  have "plain_inv (b @ inc) t \<and> reader_ok t \<and> stream_config t = stream_config ?start \<and> event t = None"
    using assms(9)
  proof (induction rule: rtranclp_induct)
    case base
    then show ?case using start plain_entry [OF assms(1-5)] reader_ok_entry by simp
  next
    case (step s t)
    have IH: "plain_inv (b @ inc) s" "reader_ok s" "stream_config s = stream_config ?start" "event s = None"
      using step.IH by auto
    have nc: "\<not> cancelled s" using IH by (simp add: reader_ok_def)
    have s: "using_content_length s" "content_length s = n" "is_eof s (ending s)"
      using IH(3) start assms(6,8) by (auto simp: stream_config_def is_eof_def)
    have "event t = None"
      using IH(1) nc
    proof (cases rule: plain_op_cases)
      case (delay m tot)
      then show ?thesis using plain_delay_outcome [OF IH(1) delay nc step(2)] by simp
    next
      case (read m tot prev)
      have "exact_error m s = No_Error \<or> is_eof s (exact_error m s)" using s(3) by (simp add: exact_error_def)
      then show ?thesis
        using plain_read_outcome(3) [OF IH(1) read nc step(2)] s assms(7) by (auto split: if_splits)
    qed
    then show ?case
      using plain_inv_step [OF IH(1) step(2)] reader_ok_step [OF step(2) IH(2)]
        stream_config_step [OF step(2)] IH(3) by simp
  qed
  then show ?thesis using content_step_enabled by blast
qed

text \<open>A response with a content length of three, of which two bytes or all three arrive.\<close>

definition length_headers :: headers where
  "length_headers = [(''content-length'', ''3'')]"

lemma length_headers_encodings:
  "ParseTransferEncoding length_headers = {TE_ContentLength}" "ParseContentEncoding length_headers = {}"
  by (simp_all add: length_headers_def ParseTransferEncoding_def ParseContentEncoding_def)

theorem plain_body_delivered_witness:
  "\<exists>t. (content_step (\<lambda>_. None) ^^ 1) (ReadContent_on_entry length_headers 3 False [] ''abc'' Eof) t
     \<and> (event t \<noteq> None \<longrightarrow> event t = Some ContentReadEvent
         \<and> (\<exists>ps. delivered t = pieces_from 0 ps \<and> concat ps = ''abc''))"
proof -
  let ?s = "ReadContent_on_entry length_headers 3 False [] ''abc'' Eof"
  have enc: "TE_Chunked \<notin> ParseTransferEncoding length_headers"
    "TE_Unknown \<notin> ParseTransferEncoding length_headers"
    "CE_Unknown \<notin> ParseContentEncoding length_headers"
    "TE_Gzip \<notin> ParseTransferEncoding length_headers" "CE_Gzip \<notin> ParseContentEncoding length_headers"
    by (simp_all add: length_headers_encodings)
  have "event ?s = None" by (rule plain_entry_fields(5) [OF enc refl])
  then obtain t where "content_step (\<lambda>_. None) ?s t"
    using content_step_enabled [OF reader_ok_entry] by blast
  then have "(content_step (\<lambda>_. None) ^^ 1) ?s t" by (simp add: eq_OO)
  moreover from plain_body_delivered [OF enc _ _ this]
  have "event t \<noteq> None \<longrightarrow> event t = Some ContentReadEvent
      \<and> (\<exists>ps. delivered t = pieces_from 0 ps \<and> concat ps = ''abc'')" by simp
  ultimately show ?thesis by blast
qed

theorem truncated_body_never_ends_witness:
  "\<exists>t u. content_step (\<lambda>_. None) (ReadContent_on_entry length_headers 3 False [] ''ab'' Eof) t
     \<and> event t = None \<and> content_step (\<lambda>_. None) t u"
proof -
  let ?s = "ReadContent_on_entry length_headers 3 False [] ''ab'' Eof"
  have enc: "TE_Chunked \<notin> ParseTransferEncoding length_headers"
    "TE_Unknown \<notin> ParseTransferEncoding length_headers"
    "CE_Unknown \<notin> ParseContentEncoding length_headers"
    "TE_Gzip \<notin> ParseTransferEncoding length_headers" "CE_Gzip \<notin> ParseContentEncoding length_headers"
    "TE_ContentLength \<in> ParseTransferEncoding length_headers"
    by (simp_all add: length_headers_encodings)
  have never: "event t = None \<and> (\<exists>u. content_step (\<lambda>_. None) t u)"
    if "(content_step (\<lambda>_. None))\<^sup>*\<^sup>* ?s t" for t
    by (rule truncated_body_never_ends [OF enc _ _ that]) simp_all
  then obtain t where t: "content_step (\<lambda>_. None) ?s t" by blast
  then show ?thesis using never [OF r_into_rtranclp [of "content_step (\<lambda>_. None)", OF t]] by blast
qed

end
