(* ===== verification/Api_Query.thy ===== *)
theory Api_Query
  imports Url_Encode "HOL-Library.Word" "HOL-Library.Signed_Division"
begin

text \<open>
  How the requests of the API put their parameters into a URL or a body, and the signature of
  the calls with a session token: \<^verbatim>\<open>api/detail/session_token_api_base_static.cpp\<close> and
  \<^verbatim>\<open>api/detail/tokenless_api_base_static.cpp\<close>. A \<^verbatim>\<open>std::map\<close> of parameters is
  the list of its pairs in the order of iteration; MD5 is a parameter.
\<close>

type_synonym params = "(string \<times> string) list"

datatype RequestMethod = Get | Post

section \<open>Requests without a token\<close>

text \<open>
  The loop that all of them share: each pair is put behind a separator, which is \<open>first\<close> before
  the first pair and an ampersand afterwards.
\<close>

fun query_loop :: "(string \<Rightarrow> string) \<Rightarrow> string \<Rightarrow> string \<Rightarrow> params \<Rightarrow> string" where
  "query_loop enc separator query [] = query"
| "query_loop enc separator query ((k, v) # rest) =
     query_loop enc ''&'' (query @ separator @ k @ ''='' @ enc v) rest"

definition tokenless_MakePathAndQuery :: "string \<Rightarrow> params \<Rightarrow> string" where
  "tokenless_MakePathAndQuery url_path query_parts =
     url_path @ query_loop percent_Encode ''?'' [] query_parts"

definition tokenless_MakePost :: "params \<Rightarrow> string" where
  "tokenless_MakePost query_parts = query_loop percent_plus_Encode [] [] query_parts"

section \<open>Requests with a session token\<close>

record signer =
  session_token :: string
  sig_time :: string
  sig_secret_key :: "32 word"

definition SetSessionToken :: "string \<Rightarrow> string \<Rightarrow> 32 word \<Rightarrow> signer" where
  "SetSessionToken token time key = \<lparr>session_token = token, sig_time = time, sig_secret_key = key\<rparr>"

fun show_nat :: "nat \<Rightarrow> string" where
  "show_nat n = (if n < 10 then [char_of (48 + n)] else show_nat (n div 10) @ [char_of (48 + n mod 10)])"

definition show_int :: "int \<Rightarrow> string" where
  "show_int i = (if i < 0 then CHR ''-'' # show_nat (nat (- i)) else show_nat (nat i))"

text \<open>The remainder of C++ has the sign of the dividend.\<close>

definition GetSignature :: "(string \<Rightarrow> string) \<Rightarrow> signer \<Rightarrow> string \<Rightarrow> string" where
  "GetSignature md5 s path_and_query =
     md5 (show_int (sint (sig_secret_key s) smod 256) @ sig_time s @ path_and_query)"

definition MakePathAndQuery :: "(string \<Rightarrow> string) \<Rightarrow> RequestMethod \<Rightarrow> signer \<Rightarrow> string \<Rightarrow> params \<Rightarrow> string" where
  "MakePathAndQuery md5 meth s url_path query_parts = (case meth of
       Post \<Rightarrow> url_path @ query_loop percent_Encode ''?'' [] query_parts
     | Get \<Rightarrow>
         let start = ''?session_token='' @ session_token s;
             query = query_loop percent_Encode ''&'' start query_parts;
             unencoded_query = query_loop (\<lambda>v. v) ''&'' start query_parts;
             sig = GetSignature md5 s (url_path @ unencoded_query)
         in url_path @ query @ ''&signature='' @ sig)"

definition MakePost :: "(string \<Rightarrow> string) \<Rightarrow> signer \<Rightarrow> string \<Rightarrow> params \<Rightarrow> string" where
  "MakePost md5 s url_path query_parts =
     (let query = query_loop percent_Encode ''&'' (''session_token='' @ session_token s) query_parts;
          sig = GetSignature md5 s (url_path @ ''?'' @ query)
      in query @ ''&signature='' @ sig)"

section \<open>Reading a query\<close>

text \<open>
  What a server does: the query is cut at the ampersands, every piece at its first equals sign,
  and the values are decoded.
\<close>

fun split_on :: "char \<Rightarrow> string \<Rightarrow> string list" where
  "split_on c [] = [[]]"
| "split_on c (x # xs) =
     (if x = c then [] # split_on c xs
      else (case split_on c xs of p # ps \<Rightarrow> (x # p) # ps | [] \<Rightarrow> [[x]]))"

fun join_with :: "string \<Rightarrow> string list \<Rightarrow> string" where
  "join_with sep [] = []"
| "join_with sep [p] = p"
| "join_with sep (p # q # ps) = p @ sep @ join_with sep (q # ps)"

definition parse_piece :: "(string \<Rightarrow> string option) \<Rightarrow> string \<Rightarrow> (string \<times> string) option" where
  "parse_piece dec p =
     (case dec (drop 1 (dropWhile (\<lambda>c. c \<noteq> CHR ''='') p)) of
        None \<Rightarrow> None
      | Some v \<Rightarrow> Some (takeWhile (\<lambda>c. c \<noteq> CHR ''='') p, v))"

definition parse_query :: "(string \<Rightarrow> string option) \<Rightarrow> string \<Rightarrow> params option" where
  "parse_query dec q = those (map (parse_piece dec) (split_on (CHR ''&'') q))"

text \<open>Keys that need no encoding\<close>

definition plain_keys :: "params \<Rightarrow> bool" where
  "plain_keys ps \<longleftrightarrow> (\<forall>(k, v) \<in> set ps. CHR ''&'' \<notin> set k \<and> CHR ''='' \<notin> set k)"

lemma split_on_append:
  "c \<notin> set p \<Longrightarrow> split_on c (p @ c # q) = p # split_on c q"
  by (induction p) auto

lemma split_on_single: "c \<notin> set p \<Longrightarrow> split_on c p = [p]"
  by (induction p) auto

lemma split_join:
  assumes "\<forall>p \<in> set ps. c \<notin> set p" and "ps \<noteq> []"
  shows "split_on c (join_with [c] ps) = ps"
  using assms
proof (induction ps rule: induct_list012)
  case (3 p q ps)
  then show ?case by (simp add: split_on_append)
qed (simp_all add: split_on_single)

definition piece :: "(string \<Rightarrow> string) \<Rightarrow> string \<times> string \<Rightarrow> string" where
  "piece enc kv = fst kv @ ''='' @ enc (snd kv)"

lemma query_loop_join:
  "query_loop enc sep q ps = (if ps = [] then q else q @ sep @ join_with ''&'' (map (piece enc) ps))"
proof (induction ps arbitrary: sep q)
  case (Cons kv ps)
  obtain k v where kv: "kv = (k, v)" by (cases kv)
  have "query_loop enc sep q (kv # ps) = query_loop enc ''&'' (q @ sep @ piece enc kv) ps"
    by (simp add: kv piece_def)
  also have "\<dots> = (if ps = [] then q @ sep @ piece enc kv
      else (q @ sep @ piece enc kv) @ ''&'' @ join_with ''&'' (map (piece enc) ps))"
    by (rule Cons.IH)
  finally show ?case by (cases ps) simp_all
qed simp

lemma those_map_Some: "\<forall>x \<in> set xs. f x = Some (g x) \<Longrightarrow> those (map f xs) = Some (map g xs)"
  by (induction xs) simp_all

text \<open>The codec decides alone whether what was put into a query can be read again.\<close>

context param_codec begin

lemma parse_piece_enc:
  assumes "CHR ''='' \<notin> set k"
  shows "parse_piece dec (piece enc (k, v)) = Some (k, v)"
proof -
  have k: "\<forall>x \<in> set k. x \<noteq> CHR ''=''" using assms by auto
  have "takeWhile (\<lambda>c. c \<noteq> CHR ''='') (k @ CHR ''='' # enc v) = k"
    "dropWhile (\<lambda>c. c \<noteq> CHR ''='') (k @ CHR ''='' # enc v) = CHR ''='' # enc v"
    using k by (simp_all add: takeWhile_append2 dropWhile_append2)
  then show ?thesis by (simp add: parse_piece_def piece_def dec_enc)
qed

lemma parse_query_join:
  assumes "plain_keys ps" and "ps \<noteq> []"
  shows "parse_query dec (join_with ''&'' (map (piece enc) ps)) = Some ps"
proof -
  have "\<forall>p \<in> set (map (piece enc) ps). CHR ''&'' \<notin> set p"
    using assms(1) by (auto simp: plain_keys_def piece_def enc_no_ampersand)
  then have "split_on (CHR ''&'') (join_with ''&'' (map (piece enc) ps)) = map (piece enc) ps"
    by (rule split_join) (simp add: assms(2))
  moreover have "\<forall>kv \<in> set ps. (parse_piece dec \<circ> piece enc) kv = Some (id kv)"
    using assms(1) by (auto simp: plain_keys_def parse_piece_enc)
  then have "those (map (parse_piece dec \<circ> piece enc) ps) = Some (map id ps)" by (rule those_map_Some)
  ultimately show ?thesis by (simp add: parse_query_def)
qed

lemma parse_query_loop:
  assumes "plain_keys ps" and "ps \<noteq> []"
  shows "parse_query dec (query_loop enc [] [] ps) = Some ps"
  using parse_query_join [OF assms] by (simp add: query_loop_join assms(2))

end

text \<open>
  the query of a request without a token, and the body of a posted one, can be read back:
  cutting at the separators and decoding the values gives the parameters, whatever bytes the
  values have. Only the keys have to be free of the separators.
\<close>

theorem tokenless_query_roundtrip:
  assumes "plain_keys ps" and "ps \<noteq> []"
  shows "(\<exists>q. tokenless_MakePathAndQuery path ps = path @ ''?'' @ q \<and> parse_query percent_Decode q = Some ps)
    \<and> parse_query percent_plus_Decode (tokenless_MakePost ps) = Some ps"
  using get_parameter.parse_query_join [OF assms] post_parameter.parse_query_loop [OF assms] assms(2)
  by (simp add: tokenless_MakePathAndQuery_def tokenless_MakePost_def query_loop_join)

theorem tokenless_query_roundtrip_witness:
  "parse_query percent_plus_Decode (tokenless_MakePost [(''k'', ''a&b=c'')]) = Some [(''k'', ''a&b=c'')]"
  using tokenless_query_roundtrip [of "[(''k'', ''a&b=c'')]" "[]"] by (simp add: plain_keys_def)

text \<open>
  C32: the URL of a signed call carries the token, the parameters and the signature, and a server
  that decodes the query and puts the decoded parameters together again computes the very
  signature that is sent. The token and the digest must be of characters that need no encoding,
  as they are not encoded.
\<close>

theorem signed_query_verifies:
  assumes "plain_keys ps" and "percent_Encode (session_token s) = session_token s"
    and "\<forall>m. percent_Encode (md5 m) = md5 m"
  shows "\<exists>q sig. MakePathAndQuery md5 Get s path ps = path @ ''?'' @ q
    \<and> parse_query percent_Decode q = Some ((''session_token'', session_token s) # ps @ [(''signature'', sig)])
    \<and> sig = GetSignature md5 s
        (path @ ''?'' @ join_with ''&'' (map (piece (\<lambda>v. v)) ((''session_token'', session_token s) # ps)))"
proof -
  let ?all = "(''session_token'', session_token s) # ps"
  define sig where "sig = GetSignature md5 s (path @ ''?'' @ join_with ''&'' (map (piece (\<lambda>v. v)) ?all))"
  let ?pieces = "map (piece percent_Encode) (?all @ [(''signature'', sig)])"
  have join: "join_with ''&'' (xs @ [x]) = join_with ''&'' xs @ ''&'' @ x" if "xs \<noteq> []" for xs x
    using that by (induction xs rule: induct_list012) simp_all
  have loop: "query_loop enc ''&'' (''?session_token='' @ session_token s) ps
      = ''?'' @ join_with ''&'' (map (piece enc) ?all)"
    if "enc (session_token s) = session_token s" for enc
    by (cases ps) (simp_all add: query_loop_join piece_def that)
  have "percent_Encode sig = sig" using assms(3) by (simp add: GetSignature_def sig_def)
  then have last: "piece percent_Encode (''signature'', sig) = ''signature='' @ sig"
    by (simp add: piece_def)
  have "MakePathAndQuery md5 Get s path ps
      = path @ (''?'' @ join_with ''&'' (map (piece percent_Encode) ?all)) @ ''&signature='' @ sig"
    by (simp only: MakePathAndQuery_def RequestMethod.case Let_def sig_def
        loop [of percent_Encode, OF assms(2)] loop [of "\<lambda>v. v", OF refl])
  also have "\<dots> = path @ ''?'' @ join_with ''&'' ?pieces"
    using join [of "map (piece percent_Encode) ?all" "''signature='' @ sig"] last by simp
  finally have "MakePathAndQuery md5 Get s path ps = path @ ''?'' @ join_with ''&'' ?pieces" .
  moreover have "plain_keys (?all @ [(''signature'', sig)])" using assms(1) by (auto simp: plain_keys_def)
  then have "parse_query percent_Decode (join_with ''&'' ?pieces) = Some (?all @ [(''signature'', sig)])"
    by (rule get_parameter.parse_query_join) simp
  ultimately show ?thesis using sig_def by (metis append_Cons)
qed

theorem signed_query_verifies_witness:
  "\<exists>q sig. MakePathAndQuery (\<lambda>_. ''0f'') Get \<lparr>session_token = ''t1'', sig_time = ''3.5'', sig_secret_key = 300\<rparr>
      ''/api'' [(''path'', ''/a b'')] = ''/api?'' @ q
    \<and> parse_query percent_Decode q
      = Some [(''session_token'', ''t1''), (''path'', ''/a b''), (''signature'', sig)]"
proof -
  let ?s = "\<lparr>session_token = ''t1'', sig_time = ''3.5'', sig_secret_key = 300\<rparr> :: signer"
  have "plain_keys [(''path'', ''/a b'')]" by (simp add: plain_keys_def)
  moreover have "percent_Encode (session_token ?s) = session_token ?s" "percent_Encode ''0f'' = ''0f''"
    by (simp_all add: percent_Encode_def code_defs)
  ultimately show ?thesis
    using signed_query_verifies [of "[(''path'', ''/a b'')]" ?s "\<lambda>_. ''0f''" "''/api''"] by auto
qed

end
