(* ===== verification/Http_Headers.thy ===== *)
theory Http_Headers
  imports Http_Body Url Base64 Api_Query "HOL-Library.Monad_Syntax"
begin

text \<open>
  The head of a request and of a response: what \<^verbatim>\<open>http/detail/state_send_header.hpp\<close> and
  \<^verbatim>\<open>state_proxy_connect.hpp\<close> write, what \<^verbatim>\<open>state_read_headers.hpp\<close> and the proxy state make of
  the answer, and the headers that \<^verbatim>\<open>http_config.cpp\<close> and the configuration of a request set.
\<close>

section \<open>Reading from a stream\<close>

text \<open>
  \<^verbatim>\<open>std::istream\<close> over the characters that are left. An operation that sets the fail bit is
  \<^const>\<open>None\<close>, since every later one fails then too. At the end of the stream all fail, so the
  end bit needs no place of its own. A number is read as libstdc++ does: a minus sign negates
  modulo the width of the type.
\<close>

definition read_word :: "string \<Rightarrow> (string \<times> string) option" where
  "read_word s =
     (let s = dropWhile is_space s;
          w = takeWhile (\<lambda>c. \<not> is_space c) s
      in if w = [] then None else Some (w, drop (length w) s))"

definition is_digit :: "char \<Rightarrow> bool" where
  "is_digit c \<longleftrightarrow> 48 \<le> (byte_val c :: nat) \<and> byte_val c \<le> (57 :: nat)"

definition dec_number :: "string \<Rightarrow> nat" where
  "dec_number = foldl (\<lambda>n c. 10 * n + (byte_val c - 48)) 0"

definition signed_number :: "nat \<Rightarrow> bool \<Rightarrow> string \<Rightarrow> nat option" where
  "signed_number width neg ds =
     (let n = dec_number ds
      in if ds = [] \<or> 2 ^ width \<le> n then None
         else Some (if neg then (2 ^ width - n) mod 2 ^ width else n))"

definition read_uint :: "nat \<Rightarrow> string \<Rightarrow> (nat \<times> string) option" where
  "read_uint width s =
     (let (neg, s) = scan_sign (dropWhile is_space s);
          ds = takeWhile is_digit s
      in map_option (\<lambda>n. (n, drop (length ds) s)) (signed_number width neg ds))"

text \<open>\<^verbatim>\<open>boost::lexical_cast<uint64_t>\<close> takes a sign and nothing but digits.\<close>

definition lexical_cast_uint64 :: "string \<Rightarrow> nat option" where
  "lexical_cast_uint64 s =
     (let (neg, ds) = scan_sign s
      in if list_all is_digit ds then signed_number 64 neg ds else None)"

definition read_line :: "string \<Rightarrow> (string \<times> string) option" where
  "read_line s = (if s = [] then None else Some (getline s))"

section \<open>The head of a response\<close>

text \<open>\<^verbatim>\<open>std::map::emplace\<close> keeps the value of a key that is there.\<close>

definition emplace :: "string \<Rightarrow> string \<Rightarrow> headers \<Rightarrow> headers" where
  "emplace name v hs = (if map_of hs name = None then hs @ [(name, v)] else hs)"

definition continue_header :: "string \<Rightarrow> string \<Rightarrow> headers \<Rightarrow> headers" where
  "continue_header name l hs = map (\<lambda>(n, v). if n = name then (n, v @ '' '' @ l) else (n, v)) hs"

text \<open>
  The loop over the lines up to one that holds only the carriage return. \<^const>\<open>None\<close> is a line
  that continues a header before there is one.
\<close>

lemma getline_shorter: "s \<noteq> [] \<Longrightarrow> length (snd (getline s)) < length s"
  using length_dropWhile_le [of "\<lambda>c. c \<noteq> CHR 0x0A" s] by (cases s) (auto simp: getline_def)

function header_loop :: "string \<Rightarrow> string \<Rightarrow> headers \<Rightarrow> (headers \<times> string) option" where
  "header_loop s last_header_name hs =
     (if s = [] then Some (hs, [])
      else
        let line = fst (getline s); rest = snd (getline s)
        in if line = [CHR 0x0D] then Some (hs, rest)
           else
             let line = trim_right line
             in if line = [] then header_loop rest last_header_name hs
                else if hd line = CHR '' '' \<or> hd line = CHR 0x09 then
                  (if last_header_name = [] then None
                   else header_loop rest last_header_name
                          (continue_header last_header_name (trim line) hs))
                else
                  let (name_text, at_colon) = search '':'' line
                  in if at_colon = [] then header_loop rest last_header_name hs
                     else
                       let name = to_lower (trim name_text)
                       in header_loop rest name (emplace name (trim (tl at_colon)) hs))"
  by pat_completeness auto

termination
  by (relation "measure (\<lambda>(s, _, _). length s)") (use getline_shorter in auto)

declare header_loop.simps [simp del]

record HeadersReadEvent =
  raw_headers :: string
  http_version :: string
  status_code :: nat
  status_message :: string
  evt_content_length :: nat
  evt_headers :: headers
  evt_read_buffer :: string

text \<open>
  \<^verbatim>\<open>HandleHeaderRead\<close> from the copy of the headers to its event, on the bytes that the socket
  brought; \<^const>\<open>None\<close> is the error \<^verbatim>\<open>UnparsableHeaders\<close>.
\<close>

definition parse_head :: "nat \<Rightarrow> string \<Rightarrow> HeadersReadEvent option" where
  "parse_head bytes_transferred buffer = do {
     (version, s) \<leftarrow> read_word buffer;
     (code, s) \<leftarrow> read_uint 16 s;
     (message, s) \<leftarrow> read_line s;
     (if take 5 version = ''HTTP/'' then Some () else None);
     (hs, s) \<leftarrow> header_loop s [] [];
     n \<leftarrow> (case map_of hs ''content-length'' of
             None \<Rightarrow> Some 0
           | Some v \<Rightarrow> lexical_cast_uint64 v);
     Some \<lparr>raw_headers = take bytes_transferred buffer, http_version = version,
           status_code = code, status_message = message, evt_content_length = n,
           evt_headers = hs, evt_read_buffer = s\<rparr>
   }"

text \<open>The answer of a proxy in \<^verbatim>\<open>HandleProxyHeaderRead\<close>: was it a success?\<close>

definition proxy_accepts :: "string \<Rightarrow> bool option" where
  "proxy_accepts buffer = do {
     (version, s) \<leftarrow> read_word buffer;
     (code, s) \<leftarrow> read_uint 32 s;
     (message, s) \<leftarrow> read_line s;
     (if take 5 version = ''HTTP/'' then Some (code = 200) else None)
   }"

section \<open>The head of a request\<close>

record Proxy =
  proxy_host :: string
  proxy_port :: nat
  proxy_username :: string
  proxy_password :: string

fun SetHeader :: "string \<Rightarrow> string \<Rightarrow> headers \<Rightarrow> headers" where
  "SetHeader name v [] = [(name, v)]"
| "SetHeader name v ((n, w) # hs) =
     (if iequals n name then (n, v) # hs else (n, w) # SetHeader name v hs)"

definition default_headers :: headers where
  "default_headers = [(''Accept'', ''*/*''), (''Accept-Encoding'', ''gzip''),
     (''User-Agent'', ''HttpRequester''), (''Connection'', ''close'')]"

fun AddDefaultHeader :: "string \<Rightarrow> string \<Rightarrow> headers \<Rightarrow> headers" where
  "AddDefaultHeader key v [] = [(key, v)]"
| "AddDefaultHeader key v ((n, w) # hs) =
     (if iequals n key then (n, v) # hs else (n, w) # AddDefaultHeader key v hs)"

definition header_line :: "string \<Rightarrow> string \<Rightarrow> string" where
  "header_line name v = name @ '': '' @ v @ crlf"

definition proxy_authorization :: "Proxy \<Rightarrow> string" where
  "proxy_authorization p =
     (if proxy_username p = [] then []
      else header_line ''Proxy-Authorization''
             (''Basic '' @ Base64Encode (map (\<lambda>c. word_of_nat (byte_val c))
                (proxy_username p @ '':'' @ proxy_password p))))"

definition sent_headers :: "bool \<Rightarrow> headers \<Rightarrow> headers" where
  "sent_headers ssl hs = filter (\<lambda>(n, _). \<not> (ssl \<and> iequals n ''accept-encoding'')) hs"

definition request_head :: "string \<Rightarrow> url \<Rightarrow> bool \<Rightarrow> Proxy option \<Rightarrow> headers \<Rightarrow> string" where
  "request_head request_method u ssl used_proxy hs =
     request_method @ '' '' @ (if used_proxy = None then full_path u else full_url u)
       @ '' HTTP/1.1'' @ crlf
     @ header_line ''Host'' (host u)
     @ (case used_proxy of Some p \<Rightarrow> if ssl then [] else proxy_authorization p | None \<Rightarrow> [])
     @ concat (map (\<lambda>(n, v). header_line n v) (sent_headers ssl hs))
     @ crlf"

definition connect_head :: "url \<Rightarrow> Proxy option \<Rightarrow> string" where
  "connect_head u used_proxy =
     ''CONNECT '' @ host u @ '':''
       @ (if port u = [] then (if scheme u = ''https'' then ''443'' else ''80'') else port u)
       @ '' HTTP/1.1'' @ crlf
     @ header_line ''User-Agent'' ''HttpRequester''
     @ (case used_proxy of Some p \<Rightarrow> proxy_authorization p | None \<Rightarrow> [])
     @ crlf"

section \<open>Numbers and trimming\<close>

declare show_nat.simps [simp del]

lemma dec_number_snoc: "dec_number (s @ [c]) = 10 * dec_number s + (byte_val c - 48)"
  by (simp add: dec_number_def)

lemma digit_char: "d < 10 \<Longrightarrow> of_char (char_of (48 + d :: nat) :: char) = 48 + d"
  by (simp add: of_char_of)

lemma digit_is_digit: "d < 10 \<Longrightarrow> is_digit (char_of (48 + d :: nat))"
  using digit_char [of d] by (simp add: is_digit_def)

lemma dec_number_show: "dec_number (show_nat n) = n \<and> list_all is_digit (show_nat n) \<and> show_nat n \<noteq> []"
proof (induction n rule: show_nat.induct)
  case (1 n)
  show ?case
  proof (cases "n < 10")
    case True
    then show ?thesis using digit_char [of n] by (subst (1 2 3) show_nat.simps) (simp add: dec_number_def is_digit_def)
  next
    case False
    have "n mod 10 < 10" by simp
    then show ?thesis
      using False 1 digit_char [of "n mod 10"] digit_is_digit [of "n mod 10"]
      by (subst (1 2 3) show_nat.simps) (simp add: dec_number_snoc)
  qed
qed

lemma show_nat_simps: "dec_number (show_nat n) = n" "list_all is_digit (show_nat n)" "show_nat n \<noteq> []"
  using dec_number_show [of n] by auto

lemma digit_not_sign: "is_digit c \<Longrightarrow> c \<noteq> CHR ''-'' \<and> c \<noteq> CHR ''+'' \<and> \<not> is_space c"
  by (auto simp: is_digit_def is_space_def)

lemma scan_sign_digits: "list_all is_digit ds \<Longrightarrow> ds \<noteq> [] \<Longrightarrow> scan_sign (ds @ r) = (False, ds @ r)"
  using digit_not_sign by (cases ds) (auto simp: scan_sign_def)

lemma lexical_cast_show: "n < 2 ^ 64 \<Longrightarrow> lexical_cast_uint64 (show_nat n) = Some n"
  using scan_sign_digits [OF show_nat_simps(2,3), of n "[]"] show_nat_simps [of n]
  by (simp add: lexical_cast_uint64_def signed_number_def)

lemma takeWhile_digits:
  "list_all is_digit ds \<Longrightarrow> r \<noteq> [] \<Longrightarrow> \<not> is_digit (hd r) \<Longrightarrow> takeWhile is_digit (ds @ r) = ds"
  by (cases r) (auto simp: list_all_iff intro: takeWhile_append_stop)

lemma read_uint_show:
  assumes "n < 2 ^ width" and "r \<noteq> []" and "\<not> is_digit (hd r)"
  shows "read_uint width (CHR '' '' # show_nat n @ r) = Some (n, r)"
proof -
  have "\<not> is_space (hd (show_nat n))"
    using show_nat_simps(2,3) [of n] digit_not_sign by (cases "show_nat n") auto
  then have "dropWhile is_space (CHR '' '' # show_nat n @ r) = show_nat n @ r"
    using show_nat_simps(3) [of n] by (cases "show_nat n") (auto simp: is_space_def)
  then show ?thesis
    using assms takeWhile_digits [OF show_nat_simps(2) assms(2,3), of n]
      scan_sign_digits [OF show_nat_simps(2,3), of n r] show_nat_simps [of n]
    by (simp add: read_uint_def signed_number_def)
qed

lemma trim_right_snoc [simp]:
  "trim_right (s @ [c]) = (if is_space c then trim_right s else s @ [c])"
  by (simp add: trim_right_def)

lemma trim_right_Nil [simp]: "trim_right [] = []" by (simp add: trim_right_def)

lemma trim_right_prefix: "\<exists>ws. s = trim_right s @ ws"
  by (metis append_Nil2 rev_append rev_rev_ident takeWhile_dropWhile_id trim_right_def)

lemma trim_right_fixed: "trim v = v \<Longrightarrow> trim_right v = v"
proof -
  assume "trim v = v"
  then have "length v \<le> length (trim_right v)"
    using length_dropWhile_le [of is_space "trim_right v"] by (simp add: trim_def)
  moreover obtain ws where ws: "v = trim_right v @ ws" using trim_right_prefix by blast
  from ws have "length v = length (trim_right v) + length ws" by (metis length_append)
  ultimately have "ws = []" by simp
  with ws show ?thesis by simp
qed

lemma trim_ends:
  assumes "trim v = v" and "v \<noteq> []"
  shows "\<not> is_space (hd v)" and "\<not> is_space (last v)"
proof -
  have "dropWhile is_space v = v" using assms(1) trim_right_fixed [OF assms(1)] by (simp add: trim_def)
  then show "\<not> is_space (hd v)" using hd_dropWhile [of is_space v] assms(2) by simp
  have "dropWhile is_space (rev v) = rev v"
    using trim_right_fixed [OF assms(1)] by (metis rev_rev_ident trim_right_def)
  then show "\<not> is_space (last v)"
    using hd_dropWhile [of is_space "rev v"] assms(2) by (simp add: hd_rev)
qed

lemma trim_right_solid: "trim v = v \<Longrightarrow> v \<noteq> [] \<Longrightarrow> trim_right (p @ v) = p @ v"
  using trim_ends(2) [of v] by (cases v rule: rev_cases) (auto simp: trim_right_def)

lemma trim_space_Cons [simp]: "is_space c \<Longrightarrow> trim v = v \<Longrightarrow> trim (c # v) = v"
  using trim_right_solid [of v "[c]"] trim_ends(1) [of v]
  by (cases v) (simp_all add: trim_def trim_right_def)

lemma tolower_char [simp]:
  "tolower (CHR ''A'') = CHR ''a''" "tolower (CHR ''C'') = CHR ''c''" "tolower (CHR ''L'') = CHR ''l''"
  "tolower (CHR ''X'') = CHR ''x''" "tolower (CHR ''H'') = CHR ''h''" "tolower (CHR ''E'') = CHR ''e''"
  by code_simp+

lemma tolower_other [simp]: "\<not> (65 \<le> (byte_val c :: nat) \<and> byte_val c \<le> (90 :: nat)) \<Longrightarrow> tolower c = c"
  unfolding tolower_def by (rule if_not_P)

section \<open>Lines of a header\<close>

definition field_ok :: "string \<times> string \<Rightarrow> bool" where
  "field_ok f \<longleftrightarrow> fst f \<noteq> [] \<and> CHR '':'' \<notin> set (fst f) \<and> CHR 0x0A \<notin> set (fst f) \<and> trim (fst f) = fst f
     \<and> CHR 0x0A \<notin> set (snd f) \<and> trim (snd f) = snd f"

definition render_fields :: "headers \<Rightarrow> string" where
  "render_fields fs = concat (map (\<lambda>(n, v). header_line n v) fs)"

definition keep_first :: "headers \<Rightarrow> headers \<Rightarrow> headers" where
  "keep_first fs hs = foldl (\<lambda>hs (n, v). emplace (to_lower n) v hs) hs fs"

lemma getline_line: "CHR 0x0A \<notin> set l \<Longrightarrow> getline (l @ CHR 0x0A # r) = (l, r)"
  by (auto simp: getline_def takeWhile_append_stop dropWhile_append_stop takeWhile_append dropWhile_append)

lemma space_chars [simp]: "is_space CHR 0x0D" "is_space CHR '' ''" "\<not> is_space CHR '':''"
  by (simp_all add: is_space_def)

lemma header_line_trimmed:
  assumes "trim v = v"
  shows "trim_right (n @ '': '' @ v @ [CHR 0x0D]) = (if v = [] then n @ '':'' else n @ '': '' @ v)"
proof (cases "v = []")
  case True
  have "n @ '': '' @ [CHR 0x0D] = ((n @ [CHR '':'']) @ [CHR '' '']) @ [CHR 0x0D]" by simp
  then have "trim_right (n @ '': '' @ [CHR 0x0D]) = n @ [CHR '':'']"
    by (simp only: trim_right_snoc space_chars if_True if_False)
  then show ?thesis using True by simp
next
  case False
  have "trim_right ((n @ '': '' @ v) @ [CHR 0x0D]) = trim_right (n @ '': '' @ v)"
    by (simp only: trim_right_snoc space_chars if_True)
  with trim_right_solid [OF assms False, of "n @ '': ''"] False show ?thesis by simp
qed

lemma header_loop_line:
  assumes "field_ok (n, v)"
  shows "header_loop (header_line n v @ r) prev hs = header_loop r (to_lower n) (emplace (to_lower n) v hs)"
proof -
  note ok = assms [unfolded field_ok_def fst_conv snd_conv]
  have n: "n \<noteq> []" "CHR '':'' \<notin> set n" "CHR 0x0A \<notin> set n" "trim n = n" "trim v = v" "CHR 0x0A \<notin> set v"
    using ok by simp_all
  have "getline (header_line n v @ r) = (n @ '': '' @ v @ [CHR 0x0D], r)"
    using getline_line [of "n @ '': '' @ v @ [CHR 0x0D]" r] n by (simp add: header_line_def)
  moreover have "header_line n v \<noteq> []" by (simp add: header_line_def)
  moreover have "n @ '': '' @ v @ [CHR 0x0D] \<noteq> [CHR 0x0D]" using n(1) by (cases n) simp_all
  moreover obtain t where t: "trim_right (n @ '': '' @ v @ [CHR 0x0D]) = n @ CHR '':'' # t" "trim t = v"
  proof (cases "v = []")
    case True
    then show ?thesis using header_line_trimmed [OF n(5), of n] that [of "[]"] by (simp add: trim_def)
  next
    case False
    then show ?thesis
      using header_line_trimmed [OF n(5), of n] that [of "CHR '' '' # v"] trim_space_Cons [OF space_chars(2) n(5)] by simp
  qed
  moreover have "hd (n @ CHR '':'' # t) \<noteq> CHR '' ''" "hd (n @ CHR '':'' # t) \<noteq> CHR 0x09"
    using trim_ends(1) [OF n(4,1)] n(1) by (auto simp: is_space_def)
  moreover have "search '':'' (n @ CHR '':'' # t) = (n, CHR '':'' # t)" by (rule search_char_first [OF n(2)])
  ultimately show ?thesis
    by (subst header_loop.simps) (simp add: Let_def n(4))
qed

lemma header_loop_end: "header_loop (crlf @ r) prev hs = Some (hs, r)"
  by (subst header_loop.simps) (simp add: getline_def)

lemma header_loop_fields:
  "\<forall>f \<in> set fs. field_ok f \<Longrightarrow> header_loop (render_fields fs @ crlf @ r) prev hs = Some (keep_first fs hs, r)"
proof (induction fs arbitrary: prev hs)
  case Nil
  show ?case using header_loop_end [of r prev hs] by (simp add: render_fields_def keep_first_def)
next
  case (Cons f fs)
  obtain n v where f: "f = (n, v)" by fastforce
  have "render_fields (f # fs) @ crlf @ r = header_line n v @ (render_fields fs @ crlf @ r)"
    by (simp add: f render_fields_def)
  moreover have "keep_first (f # fs) hs = keep_first fs (emplace (to_lower n) v hs)"
    by (simp add: f keep_first_def)
  ultimately show ?case
    using Cons header_loop_line [of n v "render_fields fs @ crlf @ r" prev hs] by (simp add: f)
qed

abbreviation lower_names :: "headers \<Rightarrow> headers" where
  "lower_names fs \<equiv> map (\<lambda>(n, v). (to_lower n, v)) fs"

lemma map_of_emplace:
  "map_of (emplace name v hs) k = (case map_of hs k of None \<Rightarrow> if k = name then Some v else None | Some w \<Rightarrow> Some w)"
  by (auto simp: emplace_def map_add_def split: option.split)

lemma map_of_keep_first:
  "map_of (keep_first fs hs) k = (case map_of hs k of None \<Rightarrow> map_of (lower_names fs) k | Some w \<Rightarrow> Some w)"
proof (induction fs arbitrary: hs)
  case (Cons f fs)
  obtain n v where f: "f = (n, v)" by fastforce
  have "keep_first (f # fs) hs = keep_first fs (emplace (to_lower n) v hs)" by (simp add: f keep_first_def)
  then show ?case using Cons.IH by (simp add: f map_of_emplace split: option.split)
qed (simp add: keep_first_def split: option.split)

section \<open>A response is read back\<close>

text \<open>The head of a response as a server writes it\<close>

definition render_response :: "string \<Rightarrow> nat \<Rightarrow> string \<Rightarrow> headers \<Rightarrow> string" where
  "render_response version code reason fs =
     version @ '' '' @ show_nat code @ '' '' @ reason @ crlf @ render_fields fs @ crlf"

definition version_ok :: "string \<Rightarrow> bool" where
  "version_ok version \<longleftrightarrow> take 5 version = ''HTTP/'' \<and> list_all (\<lambda>c. \<not> is_space c) version"

lemma read_word_version:
  assumes "version_ok version"
  shows "read_word (version @ CHR '' '' # r) = Some (version, CHR '' '' # r)"
proof -
  have no: "\<forall>c \<in> set version. \<not> is_space c" "version \<noteq> []"
    using assms by (auto simp: version_ok_def list_all_iff)
  then have "dropWhile is_space (version @ CHR '' '' # r) = version @ CHR '' '' # r"
    by (cases version) auto
  moreover have "takeWhile (\<lambda>c. \<not> is_space c) (version @ CHR '' '' # r) = version"
    using no(1) by (auto intro: takeWhile_append_stop)
  ultimately show ?thesis using no(2) by (simp add: read_word_def)
qed

definition announced_length :: "headers \<Rightarrow> nat option" where
  "announced_length fs = (case map_of (lower_names fs) ''content-length'' of
     None \<Rightarrow> Some 0 | Some v \<Rightarrow> lexical_cast_uint64 v)"

text \<open>
  C20: reading the head of a response gives its status, for every name of a header, whatever its case,
  the value of its first line, the announced length, and leaves in the buffer exactly what
  follows the head. A \<^verbatim>\<open>Content-Length\<close> that is no number is the only failure. The status message
  is not that of the response: it keeps the blank before it and the carriage return behind it.
\<close>

theorem response_head_read:
  assumes "version_ok version" and "code < 2 ^ 16" and "CHR 0x0A \<notin> set reason"
    and "\<forall>f \<in> set fs. field_ok f"
  shows "parse_head k (render_response version code reason fs @ body) =
    map_option (\<lambda>n. \<lparr>raw_headers = take k (render_response version code reason fs @ body),
      http_version = version, status_code = code,
      status_message = CHR '' '' # reason @ [CHR 0x0D], evt_content_length = n,
      evt_headers = keep_first fs [], evt_read_buffer = body\<rparr>) (announced_length fs)
   \<and> (\<forall>name. map_of (keep_first fs []) name = map_of (lower_names fs) name)"
proof
  show names: "\<forall>name. map_of (keep_first fs []) name = map_of (lower_names fs) name"
    by (simp add: map_of_keep_first)
  define rest where "rest = reason @ crlf @ render_fields fs @ crlf @ body"
  have text_split: "render_response version code reason fs @ body = version @ CHR '' '' # show_nat code @ CHR '' '' # rest"
    by (simp add: render_response_def rest_def)
  have "read_uint 16 (CHR '' '' # show_nat code @ CHR '' '' # rest) = Some (code, CHR '' '' # rest)"
    by (rule read_uint_show [OF assms(2)]) (simp_all add: is_digit_def)
  moreover have "read_line (CHR '' '' # rest) = Some (CHR '' '' # reason @ [CHR 0x0D], render_fields fs @ crlf @ body)"
    using getline_line [of "CHR '' '' # reason @ [CHR 0x0D]" "render_fields fs @ crlf @ body"] assms(3)
    by (simp add: read_line_def rest_def)
  moreover have "take 5 version = ''HTTP/''" using assms(1) by (simp add: version_ok_def)
  ultimately show "parse_head k (render_response version code reason fs @ body) =
    map_option (\<lambda>n. \<lparr>raw_headers = take k (render_response version code reason fs @ body),
      http_version = version, status_code = code,
      status_message = CHR '' '' # reason @ [CHR 0x0D], evt_content_length = n,
      evt_headers = keep_first fs [], evt_read_buffer = body\<rparr>) (announced_length fs)"
    using names header_loop_fields [OF assms(4), of body "[]" "[]"]
    by (simp add: parse_head_def text_split read_word_version [OF assms(1)] announced_length_def
        map_conv_bind_option comp_def split: option.split)
qed

theorem response_head_read_witness:
  "parse_head 0 (render_response ''HTTP/1.1'' 200 ''OK'' [(''Content-Length'', ''3''), (''X'', ''a b''), (''x'', [])] @ ''abc'')
   = Some \<lparr>raw_headers = [], http_version = ''HTTP/1.1'', status_code = 200,
       status_message = '' OK'' @ [CHR 0x0D], evt_content_length = 3,
       evt_headers = [(''content-length'', ''3''), (''x'', ''a b'')], evt_read_buffer = ''abc''\<rparr>"
proof -
  let ?fs = "[(''Content-Length'', ''3''), (''X'', ''a b''), (''x'', [])]"
  have "version_ok ''HTTP/1.1''" "\<forall>f \<in> set ?fs. field_ok f"
    by (simp_all add: version_ok_def field_ok_def trim_def trim_right_def is_space_def)
  moreover have "keep_first ?fs [] = [(''content-length'', ''3''), (''x'', ''a b'')]"
    by (simp add: keep_first_def emplace_def to_lower_def)
  moreover have "announced_length ?fs = Some 3"
    by (simp add: announced_length_def to_lower_def lexical_cast_uint64_def scan_sign_def
        is_digit_def signed_number_def dec_number_def)
  ultimately show ?thesis
    using response_head_read [of "''HTTP/1.1''" 200 "''OK''" ?fs 0 "''abc''"] by simp
qed

text \<open>
  a line that continues a header whose name occurred before is added to the value of the first
  occurrence, not to that of the line it continues.
\<close>

theorem continuation_goes_to_first:
  "header_loop (header_line ''A'' ''1'' @ header_line ''A'' ''2'' @ '' x'' @ crlf @ crlf) [] []
   = Some ([(''a'', ''1 x'')], [])"
proof -
  have ok: "field_ok (''A'', ''1'')" "field_ok (''A'', ''2'')"
    by (simp_all add: field_ok_def trim_def trim_right_def is_space_def)
  have a: "to_lower ''A'' = ''a''" by (simp add: to_lower_def)
  have "header_loop ('' x'' @ crlf @ crlf) ''a'' [(''a'', ''1'')] = Some ([(''a'', ''1 x'')], [])"
    using header_loop_end [of "[]" "''a''" "[(''a'', ''1 x'')]"]
    by (subst header_loop.simps)
       (simp add: getline_def trim_right_def trim_def continue_header_def is_space_def)
  then show ?thesis
    using header_loop_line [OF ok(1)] header_loop_line [OF ok(2)] by (simp add: a emplace_def)
qed

section \<open>A request can be read\<close>

lemma base64_digit_mem:
  "base64_digit q 0x00FC0000 18 \<in> set base64_chars" "base64_digit q 0x0003F000 12 \<in> set base64_chars"
  "base64_digit q 0x00000FC0 6 \<in> set base64_chars" "base64_digit q 0x0000003F 0 \<in> set base64_chars"
proof -
  have "length base64_chars = 64" by (simp add: base64_chars_def)
  then have "base64_chars ! unat (w AND 63) \<in> set base64_chars" for w :: int32
    using sextet_less [of w] by simp
  then show "base64_digit q 0x00FC0000 18 \<in> set base64_chars" "base64_digit q 0x0003F000 12 \<in> set base64_chars"
    "base64_digit q 0x00000FC0 6 \<in> set base64_chars" "base64_digit q 0x0000003F 0 \<in> set base64_chars"
    unfolding base64_digit_def quantum_sextets by simp_all
qed

lemma Base64Encode_chars: "set (Base64Encode bs) \<subseteq> insert pad_char (set base64_chars)"
  by (induction bs rule: Base64Encode.induct) (simp_all add: Let_def base64_digit_mem)

lemma base64_not_space: "c \<in> insert pad_char (set base64_chars) \<Longrightarrow> \<not> is_space c"
proof -
  have "list_all (\<lambda>c. \<not> is_space c) (pad_char # base64_chars)"
    by (simp add: pad_char_def base64_chars_def is_space_def)
  moreover assume "c \<in> insert pad_char (set base64_chars)"
  ultimately show ?thesis by (auto simp: list_all_iff)
qed

lemma trim_word: "\<forall>c \<in> set w. \<not> is_space c \<Longrightarrow> trim w = w"
proof -
  assume w: "\<forall>c \<in> set w. \<not> is_space c"
  then have "dropWhile is_space (rev w) = rev w" by (cases "rev w") (auto dest: arg_cong [of _ _ set])
  moreover have "dropWhile is_space w = w" using w by (cases w) auto
  ultimately show ?thesis by (simp add: trim_def trim_right_def)
qed

lemma newline_space: "is_space CHR 0x0A" by (simp add: is_space_def)

text \<open>The fields of the head in their order\<close>

definition authorization_fields :: "Proxy \<Rightarrow> headers" where
  "authorization_fields p =
     (if proxy_username p = [] then []
      else [(''Proxy-Authorization'', ''Basic '' @ Base64Encode (map (\<lambda>c. word_of_nat (byte_val c))
                (proxy_username p @ '':'' @ proxy_password p)))])"

definition request_fields :: "url \<Rightarrow> bool \<Rightarrow> Proxy option \<Rightarrow> headers \<Rightarrow> headers" where
  "request_fields u ssl used_proxy hs =
     (''Host'', host u)
     # (case used_proxy of Some p \<Rightarrow> if ssl then [] else authorization_fields p | None \<Rightarrow> [])
     @ sent_headers ssl hs"

lemma render_authorization: "proxy_authorization p = render_fields (authorization_fields p)"
  by (simp add: proxy_authorization_def authorization_fields_def render_fields_def)

lemma render_fields_append: "render_fields (a @ b) = render_fields a @ render_fields b"
  by (simp add: render_fields_def)

lemma render_fields_Cons: "render_fields ((n, v) # fs) = header_line n v @ render_fields fs"
  by (simp add: render_fields_def)

lemma request_head_fields:
  "request_head meth u ssl used_proxy hs =
     (meth @ '' '' @ (if used_proxy = None then full_path u else full_url u) @ '' HTTP/1.1'' @ crlf)
     @ render_fields (request_fields u ssl used_proxy hs) @ crlf"
  by (simp add: request_head_def request_fields_def render_fields_Cons render_fields_append
      render_authorization render_fields_def [of "sent_headers ssl hs"] split: option.split)
     (simp add: render_fields_def)

lemma authorization_ok: "f \<in> set (authorization_fields p) \<Longrightarrow> field_ok f"
proof -
  assume "f \<in> set (authorization_fields p)"
  then obtain bs :: "uint8 list" where f: "f = (''Proxy-Authorization'', ''Basic '' @ Base64Encode bs)" "bs \<noteq> []"
    by (auto simp: authorization_fields_def split: if_splits)
  have solid: "\<forall>c \<in> set (Base64Encode bs). \<not> is_space c"
    using Base64Encode_chars base64_not_space by blast
  have "Base64Encode bs \<noteq> []" using f(2) by (cases bs rule: Base64Encode.cases) (simp_all add: Let_def)
  then have "trim_right (''Basic '' @ Base64Encode bs) = ''Basic '' @ Base64Encode bs"
    by (rule trim_right_solid [OF trim_word [OF solid]])
  then have "trim (''Basic '' @ Base64Encode bs) = ''Basic '' @ Base64Encode bs"
    unfolding trim_def by (simp add: is_space_def)
  moreover have "CHR 0x0A \<notin> set (''Basic '' @ Base64Encode bs)" using solid newline_space by auto
  moreover have "trim ''Proxy-Authorization'' = ''Proxy-Authorization''"
    by (rule trim_word) (simp add: is_space_def)
  ultimately show "field_ok f" unfolding f(1) by (simp add: field_ok_def)
qed

lemma iequals_lower: "iequals n ''accept-encoding'' \<longleftrightarrow> to_lower n = ''accept-encoding''"
  by (simp add: iequals_def to_lower_def)



section \<open>Setting headers\<close>

lemma AddDefaultHeader_SetHeader: "AddDefaultHeader = SetHeader"
proof (intro ext)
  show "AddDefaultHeader k v hs = SetHeader k v hs" for k v hs by (induction hs) auto
qed

lemma SetHeader_lookup:
  "map_of (lower_names (SetHeader name v hs)) = (map_of (lower_names hs))(to_lower name \<mapsto> v)"
  by (induction hs) (auto simp: iequals_def)

lemma SetHeader_names:
  "map to_lower (map fst (SetHeader name v hs)) =
     (let ns = map to_lower (map fst hs) in if to_lower name \<in> set ns then ns else ns @ [to_lower name])"
  by (induction hs) (auto simp: iequals_def Let_def split: if_splits)

lemma SetHeader_distinct:
  "distinct (map to_lower (map fst hs)) \<Longrightarrow> distinct (map to_lower (map fst (SetHeader name v hs)))"
  by (simp only: SetHeader_names Let_def) (simp split: if_split)

end
