(* ===== verification/Http_Machine.thy ===== *)
theory Http_Machine
  imports Http_Headers
begin

text \<open>
  The state machine of one HTTP request, \<^verbatim>\<open>http/detail/http_request_state_machine.hpp\<close>, with its
  states \<^verbatim>\<open>state_*.hpp\<close> and the facade \<^verbatim>\<open>http_request.cpp\<close>. The socket, the resolver and the SSL
  handshake are operations that the environment completes. A state shares a flag with the handlers
  of its operations that is set when it is left, and an operation shares one with its timeout that
  the first of the two takes; both are numbers here. The thread that runs the work io_service is
  one, so a handler and the event it processes are one step; what the user does arrives through
  the strand between steps. The state that reads the body is the reader of \<open>Http_Content\<close>.
\<close>

named_theorems machine_defs "the small operations of the request machine"

section \<open>Data\<close>

datatype http_state = Unstarted | Initializing | Resolve | Connect | ProxyConnect | SSLHandshake
  | SendHeader | SendPost | ReadHeaders | ParseHeaders | Redirect | ReadContent | Error
  | FinalError | Complete

datatype RedirectPolicy = Deny | DenyDowngrade | Allow

datatype 'p config_variant = ConfigRedirectPolicy RedirectPolicy | ConfigRequestMethod string
  | ConfigHeader string string | ConfigPostDataPipe 'p | ConfigPostData string | ConfigTimeout nat

datatype 'p http_event = ConfigEvent "'p config_variant" | StartEvent | Ev_Error error_code
  | RestartEvent | InitializedEvent | ResolvedEvent | ConnectedEvent | HandshakeEvent
  | HeadersWrittenEvent | PostSent | Ev_HeadersRead HeadersReadEvent
  | RedirectEvent HeadersReadEvent string | RedirectedEvent
  | HeadersParsedEvent nat headers string | Ev_ContentRead

text \<open>
  \<^verbatim>\<open>PostDataPipeInterface\<close>: the size it announces, and what it gives when it is asked for the next
  chunk, where a null pointer and an empty buffer are the same to the caller.
\<close>

datatype retrieved = Thrown | Retrieved string

record 'p pipe_interface =
  pipe_size :: "'p \<Rightarrow> nat"
  retrieve :: "'p \<Rightarrow> retrieved \<times> 'p"

datatype http_op = Op_Resolve string string | Op_Connect | Op_Proxy_Write | Op_Proxy_Read
  | Op_Handshake | Op_Header_Write | Op_Post_Write | Op_Post_Delay string | Op_Header_Read

text \<open>What the operation brings: an error, or the bytes read and how many of them are the head\<close>

datatype op_result = Op_Failed | Op_Done string nat

text \<open>What \<^verbatim>\<open>RequestResponseInterface\<close> is told\<close>

record Headers =
  hd_raw_headers :: string
  hd_status_code :: nat
  hd_status_message :: string
  hd_headers :: headers

datatype http_callback = RedirectHeaderReceived Headers url | ResponseHeaderReceived Headers
  | ResponseContentReceived nat "char option list" | RequestResponseErrorEvent error_code
  | RequestResponseCompleteEvent

text \<open>What is written for a URL: to a proxy, in the clear, or over SSL (after the handshake?)\<close>

datatype wire = To_Proxy url string | Plain url string | Tls url bool string

record 'p http_request =
  hr_state :: http_state
  inner :: "'p http_event list"        \<comment> \<open>events raised while a transition runs\<close>
  outer :: "'p http_event list"        \<comment> \<open>events a handler processes after another\<close>
  url_text :: string
  parsed_url :: "url option"
  uses_ssl :: bool
  socket :: bool                       \<comment> \<open>\<^verbatim>\<open>socket_wrapper_\<close> is set\<close>
  http_proxy :: "Proxy option"
  https_proxy :: "Proxy option"
  redirect_policy :: RedirectPolicy
  request_method :: string
  send_headers :: headers
  post_data :: "string option"
  post_interface :: "'p option"
  timeout_seconds :: nat
  creation_time :: nat
  timeout_id :: nat
  timers :: "nat list"                 \<comment> \<open>waits of the timer whose handler has not run\<close>
  taken :: "nat list"                  \<comment> \<open>the flags \<^verbatim>\<open>first_taken_\<close> that are set\<close>
  state_data :: "nat option"           \<comment> \<open>the \<^verbatim>\<open>state_data_\<close> that is not cancelled\<close>
  next_data :: nat
  post_interface_size :: nat
  bytes_read_from_interface :: nat
  delay_enabled :: bool
  pending :: "(http_op \<times> nat \<times> nat) list"  \<comment> \<open>with its state data and its race preventer\<close>
  reader :: "content_reader option"
  hr_callbacks :: "http_callback list"
  written :: "wire list"
  handshaken :: bool                   \<comment> \<open>the handshake on the socket has succeeded\<close>
  visited :: "(url \<times> bool) list"       \<comment> \<open>URLs a socket was made for, and whether for SSL\<close>
  misused :: bool                      \<comment> \<open>configured while in progress\<close>
  broken :: bool                       \<comment> \<open>an assertion failed or no row was found\<close>

text \<open>The environment of a transition: the clock, and what the socket will still bring\<close>

record http_env =
  now :: nat
  env_incoming :: string
  env_ending :: read_error

text \<open>\<^verbatim>\<open>HttpConfig\<close> as far as a request takes over from it\<close>

record http_config =
  cfg_redirect_policy :: RedirectPolicy
  cfg_default_headers :: headers
  cfg_http_proxy :: "Proxy option"
  cfg_https_proxy :: "Proxy option"

definition HttpConfig :: http_config where
  "HttpConfig = \<lparr>cfg_redirect_policy = Allow, cfg_default_headers = default_headers,
     cfg_http_proxy = None, cfg_https_proxy = None\<rparr>"

definition HttpRequest :: "http_config \<Rightarrow> string \<Rightarrow> nat \<Rightarrow> 'p http_request" where
  "HttpRequest config url_string time =
     \<lparr>hr_state = Unstarted, inner = [], outer = [], url_text = url_string, parsed_url = None,
      uses_ssl = False, socket = False, http_proxy = cfg_http_proxy config,
      https_proxy = cfg_https_proxy config, redirect_policy = cfg_redirect_policy config,
      request_method = ''GET'', send_headers = cfg_default_headers config, post_data = None,
      post_interface = None, timeout_seconds = 60, creation_time = time, timeout_id = 0,
      timers = [], taken = [], state_data = None, next_data = 0, post_interface_size = 0,
      bytes_read_from_interface = 0, delay_enabled = False, pending = [], reader = None,
      hr_callbacks = [], written = [], handshaken = False, visited = [], misused = False,
      broken = False\<rparr>"

section \<open>Operations\<close>

definition raise :: "'p http_event \<Rightarrow> 'p http_request \<Rightarrow> 'p http_request" where [machine_defs]:
  "raise ev m = m\<lparr>inner := inner m @ [ev]\<rparr>"

definition raise_error :: "http_error \<Rightarrow> 'p http_request \<Rightarrow> 'p http_request" where [machine_defs]:
  "raise_error e = raise (Ev_Error (http_error_error e))"

definition dispatch :: "'p http_event list \<Rightarrow> 'p http_request \<Rightarrow> 'p http_request" where [machine_defs]:
  "dispatch evs m = m\<lparr>outer := outer m @ evs\<rparr>"

definition failure :: "http_error \<Rightarrow> 'p http_event" where [machine_defs]:
  "failure e = Ev_Error (http_error_error e)"

definition verify :: "bool \<Rightarrow> 'p http_request \<Rightarrow> 'p http_request" where
  "verify b m = (if b then m else m\<lparr>broken := True\<rparr>)"

definition callback :: "http_callback \<Rightarrow> 'p http_request \<Rightarrow> 'p http_request" where [machine_defs]:
  "callback c m = m\<lparr>hr_callbacks := hr_callbacks m @ [c]\<rparr>"

definition Disconnect :: "'p http_request \<Rightarrow> 'p http_request" where [machine_defs]:
  "Disconnect m = m\<lparr>socket := False\<rparr>"

definition ClearAsyncTimeout :: "'p http_request \<Rightarrow> 'p http_request" where [machine_defs]:
  "ClearAsyncTimeout m = m\<lparr>timeout_id := timeout_id m + 1\<rparr>"

text \<open>The race preventer of the new timeout has its number; it looks into the socket wrapper.\<close>

definition SetAsyncTimeout :: "'p http_request \<Rightarrow> 'p http_request" where [machine_defs]:
  "SetAsyncTimeout m =
     (verify (socket m) m)\<lparr>timeout_id := timeout_id m + 1, timers := timers m @ [timeout_id m + 1]\<rparr>"

definition new_state_data :: "'p http_request \<Rightarrow> 'p http_request" where [machine_defs]:
  "new_state_data m = m\<lparr>state_data := Some (next_data m), next_data := next_data m + 1\<rparr>"

definition start_op :: "http_op \<Rightarrow> 'p http_request \<Rightarrow> 'p http_request" where [machine_defs]:
  "start_op opn m = m\<lparr>pending := pending m @ [(opn, the (state_data m), timeout_id m)]\<rparr>"

definition UsingProxy :: "'p http_request \<Rightarrow> bool" where
  "UsingProxy m \<longleftrightarrow> (if uses_ssl m then https_proxy m else http_proxy m) \<noteq> None"

definition CurrentProxy :: "'p http_request \<Rightarrow> Proxy option" where
  "CurrentProxy m = (if uses_ssl m then https_proxy m else http_proxy m)"

definition SetPostInterface :: "'p pipe_interface \<Rightarrow> 'p \<Rightarrow> 'p http_request \<Rightarrow> 'p http_request" where
  "SetPostInterface lib p m =
     m\<lparr>post_data := None, post_interface := Some p, request_method := ''POST'',
       send_headers := SetHeader ''Content-Length'' (show_nat (pipe_size lib p)) (send_headers m)\<rparr>"

definition SetPostData :: "string \<Rightarrow> 'p http_request \<Rightarrow> 'p http_request" where
  "SetPostData d m =
     m\<lparr>post_data := Some d, post_interface := None, request_method := ''POST'',
       send_headers := SetHeader ''Content-Length'' (show_nat (length d)) (send_headers m)\<rparr>"

text \<open>\<^verbatim>\<open>ConfigEventAction\<close>\<close>

fun apply_config :: "'p pipe_interface \<Rightarrow> 'p config_variant \<Rightarrow> 'p http_request \<Rightarrow> 'p http_request" where
  "apply_config lib (ConfigRedirectPolicy p) m = m\<lparr>redirect_policy := p\<rparr>"
| "apply_config lib (ConfigRequestMethod s) m = m\<lparr>request_method := s\<rparr>"
| "apply_config lib (ConfigHeader n v) m = m\<lparr>send_headers := SetHeader n v (send_headers m)\<rparr>"
| "apply_config lib (ConfigPostDataPipe p) m = SetPostInterface lib p m"
| "apply_config lib (ConfigPostData d) m = SetPostData d m"
| "apply_config lib (ConfigTimeout t) m = m\<lparr>timeout_seconds := t\<rparr>"

section \<open>Entries of the states\<close>

definition make_socket :: "bool \<Rightarrow> url \<Rightarrow> 'p http_request \<Rightarrow> 'p http_request" where [machine_defs]:
  "make_socket ssl u m =
     m\<lparr>uses_ssl := ssl, socket := True, handshaken := False, visited := visited m @ [(u, ssl)]\<rparr>"

definition DoInit :: "'p http_request \<Rightarrow> 'p http_request" where
  "DoInit m =
     (let m = Disconnect m
      in case (case parsed_url m of Some u \<Rightarrow> Some u | None \<Rightarrow> Url (url_text m)) of
           None \<Rightarrow> raise_error InvalidUrl m
         | Some u \<Rightarrow>
             let m = m\<lparr>parsed_url := Some u\<rparr>
             in if scheme u = ''http'' then raise InitializedEvent (make_socket False u m)
                else if scheme u = ''https'' then raise InitializedEvent (make_socket True u m)
                else raise_error InvalidUrl m)"

definition write_wire :: "string \<Rightarrow> 'p http_request \<Rightarrow> 'p http_request" where [machine_defs]:
  "write_wire t m =
     m\<lparr>written := written m
         @ [if uses_ssl m then Tls (the (parsed_url m)) (handshaken m) t
            else Plain (the (parsed_url m)) t]\<rparr>"

definition resolve_target :: "url \<Rightarrow> Proxy option \<Rightarrow> string \<times> string" where
  "resolve_target u used_proxy = (case used_proxy of
       Some p \<Rightarrow> (proxy_host p, show_nat (proxy_port p))
     | None \<Rightarrow> (host u, if port u = [] then scheme u else port u))"

definition Resolve_entry :: "'p http_request \<Rightarrow> 'p http_request" where
  "Resolve_entry m =
     (let m = verify (parsed_url m \<noteq> None) (new_state_data m);
          (h, p) = resolve_target (the (parsed_url m)) (CurrentProxy m)
      in start_op (Op_Resolve h p) (SetAsyncTimeout m))"

definition Connect_entry :: "'p http_request \<Rightarrow> 'p http_request" where
  "Connect_entry m = start_op Op_Connect (SetAsyncTimeout (new_state_data m))"

definition ProxyConnect_entry :: "'p http_request \<Rightarrow> 'p http_request" where
  "ProxyConnect_entry m =
     (let m = new_state_data m;
          u = the (parsed_url m);
          m = SetAsyncTimeout m
      in start_op Op_Proxy_Write (m\<lparr>written := written m @ [To_Proxy u (connect_head u (CurrentProxy m))]\<rparr>))"

definition SSLHandshake_entry :: "'p http_request \<Rightarrow> 'p http_request" where
  "SSLHandshake_entry m =
     start_op Op_Handshake (SetAsyncTimeout (verify (uses_ssl m) (new_state_data m)))"

definition SendHeader_entry :: "'p http_request \<Rightarrow> 'p http_request" where
  "SendHeader_entry m =
     (let m = SetAsyncTimeout (verify (parsed_url m \<noteq> None) (new_state_data m))
      in start_op Op_Header_Write
           (write_wire (request_head (request_method m) (the (parsed_url m)) (uses_ssl m)
              (CurrentProxy m) (send_headers m)) m))"

text \<open>
  The events that \<^verbatim>\<open>PostViaInterface\<close> processes: behind the handler of an exception there is no
  \<^verbatim>\<open>return\<close>, so the size is looked at as well.
\<close>

definition PostViaInterface ::
  "'p pipe_interface \<Rightarrow> 'p http_request \<Rightarrow> 'p http_event list \<times> 'p http_request" where
  "PostViaInterface lib m =
     (case post_interface m of
        None \<Rightarrow> ([], verify False m)
      | Some p \<Rightarrow>
          let (res, p') = retrieve lib p;
              m = m\<lparr>post_interface := Some p'\<rparr>;
              at_end = (if bytes_read_from_interface m \<noteq> post_interface_size m
                        then failure PostInterfaceReadFailure else PostSent)
          in case res of
               Thrown \<Rightarrow> ([failure PostInterfaceReadFailure, at_end], m)
             | Retrieved b \<Rightarrow>
                 if b = [] then ([at_end], m)
                 else ([], m\<lparr>bytes_read_from_interface := bytes_read_from_interface m + length b,
                             delay_enabled := True,
                             pending := pending m @ [(Op_Post_Delay b, the (state_data m), 0)]\<rparr>))"

definition SendPost_entry :: "'p pipe_interface \<Rightarrow> 'p http_request \<Rightarrow> 'p http_request" where
  "SendPost_entry lib m =
     (let m = new_state_data m
      in case post_data m of
           Some d \<Rightarrow>
             start_op Op_Post_Write
               (write_wire d ((SetAsyncTimeout m)\<lparr>post_interface_size := 0, bytes_read_from_interface := 0\<rparr>))
         | None \<Rightarrow>
             (case post_interface m of
                None \<Rightarrow> verify False m
              | Some p \<Rightarrow>
                  let (evs, m) = PostViaInterface lib
                        (m\<lparr>post_interface_size := pipe_size lib p, bytes_read_from_interface := 0\<rparr>)
                  in m\<lparr>inner := inner m @ evs\<rparr>))"

definition ReadHeaders_entry :: "'p http_request \<Rightarrow> 'p http_request" where
  "ReadHeaders_entry m = start_op Op_Header_Read (SetAsyncTimeout (new_state_data m))"

definition headers_of :: "HeadersReadEvent \<Rightarrow> Headers" where
  "headers_of evt = \<lparr>hd_raw_headers = raw_headers evt, hd_status_code = status_code evt,
     hd_status_message = status_message evt, hd_headers = evt_headers evt\<rparr>"

definition ParseHeaders_entry :: "HeadersReadEvent \<Rightarrow> 'p http_request \<Rightarrow> 'p http_request" where
  "ParseHeaders_entry evt m =
     (if status_code evt = 301 \<or> status_code evt = 302 then
        (case map_of (evt_headers evt) ''location'' of
           None \<Rightarrow> raise_error InvalidRedirectUrl m
         | Some loc \<Rightarrow>
             (case Url loc of
                None \<Rightarrow> raise_error InvalidRedirectUrl m
              | Some u \<Rightarrow> raise (RedirectEvent evt loc) (callback (RedirectHeaderReceived (headers_of evt) u) m)))
      else raise (HeadersParsedEvent (evt_content_length evt) (evt_headers evt) (evt_read_buffer evt))
             (callback (ResponseHeaderReceived (headers_of evt)) m))"

definition Redirect_entry :: "string \<Rightarrow> 'p http_request \<Rightarrow> 'p http_request" where
  "Redirect_entry loc m =
     (case Url loc of
        None \<Rightarrow> raise_error InvalidRedirectUrl m
      | Some u \<Rightarrow>
          if redirect_policy m = Deny then raise_error RedirectPermissionDenied m
          else if redirect_policy m = DenyDowngrade \<and> uses_ssl m \<and> scheme u = ''http''
          then raise_error RedirectPermissionDenied m
          else raise RedirectedEvent (Disconnect (m\<lparr>parsed_url := Some u, url_text := loc\<rparr>)))"

fun content_outcome :: "content_event \<Rightarrow> 'p http_event" where
  "content_outcome ContentReadEvent = Ev_ContentRead"
| "content_outcome (ErrorEvent e) = failure e"

definition ReadContent_entry :: "http_env \<Rightarrow> nat \<Rightarrow> headers \<Rightarrow> string \<Rightarrow> 'p http_request \<Rightarrow> 'p http_request" where
  "ReadContent_entry env n hs buffer m =
     (let r = ReadContent_on_entry hs n (uses_ssl m) buffer (env_incoming env) (env_ending env);
          m = (verify (socket m) m)\<lparr>reader := Some r\<rparr>
      in case event r of None \<Rightarrow> m | Some e \<Rightarrow> raise (content_outcome e) m)"

definition Error_entry :: "http_env \<Rightarrow> error_code \<Rightarrow> 'p http_request \<Rightarrow> 'p http_request" where
  "Error_entry env ec m =
     (let m = Disconnect m
      in if ec = http_error_error IoTimeout \<and> now env < creation_time m + timeout_seconds m
         then raise RestartEvent m
         else raise (Ev_Error ec) m)"

definition FinalError_entry :: "error_code \<Rightarrow> 'p http_request \<Rightarrow> 'p http_request" where
  "FinalError_entry ec m =
     callback (RequestResponseErrorEvent ec) ((Disconnect m)\<lparr>delay_enabled := False\<rparr>)"

definition Complete_entry :: "'p http_request \<Rightarrow> 'p http_request" where
  "Complete_entry m = callback RequestResponseCompleteEvent (Disconnect m)"

fun state_entry ::
  "'p pipe_interface \<Rightarrow> http_env \<Rightarrow> http_state \<Rightarrow> 'p http_event \<Rightarrow> 'p http_request \<Rightarrow> 'p http_request" where
  "state_entry lib env Unstarted ev m = m"
| "state_entry lib env Initializing ev m = DoInit m"
| "state_entry lib env Resolve ev m = Resolve_entry m"
| "state_entry lib env Connect ev m = Connect_entry m"
| "state_entry lib env ProxyConnect ev m = ProxyConnect_entry m"
| "state_entry lib env SSLHandshake ev m = SSLHandshake_entry m"
| "state_entry lib env SendHeader ev m = SendHeader_entry m"
| "state_entry lib env SendPost ev m = SendPost_entry lib m"
| "state_entry lib env ReadHeaders ev m = ReadHeaders_entry m"
| "state_entry lib env ParseHeaders ev m =
     (case ev of Ev_HeadersRead evt \<Rightarrow> ParseHeaders_entry evt m | _ \<Rightarrow> m)"
| "state_entry lib env Redirect ev m =
     (case ev of RedirectEvent evt loc \<Rightarrow> Redirect_entry loc m | _ \<Rightarrow> m)"
| "state_entry lib env ReadContent ev m =
     (case ev of HeadersParsedEvent n hs b \<Rightarrow> ReadContent_entry env n hs b m | _ \<Rightarrow> m)"
| "state_entry lib env Error ev m = (case ev of Ev_Error ec \<Rightarrow> Error_entry env ec m | _ \<Rightarrow> m)"
| "state_entry lib env FinalError ev m = (case ev of Ev_Error ec \<Rightarrow> FinalError_entry ec m | _ \<Rightarrow> m)"
| "state_entry lib env Complete ev m = Complete_entry m"

text \<open>Leaving a state cancels what its handlers share with it.\<close>

definition state_exit :: "'p http_request \<Rightarrow> 'p http_request" where
  "state_exit m =
     (if hr_state m = ReadContent
      then m\<lparr>reader := map_option (\<lambda>r. r\<lparr>cancelled := True\<rparr>) (reader m)\<rparr>
      else m\<lparr>state_data := None\<rparr>)"

section \<open>Transitions\<close>

datatype event_kind = K_Config | K_Start | K_Error | K_Restart | K_Initialized | K_Resolved
  | K_Connected | K_Handshake | K_HeadersWritten | K_PostSent | K_HeadersRead | K_Redirect
  | K_Redirected | K_HeadersParsed | K_ContentRead

fun kind :: "'p http_event \<Rightarrow> event_kind" where
  "kind (ConfigEvent _) = K_Config"
| "kind StartEvent = K_Start"
| "kind (Ev_Error _) = K_Error"
| "kind RestartEvent = K_Restart"
| "kind InitializedEvent = K_Initialized"
| "kind ResolvedEvent = K_Resolved"
| "kind ConnectedEvent = K_Connected"
| "kind HandshakeEvent = K_Handshake"
| "kind HeadersWrittenEvent = K_HeadersWritten"
| "kind PostSent = K_PostSent"
| "kind (Ev_HeadersRead _) = K_HeadersRead"
| "kind (RedirectEvent _ _) = K_Redirect"
| "kind RedirectedEvent = K_Redirected"
| "kind (HeadersParsedEvent _ _ _) = K_HeadersParsed"
| "kind Ev_ContentRead = K_ContentRead"

datatype guard = No_Guard | ProxyConnectRequired | Direct_Plain | Direct_Ssl | Not_IsSsl | IsSsl
  | HasPost | Not_HasPost

definition proxy_required :: "'p http_request \<Rightarrow> bool" where
  "proxy_required m = (case CurrentProxy m of
     None \<Rightarrow> False | Some p \<Rightarrow> proxy_username p \<noteq> [] \<or> uses_ssl m)"

definition has_post :: "'p http_request \<Rightarrow> bool" where
  "has_post m \<longleftrightarrow> post_data m \<noteq> None \<or> post_interface m \<noteq> None"

fun guard_holds :: "guard \<Rightarrow> 'p http_request \<Rightarrow> bool" where
  "guard_holds No_Guard m = True"
| "guard_holds ProxyConnectRequired m = proxy_required m"
| "guard_holds Direct_Plain m = (\<not> proxy_required m \<and> \<not> uses_ssl m)"
| "guard_holds Direct_Ssl m = (\<not> proxy_required m \<and> uses_ssl m)"
| "guard_holds Not_IsSsl m = (\<not> uses_ssl m)"
| "guard_holds IsSsl m = uses_ssl m"
| "guard_holds HasPost m = has_post m"
| "guard_holds Not_HasPost m = (\<not> has_post m)"

definition rows :: "(http_state \<times> event_kind \<times> http_state \<times> guard) list" where
  "rows =
    [(Unstarted, K_Config, Unstarted, No_Guard),
     (Unstarted, K_Start, Initializing, No_Guard),
     (Initializing, K_Initialized, Resolve, No_Guard),
     (Initializing, K_Error, Error, No_Guard),
     (Resolve, K_Resolved, Connect, No_Guard),
     (Resolve, K_Error, Error, No_Guard),
     (Connect, K_Connected, ProxyConnect, ProxyConnectRequired),
     (Connect, K_Connected, SendHeader, Direct_Plain),
     (Connect, K_Connected, SSLHandshake, Direct_Ssl),
     (Connect, K_Error, Error, No_Guard),
     (ProxyConnect, K_Connected, SendHeader, Not_IsSsl),
     (ProxyConnect, K_Connected, SSLHandshake, IsSsl),
     (ProxyConnect, K_Error, Error, No_Guard),
     (SSLHandshake, K_Handshake, SendHeader, No_Guard),
     (SSLHandshake, K_Error, Error, No_Guard),
     (SendHeader, K_HeadersWritten, SendPost, HasPost),
     (SendHeader, K_HeadersWritten, ReadHeaders, Not_HasPost),
     (SendHeader, K_Error, Error, No_Guard),
     (SendPost, K_PostSent, ReadHeaders, No_Guard),
     (SendPost, K_Error, Error, No_Guard),
     (ReadHeaders, K_HeadersRead, ParseHeaders, No_Guard),
     (ReadHeaders, K_Error, Error, No_Guard),
     (ParseHeaders, K_HeadersParsed, ReadContent, No_Guard),
     (ParseHeaders, K_Redirect, Redirect, No_Guard),
     (ParseHeaders, K_Error, Error, No_Guard),
     (Redirect, K_Redirected, Initializing, No_Guard),
     (Redirect, K_Error, Error, No_Guard),
     (ReadContent, K_ContentRead, Complete, No_Guard),
     (ReadContent, K_Error, Error, No_Guard),
     (Error, K_Restart, Initializing, No_Guard),
     (Error, K_Error, FinalError, No_Guard)]"

definition transition_target :: "'p http_request \<Rightarrow> 'p http_event \<Rightarrow> http_state option" where
  "transition_target m ev =
     map_option (\<lambda>(_, _, target, _). target)
       (find (\<lambda>(source, k, _, g). source = hr_state m \<and> k = kind ev \<and> guard_holds g m) rows)"

text \<open>
  \<^verbatim>\<open>process_event\<close>: a machine in a terminate state ignores every event. An event without a row
  trips an assertion; for a configuration event \<^verbatim>\<open>no_transition\<close> throws, which the state machine of
  boost catches.
\<close>

definition is_config :: "'p http_event \<Rightarrow> bool" where
  "is_config ev \<longleftrightarrow> kind ev = K_Config"

definition config_action :: "'p pipe_interface \<Rightarrow> 'p http_event \<Rightarrow> 'p http_request \<Rightarrow> 'p http_request" where
  "config_action lib ev m = (case ev of ConfigEvent v \<Rightarrow> apply_config lib v m | _ \<Rightarrow> m)"

definition fire ::
  "'p pipe_interface \<Rightarrow> http_env \<Rightarrow> 'p http_event \<Rightarrow> 'p http_request \<Rightarrow> 'p http_request" where
  "fire lib env ev m =
     (if hr_state m = FinalError \<or> hr_state m = Complete then m
      else (case transition_target m ev of
              None \<Rightarrow> if is_config ev then m\<lparr>misused := True\<rparr> else m\<lparr>broken := True\<rparr>
            | Some target \<Rightarrow>
                (state_entry lib env target ev (config_action lib ev (state_exit m)))\<lparr>hr_state := target\<rparr>))"

section \<open>Handlers\<close>

text \<open>
  What every handler does first: nothing more when the state was left or the timeout was first.
\<close>

definition accept :: "nat \<Rightarrow> nat \<Rightarrow> 'p http_request \<Rightarrow> 'p http_request option" where
  "accept d r m =
     (if state_data m \<noteq> Some d \<or> r \<in> set (taken m) then None
      else Some (ClearAsyncTimeout (m\<lparr>taken := r # taken m\<rparr>)))"

definition HandleResolve :: "nat \<Rightarrow> nat \<Rightarrow> op_result \<Rightarrow> 'p http_request \<Rightarrow> 'p http_request" where
  "HandleResolve d r res m =
     (let is_first = r \<notin> set (taken m);
          m = m\<lparr>taken := r # taken m\<rparr>
      in if state_data m \<noteq> Some d \<or> \<not> is_first then m
         else dispatch [if res = Op_Failed then failure UnableToResolve else ResolvedEvent]
                (ClearAsyncTimeout m))"

definition handle_simple ::
  "http_error \<Rightarrow> 'p http_event \<Rightarrow> nat \<Rightarrow> nat \<Rightarrow> op_result \<Rightarrow> 'p http_request \<Rightarrow> 'p http_request" where
  "handle_simple e ev d r res m =
     (case accept d r m of
        None \<Rightarrow> m
      | Some m \<Rightarrow> dispatch [if res = Op_Failed then failure e else ev] m)"

definition HandleConnect :: "nat \<Rightarrow> nat \<Rightarrow> op_result \<Rightarrow> 'p http_request \<Rightarrow> 'p http_request" where
  "HandleConnect = handle_simple UnableToConnect ConnectedEvent"

definition HandleHeaderWrite :: "nat \<Rightarrow> nat \<Rightarrow> op_result \<Rightarrow> 'p http_request \<Rightarrow> 'p http_request" where
  "HandleHeaderWrite = handle_simple WriteFailure HeadersWrittenEvent"

definition HandleHandshake :: "nat \<Rightarrow> nat \<Rightarrow> op_result \<Rightarrow> 'p http_request \<Rightarrow> 'p http_request" where
  "HandleHandshake d r res m =
     handle_simple SslHandshakeFailure HandshakeEvent d r res
       (if res \<noteq> Op_Failed \<and> state_data m = Some d then m\<lparr>handshaken := True\<rparr> else m)"

definition HandleProxyConnectWrite :: "nat \<Rightarrow> nat \<Rightarrow> op_result \<Rightarrow> 'p http_request \<Rightarrow> 'p http_request" where
  "HandleProxyConnectWrite d r res m =
     (case accept d r m of
        None \<Rightarrow> m
      | Some m \<Rightarrow>
          if res = Op_Failed then dispatch [failure UnableToConnectToProxy] m
          else start_op Op_Proxy_Read (SetAsyncTimeout m))"

definition HandleProxyHeaderRead :: "nat \<Rightarrow> nat \<Rightarrow> op_result \<Rightarrow> 'p http_request \<Rightarrow> 'p http_request" where
  "HandleProxyHeaderRead d r res m =
     (case accept d r m of
        None \<Rightarrow> m
      | Some m \<Rightarrow>
          dispatch
            [case res of
               Op_Failed \<Rightarrow> failure ProxyProtocolFailure
             | Op_Done buffer bytes_transferred \<Rightarrow>
                 if proxy_accepts buffer = Some True then ConnectedEvent
                 else failure ProxyProtocolFailure] m)"

definition HandleHeaderRead :: "nat \<Rightarrow> nat \<Rightarrow> op_result \<Rightarrow> 'p http_request \<Rightarrow> 'p http_request" where
  "HandleHeaderRead d r res m =
     (case accept d r m of
        None \<Rightarrow> m
      | Some m \<Rightarrow>
          dispatch
            [case res of
               Op_Failed \<Rightarrow> failure ReadFailure
             | Op_Done buffer bytes_transferred \<Rightarrow>
                 (case parse_head bytes_transferred buffer of
                    None \<Rightarrow> failure UnparsableHeaders
                  | Some evt \<Rightarrow> Ev_HeadersRead evt)] m)"

definition HandlePostWrite ::
  "'p pipe_interface \<Rightarrow> nat \<Rightarrow> nat \<Rightarrow> op_result \<Rightarrow> 'p http_request \<Rightarrow> 'p http_request" where
  "HandlePostWrite lib d r res m =
     (case accept d r m of
        None \<Rightarrow> m
      | Some m \<Rightarrow>
          if res = Op_Failed then dispatch [failure WriteFailure] m
          else if post_interface m \<noteq> None
          then (let (evs, m) = PostViaInterface lib m in dispatch evs m)
          else dispatch [PostSent] m)"

text \<open>\<^verbatim>\<open>SetTransactionDelayTimerWrapper\<close> with \<^verbatim>\<open>PostViaInterfaceDelayCallback\<close>\<close>

definition PostViaInterfaceDelayCallback ::
  "string \<Rightarrow> nat \<Rightarrow> op_result \<Rightarrow> 'p http_request \<Rightarrow> 'p http_request" where
  "PostViaInterfaceDelayCallback b d res m =
     (if res = Op_Failed \<or> state_data m \<noteq> Some d then m
      else if delay_enabled m
      then start_op Op_Post_Write (write_wire b (SetAsyncTimeout (m\<lparr>delay_enabled := False\<rparr>)))
      else m)"

fun complete_op ::
  "'p pipe_interface \<Rightarrow> http_op \<times> nat \<times> nat \<Rightarrow> op_result \<Rightarrow> 'p http_request \<Rightarrow> 'p http_request" where
  "complete_op lib (Op_Resolve _ _, d, r) res m = HandleResolve d r res m"
| "complete_op lib (Op_Connect, d, r) res m = HandleConnect d r res m"
| "complete_op lib (Op_Proxy_Write, d, r) res m = HandleProxyConnectWrite d r res m"
| "complete_op lib (Op_Proxy_Read, d, r) res m = HandleProxyHeaderRead d r res m"
| "complete_op lib (Op_Handshake, d, r) res m = HandleHandshake d r res m"
| "complete_op lib (Op_Header_Write, d, r) res m = HandleHeaderWrite d r res m"
| "complete_op lib (Op_Post_Write, d, r) res m = HandlePostWrite lib d r res m"
| "complete_op lib (Op_Post_Delay b, d, r) res m = PostViaInterfaceDelayCallback b d res m"
| "complete_op lib (Op_Header_Read, d, r) res m = HandleHeaderRead d r res m"

text \<open>\<^verbatim>\<open>HandleAsyncTimeout\<close> for a wait that expired or was cancelled\<close>

definition HandleTimer :: "nat \<Rightarrow> bool \<Rightarrow> 'p http_request \<Rightarrow> 'p http_request" where
  "HandleTimer t aborted m =
     (let m = m\<lparr>timers := remove1 t (timers m)\<rparr>
      in if t \<in> set (taken m) then m
         else let m = m\<lparr>taken := t # taken m\<rparr>
              in if \<not> aborted \<and> t = timeout_id m then dispatch [failure IoTimeout] m else m)"

text \<open>What a step of the body's reader means for the machine\<close>

definition content_update :: "content_reader \<Rightarrow> content_reader \<Rightarrow> 'p http_request \<Rightarrow> 'p http_request" where
  "content_update r r' m =
     (let m = m\<lparr>reader := Some r',
                hr_callbacks := hr_callbacks m
                  @ map (\<lambda>(p, b). ResponseContentReceived p b) (drop (length (delivered r)) (delivered r'))\<rparr>
      in case (event r, event r') of
           (None, Some e) \<Rightarrow> dispatch [content_outcome e] m
         | _ \<Rightarrow> m)"

section \<open>Runs\<close>

text \<open>
  Events that were raised are processed first. Then an operation completes, the wait of a timer
  ends (only a cancelled one can be aborted, and a cancelled one no longer has the current number),
  the reader of the body goes on, or the user does something: what \<^verbatim>\<open>http_request.hpp\<close> allows is
  to configure, to start once, and to cancel or fail a request that was started.
\<close>

definition quiet :: "'p http_request \<Rightarrow> bool" where
  "quiet m \<longleftrightarrow> inner m = [] \<and> outer m = []"

definition user_may :: "'p http_event \<Rightarrow> 'p http_request \<Rightarrow> bool" where
  "user_may ev m = (case ev of
     ConfigEvent _ \<Rightarrow> True
   | StartEvent \<Rightarrow> hr_state m = Unstarted
   | Ev_Error _ \<Rightarrow> hr_state m \<noteq> Unstarted
   | _ \<Rightarrow> False)"

definition completion_possible :: "http_op \<times> nat \<times> nat \<Rightarrow> op_result \<Rightarrow> 'p http_request \<Rightarrow> bool" where
  "completion_possible t res m = (case t of
     (Op_Post_Delay _, d, _) \<Rightarrow> res = Op_Failed \<longrightarrow> state_data m \<noteq> Some d
   | _ \<Rightarrow> True)"

inductive http_step ::
  "'p pipe_interface \<Rightarrow> (string \<Rightarrow> string option) \<Rightarrow> 'p http_request \<Rightarrow> 'p http_request \<Rightarrow> bool"
  for lib gunzip where
  Inner: "inner m = ev # evs \<Longrightarrow> http_step lib gunzip m (fire lib env ev (m\<lparr>inner := evs\<rparr>))"
| Outer: "inner m = [] \<Longrightarrow> outer m = ev # evs \<Longrightarrow> http_step lib gunzip m (fire lib env ev (m\<lparr>outer := evs\<rparr>))"
| User: "quiet m \<Longrightarrow> user_may ev m \<Longrightarrow> http_step lib gunzip m (dispatch [ev] m)"
| Operation: "quiet m \<Longrightarrow> t \<in> set (pending m) \<Longrightarrow> completion_possible t res m
    \<Longrightarrow> http_step lib gunzip m (complete_op lib t res (m\<lparr>pending := remove1 t (pending m)\<rparr>))"
| Timer: "quiet m \<Longrightarrow> t \<in> set (timers m) \<Longrightarrow> (aborted \<longrightarrow> t \<noteq> timeout_id m)
    \<Longrightarrow> http_step lib gunzip m (HandleTimer t aborted m)"
| Content: "quiet m \<Longrightarrow> reader m = Some r \<Longrightarrow> content_step gunzip r r'
    \<Longrightarrow> http_step lib gunzip m (content_update r r' m)"
| Content_Timeout: "quiet m \<Longrightarrow> reader m = Some r \<Longrightarrow> timed (pending_op r) \<Longrightarrow> \<not> cancelled r
    \<Longrightarrow> http_step lib gunzip m (content_update r (HandleAsyncTimeout r) m)"

inductive http_reachable ::
  "'p pipe_interface \<Rightarrow> (string \<Rightarrow> string option) \<Rightarrow> 'p http_request \<Rightarrow> bool" for lib gunzip where
  Begin: "http_reachable lib gunzip (HttpRequest config url_string time)"
| Step: "http_reachable lib gunzip m \<Longrightarrow> http_step lib gunzip m m' \<Longrightarrow> http_reachable lib gunzip m'"

inductive_cases http_stepE: "http_step lib gunzip m m'"

end
