(* ===== verification/Http_Lifecycle.thy ===== *)
theory Http_Lifecycle
  imports Http_Machine
begin

text \<open>
  What the machine of an HTTP request promises: it is never without something that goes on with it,
  no assertion fails, the callback hears of one end, redirects respect the policy, and what belongs
  to an https URL is only written over SSL.
\<close>

section \<open>The table\<close>

fun step_target :: "http_state \<Rightarrow> event_kind \<Rightarrow> 'p http_request \<Rightarrow> http_state option" where
  "step_target Unstarted k m = (if k = K_Config then Some Unstarted else if k = K_Start then Some Initializing else None)"
| "step_target Initializing k m = (if k = K_Initialized then Some Resolve else if k = K_Error then Some Error else None)"
| "step_target Resolve k m = (if k = K_Resolved then Some Connect else if k = K_Error then Some Error else None)"
| "step_target Connect k m =
     (if k = K_Connected
      then Some (if proxy_required m then ProxyConnect else if uses_ssl m then SSLHandshake else SendHeader)
      else if k = K_Error then Some Error else None)"
| "step_target ProxyConnect k m =
     (if k = K_Connected then Some (if uses_ssl m then SSLHandshake else SendHeader)
      else if k = K_Error then Some Error else None)"
| "step_target SSLHandshake k m = (if k = K_Handshake then Some SendHeader else if k = K_Error then Some Error else None)"
| "step_target SendHeader k m =
     (if k = K_HeadersWritten then Some (if has_post m then SendPost else ReadHeaders)
      else if k = K_Error then Some Error else None)"
| "step_target SendPost k m = (if k = K_PostSent then Some ReadHeaders else if k = K_Error then Some Error else None)"
| "step_target ReadHeaders k m = (if k = K_HeadersRead then Some ParseHeaders else if k = K_Error then Some Error else None)"
| "step_target ParseHeaders k m =
     (if k = K_HeadersParsed then Some ReadContent else if k = K_Redirect then Some Redirect
      else if k = K_Error then Some Error else None)"
| "step_target Redirect k m = (if k = K_Redirected then Some Initializing else if k = K_Error then Some Error else None)"
| "step_target ReadContent k m = (if k = K_ContentRead then Some Complete else if k = K_Error then Some Error else None)"
| "step_target Error k m = (if k = K_Restart then Some Initializing else if k = K_Error then Some FinalError else None)"
| "step_target FinalError k m = None"
| "step_target Complete k m = None"

lemma transition_target_eq: "transition_target m ev = step_target (hr_state m) (kind ev) m"
proof -
  have "transition_target m ev =
      map_option (\<lambda>(_, _, target, _). target)
        (find (\<lambda>(source, k, _, g). source = s \<and> k = kk \<and> guard_holds g m) rows)"
    if "hr_state m = s" "kind ev = kk" for s kk
    using that by (simp add: transition_target_def)
  then show ?thesis by (cases "hr_state m") (simp_all add: rows_def)
qed

section \<open>What is pending\<close>

definition live :: "'p http_request \<Rightarrow> (http_op \<times> nat \<times> nat) list" where
  "live m = filter (\<lambda>(_, d, _). state_data m = Some d) (pending m)"

definition ids_ok :: "'p http_request \<Rightarrow> bool" where
  "ids_ok m \<longleftrightarrow> (\<forall>(opn, d, r) \<in> set (pending m). d < next_data m \<and> r \<le> timeout_id m)
     \<and> (\<forall>d. state_data m = Some d \<longrightarrow> d < next_data m) \<and> (\<forall>r \<in> set (taken m). r \<le> timeout_id m)
     \<and> (\<forall>t \<in> set (timers m). t \<le> timeout_id m)"

fun is_delay :: "http_op \<Rightarrow> bool" where
  "is_delay (Op_Post_Delay _) = True"
| "is_delay _ = False"

text \<open>The handler of the operation will act, and unless it is a delay, a timer will end it.\<close>

definition op_armed :: "'p http_request \<Rightarrow> http_op \<times> nat \<times> nat \<Rightarrow> bool" where
  "op_armed m t = (case t of (opn, d, r) \<Rightarrow>
     if is_delay opn then delay_enabled m
     else r = timeout_id m \<and> r \<in> set (timers m) \<and> r \<notin> set (taken m)
       \<and> (\<forall>(_, d', r') \<in> set (pending m). d' \<noteq> d \<longrightarrow> r' \<noteq> r))"

fun op_of :: "http_state \<Rightarrow> http_op \<Rightarrow> bool" where
  "op_of Resolve opn \<longleftrightarrow> (\<exists>h p. opn = Op_Resolve h p)"
| "op_of Connect opn \<longleftrightarrow> opn = Op_Connect"
| "op_of ProxyConnect opn \<longleftrightarrow> opn = Op_Proxy_Write \<or> opn = Op_Proxy_Read"
| "op_of SSLHandshake opn \<longleftrightarrow> opn = Op_Handshake"
| "op_of SendHeader opn \<longleftrightarrow> opn = Op_Header_Write"
| "op_of SendPost opn \<longleftrightarrow> opn = Op_Post_Write \<or> is_delay opn"
| "op_of ReadHeaders opn \<longleftrightarrow> opn = Op_Header_Read"
| "op_of _ opn \<longleftrightarrow> False"

definition working :: "'p http_request \<Rightarrow> bool" where
  "working m \<longleftrightarrow>
     (if hr_state m = ReadContent
      then \<exists>r. reader m = Some r \<and> \<not> cancelled r \<and> reader_ok r
      else \<exists>t. live m = [t] \<and> op_of (hr_state m) (fst t) \<and> op_armed m t)"

definition expected :: "http_state \<Rightarrow> event_kind \<Rightarrow> bool" where
  "expected st k \<longleftrightarrow> k = K_Error \<or> (case st of
       Initializing \<Rightarrow> k = K_Initialized
     | Resolve \<Rightarrow> k = K_Resolved
     | Connect \<Rightarrow> k = K_Connected
     | ProxyConnect \<Rightarrow> k = K_Connected
     | SSLHandshake \<Rightarrow> k = K_Handshake
     | SendHeader \<Rightarrow> k = K_HeadersWritten
     | SendPost \<Rightarrow> k = K_PostSent
     | ReadHeaders \<Rightarrow> k = K_HeadersRead
     | ParseHeaders \<Rightarrow> k = K_HeadersParsed \<or> k = K_Redirect
     | Redirect \<Rightarrow> k = K_Redirected
     | ReadContent \<Rightarrow> k = K_ContentRead
     | Error \<Rightarrow> k = K_Restart
     | _ \<Rightarrow> False)"

definition finished :: "'p http_request \<Rightarrow> bool" where
  "finished m \<longleftrightarrow> hr_state m = FinalError \<or> hr_state m = Complete"

definition situation :: "'p http_request \<Rightarrow> bool" where
  "situation m \<longleftrightarrow>
     (if hr_state m = Unstarted
      then inner m = [] \<and> (outer m = [] \<or> (\<exists>ev. outer m = [ev] \<and> (kind ev = K_Config \<or> kind ev = K_Start)))
      else finished m
        \<or> working m \<and> inner m = [] \<and> (outer m = [] \<or> (\<exists>ev. outer m = [ev] \<and> kind ev = K_Config))
        \<or> (\<exists>ev. inner m @ outer m = [ev] \<and> expected (hr_state m) (kind ev)))"

text \<open>The states with a socket, and what has to hold of it there\<close>

definition connected_state :: "http_state \<Rightarrow> bool" where
  "connected_state st \<longleftrightarrow> st \<in> {Resolve, Connect, ProxyConnect, SSLHandshake, SendHeader, SendPost,
     ReadHeaders, ParseHeaders, ReadContent}"

definition steady :: "http_state \<Rightarrow> bool" where
  "steady st \<longleftrightarrow> st \<in> {Resolve, Connect, ProxyConnect, SSLHandshake, SendHeader, SendPost, ReadHeaders}"

definition url_ready :: "'p http_request \<Rightarrow> bool" where
  "url_ready m \<longleftrightarrow> socket m
     \<and> (\<exists>u. parsed_url m = Some u \<and> scheme u = (if uses_ssl m then ''https'' else ''http''))"

definition ready_where_needed :: "'p http_request \<Rightarrow> bool" where
  "ready_where_needed m \<longleftrightarrow>
     (connected_state (hr_state m) \<or> hr_state m = Initializing \<and> InitializedEvent \<in> set (inner m @ outer m)
      \<longrightarrow> url_ready m)
     \<and> (hr_state m = SSLHandshake \<longrightarrow> uses_ssl m)
     \<and> (hr_state m = SendPost \<longrightarrow> has_post m)
     \<and> (state_data m \<noteq> None \<longrightarrow> steady (hr_state m))"

definition machine_inv :: "'p http_request \<Rightarrow> bool" where
  "machine_inv m \<longleftrightarrow> ids_ok m \<and> situation m \<and> ready_where_needed m \<and> \<not> broken m"

definition pipe_ok :: "'p pipe_interface \<Rightarrow> bool" where
  "pipe_ok lib \<longleftrightarrow> (\<forall>p. fst (retrieve lib p) \<noteq> Thrown)"

section \<open>Entries\<close>

lemma verify_simps [simp]: "verify True m = m" "broken (verify b m) = (broken m \<or> \<not> b)"
  by (auto simp: verify_def)

text \<open>A new operation under a new timeout is live and armed.\<close>

lemma fresh_op:
  assumes "ids_ok m" and "\<not> is_delay opn"
  shows "let v = start_op opn (SetAsyncTimeout (new_state_data m))
    in ids_ok v \<and> (\<exists>t. live v = [t] \<and> fst t = opn \<and> op_armed v t)"
proof -
  have "timeout_id m + 1 \<notin> set (taken m)" "filter (\<lambda>(_, d, _). next_data m = d) (pending m) = []"
    using assms(1) by (force simp: ids_ok_def filter_empty_conv)+
  then show ?thesis
    using assms
    by (auto simp: machine_defs verify_def ids_ok_def live_def op_armed_def Let_def less_Suc_eq le_Suc_eq)
qed

text \<open>The fields that the pending operations depend on\<close>

definition op_view where
  "op_view m = (pending m, state_data m, next_data m, timeout_id m, timers m, taken m, delay_enabled m)"

lemma op_view_cong:
  assumes "op_view v = op_view w"
  shows "ids_ok v = ids_ok w" and "live v = live w" and "op_armed v t = op_armed w t"
  using assms by (simp_all add: op_view_def ids_ok_def live_def op_armed_def split: prod.split)

lemma op_entry:
  assumes "ids_ok m" and "op_view v = op_view (start_op opn (SetAsyncTimeout (new_state_data m)))"
    and "op_of (hr_state v) opn" and "\<not> is_delay opn" and "inner v = []" and "outer v = []"
  shows "ids_ok v \<and> situation v"
proof -
  note v = op_view_cong [OF assms(2)]
  obtain t where t: "live v = [t]" "fst t = opn" "op_armed v t" "ids_ok v"
    using fresh_op [OF assms(1,4)] unfolding Let_def v by blast
  have "hr_state v \<noteq> ReadContent" "hr_state v \<noteq> Unstarted" using assms(3) by auto
  then have "working v" using t assms(3) by (auto simp: working_def)
  then show ?thesis using t(4) assms(5,6) \<open>hr_state v \<noteq> Unstarted\<close> by (simp add: situation_def)
qed

text \<open>Nothing is going on between the exit of a state and the entry of the next.\<close>

definition between :: "'p http_request \<Rightarrow> bool" where
  "between m \<longleftrightarrow> ids_ok m \<and> inner m = [] \<and> outer m = [] \<and> state_data m = None \<and> \<not> broken m"

lemmas entry_defs = machine_defs op_view_def verify_def url_ready_def

lemma inv_event:
  assumes "inner v @ outer v = [ev]" and "expected (hr_state v) (kind ev)" and "hr_state v \<noteq> Unstarted"
    and "ids_ok v" and "ready_where_needed v" and "\<not> broken v"
  shows "machine_inv v"
  using assms by (auto simp: machine_inv_def situation_def)

lemma entry_op_inv:
  assumes "between x" and "url_ready x"
    and "op_view v = op_view (start_op opn (SetAsyncTimeout (new_state_data x)))"
    and "op_of (hr_state v) opn" and "\<not> is_delay opn" and "inner v = []" and "outer v = []"
    and "url_ready v" and "\<not> broken v"
    and "hr_state v = SSLHandshake \<longrightarrow> uses_ssl v" and "hr_state v = SendPost \<longrightarrow> has_post v"
  shows "machine_inv v"
proof -
  have "ids_ok v \<and> situation v"
    using assms(1) by (intro op_entry [OF _ assms(3-7)]) (simp add: between_def)
  moreover have "steady (hr_state v)" using assms(4) by (cases "hr_state v") (auto simp: steady_def)
  ultimately show ?thesis using assms(8-11) by (simp add: machine_inv_def ready_where_needed_def)
qed

lemma Resolve_inv: "between x \<Longrightarrow> url_ready x \<Longrightarrow> machine_inv ((Resolve_entry x)\<lparr>hr_state := Resolve\<rparr>)"
  by (rule entry_op_inv [where x = x and opn = "Op_Resolve (fst (resolve_target (the (parsed_url x)) (CurrentProxy x)))
        (snd (resolve_target (the (parsed_url x)) (CurrentProxy x)))"])
     (auto simp: Resolve_entry_def entry_defs between_def CurrentProxy_def Let_def split: prod.split)

lemma Connect_inv: "between x \<Longrightarrow> url_ready x \<Longrightarrow> machine_inv ((Connect_entry x)\<lparr>hr_state := Connect\<rparr>)"
  by (rule entry_op_inv [where x = x and opn = Op_Connect])
     (auto simp: Connect_entry_def entry_defs between_def Let_def)

lemma ProxyConnect_inv:
  "between x \<Longrightarrow> url_ready x \<Longrightarrow> machine_inv ((ProxyConnect_entry x)\<lparr>hr_state := ProxyConnect\<rparr>)"
  by (rule entry_op_inv [where x = x and opn = Op_Proxy_Write])
     (auto simp: ProxyConnect_entry_def entry_defs between_def Let_def)

lemma SSLHandshake_inv:
  "between x \<Longrightarrow> url_ready x \<Longrightarrow> uses_ssl x \<Longrightarrow> machine_inv ((SSLHandshake_entry x)\<lparr>hr_state := SSLHandshake\<rparr>)"
  by (rule entry_op_inv [where x = x and opn = Op_Handshake])
     (auto simp: SSLHandshake_entry_def entry_defs between_def Let_def)

lemma SendHeader_inv:
  "between x \<Longrightarrow> url_ready x \<Longrightarrow> machine_inv ((SendHeader_entry x)\<lparr>hr_state := SendHeader\<rparr>)"
  by (rule entry_op_inv [where x = x and opn = Op_Header_Write])
     (auto simp: SendHeader_entry_def entry_defs between_def Let_def)

lemma ReadHeaders_inv:
  "between x \<Longrightarrow> url_ready x \<Longrightarrow> machine_inv ((ReadHeaders_entry x)\<lparr>hr_state := ReadHeaders\<rparr>)"
  by (rule entry_op_inv [where x = x and opn = Op_Header_Read])
     (auto simp: ReadHeaders_entry_def entry_defs between_def Let_def)

lemmas event_defs = entry_defs expected_def ready_where_needed_def connected_state_def ids_ok_def

lemma url_ready_cong:
  "socket v = socket w \<Longrightarrow> parsed_url v = parsed_url w \<Longrightarrow> uses_ssl v = uses_ssl w \<Longrightarrow> url_ready v = url_ready w"
  by (simp add: url_ready_def)

lemma DoInit_inv:
  assumes "between x"
  shows "machine_inv ((DoInit x)\<lparr>hr_state := Initializing\<rparr>)"
proof -
  define v where "v = (DoInit x)\<lparr>hr_state := Initializing\<rparr>"
  have "(inner v = [InitializedEvent] \<and> url_ready v) \<or> (\<exists>e. inner v = [Ev_Error e])"
    using assms
    by (auto simp: v_def DoInit_def between_def machine_defs url_ready_def Let_def split: option.split)
  moreover have "ids_ok v" "outer v = []" "\<not> broken v" "state_data v = None"
    using assms by (simp_all add: v_def DoInit_def between_def machine_defs ids_ok_def Let_def split: option.split)
  moreover have "hr_state v = Initializing" by (simp add: v_def)
  ultimately show ?thesis
    unfolding v_def [symmetric]
    by (auto intro!: inv_event simp: expected_def ready_where_needed_def connected_state_def)
qed

lemma ParseHeaders_inv:
  assumes "between x" and "url_ready x"
  shows "machine_inv ((ParseHeaders_entry evt x)\<lparr>hr_state := ParseHeaders\<rparr>)"
proof -
  define v where "v = (ParseHeaders_entry evt x)\<lparr>hr_state := ParseHeaders\<rparr>"
  have "\<exists>ev. inner v = [ev] \<and> expected ParseHeaders (kind ev)"
    using assms(1)
    by (simp add: v_def ParseHeaders_entry_def between_def machine_defs expected_def split: option.split)
  moreover have "ids_ok v" "outer v = []" "\<not> broken v" "hr_state v = ParseHeaders" "state_data v = None"
    using assms(1)
    by (simp_all add: v_def ParseHeaders_entry_def between_def machine_defs ids_ok_def split: option.split)
  moreover have "url_ready v = url_ready x"
    by (rule url_ready_cong) (simp_all add: v_def ParseHeaders_entry_def machine_defs split: option.split)
  ultimately show ?thesis
    unfolding v_def [symmetric] using assms(2) by (auto intro!: inv_event simp: ready_where_needed_def)
qed

lemma Redirect_inv:
  assumes "between x"
  shows "machine_inv ((Redirect_entry loc x)\<lparr>hr_state := Redirect\<rparr>)"
proof -
  define v where "v = (Redirect_entry loc x)\<lparr>hr_state := Redirect\<rparr>"
  have "\<exists>ev. inner v = [ev] \<and> expected Redirect (kind ev)"
    using assms by (simp add: v_def Redirect_entry_def between_def machine_defs expected_def split: option.split)
  moreover have "ids_ok v" "outer v = []" "\<not> broken v" "hr_state v = Redirect" "state_data v = None"
    using assms
    by (simp_all add: v_def Redirect_entry_def between_def machine_defs ids_ok_def split: option.split)
  ultimately show ?thesis
    unfolding v_def [symmetric]
    by (auto intro!: inv_event simp: ready_where_needed_def connected_state_def)
qed

lemma Error_inv:
  assumes "between x"
  shows "machine_inv ((Error_entry env ec x)\<lparr>hr_state := Error\<rparr>)"
proof -
  define v where "v = (Error_entry env ec x)\<lparr>hr_state := Error\<rparr>"
  have "\<exists>ev. inner v = [ev] \<and> expected Error (kind ev)"
    using assms by (simp add: v_def Error_entry_def between_def machine_defs expected_def Let_def)
  moreover have "ids_ok v" "outer v = []" "\<not> broken v" "hr_state v = Error" "state_data v = None"
    using assms by (simp_all add: v_def Error_entry_def between_def machine_defs ids_ok_def Let_def)
  ultimately show ?thesis
    unfolding v_def [symmetric]
    by (auto intro!: inv_event simp: ready_where_needed_def connected_state_def)
qed

lemma finished_inv: "finished v \<Longrightarrow> ids_ok v \<Longrightarrow> state_data v = None \<Longrightarrow> \<not> broken v \<Longrightarrow> machine_inv v"
  by (auto simp: machine_inv_def situation_def finished_def ready_where_needed_def connected_state_def)

lemma FinalError_inv: "between x \<Longrightarrow> machine_inv ((FinalError_entry ec x)\<lparr>hr_state := FinalError\<rparr>)"
  by (rule finished_inv) (auto simp: finished_def FinalError_entry_def between_def machine_defs ids_ok_def)

lemma Complete_inv: "between x \<Longrightarrow> machine_inv ((Complete_entry x)\<lparr>hr_state := Complete\<rparr>)"
  by (rule finished_inv) (auto simp: finished_def Complete_entry_def between_def machine_defs ids_ok_def)

lemma content_outcome_expected: "expected ReadContent (kind (content_outcome e))"
  by (cases e) (simp_all add: expected_def machine_defs)

lemma ReadContent_inv:
  assumes "between x" and "url_ready x"
  shows "machine_inv ((ReadContent_entry env n hs b x)\<lparr>hr_state := ReadContent\<rparr>)"
proof -
  define r where "r = ReadContent_on_entry hs n (uses_ssl x) b (env_incoming env) (env_ending env)"
  define v where "v = (ReadContent_entry env n hs b x)\<lparr>hr_state := ReadContent\<rparr>"
  have sock: "socket x" using assms(2) by (simp add: url_ready_def)
  have "url_ready v = url_ready x"
    by (rule url_ready_cong) (simp_all add: v_def ReadContent_entry_def machine_defs sock Let_def split: option.split)
  moreover have "ids_ok v" "outer v = []" "\<not> broken v" "hr_state v = ReadContent" "reader v = Some r" "state_data v = None"
    "inner v = (case event r of None \<Rightarrow> [] | Some e \<Rightarrow> [content_outcome e])"
    using assms(1)
    by (simp_all add: v_def r_def ReadContent_entry_def between_def machine_defs ids_ok_def sock Let_def split: option.split)
  ultimately have base: "ids_ok v" "outer v = []" "\<not> broken v" "url_ready v" "hr_state v = ReadContent" "reader v = Some r" "state_data v = None"
    "inner v = (case event r of None \<Rightarrow> [] | Some e \<Rightarrow> [content_outcome e])"
    using assms(2) by simp_all
  have r: "reader_ok r" unfolding r_def by (rule reader_ok_entry)
  show ?thesis
  proof (cases "event r")
    case None
    then have "working v" using base r by (auto simp: working_def reader_ok_def)
    then show ?thesis
      using base None unfolding v_def [symmetric]
      by (simp add: machine_inv_def situation_def ready_where_needed_def)
  next
    case (Some e)
    then show ?thesis
      unfolding v_def [symmetric] using base content_outcome_expected [of e]
      by (intro inv_event) (simp_all add: ready_where_needed_def)
  qed
qed

text \<open>The next chunk of a pipe: the end is told, or the chunk waits for the delay.\<close>

lemma PostViaInterface_outcome:
  assumes "pipe_ok lib" and "PostViaInterface lib m = (evs, v)" and "post_interface m \<noteq> None"
    and "ids_ok m" and "live m = []" and "state_data m \<noteq> None" and "inner m = []" and "outer m = []"
  shows "((\<exists>ev. evs = [ev] \<and> expected SendPost (kind ev))
      \<or> evs = [] \<and> (\<exists>t. live v = [t] \<and> is_delay (fst t) \<and> op_armed v t))
    \<and> ids_ok v \<and> inner v = [] \<and> outer v = [] \<and> (broken v \<longleftrightarrow> broken m) \<and> hr_state v = hr_state m
    \<and> (url_ready v \<longleftrightarrow> url_ready m) \<and> has_post v"
proof -
  obtain p where p: "post_interface m = Some p" using assms(3) by auto
  obtain res p' where r: "retrieve lib p = (res, p')" by fastforce
  have "res \<noteq> Thrown" using assms(1) r by (metis fst_conv pipe_ok_def)
  then obtain b where b: "res = Retrieved b" by (cases res) auto
  obtain d where d: "state_data m = Some d" using assms(6) by auto
  show ?thesis
  proof (cases "b = []")
    case True
    then have v: "v = m\<lparr>post_interface := Some p'\<rparr>"
      and evs: "evs = [if bytes_read_from_interface m \<noteq> post_interface_size m
                       then failure PostInterfaceReadFailure else PostSent]"
      using assms(2) p r b by (simp_all add: PostViaInterface_def)
    have "ids_ok v" using assms(4) by (simp add: v ids_ok_def)
    moreover have "url_ready v = url_ready m" by (rule url_ready_cong) (simp_all add: v)
    moreover have "\<exists>ev. evs = [ev] \<and> expected SendPost (kind ev)"
      by (simp add: evs expected_def failure_def)
    ultimately show ?thesis using assms(7,8) by (simp add: v has_post_def)
  next
    case False
    then have v: "evs = []" "v = m\<lparr>post_interface := Some p',
        bytes_read_from_interface := bytes_read_from_interface m + length b, delay_enabled := True,
        pending := pending m @ [(Op_Post_Delay b, d, 0)]\<rparr>"
      using assms(2) p r b d by (auto simp: PostViaInterface_def)
    have "live v = [(Op_Post_Delay b, d, 0)]" using assms(5) d by (simp add: v(2) live_def)
    moreover have "op_armed v (Op_Post_Delay b, d, 0)" by (simp add: v(2) op_armed_def)
    moreover have "ids_ok v" using assms(4) d by (auto simp: v(2) ids_ok_def)
    moreover have "url_ready v = url_ready m" by (rule url_ready_cong) (simp_all add: v(2))
    ultimately show ?thesis using v(1) assms(7,8) by (simp add: v(2) has_post_def)
  qed
qed

lemma SendPost_inv:
  assumes "pipe_ok lib" and "between x" and "url_ready x" and "has_post x"
  shows "machine_inv ((SendPost_entry lib x)\<lparr>hr_state := SendPost\<rparr>)"
proof (cases "post_data x")
  case (Some d)
  show ?thesis
    by (rule entry_op_inv [OF assms(2,3), where opn = Op_Post_Write])
       (use assms(2,3) Some in \<open>auto simp: SendPost_entry_def entry_defs between_def has_post_def Let_def\<close>)
next
  case None
  then obtain p where p: "post_interface x = Some p" using assms(4) by (auto simp: has_post_def)
  define m where "m = (new_state_data x)\<lparr>post_interface_size := pipe_size lib p, bytes_read_from_interface := 0\<rparr>"
  obtain evs v where v: "PostViaInterface lib m = (evs, v)" by fastforce
  have "ids_ok m" "inner m = []" "outer m = []" "\<not> broken m" "post_interface m \<noteq> None" "state_data m \<noteq> None"
    using assms(2) p by (auto simp: m_def between_def machine_defs ids_ok_def less_Suc_eq)
  moreover have "live m = []"
    using assms(2) by (force simp: m_def between_def machine_defs ids_ok_def live_def filter_empty_conv)
  moreover have "url_ready m" using assms(3) url_ready_cong [of m x] by (simp add: m_def machine_defs)
  ultimately have out: "(\<exists>ev. evs = [ev] \<and> expected SendPost (kind ev))
      \<or> evs = [] \<and> (\<exists>t. live v = [t] \<and> is_delay (fst t) \<and> op_armed v t)"
    and v': "ids_ok v" "inner v = []" "outer v = []" "\<not> broken v" "url_ready v" "has_post v"
    using PostViaInterface_outcome [OF assms(1) v] by auto
  define w where "w = v\<lparr>inner := evs, hr_state := SendPost\<rparr>"
  have entry: "(SendPost_entry lib x)\<lparr>hr_state := SendPost\<rparr> = w"
    using None p v [unfolded m_def] v'(2) by (simp add: SendPost_entry_def w_def machine_defs Let_def)
  have w: "ids_ok w" "outer w = []" "inner w = evs" "\<not> broken w" "hr_state w = SendPost" "has_post w"
      "live w = live v" "\<And>t. op_armed w t = op_armed v t"
    using v' op_view_cong [of w v] by (simp_all add: w_def op_view_def has_post_def)
  have "url_ready w" using v'(5) url_ready_cong [of w v] by (simp add: w_def)
  then have ready: "ready_where_needed w" using w(5,6) by (simp add: ready_where_needed_def steady_def)
  from out show ?thesis
  proof (elim disjE exE conjE)
    fix ev assume "evs = [ev]" "expected SendPost (kind ev)"
    then show ?thesis unfolding entry using w ready by (intro inv_event) simp_all
  next
    fix t assume t: "evs = []" "live v = [t]" "is_delay (fst t)" "op_armed v t"
    then have "working w" using w by (auto simp: working_def)
    then show ?thesis unfolding entry using w t(1) ready by (simp add: machine_inv_def situation_def)
  qed
qed

section \<open>Transitions\<close>

lemma exit_between:
  assumes "machine_inv m"
  shows "between (state_exit (m\<lparr>inner := [], outer := []\<rparr>))"
  using assms
  by (auto simp: between_def state_exit_def ids_ok_def machine_inv_def ready_where_needed_def steady_def)

lemma exit_frame [simp]:
  "socket (state_exit m) = socket m" "parsed_url (state_exit m) = parsed_url m"
  "uses_ssl (state_exit m) = uses_ssl m" "has_post (state_exit m) = has_post m"
  "proxy_required (state_exit m) = proxy_required m" "hr_state (state_exit m) = hr_state m"
  by (simp_all add: state_exit_def has_post_def proxy_required_def CurrentProxy_def split: option.split)

lemma url_ready_exit [simp]: "url_ready (state_exit m) = url_ready m"
  by (rule url_ready_cong) simp_all

lemma queue_frame [simp]:
  "proxy_required (m\<lparr>inner := i, outer := out\<rparr>) = proxy_required m"
  "has_post (m\<lparr>inner := i, outer := out\<rparr>) = has_post m"
  "url_ready (m\<lparr>inner := i, outer := out\<rparr>) = url_ready m"
  by (simp_all add: has_post_def proxy_required_def CurrentProxy_def url_ready_def split: option.split)

lemma step_target_frame [simp]:
  "step_target st k (m\<lparr>inner := i, outer := out\<rparr>) = step_target st k m"
  by (cases st) simp_all

lemma config_inv:
  assumes "between x" and "hr_state x = Unstarted"
  shows "machine_inv (apply_config lib v x)"
  using assms
  by (cases v) (auto simp: machine_inv_def situation_def ready_where_needed_def connected_state_def
      between_def ids_ok_def SetPostInterface_def SetPostData_def)

lemma event_inv:
  assumes "pipe_ok lib" and "machine_inv m" and "inner m @ outer m = [ev]"
    and "expected (hr_state m) (kind ev)" and "hr_state m \<noteq> Unstarted" and "\<not> finished m"
  shows "machine_inv (fire lib env ev (m\<lparr>inner := [], outer := []\<rparr>))"
proof -
  define x where "x = state_exit (m\<lparr>inner := [], outer := []\<rparr>)"
  have x: "between x" unfolding x_def by (rule exit_between [OF assms(2)])
  have same: "url_ready x = url_ready m" "uses_ssl x = uses_ssl m" "has_post x = has_post m"
    "proxy_required x = proxy_required m"
    unfolding x_def by simp_all
  have ready: "connected_state (hr_state m) \<or> hr_state m = Initializing \<and> ev = InitializedEvent \<longrightarrow> url_ready x"
    using assms(2,3) by (simp add: machine_inv_def ready_where_needed_def same set_append [symmetric] del: set_append)
  have act: "config_action lib ev x = x"
    using assms(4,5) by (cases ev) (auto simp: config_action_def expected_def split: http_state.splits)
  have fire: "fire lib env ev (m\<lparr>inner := [], outer := []\<rparr>) =
      (case step_target (hr_state m) (kind ev) x of
         None \<Rightarrow> m\<lparr>inner := [], outer := [], broken := True\<rparr>
       | Some target \<Rightarrow> (state_entry lib env target ev x)\<lparr>hr_state := target\<rparr>)"
    if "\<not> is_config ev"
  proof -
    have "step_target (hr_state m) (kind ev) x = step_target (hr_state m) (kind ev) m"
      by (cases "hr_state m") (simp_all add: same)
    then show ?thesis
      using that assms(6) act
      by (simp add: fire_def finished_def transition_target_eq x_def [symmetric] split: option.split)
  qed
  have noc: "\<not> is_config ev"
    using assms(4,5) by (auto simp: is_config_def expected_def split: http_state.splits)
  note entries = Resolve_inv Connect_inv ProxyConnect_inv SSLHandshake_inv SendHeader_inv ReadHeaders_inv
    DoInit_inv ParseHeaders_inv Redirect_inv Error_inv FinalError_inv Complete_inv ReadContent_inv
    SendPost_inv [OF assms(1)]
  show ?thesis
    using assms(4-6) ready x noc
    unfolding fire [OF noc]
    by (cases "hr_state m"; cases ev)
       (simp_all add: expected_def connected_state_def finished_def is_config_def entries same)
qed

section \<open>Completions\<close>

lemma next_op:
  assumes "ids_ok m" and "state_data m = Some d" and "live m = []" and "\<not> is_delay opn"
    and "op_view v = op_view (start_op opn (SetAsyncTimeout m))"
  shows "ids_ok v \<and> (\<exists>t. live v = [t] \<and> fst t = opn \<and> op_armed v t)"
proof -
  have "timeout_id m + 1 \<notin> set (taken m)" using assms(1) by (force simp: ids_ok_def)
  then show ?thesis
    unfolding op_view_cong [OF assms(5)]
    using assms(1-4)
    by (auto simp: machine_defs verify_def ids_ok_def live_def op_armed_def Let_def le_Suc_eq)
qed

definition without :: "http_op \<times> nat \<times> nat \<Rightarrow> 'p http_request \<Rightarrow> 'p http_request" where
  "without t m = m\<lparr>pending := remove1 t (pending m)\<rparr>"

lemma without_frame [simp]:
  "hr_state (without t m) = hr_state m" "inner (without t m) = inner m" "outer (without t m) = outer m"
  "state_data (without t m) = state_data m" "taken (without t m) = taken m" "broken (without t m) = broken m"
  "timeout_id (without t m) = timeout_id m" "delay_enabled (without t m) = delay_enabled m"
  "reader (without t m) = reader m" "post_interface (without t m) = post_interface m"
  "socket (without t m) = socket m" "timers (without t m) = timers m"
  "url_ready (without t m) = url_ready m" "has_post (without t m) = has_post m"
  by (simp_all add: without_def url_ready_def has_post_def)

lemma without_ids: "ids_ok m \<Longrightarrow> ids_ok (without t m)"
  using set_remove1_subset [of t "pending m"] by (fastforce simp: ids_ok_def without_def)

lemma without_live: "live (without t m) = remove1 t (live m)"
  by (simp add: live_def without_def filter_remove1)

lemma inv_frame:
  assumes "machine_inv m" and "hr_state v = hr_state m" and "inner v = inner m" and "outer v = outer m"
    and "ids_ok v" and "working m \<Longrightarrow> working v" and "url_ready v = url_ready m" and "uses_ssl v = uses_ssl m"
    and "has_post v = has_post m" and "state_data v = state_data m" and "broken v = broken m"
  shows "machine_inv v"
proof -
  have "ready_where_needed v"
    using assms(1) unfolding machine_inv_def ready_where_needed_def assms(2-4,7-10) by simp
  moreover have "situation v"
    using assms(1,6) unfolding machine_inv_def situation_def finished_def assms(2-4) by meson
  ultimately show ?thesis using assms(1,5,11) by (simp add: machine_inv_def)
qed

text \<open>The completion of an operation of a state that was left is without effect.\<close>

lemma stale_inv:
  assumes "machine_inv m" and "(opn, d, r) \<in> set (pending m)" and "state_data m \<noteq> Some d"
    and "set tk \<subseteq> insert r (set (taken m))"
  shows "machine_inv ((without (opn, d, r) m)\<lparr>taken := tk\<rparr>)"
proof (rule inv_frame [OF assms(1)])
  let ?v = "(without (opn, d, r) m)\<lparr>taken := tk\<rparr>"
  have ids: "ids_ok m" using assms(1) by (simp add: machine_inv_def)
  then have "r \<le> timeout_id m" using assms(2) by (auto simp: ids_ok_def)
  then show "ids_ok ?v" using without_ids [OF ids, of "(opn, d, r)"] assms(4) by (auto simp: ids_ok_def)
  show "working m \<Longrightarrow> working ?v"
  proof (cases "hr_state m = ReadContent")
    case True
    assume "working m"
    with True show ?thesis by (simp add: working_def)
  next
    case False
    assume "working m"
    with False obtain t where t: "live m = [t]" "op_of (hr_state m) (fst t)" "op_armed m t"
      by (auto simp: working_def)
    obtain o' d' r' where t': "t = (o', d', r')" by (cases t)
    have d': "state_data m = Some d'" "t \<in> set (pending m)"
      using t(1) t' by (auto simp: live_def filter_eq_Cons_iff)
    then have "d' \<noteq> d" using assms(3) by auto
    have "live ?v = live (without (opn, d, r) m)" by (simp add: live_def without_def)
    also have "\<dots> = [t]" using t(1) t' \<open>d' \<noteq> d\<close> by (simp add: without_live)
    finally have "live ?v = [t]" .
    moreover have "op_armed ?v t"
      using t(3) assms(2,4) \<open>d' \<noteq> d\<close> set_remove1_subset [of "(opn, d, r)" "pending m"]
      by (fastforce simp: op_armed_def t' without_def split: if_splits)
    ultimately show ?thesis using False t(2) by (simp add: working_def)
  qed
qed (simp_all add: without_def url_ready_def has_post_def)

lemma dispatch_inv:
  assumes "machine_inv m" and "quiet m" and "hr_state m \<noteq> Unstarted"
    and "expected (hr_state m) (kind ev)" and "ids_ok v"
    and "hr_state v = hr_state m" and "inner v = inner m" and "outer v = outer m"
    and "url_ready v = url_ready m" and "uses_ssl v = uses_ssl m"
    and "has_post v = has_post m" and "state_data v = state_data m" and "broken v = broken m"
    and "ev = InitializedEvent \<longrightarrow> url_ready m"
  shows "machine_inv (dispatch [ev] v)"
proof (rule inv_event)
  show "inner (dispatch [ev] v) @ outer (dispatch [ev] v) = [ev]"
    using assms(2,7,8) by (simp add: dispatch_def quiet_def)
  have "url_ready (dispatch [ev] v) = url_ready v" by (rule url_ready_cong) (simp_all add: dispatch_def)
  then show "ready_where_needed (dispatch [ev] v)"
    using assms by (auto simp: dispatch_def quiet_def machine_inv_def ready_where_needed_def has_post_def)
qed (use assms in \<open>auto simp: dispatch_def ids_ok_def machine_inv_def\<close>)

lemma live_op:
  assumes "machine_inv m" and "quiet m" and "state_data m = Some d" and "(opn, d, r) \<in> set (pending m)"
  shows "live m = [(opn, d, r)] \<and> op_of (hr_state m) opn \<and> op_armed m (opn, d, r) \<and> steady (hr_state m)"
proof -
  have st: "steady (hr_state m)" using assms(1,3) by (simp add: machine_inv_def ready_where_needed_def)
  then have "working m"
    using assms(1,2) by (auto simp: machine_inv_def situation_def finished_def quiet_def steady_def)
  then obtain t where t: "live m = [t]" "op_of (hr_state m) (fst t)" "op_armed m t"
    using st by (auto simp: working_def steady_def)
  have "(opn, d, r) \<in> set (live m)" using assms(3,4) by (simp add: live_def)
  then have "t = (opn, d, r)" using t(1) by simp
  then show ?thesis using t st by simp
qed

text \<open>The machine behind the common beginning of the handlers\<close>

definition accepted :: "http_op \<times> nat \<times> nat \<Rightarrow> 'p http_request \<Rightarrow> 'p http_request" where
  "accepted t m = ClearAsyncTimeout ((without t m)\<lparr>taken := snd (snd t) # taken m\<rparr>)"

lemma accepted_frame [simp]:
  "hr_state (accepted t m) = hr_state m" "inner (accepted t m) = inner m" "outer (accepted t m) = outer m"
  "state_data (accepted t m) = state_data m" "broken (accepted t m) = broken m"
  "uses_ssl (accepted t m) = uses_ssl m" "socket (accepted t m) = socket m"
  "post_interface (accepted t m) = post_interface m"
  "url_ready (accepted t m) = url_ready m" "has_post (accepted t m) = has_post m"
  by (simp_all add: accepted_def machine_defs without_def url_ready_def has_post_def)

lemma accepted_state:
  assumes "machine_inv m" and "quiet m" and "state_data m = Some d" and "(opn, d, r) \<in> set (pending m)"
  shows "ids_ok (accepted (opn, d, r) m) \<and> live (accepted (opn, d, r) m) = []"
proof -
  have live: "live m = [(opn, d, r)]" using live_op [OF assms] by simp
  have "live (accepted (opn, d, r) m) = live (without (opn, d, r) m)"
    by (simp add: live_def accepted_def machine_defs without_def)
  moreover have "ids_ok (without (opn, d, r) m)" using assms(1) without_ids by (auto simp: machine_inv_def)
  moreover have "r \<le> timeout_id m" using assms(1,4) by (auto simp: machine_inv_def ids_ok_def)
  ultimately show ?thesis
    using live by (auto simp: without_live accepted_def machine_defs ids_ok_def intro: le_SucI)
qed

lemma accept_eq:
  assumes "state_data m = Some d"
  shows "accept d r (without (opn, d, r) m) =
    (if r \<in> set (taken m) then None else Some (accepted (opn, d, r) m))"
  using assms by (simp add: accept_def accepted_def)

lemma accept_stale: "state_data m \<noteq> Some d \<Longrightarrow> accept d r (without t m) = None"
  by (simp add: accept_def)

lemma dispatch_accepted_inv:
  assumes "machine_inv m" and "quiet m" and "state_data m = Some d" and "(opn, d, r) \<in> set (pending m)"
    and "expected (hr_state m) (kind ev)"
  shows "machine_inv (dispatch [ev] (accepted (opn, d, r) m))"
proof -
  have "steady (hr_state m)" using live_op [OF assms(1-4)] by simp
  then have "ev \<noteq> InitializedEvent" "hr_state m \<noteq> Unstarted"
    using assms(5) by (auto simp: steady_def expected_def)
  then show ?thesis
    by (intro dispatch_inv [OF assms(1,2) _ assms(5)]) (use accepted_state [OF assms(1-4)] in simp_all)
qed

lemma not_taken:
  assumes "machine_inv m" and "quiet m" and "state_data m = Some d" and "(opn, d, r) \<in> set (pending m)"
    and "\<not> is_delay opn"
  shows "r \<notin> set (taken m)"
  using live_op [OF assms(1-4)] assms(5) by (auto simp: op_armed_def)

lemma dispatch_Nil [simp]: "dispatch [] m = m"
  by (simp add: dispatch_def)

lemma kind_failure [simp]: "kind (failure e) = K_Error"
  by (simp add: failure_def)

lemma failure_expected [simp]: "expected st (kind (failure e))"
  by (simp add: expected_def failure_def)

lemma working_inv:
  assumes "machine_inv m" and "quiet m" and "steady (hr_state m)"
    and "ids_ok v" and "live v = [t]" and "op_of (hr_state m) (fst t)" and "op_armed v t"
    and "hr_state v = hr_state m" and "inner v = []" and "outer v = []"
    and "url_ready v = url_ready m" and "uses_ssl v = uses_ssl m" and "has_post v = has_post m" and "\<not> broken v"
  shows "machine_inv v"
proof -
  have "working v" using assms(3,5-8) by (auto simp: working_def steady_def)
  then show ?thesis
    using assms by (auto simp: machine_inv_def situation_def ready_where_needed_def steady_def finished_def)
qed

lemma inv_ready: "machine_inv m \<Longrightarrow> steady (hr_state m) \<Longrightarrow> url_ready m"
  by (auto simp: machine_inv_def ready_where_needed_def steady_def connected_state_def)

lemma next_op_inv:
  assumes "machine_inv m" and "quiet m" and "state_data m = Some d" and "steady (hr_state m)"
    and "ids_ok w" and "live w = []" and "state_data w = Some d"
    and "op_view v = op_view (start_op opn (SetAsyncTimeout w))" and "\<not> is_delay opn" and "op_of (hr_state m) opn"
    and "hr_state v = hr_state m" and "inner v = []" and "outer v = []"
    and "url_ready v = url_ready m" and "uses_ssl v = uses_ssl m" and "has_post v = has_post m" and "\<not> broken v"
  shows "machine_inv v"
proof -
  obtain t where "ids_ok v" "live v = [t]" "fst t = opn" "op_armed v t"
    using next_op [OF assms(5,7,6,9,8)] by blast
  then show ?thesis by (intro working_inv [OF assms(1,2,4)]) (use assms in auto)
qed

lemma handshaken_inv:
  assumes "machine_inv m"
  shows "machine_inv (m\<lparr>handshaken := b\<rparr>)"
proof (rule inv_frame [OF assms])
  have "op_view (m\<lparr>handshaken := b\<rparr>) = op_view m" by (simp add: op_view_def)
  note same = op_view_cong [OF this]
  show "ids_ok (m\<lparr>handshaken := b\<rparr>)" using assms by (simp add: same machine_inv_def)
  show "working m \<Longrightarrow> working (m\<lparr>handshaken := b\<rparr>)" by (auto simp: working_def same split: if_splits)
qed (simp_all add: url_ready_def has_post_def)

lemma completion_inv:
  assumes pipe: "pipe_ok lib" and inv: "machine_inv m" and q: "quiet m" and t: "(opn, d, r) \<in> set (pending m)"
    and possible: "completion_possible (opn, d, r) res m"
  shows "machine_inv (complete_op lib (opn, d, r) res (without (opn, d, r) m))"
proof (cases "state_data m = Some d")
  case False
  have "machine_inv ((without (opn, d, r) m)\<lparr>taken := tk\<rparr>)" if "tk = taken m \<or> tk = r # taken m" for tk
    using that by (intro stale_inv [OF inv t False]) auto
  from this [of "taken m"] this [of "r # taken m"]
  have v: "machine_inv (without (opn, d, r) m)" "machine_inv ((without (opn, d, r) m)\<lparr>taken := r # taken m\<rparr>)"
    by (simp_all add: without_def)
  show ?thesis
    using v False
    by (cases opn)
       (simp_all add: HandleResolve_def HandleConnect_def HandleHeaderWrite_def HandleHandshake_def handle_simple_def
          HandleProxyConnectWrite_def HandleProxyHeaderRead_def HandleHeaderRead_def HandlePostWrite_def
          PostViaInterfaceDelayCallback_def accept_stale Let_def)
next
  case True
  note live = live_op [OF inv q True t]
  have st: "steady (hr_state m)" using live by simp
  note ready = inv_ready [OF inv st]
  have sock: "socket m" using ready by (simp add: url_ready_def)
  have acc: "accept d r (without (opn, d, r) m) = Some (accepted (opn, d, r) m)" if "\<not> is_delay opn"
    using not_taken [OF inv q True t that] by (simp add: accept_eq [OF True])
  note told = dispatch_accepted_inv [OF inv q True t]
  note acc_state = accepted_state [OF inv q True t]
  have nb: "\<not> broken m" using inv by (simp add: machine_inv_def)
  show ?thesis
  proof (cases opn)
    case (Op_Resolve h p)
    then have "hr_state m = Resolve" using live by (cases "hr_state m") auto
    moreover have "complete_op lib (opn, d, r) res (without (opn, d, r) m) =
        dispatch [if res = Op_Failed then failure UnableToResolve else ResolvedEvent] (accepted (opn, d, r) m)"
      using not_taken [OF inv q True t] Op_Resolve True
      by (simp add: HandleResolve_def accepted_def Let_def)
    ultimately show ?thesis using told by (simp add: expected_def)
  next
    case Op_Connect
    then have "hr_state m = Connect" using live by (cases "hr_state m") auto
    then show ?thesis
      using told acc Op_Connect by (simp add: HandleConnect_def handle_simple_def expected_def)
  next
    case Op_Header_Write
    then have "hr_state m = SendHeader" using live by (cases "hr_state m") auto
    then show ?thesis
      using told acc Op_Header_Write by (simp add: HandleHeaderWrite_def handle_simple_def expected_def)
  next
    case Op_Handshake
    then have hs: "hr_state m = SSLHandshake" using live by (cases "hr_state m") auto
    note handshaken_inv [OF inv]
    then have "machine_inv (dispatch [if res = Op_Failed then failure SslHandshakeFailure else HandshakeEvent]
        (accepted (opn, d, r) (m\<lparr>handshaken := b\<rparr>)))" for b
      using t True hs q by (intro dispatch_accepted_inv) (simp_all add: quiet_def expected_def)
    moreover have "(without (opn, d, r) m)\<lparr>handshaken := True\<rparr> = without (opn, d, r) (m\<lparr>handshaken := True\<rparr>)"
      by (simp add: without_def)
    moreover have "accept d r (without (opn, d, r) (m\<lparr>handshaken := True\<rparr>)) = Some (accepted (opn, d, r) (m\<lparr>handshaken := True\<rparr>))"
      using not_taken [OF inv q True t] Op_Handshake True
      by (subst accept_eq) simp_all
    ultimately show ?thesis
      using acc Op_Handshake True told [OF failure_expected, of SslHandshakeFailure]
      by (auto simp: HandleHandshake_def handle_simple_def)
  next
    case Op_Proxy_Read
    then have "hr_state m = ProxyConnect" using live by (cases "hr_state m") auto
    then show ?thesis
      using told acc Op_Proxy_Read
      by (auto simp: HandleProxyHeaderRead_def expected_def split: op_result.split)
  next
    case Op_Header_Read
    then have "hr_state m = ReadHeaders" using live by (cases "hr_state m") auto
    then show ?thesis
      using told acc Op_Header_Read
      by (auto simp: HandleHeaderRead_def expected_def split: op_result.split option.split)
  next
    case Op_Proxy_Write
    then have hs: "hr_state m = ProxyConnect" using live by (cases "hr_state m") auto
    have "machine_inv (start_op Op_Proxy_Read (SetAsyncTimeout (accepted (opn, d, r) m)))"
      by (rule next_op_inv [OF inv q True st, where w = "accepted (opn, d, r) m" and opn = Op_Proxy_Read])
         (use acc_state True hs q sock nb in \<open>simp_all add: machine_defs quiet_def url_ready_def has_post_def\<close>,
          simp_all add: accepted_def machine_defs without_def)
    then show ?thesis
      using told [OF failure_expected] acc Op_Proxy_Write by (simp add: HandleProxyConnectWrite_def)
  next
    case (Op_Post_Delay b)
    then have hs: "hr_state m = SendPost" using live by (cases "hr_state m") auto
    have enabled: "delay_enabled m" using live Op_Post_Delay by (simp add: op_armed_def)
    have nf: "res \<noteq> Op_Failed" using possible Op_Post_Delay True by (auto simp: completion_possible_def)
    let ?w = "(without (opn, d, r) m)\<lparr>delay_enabled := False\<rparr>"
    have "ids_ok ?w" using without_ids [of m "(opn, d, r)"] inv by (simp add: ids_ok_def machine_inv_def)
    moreover have "live ?w = []"
      using live without_live [of "(opn, d, r)" m] by (simp add: live_def without_def)
    ultimately have "machine_inv (start_op Op_Post_Write (write_wire b (SetAsyncTimeout ?w)))"
      by (intro next_op_inv [OF inv q True st, where w = ?w and opn = Op_Post_Write])
         (use True hs q sock nb in \<open>simp_all add: op_view_def machine_defs quiet_def url_ready_def has_post_def\<close>,
          simp_all add: without_def)
    then show ?thesis
      using nf enabled True Op_Post_Delay by (simp add: PostViaInterfaceDelayCallback_def)
  next
    case Op_Post_Write
    then have hs: "hr_state m = SendPost" using live by (cases "hr_state m") auto
    show ?thesis
    proof (cases "res = Op_Failed \<or> post_interface m = None")
      case True
      then show ?thesis
        using told hs acc Op_Post_Write by (auto simp: HandlePostWrite_def expected_def)
    next
      case False
      obtain evs v where v: "PostViaInterface lib (accepted (opn, d, r) m) = (evs, v)" by fastforce
      have out: "(\<exists>ev. evs = [ev] \<and> expected SendPost (kind ev))
          \<or> evs = [] \<and> (\<exists>t. live v = [t] \<and> is_delay (fst t) \<and> op_armed v t)"
        and v': "ids_ok v" "inner v = []" "outer v = []" "\<not> broken v" "url_ready v" "has_post v" "hr_state v = SendPost"
        using PostViaInterface_outcome [OF pipe v] acc_state True False q nb ready hs by (auto simp: quiet_def)
      have eq: "complete_op lib (opn, d, r) res (without (opn, d, r) m) = dispatch evs v"
        using acc Op_Post_Write False v by (simp add: HandlePostWrite_def)
      have frame: "machine_inv w" if "w = dispatch evs v" "situation w" for w
        using that v' url_ready_cong [of "dispatch evs v" v]
        by (auto simp: machine_inv_def ready_where_needed_def dispatch_def ids_ok_def steady_def connected_state_def has_post_def)
      from out show ?thesis
      proof (elim disjE exE conjE)
        fix ev assume "evs = [ev]" "expected SendPost (kind ev)"
        then show ?thesis unfolding eq using v' by (intro frame) (auto simp: situation_def dispatch_def)
      next
        fix t' assume t': "evs = []" "live v = [t']" "is_delay (fst t')" "op_armed v t'"
        then have "working v" using v'(7) by (auto simp: working_def)
        then show ?thesis unfolding eq using v' t'(1) by (intro frame) (auto simp: situation_def)
      qed
    qed
  qed
qed

lemma timer_inv:
  assumes "machine_inv m" and "quiet m" and "t \<in> set (timers m)" and "aborted \<longrightarrow> t \<noteq> timeout_id m"
    and "hr_state m \<noteq> Unstarted"
  shows "machine_inv (HandleTimer t aborted m)"
proof (cases "\<not> aborted \<and> t = timeout_id m \<and> t \<notin> set (taken m)")
  case True
  then have "HandleTimer t aborted m =
      dispatch [failure IoTimeout] (m\<lparr>timers := remove1 t (timers m), taken := t # taken m\<rparr>)"
    by (auto simp: HandleTimer_def Let_def)
  moreover have "machine_inv (dispatch [failure IoTimeout] (m\<lparr>timers := remove1 t (timers m), taken := t # taken m\<rparr>))"
    using assms True
    by (intro dispatch_inv [OF assms(1,2,5)])
       (auto simp: ids_ok_def machine_inv_def url_ready_def has_post_def failure_def expected_def)
  ultimately show ?thesis by simp
next
  case False
  then have eq: "HandleTimer t aborted m =
      m\<lparr>timers := remove1 t (timers m), taken := (if t \<in> set (taken m) then taken m else t # taken m)\<rparr>"
    by (auto simp: HandleTimer_def Let_def)
  define v where "v = m\<lparr>timers := remove1 t (timers m), taken := (if t \<in> set (taken m) then taken m else t # taken m)\<rparr>"
  have "machine_inv v"
  proof (rule inv_frame [OF assms(1)])
    show "ids_ok v" using assms(1,3) set_remove1_subset [of t "timers m"]
      by (auto simp: v_def ids_ok_def machine_inv_def)
    show "working v" if w: "working m"
    proof (cases "hr_state m = ReadContent")
      case True
      then show ?thesis using w by (simp add: working_def v_def)
    next
      case no: False
      then obtain l where l: "live m = [l]" "op_of (hr_state m) (fst l)" "op_armed m l"
        using w by (auto simp: working_def)
      have "live v = [l]" using l(1) by (simp add: live_def v_def)
      moreover have "op_armed v l"
        using l(3) False assms(4) by (auto simp: op_armed_def v_def split: if_splits)
      ultimately show ?thesis using l(2) no by (auto simp: working_def v_def)
    qed
  qed (simp_all add: v_def url_ready_def has_post_def)
  then show ?thesis by (simp add: eq v_def)
qed

lemma content_inv:
  assumes "machine_inv m" and "quiet m" and "reader m = Some r"
    and "hr_state m \<noteq> ReadContent \<longrightarrow> cancelled r"
    and "reader_ok r \<Longrightarrow> reader_ok r'" and "cancelled r \<Longrightarrow> cancelled r' \<and> event r' = event r"
  shows "machine_inv (content_update r r' m)"
proof -
  define v where "v = m\<lparr>reader := Some r', hr_callbacks := hr_callbacks m
      @ map (\<lambda>(p, b). ResponseContentReceived p b) (drop (length (delivered r)) (delivered r'))\<rparr>"
  have frame: "hr_state v = hr_state m" "inner v = inner m" "outer v = outer m" "url_ready v = url_ready m"
    "uses_ssl v = uses_ssl m" "has_post v = has_post m" "state_data v = state_data m" "broken v = broken m"
    by (simp_all add: v_def url_ready_def has_post_def)
  have view: "op_view v = op_view m" by (simp add: v_def op_view_def)
  note same = op_view_cong [OF view]
  have ids: "ids_ok v" using assms(1) by (simp add: same machine_inv_def)
  show ?thesis
  proof (cases "event r = None \<and> event r' \<noteq> None")
    case True
    then obtain e where e: "event r' = Some e" by auto
    have rc: "hr_state m = ReadContent" using assms(4,6) True by auto
    have upd: "content_update r r' m = dispatch [content_outcome e] v"
      using True e by (simp add: content_update_def v_def)
    have "content_outcome e \<noteq> (InitializedEvent :: 'a http_event)" by (cases e) (simp_all add: failure_def)
    then have "machine_inv (dispatch [content_outcome e] v)"
      using rc content_outcome_expected [of e] ids frame by (intro dispatch_inv [OF assms(1,2)]) simp_all
    then show ?thesis by (simp add: upd)
  next
    case False
    then have upd: "content_update r r' m = v"
      by (auto simp: content_update_def v_def Let_def split: option.split)
    have "machine_inv v"
    proof (rule inv_frame [OF assms(1)])
      show "working v" if "working m"
        using that assms(3-6) False frame same
        by (auto simp: working_def v_def reader_ok_def split: if_splits)
    qed (use ids frame in simp_all)
    then show ?thesis by (simp add: upd)
  qed
qed

text \<open>A reader is only live in its state, and nothing waits before the start.\<close>

definition reader_inv :: "'p http_request \<Rightarrow> bool" where
  "reader_inv m \<longleftrightarrow> (\<forall>r. reader m = Some r \<longrightarrow> hr_state m \<noteq> ReadContent \<longrightarrow> cancelled r)
     \<and> (hr_state m = Unstarted \<longrightarrow> timers m = [] \<and> pending m = [])"

lemma reader_entry: "st \<noteq> ReadContent \<Longrightarrow> reader (state_entry lib env st ev m) = reader m"
  by (cases st)
     (simp_all add: DoInit_def Resolve_entry_def Connect_entry_def ProxyConnect_entry_def SSLHandshake_entry_def
        SendHeader_entry_def SendPost_entry_def PostViaInterface_def ReadHeaders_entry_def ParseHeaders_entry_def
        Redirect_entry_def Error_entry_def FinalError_entry_def Complete_entry_def machine_defs verify_def Let_def
        split: option.split http_event.split prod.split retrieved.split)

lemma config_frame [simp]:
  "reader (config_action lib ev m) = reader m" "timers (config_action lib ev m) = timers m"
  "pending (config_action lib ev m) = pending m" "hr_state (config_action lib ev m) = hr_state m"
proof -
  have "reader (apply_config lib v m) = reader m \<and> timers (apply_config lib v m) = timers m
      \<and> pending (apply_config lib v m) = pending m \<and> hr_state (apply_config lib v m) = hr_state m" for v
    by (cases v) (simp_all add: SetPostInterface_def SetPostData_def)
  then show "reader (config_action lib ev m) = reader m" "timers (config_action lib ev m) = timers m"
    "pending (config_action lib ev m) = pending m" "hr_state (config_action lib ev m) = hr_state m"
    by (simp_all add: config_action_def split: http_event.split)
qed

lemma step_target_Unstarted: "step_target st k m = Some Unstarted \<Longrightarrow> st = Unstarted"
  by (cases st) (auto split: if_splits)

lemma fire_reader_inv:
  assumes "reader_inv m"
  shows "reader_inv (fire lib env ev m)"
proof (cases "finished m \<or> transition_target m ev = None")
  case True
  then show ?thesis using assms by (auto simp: fire_def finished_def reader_inv_def)
next
  case False
  then obtain target where t: "transition_target m ev = Some target" "\<not> finished m" by auto
  let ?x = "config_action lib ev (state_exit m)"
  have fire: "fire lib env ev m = (state_entry lib env target ev ?x)\<lparr>hr_state := target\<rparr>"
    using t by (simp add: fire_def finished_def)
  have x: "reader ?x = Some r \<Longrightarrow> cancelled r" for r
    using assms by (auto simp: reader_inv_def state_exit_def split: if_splits)
  show ?thesis
  proof (cases "target = Unstarted")
    case True
    then have "hr_state m = Unstarted" using t(1) step_target_Unstarted by (auto simp: transition_target_eq)
    then show ?thesis using assms x True by (auto simp: fire reader_inv_def state_exit_def)
  next
    case False
    then show ?thesis using x by (auto simp: fire reader_inv_def reader_entry)
  qed
qed

lemma complete_op_frame:
  "reader (complete_op lib t res m) = reader m \<and> hr_state (complete_op lib t res m) = hr_state m"
  by (cases "(lib, t, res, m)" rule: complete_op.cases)
     (simp_all add: HandleResolve_def HandleConnect_def HandleHeaderWrite_def HandleHandshake_def handle_simple_def
        HandleProxyConnectWrite_def HandleProxyHeaderRead_def HandleHeaderRead_def HandlePostWrite_def
        PostViaInterfaceDelayCallback_def PostViaInterface_def accept_def machine_defs verify_def Let_def
        split: option.split op_result.split retrieved.split prod.split)

lemma HandleTimer_frame [simp]:
  "reader (HandleTimer t aborted m) = reader m" "hr_state (HandleTimer t aborted m) = hr_state m"
  by (simp_all add: HandleTimer_def machine_defs Let_def)

lemma content_update_frame [simp]:
  "reader (content_update r r' m) = Some r'" "hr_state (content_update r r' m) = hr_state m"
  "timers (content_update r r' m) = timers m" "pending (content_update r r' m) = pending m"
  by (simp_all add: content_update_def machine_defs Let_def split: option.split)

lemma reader_inv_step:
  assumes "http_step lib gunzip m m'" and "reader_inv m"
  shows "reader_inv m'"
  using assms(1)
proof cases
  case (Inner ev evs env)
  have "reader_inv (m\<lparr>inner := evs\<rparr>)" using assms(2) by (simp add: reader_inv_def)
  then show ?thesis unfolding Inner(1) by (rule fire_reader_inv)
next
  case (Outer ev evs env)
  have "reader_inv (m\<lparr>outer := evs\<rparr>)" using assms(2) by (simp add: reader_inv_def)
  then show ?thesis unfolding Outer(1) by (rule fire_reader_inv)
next
  case (User ev)
  then show ?thesis using assms(2) by (simp add: reader_inv_def dispatch_def)
next
  case (Operation t res)
  then have "hr_state m \<noteq> Unstarted" using assms(2) by (auto simp: reader_inv_def)
  then show ?thesis unfolding Operation(1) using assms(2) by (simp add: reader_inv_def complete_op_frame)
next
  case (Timer t aborted)
  then have "hr_state m \<noteq> Unstarted" using assms(2) by (auto simp: reader_inv_def)
  then show ?thesis unfolding Timer(1) using assms(2) by (simp add: reader_inv_def)
next
  case (Content r r')
  then show ?thesis using assms(2) cancelled_step [OF Content(4)] by (auto simp: reader_inv_def)
next
  case (Content_Timeout r)
  then show ?thesis using assms(2) by (auto simp: reader_inv_def)
qed

lemma fire_inv:
  assumes "pipe_ok lib" and "machine_inv m"
    and "inner m = ev # evs \<and> v = m\<lparr>inner := evs\<rparr> \<or> inner m = [] \<and> outer m = ev # evs \<and> v = m\<lparr>outer := evs\<rparr>"
  shows "machine_inv (fire lib env ev v)"
proof -
  have ids: "ids_ok v" "\<not> broken v" "hr_state v = hr_state m" "state_data v = state_data m"
    using assms(2,3) by (auto simp: machine_inv_def ids_ok_def)
  consider (fin) "finished m" | (start) "hr_state m = Unstarted"
    | (config) "working m" "\<not> finished m" "hr_state m \<noteq> Unstarted" "inner m = []" "outer m = [ev]" "kind ev = K_Config"
    | (event) "inner m @ outer m = [ev]" "expected (hr_state m) (kind ev)" "hr_state m \<noteq> Unstarted" "\<not> finished m"
    using assms(2,3) by (fastforce simp: machine_inv_def situation_def split: if_splits)
  then show ?thesis
  proof cases
    case fin
    then have "fire lib env ev v = v" using ids(3) by (auto simp: fire_def finished_def)
    moreover have "state_data v = None"
      using fin assms(2) ids(4) by (auto simp: machine_inv_def ready_where_needed_def steady_def finished_def)
    moreover have "finished v" using fin ids(3) by (simp add: finished_def)
    ultimately show ?thesis using ids(1,2) finished_inv by simp
  next
    case start
    then have i: "inner m = []" "outer m = [ev]" "kind ev = K_Config \<or> kind ev = K_Start"
      using assms(2,3) by (auto simp: machine_inv_def situation_def)
    then have "m\<lparr>inner := [], outer := []\<rparr> = v" using assms(3) by simp
    then have x: "between (state_exit v)" using exit_between [OF assms(2)] by simp
    from i(3) show ?thesis
    proof
      assume "kind ev = K_Config"
      then obtain c where c: "ev = ConfigEvent c" by (cases ev) simp_all
      then have "fire lib env ev v = apply_config lib c (state_exit v)"
        using start ids(3) config_frame(4) [of lib ev "state_exit v"]
        by (simp add: fire_def transition_target_eq config_action_def)
      then show ?thesis using config_inv [OF x] start ids(3) by simp
    next
      assume "kind ev = K_Start"
      then have "ev = StartEvent" by (cases ev) simp_all
      then show ?thesis
        using start ids(3) DoInit_inv [OF x] by (simp add: fire_def transition_target_eq config_action_def)
    qed
  next
    case config
    then have v: "v = m\<lparr>outer := []\<rparr>" using assms(3) by simp
    have "step_target (hr_state m) K_Config v = None"
      using config(2,3) by (cases "hr_state m") (auto simp: finished_def)
    then have "fire lib env ev v = v\<lparr>misused := True\<rparr>"
      using config(2,3,6) ids(3) by (simp add: fire_def transition_target_eq finished_def is_config_def)
    moreover have "machine_inv (v\<lparr>misused := True\<rparr>)"
    proof -
      have "op_view (v\<lparr>misused := True\<rparr>) = op_view m" by (simp add: v op_view_def)
      note same = op_view_cong [OF this]
      have "working (v\<lparr>misused := True\<rparr>)" using config(1) same by (auto simp: working_def v split: if_splits)
      then show ?thesis
        using assms(2) config(2-5) same(1)
        by (auto simp: machine_inv_def situation_def ready_where_needed_def v url_ready_def has_post_def)
    qed
    ultimately show ?thesis by simp
  next
    case event
    then have "v = m\<lparr>inner := [], outer := []\<rparr>" using assms(3) by (auto simp: Cons_eq_append_conv)
    then show ?thesis using event_inv [OF assms(1,2) event(1,2,3,4)] by simp
  qed
qed

lemma user_inv:
  assumes "machine_inv m" and "quiet m" and "user_may ev m"
  shows "machine_inv (dispatch [ev] m)"
proof -
  let ?v = "dispatch [ev] m"
  have view: "op_view ?v = op_view m" by (simp add: dispatch_def op_view_def)
  note same = op_view_cong [OF view]
  have frame: "hr_state ?v = hr_state m" "inner ?v = []" "outer ?v = [ev]" "reader ?v = reader m" "broken ?v = broken m"
    using assms(2) by (simp_all add: dispatch_def quiet_def)
  have ev: "ev \<noteq> InitializedEvent" using assms(3) by (auto simp: user_may_def)
  have ready: "ready_where_needed ?v"
    using assms(1,2) ev url_ready_cong [of ?v m]
    by (simp add: machine_inv_def ready_where_needed_def dispatch_def quiet_def has_post_def)
  have work: "working m \<Longrightarrow> working ?v"
    by (auto simp: working_def frame same split: if_splits)
  have may: "kind ev = K_Config \<or> kind ev = K_Start \<and> hr_state m = Unstarted
      \<or> kind ev = K_Error \<and> hr_state m \<noteq> Unstarted"
    using assms(3) by (cases ev) (simp_all add: user_may_def)
  have "hr_state m = Unstarted \<or> finished m \<or> working m"
    using assms(1,2) by (auto simp: machine_inv_def situation_def quiet_def)
  then have "situation ?v"
    using may work unfolding situation_def finished_def frame expected_def by auto
  then show ?thesis using assms(1) ready frame same(1) by (simp add: machine_inv_def)
qed

lemma machine_inv_step:
  assumes "pipe_ok lib" and "http_step lib gunzip m m'" and "machine_inv m" and "reader_inv m"
  shows "machine_inv m'"
  using assms(2)
proof cases
  case (Inner ev evs env)
  show ?thesis unfolding Inner(1) by (rule fire_inv [OF assms(1,3)]) (use Inner in simp)
next
  case (Outer ev evs env)
  show ?thesis unfolding Outer(1) by (rule fire_inv [OF assms(1,3)]) (use Outer in simp)
next
  case (User ev)
  then show ?thesis using user_inv [OF assms(3)] by simp
next
  case (Operation t res)
  obtain opn d r where t: "t = (opn, d, r)" by (cases t)
  show ?thesis
    using completion_inv [OF assms(1,3) Operation(2)] Operation(1,3,4) unfolding t without_def by simp
next
  case (Timer t aborted)
  then have "hr_state m \<noteq> Unstarted" using assms(4) by (auto simp: reader_inv_def)
  then show ?thesis unfolding Timer(1) using timer_inv [OF assms(3)] Timer by blast
next
  case (Content r r')
  show ?thesis
    unfolding Content(1)
    using content_inv [OF assms(3) Content(2,3)] reader_ok_step [OF Content(4)] cancelled_step [OF Content(4)]
      assms(4) Content(3)
    by (simp add: reader_inv_def)
next
  case (Content_Timeout r)
  have "content_interrupt r (HandleAsyncTimeout r)"
    by (rule content_interrupt.Timeout [OF Content_Timeout(4,5)])
  then show ?thesis
    unfolding Content_Timeout(1)
    using content_inv [OF assms(3) Content_Timeout(2,3)] reader_ok_interrupt assms(4) Content_Timeout(3,5)
    by (simp add: reader_inv_def)
qed

lemma http_reachable_inv:
  assumes "http_reachable lib gunzip m"
  shows "reader_inv m \<and> (pipe_ok lib \<longrightarrow> machine_inv m)"
  using assms
proof (induction rule: http_reachable.induct)
  case (Begin config url_string time)
  show ?case
    by (simp add: HttpRequest_def reader_inv_def machine_inv_def ids_ok_def situation_def
        ready_where_needed_def connected_state_def)
next
  case (Step m m')
  then show ?case using reader_inv_step machine_inv_step by blast
qed

section \<open>Promises\<close>


text \<open>
  C18: a request that was started and has not ended is never without something that goes on with it.
  Between two steps it is in a state with exactly one operation whose completion its handler will
  act on, and unless that is the delay before the next chunk of a post, the timer that ends it is
  running; or it reads the body, and the reader is not done.
\<close>

theorem http_never_stuck:
  assumes "pipe_ok lib" and "http_reachable lib gunzip m" and "quiet m"
    and "hr_state m \<noteq> Unstarted" and "\<not> finished m"
  shows "(\<exists>opn d r. live m = [(opn, d, r)] \<and> op_of (hr_state m) opn
      \<and> (if is_delay opn then delay_enabled m
         else r \<notin> set (taken m) \<and> r = timeout_id m \<and> r \<in> set (timers m)))
    \<or> hr_state m = ReadContent \<and> (\<exists>r r'. reader m = Some r \<and> \<not> cancelled r \<and> content_step gunzip r r')"
proof -
  have inv: "machine_inv m" using http_reachable_inv [OF assms(2)] assms(1) by simp
  then have w: "working m" using assms(3-5) by (auto simp: machine_inv_def situation_def quiet_def)
  show ?thesis
  proof (cases "hr_state m = ReadContent")
    case True
    then obtain r where r: "reader m = Some r" "\<not> cancelled r" "reader_ok r" using w by (auto simp: working_def)
    then have "event r = None" by (simp add: reader_ok_def)
    then obtain r' where "content_step gunzip r r'" using content_step_enabled [OF r(3)] by blast
    then show ?thesis using True r by blast
  next
    case False
    then obtain opn d r where t: "live m = [(opn, d, r)]" "op_of (hr_state m) opn" "op_armed m (opn, d, r)"
      using w by (auto simp: working_def)
    then have "if is_delay opn then delay_enabled m
        else r \<notin> set (taken m) \<and> r = timeout_id m \<and> r \<in> set (timers m)"
      by (auto simp: op_armed_def)
    then show ?thesis using t(1,2) by blast
  qed
qed

section \<open>A request on its way\<close>

definition ex_pipe :: "unit pipe_interface" where
  "ex_pipe = \<lparr>pipe_size = (\<lambda>_. 0), retrieve = (\<lambda>p. (Retrieved [], p))\<rparr>"

definition ex_env :: http_env where
  "ex_env = \<lparr>now = 0, env_incoming = [], env_ending = Eof\<rparr>"

definition ex_url :: url where
  "ex_url = \<lparr>full_url = ''http://h/x'', scheme = ''http'', host = ''h'', port = [], user = [], pass = [],
     path = ''/x'', full_path = ''/x'', query = [], fragment = []\<rparr>"

lemma ex_url: "Url ''http://h/x'' = Some ex_url"
  by (simp add: ex_url_def Url_def ParsePath_def search_char starts_with_def prot_end_def path_sep_def login_sep_def
      port_sep_def query_sep_def hash_sep_def parse_login_def)

lemma pipe_ok_ex: "pipe_ok ex_pipe"
  by (simp add: pipe_ok_def ex_pipe_def)

text \<open>Configured, started, and resolving the name of its host\<close>

definition ex_new :: "unit http_request" where
  "ex_new = HttpRequest HttpConfig ''http://h/x'' 0"

definition ex_resolving :: "unit http_request" where
  "ex_resolving = (let m = fire ex_pipe ex_env StartEvent ex_new
     in fire ex_pipe ex_env InitializedEvent (m\<lparr>inner := []\<rparr>))"

lemma ex_started:
  "fire ex_pipe ex_env StartEvent ex_new =
     ex_new\<lparr>hr_state := Initializing, inner := [InitializedEvent], parsed_url := Some ex_url, socket := True,
       visited := [(ex_url, False)]\<rparr>"
  by (simp add: ex_new_def HttpRequest_def fire_def transition_target_eq state_exit_def config_action_def
      DoInit_def ex_url machine_defs ex_url_def [THEN arg_cong [where f = scheme]])

lemma ex_resolving_eq:
  "ex_resolving = ex_new\<lparr>hr_state := Resolve, parsed_url := Some ex_url, socket := True,
     visited := [(ex_url, False)], state_data := Some 0, next_data := 1, timeout_id := 1, timers := [1],
     pending := [(Op_Resolve ''h'' ''http'', 0, 1)]\<rparr>"
  by (simp add: ex_resolving_def ex_started)
     (simp add: ex_new_def HttpRequest_def HttpConfig_def fire_def transition_target_eq state_exit_def config_action_def
      Resolve_entry_def CurrentProxy_def resolve_target_def ex_url_def machine_defs)

lemma ex_resolving_reachable: "http_reachable ex_pipe gunzip ex_resolving"
proof -
  have new: "http_reachable ex_pipe gunzip ex_new" unfolding ex_new_def by (rule Begin)
  have q: "inner ex_new = []" "outer ex_new = []" "hr_state ex_new = Unstarted"
    by (simp_all add: ex_new_def HttpRequest_def)
  then have "http_step ex_pipe gunzip ex_new (dispatch [StartEvent] ex_new)"
    by (intro User) (simp_all add: quiet_def user_may_def)
  with new have "http_reachable ex_pipe gunzip (dispatch [StartEvent] ex_new)" by (rule Step)
  moreover have "http_step ex_pipe gunzip (dispatch [StartEvent] ex_new)
      (fire ex_pipe ex_env StartEvent ((dispatch [StartEvent] ex_new)\<lparr>outer := []\<rparr>))"
    by (rule Outer) (simp_all add: dispatch_def q)
  moreover have "(dispatch [StartEvent] ex_new)\<lparr>outer := []\<rparr> = ex_new"
    using q by (simp add: dispatch_def)
  ultimately have "http_reachable ex_pipe gunzip (fire ex_pipe ex_env StartEvent ex_new)"
    using http_reachable.Step by metis
  moreover have "http_step ex_pipe gunzip (fire ex_pipe ex_env StartEvent ex_new) ex_resolving"
    unfolding ex_resolving_def Let_def by (rule Inner) (simp add: ex_started)
  ultimately show ?thesis by (rule Step)
qed


theorem http_never_stuck_witness:
  "\<exists>opn d r. live ex_resolving = [(opn, d, r)] \<and> op_of Resolve opn
     \<and> (if is_delay opn then delay_enabled ex_resolving
        else r \<notin> set (taken ex_resolving) \<and> r = timeout_id ex_resolving \<and> r \<in> set (timers ex_resolving))"
proof -
  have "quiet ex_resolving" "hr_state ex_resolving = Resolve"
    by (simp_all add: ex_resolving_eq quiet_def ex_new_def HttpRequest_def)
  then show ?thesis
    using http_never_stuck [OF pipe_ok_ex ex_resolving_reachable] by (auto simp: finished_def)
qed

end
