(* ===== verification/Http_Wire.thy ===== *)
theory Http_Wire
  imports Http_Lifecycle
begin

text \<open>
  What a request writes, and in which form: what belongs to an https URL is only written over SSL
  and after the handshake has succeeded, and a proxy is only told where to connect.
\<close>

fun wire_ok :: "wire \<Rightarrow> bool" where
  "wire_ok (To_Proxy u t) \<longleftrightarrow> (\<exists>p. t = connect_head u p)"
| "wire_ok (Plain u t) \<longleftrightarrow> scheme u = ''http''"
| "wire_ok (Tls u h t) \<longleftrightarrow> scheme u = ''https'' \<and> h"

lemma wire_ok_proxy [simp]: "wire_ok (To_Proxy u (connect_head u p))"
  by auto

declare wire_ok.simps(1) [simp del]

definition wire_inv :: "'p http_request \<Rightarrow> bool" where
  "wire_inv m \<longleftrightarrow> (\<forall>w \<in> set (written m). wire_ok w)
     \<and> (hr_state m \<in> {SendHeader, SendPost} \<and> uses_ssl m \<longrightarrow> handshaken m)
     \<and> (HandshakeEvent \<in> set (inner m @ outer m) \<longrightarrow> handshaken m)"

definition may_write :: "'p http_request \<Rightarrow> bool" where
  "may_write m \<longleftrightarrow> url_ready m \<and> (uses_ssl m \<longrightarrow> handshaken m)"

lemma wire_inv_cong:
  assumes "written v = written m" and "hr_state v = hr_state m" and "uses_ssl v = uses_ssl m"
    and "handshaken v = handshaken m" and "set (inner v @ outer v) \<subseteq> set (inner m @ outer m)"
    and "wire_inv m"
  shows "wire_inv v"
  using assms by (auto simp: wire_inv_def)

lemma write_wire_ok:
  assumes "may_write m" and "\<forall>w \<in> set (written m). wire_ok w"
  shows "\<forall>w \<in> set (written (write_wire t m)). wire_ok w"
  using assms by (auto simp: write_wire_def may_write_def url_ready_def)

lemmas all_entries = DoInit_def Resolve_entry_def Connect_entry_def ProxyConnect_entry_def SSLHandshake_entry_def
  SendHeader_entry_def SendPost_entry_def PostViaInterface_def ReadHeaders_entry_def ParseHeaders_entry_def
  Redirect_entry_def Error_entry_def FinalError_entry_def Complete_entry_def ReadContent_entry_def

lemma entry_written:
  assumes "\<forall>w \<in> set (written x). wire_ok w" and "st \<in> {SendHeader, SendPost} \<longrightarrow> may_write x"
  shows "\<forall>w \<in> set (written (state_entry lib env st ev x)). wire_ok w"
proof -
  have keep: "written (state_entry lib env st ev x) = written x" if "st \<notin> {ProxyConnect, SendHeader, SendPost}"
    using that
    by (cases st)
       (simp_all add: all_entries machine_defs verify_def Let_def
          split: option.split http_event.split prod.split retrieved.split)
  show ?thesis
  proof (cases "st \<in> {ProxyConnect, SendHeader, SendPost}")
    case False
    then show ?thesis using keep assms(1) by simp
  next
    case True
    then show ?thesis
      using assms
      by (auto simp: all_entries machine_defs verify_def Let_def may_write_def url_ready_def
          split: option.splits prod.splits retrieved.splits if_splits)
  qed
qed

lemma content_outcome_neq [simp]: "HandshakeEvent \<noteq> content_outcome e"
  by (cases e) (simp_all add: failure_def)

lemma entry_events:
  "HandshakeEvent \<in> set (inner (state_entry lib env st ev x)) \<Longrightarrow> HandshakeEvent \<in> set (inner x)"
  "outer (state_entry lib env st ev x) = outer x"
proof -
  have "HandshakeEvent \<in> set (inner (state_entry lib env st ev x)) \<longrightarrow> HandshakeEvent \<in> set (inner x)"
    by (cases st)
       (simp_all add: all_entries machine_defs verify_def Let_def
          split: option.split http_event.split prod.split retrieved.split)
  then show "HandshakeEvent \<in> set (inner (state_entry lib env st ev x)) \<Longrightarrow> HandshakeEvent \<in> set (inner x)"
    by blast
  show "outer (state_entry lib env st ev x) = outer x"
    by (cases st)
       (simp_all add: all_entries machine_defs verify_def Let_def
          split: option.split http_event.split prod.split retrieved.split)
qed

lemma entry_ssl:
  assumes "st \<in> {SendHeader, SendPost}"
  shows "uses_ssl (state_entry lib env st ev x) = uses_ssl x"
    and "handshaken (state_entry lib env st ev x) = handshaken x"
  using assms
  by (cases st, simp_all add: all_entries machine_defs verify_def Let_def
        split: option.split prod.split retrieved.split)+

section \<open>Transitions\<close>

lemma fired_alone:
  assumes "machine_inv m"
    and "inner m = ev # evs \<and> v = m\<lparr>inner := evs\<rparr> \<or> inner m = [] \<and> outer m = ev # evs \<and> v = m\<lparr>outer := evs\<rparr>"
    and "\<not> finished m"
  shows "v = m\<lparr>inner := [], outer := []\<rparr> \<and> inner m @ outer m = [ev]"
  using assms by (auto simp: machine_inv_def situation_def Cons_eq_append_conv split: if_splits)

lemma wire_frame:
  "written (config_action lib ev (state_exit m)) = written m"
  "handshaken (config_action lib ev (state_exit m)) = handshaken m"
  "inner (config_action lib ev (state_exit m)) = inner m"
  "outer (config_action lib ev (state_exit m)) = outer m"
  "socket (config_action lib ev (state_exit m)) = socket m"
  "parsed_url (config_action lib ev (state_exit m)) = parsed_url m"
  "uses_ssl (config_action lib ev (state_exit m)) = uses_ssl m"
proof -
  have "written (apply_config lib c w) = written w \<and> handshaken (apply_config lib c w) = handshaken w
      \<and> inner (apply_config lib c w) = inner w \<and> outer (apply_config lib c w) = outer w
      \<and> socket (apply_config lib c w) = socket w \<and> parsed_url (apply_config lib c w) = parsed_url w
      \<and> uses_ssl (apply_config lib c w) = uses_ssl w" for c w
    by (cases c) (simp_all add: SetPostInterface_def SetPostData_def)
  moreover have "written (state_exit m) = written m" "handshaken (state_exit m) = handshaken m"
    "inner (state_exit m) = inner m" "outer (state_exit m) = outer m"
    by (simp_all add: state_exit_def)
  ultimately show
    "written (config_action lib ev (state_exit m)) = written m"
    "handshaken (config_action lib ev (state_exit m)) = handshaken m"
    "inner (config_action lib ev (state_exit m)) = inner m"
    "outer (config_action lib ev (state_exit m)) = outer m"
    "socket (config_action lib ev (state_exit m)) = socket m"
    "parsed_url (config_action lib ev (state_exit m)) = parsed_url m"
    "uses_ssl (config_action lib ev (state_exit m)) = uses_ssl m"
    by (simp_all add: config_action_def split: http_event.split)
qed

lemma fire_wire_inv:
  assumes inv: "machine_inv m" and wire: "wire_inv m"
    and v: "inner m = ev # evs \<and> v = m\<lparr>inner := evs\<rparr> \<or> inner m = [] \<and> outer m = ev # evs \<and> v = m\<lparr>outer := evs\<rparr>"
  shows "wire_inv (fire lib env ev v)"
proof (cases "finished m \<or> transition_target v ev = None")
  case True
  have "wire_inv v" by (rule wire_inv_cong [OF _ _ _ _ _ wire]) (use v in auto)
  then show ?thesis
    using True v by (intro wire_inv_cong [OF _ _ _ _ _ \<open>wire_inv v\<close>]) (auto simp: fire_def finished_def)
next
  case False
  then have v: "v = m\<lparr>inner := [], outer := []\<rparr>" and ev: "inner m @ outer m = [ev]"
    using fired_alone [OF inv v] by simp_all
  obtain target where t: "step_target (hr_state m) (kind ev) m = Some target"
    using False by (auto simp: v transition_target_eq)
  define x where "x = config_action lib ev (state_exit v)"
  have fire: "fire lib env ev v = (state_entry lib env target ev x)\<lparr>hr_state := target\<rparr>"
    using t False by (simp add: fire_def finished_def x_def v transition_target_eq)
  have x: "written x = written m" "handshaken x = handshaken m" "inner x = []" "outer x = []"
    "socket x = socket m" "parsed_url x = parsed_url m" "uses_ssl x = uses_ssl m"
    by (simp_all add: x_def v wire_frame)
  have may: "may_write x" if "target \<in> {SendHeader, SendPost}"
  proof -
    have "steady (hr_state m)"
      using t that by (cases "hr_state m") (auto simp: steady_def split: if_splits)
    then have "url_ready x" using inv_ready [OF inv] x url_ready_cong [of x m] by simp
    moreover have "handshaken m" if "uses_ssl m"
    proof (cases "hr_state m = SSLHandshake")
      case True
      then have "ev = HandshakeEvent"
        using t \<open>target \<in> _\<close> by (cases ev) (auto split: if_splits)
      then show ?thesis using wire ev by (auto simp: wire_inv_def)
    next
      case False
      then have "hr_state m = SendHeader"
        using t that \<open>target \<in> _\<close> by (cases "hr_state m") (auto split: if_splits)
      then show ?thesis using wire that by (simp add: wire_inv_def)
    qed
    ultimately show ?thesis by (simp add: may_write_def x)
  qed
  have "\<forall>w \<in> set (written x). wire_ok w" using wire by (simp add: x wire_inv_def)
  note written = entry_written [OF this impI [OF may]]
  moreover have "HandshakeEvent \<notin> set (inner (state_entry lib env target ev x) @ outer (state_entry lib env target ev x))"
    using entry_events(1) [of lib env target ev x] by (auto simp: entry_events(2) x)
  ultimately show ?thesis
    using may entry_ssl [of target lib env ev x] by (auto simp: fire wire_inv_def may_write_def)
qed

section \<open>Completions\<close>

definition wire_view where
  "wire_view m = (written m, hr_state m, uses_ssl m, handshaken m)"

lemma accept_wire: "accept d r m = Some w \<Longrightarrow> wire_view w = wire_view m \<and> inner w = inner m \<and> outer w = outer m
    \<and> state_data m = Some d"
  by (auto simp: accept_def wire_view_def machine_defs split: if_splits)

lemma completion_wire:
  assumes "\<not> is_delay opn" and "opn \<noteq> Op_Handshake"
  shows "wire_view (complete_op lib (opn, d, r) res m) = wire_view m
    \<and> (HandshakeEvent \<in> set (inner (complete_op lib (opn, d, r) res m) @ outer (complete_op lib (opn, d, r) res m))
        \<longrightarrow> HandshakeEvent \<in> set (inner m @ outer m))"
  using assms
  by (cases opn)
     (simp_all add: wire_view_def HandleResolve_def HandleConnect_def HandleHeaderWrite_def handle_simple_def
        HandleProxyConnectWrite_def HandleProxyHeaderRead_def HandleHeaderRead_def HandlePostWrite_def
        PostViaInterface_def accept_def machine_defs verify_def Let_def
        split: option.split op_result.split retrieved.split prod.split)

lemma handshake_wire:
  assumes "wire_inv m" and "quiet m"
  shows "wire_inv (HandleHandshake d r res m)"
proof -
  define w where "w = (if res \<noteq> Op_Failed \<and> state_data m = Some d then m\<lparr>handshaken := True\<rparr> else m)"
  have w: "wire_inv w" "quiet w" using assms by (auto simp: w_def wire_inv_def quiet_def)
  show ?thesis
  proof (cases "accept d r w")
    case None
    then show ?thesis using w by (simp add: HandleHandshake_def handle_simple_def w_def)
  next
    case (Some y)
    note y = accept_wire [OF Some]
    have "handshaken y" if "res \<noteq> Op_Failed"
      using that y by (auto simp: w_def wire_view_def split: if_splits)
    then have "wire_inv (dispatch [if res = Op_Failed then failure SslHandshakeFailure else HandshakeEvent] y)"
      using w y by (auto simp: wire_inv_def wire_view_def quiet_def dispatch_def failure_def)
    then show ?thesis using Some by (simp add: HandleHandshake_def handle_simple_def w_def)
  qed
qed

lemma delay_wire:
  assumes "machine_inv m" and "wire_inv m" and "quiet m" and "(Op_Post_Delay b, d, r) \<in> set (pending m)"
  shows "wire_inv (PostViaInterfaceDelayCallback b d res (without (Op_Post_Delay b, d, r) m))"
proof (cases "res = Op_Failed \<or> state_data m \<noteq> Some d \<or> \<not> delay_enabled m")
  case True
  have "wire_inv (without (Op_Post_Delay b, d, r) m)"
    by (rule wire_inv_cong [OF _ _ _ _ _ assms(2)]) (simp_all add: without_def)
  then show ?thesis using True by (auto simp: PostViaInterfaceDelayCallback_def without_def)
next
  case False
  define x where "x = SetAsyncTimeout ((without (Op_Post_Delay b, d, r) m)\<lparr>delay_enabled := False\<rparr>)"
  have live: "op_of (hr_state m) (Op_Post_Delay b)" "steady (hr_state m)"
    using live_op [OF assms(1,3) _ assms(4)] False by simp_all
  then have "hr_state m = SendPost" by (cases "hr_state m") simp_all
  then have "may_write m" using inv_ready [OF assms(1) live(2)] assms(2) by (simp add: may_write_def wire_inv_def)
  then have "may_write x"
    by (simp add: x_def may_write_def url_ready_def machine_defs verify_def without_def)
  moreover have "\<forall>w \<in> set (written x). wire_ok w"
    using assms(2) by (simp add: x_def machine_defs verify_def without_def wire_inv_def)
  ultimately have "\<forall>w \<in> set (written (write_wire b x)). wire_ok w" by (rule write_wire_ok)
  moreover have "handshaken x = handshaken m" "uses_ssl x = uses_ssl m" "hr_state x = hr_state m"
    "inner x = inner m" "outer x = outer m"
    by (simp_all add: x_def machine_defs verify_def without_def)
  moreover have "PostViaInterfaceDelayCallback b d res (without (Op_Post_Delay b, d, r) m)
      = start_op Op_Post_Write (write_wire b x)"
    using False by (simp add: PostViaInterfaceDelayCallback_def x_def without_def)
  ultimately show ?thesis using assms(2,3) by (auto simp: wire_inv_def start_op_def write_wire_def quiet_def)
qed

lemma wire_inv_step:
  assumes "http_step lib gunzip m m'" and inv: "machine_inv m" and wire: "wire_inv m"
  shows "wire_inv m'"
  using assms(1)
proof cases
  case (Inner ev evs env)
  show ?thesis unfolding Inner(1) by (rule fire_wire_inv [OF inv wire]) (use Inner(2) in simp)
next
  case (Outer ev evs env)
  show ?thesis unfolding Outer(1) by (rule fire_wire_inv [OF inv wire]) (use Outer(2,3) in simp)
next
  case (User ev)
  then show ?thesis using wire by (auto simp: wire_inv_def dispatch_def user_may_def)
next
  case (Operation t res)
  obtain opn d r where t: "t = (opn, d, r)" by (cases t)
  have keep: "wire_inv (without t m)" by (rule wire_inv_cong [OF _ _ _ _ _ wire]) (simp_all add: without_def)
  consider (delay) b where "opn = Op_Post_Delay b" | (handshake) "opn = Op_Handshake"
    | (other) "\<not> is_delay opn" "opn \<noteq> Op_Handshake"
    by (cases opn) auto
  then show ?thesis
  proof cases
    case delay
    then show ?thesis
      using delay_wire [OF inv wire Operation(2)] Operation(1,3) by (simp add: t without_def)
  next
    case handshake
    then show ?thesis
      using handshake_wire [OF keep] Operation(1,2) by (simp add: t without_def quiet_def)
  next
    case other
    show ?thesis
      using completion_wire [OF other, of lib d r res "without t m"] keep
      unfolding Operation(1) t without_def [symmetric] wire_inv_def wire_view_def by auto
  qed
next
  case (Timer t aborted)
  show ?thesis
    unfolding Timer(1) using wire
    by (auto simp: wire_inv_def HandleTimer_def machine_defs Let_def)
next
  case (Content r r')
  show ?thesis
    unfolding Content(1) using wire
    by (auto simp: wire_inv_def content_update_def machine_defs Let_def split: option.split)
next
  case (Content_Timeout r)
  show ?thesis
    unfolding Content_Timeout(1) using wire
    by (auto simp: wire_inv_def content_update_def machine_defs Let_def split: option.split)
qed

lemma wire_inv_reachable:
  assumes "http_reachable lib gunzip m" and "pipe_ok lib"
  shows "wire_inv m"
  using assms(1)
proof (induction rule: http_reachable.induct)
  case (Begin config url_string time)
  show ?case by (simp add: wire_inv_def HttpRequest_def)
next
  case (Step m m')
  then show ?case using wire_inv_step http_reachable_inv assms(2) by blast
qed

text \<open>
  C5: what a request writes for an https URL goes through SSL and only once the handshake of that
  connection has succeeded; only an http URL is written in the clear, and a proxy gets nothing but
  the CONNECT head in the clear for an https URL.
\<close>

theorem http_secret_only_over_tls:
  assumes "http_reachable lib gunzip m" and "pipe_ok lib" and "w \<in> set (written m)"
  shows "case w of
      To_Proxy u t \<Rightarrow> \<exists>p. t = connect_head u p
    | Plain u t \<Rightarrow> scheme u = ''http''
    | Tls u h t \<Rightarrow> scheme u = ''https'' \<and> h"
proof -
  have "wire_ok w" using wire_inv_reachable [OF assms(1,2)] assms(3) by (simp add: wire_inv_def)
  then show ?thesis by (cases w) (simp_all add: wire_ok.simps(1))
qed

section \<open>A request over SSL\<close>

text \<open>A run as a list of what happens next\<close>

datatype 'p move = Process http_env | Do "'p http_event" | Finish op_result | Expire

fun move_one :: "'p pipe_interface \<Rightarrow> 'p move \<Rightarrow> 'p http_request \<Rightarrow> 'p http_request option" where
  "move_one lib (Process env) m =
     (case inner m of
        ev # evs \<Rightarrow> Some (fire lib env ev (m\<lparr>inner := evs\<rparr>))
      | [] \<Rightarrow> (case outer m of ev # evs \<Rightarrow> Some (fire lib env ev (m\<lparr>outer := evs\<rparr>)) | [] \<Rightarrow> None))"
| "move_one lib (Do ev) m = (if quiet m \<and> user_may ev m then Some (dispatch [ev] m) else None)"
| "move_one lib (Finish res) m =
     (case pending m of
        t # ts \<Rightarrow>
          if quiet m \<and> completion_possible t res m then Some (complete_op lib t res (m\<lparr>pending := ts\<rparr>)) else None
      | [] \<Rightarrow> None)"
| "move_one lib Expire m =
     (if quiet m \<and> timeout_id m \<in> set (timers m) then Some (HandleTimer (timeout_id m) False m) else None)"

fun run :: "'p pipe_interface \<Rightarrow> 'p move list \<Rightarrow> 'p http_request \<Rightarrow> 'p http_request option" where
  "run lib [] m = Some m"
| "run lib (v # vs) m = (case move_one lib v m of None \<Rightarrow> None | Some m' \<Rightarrow> run lib vs m')"

lemma move_step: "move_one lib v m = Some m' \<Longrightarrow> http_step lib gunzip m m'"
proof (induction lib v m rule: move_one.induct)
  case (3 lib res m)
  then obtain t ts where t: "pending m = t # ts" "quiet m" "completion_possible t res m"
    "m' = complete_op lib t res (m\<lparr>pending := ts\<rparr>)"
    by (auto split: list.splits if_splits)
  then show ?case using Operation [of m t res lib gunzip] by simp
qed (auto split: list.splits if_splits intro: Inner Outer User Timer)

lemma run_reachable:
  "run lib vs m = Some m' \<Longrightarrow> http_reachable lib gunzip m \<Longrightarrow> http_reachable lib gunzip m'"
proof (induction vs arbitrary: m)
  case (Cons v vs)
  then obtain w where "move_one lib v m = Some w" "run lib vs w = Some m'" by (auto split: option.splits)
  then show ?case using Cons http_reachable.Step [OF _ move_step] by blast
qed simp

lemma run_the:
  assumes "run lib vs (HttpRequest config url_string time) \<noteq> None"
  shows "http_reachable lib gunzip (the (run lib vs (HttpRequest config url_string time)))"
  using assms by (auto simp del: run.simps intro: run_reachable [OF _ Begin])

text \<open>Started, resolved, connected and shaken hands\<close>

definition ex_moves :: "unit move list" where
  "ex_moves = [Do StartEvent, Process ex_env, Process ex_env, Finish (Op_Done [] 0), Process ex_env,
     Finish (Op_Done [] 0), Process ex_env, Finish (Op_Done [] 0), Process ex_env]"

definition ex_secret :: "unit http_request" where
  "ex_secret = the (run ex_pipe ex_moves (HttpRequest HttpConfig ''https://h/x'' 0))"

lemma ex_secret_some: "run ex_pipe ex_moves (HttpRequest HttpConfig ''https://h/x'' 0) \<noteq> None"
  by code_simp

lemma ex_secret_reachable: "http_reachable ex_pipe gunzip ex_secret"
  unfolding ex_secret_def by (rule run_the [OF ex_secret_some])

lemma ex_secret_state:
  "hr_state ex_secret = SendHeader \<and> length (written ex_secret) = 1
     \<and> (case hd (written ex_secret) of Tls u h t \<Rightarrow> True | _ \<Rightarrow> False)"
  by code_simp

theorem http_secret_only_over_tls_witness:
  "\<exists>u t. written ex_secret = [Tls u True t] \<and> scheme u = ''https''"
proof -
  obtain u h t where w: "written ex_secret = [Tls u h t]"
    using ex_secret_state by (cases "written ex_secret") (auto split: wire.splits)
  then show ?thesis
    using http_secret_only_over_tls [OF ex_secret_reachable pipe_ok_ex, of "Tls u h t"] by simp
qed

end
