(* ===== verification/Http_Outcome.thy ===== *)
theory Http_Outcome
  imports Http_Wire
begin

text \<open>
  What the user of an HTTP request can rely on: it hears of one end, and nothing after it, and a
  redirect goes only where the policy allows.
\<close>

section \<open>One end\<close>

fun is_final :: "http_callback \<Rightarrow> bool" where
  "is_final (RequestResponseErrorEvent _) = True"
| "is_final RequestResponseCompleteEvent = True"
| "is_final _ = False"

definition told_end :: "'p http_request \<Rightarrow> bool" where
  "told_end m \<longleftrightarrow>
     (if finished m then hr_callbacks m \<noteq> [] \<and> is_final (last (hr_callbacks m))
        \<and> (last (hr_callbacks m) = RequestResponseCompleteEvent \<longleftrightarrow> hr_state m = Complete)
        \<and> (\<forall>c \<in> set (butlast (hr_callbacks m)). \<not> is_final c)
      else \<forall>c \<in> set (hr_callbacks m). \<not> is_final c)"

lemma callbacks_entry:
  assumes "st \<noteq> FinalError" and "st \<noteq> Complete"
  shows "\<exists>cs. hr_callbacks (state_entry lib env st ev m) = hr_callbacks m @ cs \<and> (\<forall>c \<in> set cs. \<not> is_final c)"
  using assms
  by (cases st)
     (simp_all add: DoInit_def Resolve_entry_def Connect_entry_def ProxyConnect_entry_def SSLHandshake_entry_def
        SendHeader_entry_def SendPost_entry_def PostViaInterface_def ReadHeaders_entry_def ParseHeaders_entry_def
        Redirect_entry_def Error_entry_def ReadContent_entry_def machine_defs verify_def Let_def
        split: option.split http_event.split prod.split retrieved.split)

lemma callbacks_frame [simp]:
  "hr_callbacks (state_exit m) = hr_callbacks m" "hr_callbacks (config_action lib ev m) = hr_callbacks m"
proof -
  have "hr_callbacks (apply_config lib v m) = hr_callbacks m" for v
    by (cases v) (simp_all add: SetPostInterface_def SetPostData_def)
  then show "hr_callbacks (config_action lib ev m) = hr_callbacks m"
    by (simp add: config_action_def split: http_event.split)
qed (simp add: state_exit_def)

lemma fire_told_end:
  assumes "told_end m"
  shows "told_end (fire lib env ev m)"
proof (cases "finished m \<or> transition_target m ev = None")
  case True
  then show ?thesis using assms by (auto simp: fire_def finished_def told_end_def)
next
  case False
  then obtain target where t: "transition_target m ev = Some target" "\<not> finished m" by auto
  define x where "x = config_action lib ev (state_exit m)"
  have fire: "fire lib env ev m = (state_entry lib env target ev x)\<lparr>hr_state := target\<rparr>"
    using t by (simp add: fire_def finished_def x_def)
  have cs: "hr_callbacks x = hr_callbacks m" by (simp add: x_def)
  have none: "\<forall>c \<in> set (hr_callbacks m). \<not> is_final c" using assms t(2) by (simp add: told_end_def)
  show ?thesis
  proof (cases "target = FinalError \<or> target = Complete")
    case True
    then have "target = FinalError \<longrightarrow> kind ev = K_Error"
      using t(1) by (cases "hr_state m") (auto simp: transition_target_eq split: if_splits)
    then have "\<exists>c. is_final c \<and> (c = RequestResponseCompleteEvent \<longleftrightarrow> target = Complete)
        \<and> hr_callbacks (state_entry lib env target ev x) = hr_callbacks x @ [c]"
      using True by (cases ev) (auto simp: FinalError_entry_def Complete_entry_def machine_defs)
    then show ?thesis using True none by (auto simp: fire told_end_def finished_def cs butlast_append)
  next
    case False
    then show ?thesis
      using callbacks_entry [of target lib env ev x] none by (auto simp: fire told_end_def finished_def cs)
  qed
qed

lemma complete_op_callbacks: "hr_callbacks (complete_op lib t res m) = hr_callbacks m"
  by (cases "(lib, t, res, m)" rule: complete_op.cases)
     (simp_all add: HandleResolve_def HandleConnect_def HandleHeaderWrite_def HandleHandshake_def handle_simple_def
        HandleProxyConnectWrite_def HandleProxyHeaderRead_def HandleHeaderRead_def HandlePostWrite_def
        PostViaInterfaceDelayCallback_def PostViaInterface_def accept_def machine_defs verify_def Let_def
        split: option.split op_result.split retrieved.split prod.split)

lemma told_end_cong:
  "hr_callbacks v = hr_callbacks m \<Longrightarrow> hr_state v = hr_state m \<Longrightarrow> told_end m \<Longrightarrow> told_end v"
  by (simp add: told_end_def finished_def)

lemma content_told_end:
  assumes "told_end m" and "\<not> finished m \<or> delivered r' = delivered r"
  shows "told_end (content_update r r' m)"
proof -
  have "hr_callbacks (content_update r r' m) = hr_callbacks m
      @ map (\<lambda>(p, b). ResponseContentReceived p b) (drop (length (delivered r)) (delivered r'))"
    by (simp add: content_update_def machine_defs Let_def split: option.split)
  moreover have "finished (content_update r r' m) = finished m" by (simp add: finished_def)
  ultimately show ?thesis using assms by (auto simp: told_end_def)
qed

lemma told_end_step:
  assumes "http_step lib gunzip m m'" and "told_end m" and "reader_inv m"
  shows "told_end m'"
  using assms(1)
proof cases
  case (Inner ev evs env)
  show ?thesis unfolding Inner(1) by (rule fire_told_end, rule told_end_cong [OF _ _ assms(2)]) simp_all
next
  case (Outer ev evs env)
  show ?thesis unfolding Outer(1) by (rule fire_told_end, rule told_end_cong [OF _ _ assms(2)]) simp_all
next
  case (User ev)
  show ?thesis unfolding User(1) by (rule told_end_cong [OF _ _ assms(2)]) (simp_all add: dispatch_def)
next
  case (Operation t res)
  show ?thesis
    unfolding Operation(1)
    by (rule told_end_cong [OF _ _ assms(2)]) (simp_all add: complete_op_callbacks complete_op_frame)
next
  case (Timer t aborted)
  show ?thesis
    unfolding Timer(1)
    by (rule told_end_cong [OF _ _ assms(2)]) (simp_all add: HandleTimer_def machine_defs Let_def)
next
  case (Content r r')
  have "\<not> finished m \<or> cancelled r"
    using assms(3) Content(3) by (auto simp: reader_inv_def finished_def)
  then show ?thesis unfolding Content(1) using cancelled_step [OF Content(4)] by (intro content_told_end [OF assms(2)]) auto
next
  case (Content_Timeout r)
  then have "\<not> finished m" using assms(3) by (auto simp: reader_inv_def finished_def)
  then show ?thesis unfolding Content_Timeout(1) by (intro content_told_end [OF assms(2)]) simp
qed

lemma told_end_reachable:
  assumes "http_reachable lib gunzip m"
  shows "told_end m"
  using assms
proof (induction rule: http_reachable.induct)
  case (Begin config url_string time)
  show ?case by (simp add: told_end_def finished_def HttpRequest_def)
next
  case (Step m m')
  then show ?case using told_end_step http_reachable_inv by blast
qed

text \<open>
  C7: the callback of a request hears of exactly one end, an error or the completion, when the request
  is over and not before, and that is the last thing it hears: no headers and no content come
  later, whatever completes, expires or is cancelled then.
\<close>

theorem http_one_end:
  assumes "http_reachable lib gunzip m"
  shows "if finished m then hr_callbacks m \<noteq> [] \<and> is_final (last (hr_callbacks m))
        \<and> (\<forall>c \<in> set (butlast (hr_callbacks m)). \<not> is_final c)
      else \<forall>c \<in> set (hr_callbacks m). \<not> is_final c"
  using told_end_reachable [OF assms] by (simp add: told_end_def)

text \<open>Started, and cancelled while the name of the host is resolved\<close>

definition ex_cancelled :: "unit http_request" where
  "ex_cancelled = the (run ex_pipe
     [Do StartEvent, Process ex_env, Process ex_env, Do (Ev_Error (http_error_error Cancelled)),
      Process ex_env, Process ex_env] (HttpRequest HttpConfig ''http://h/x'' 0))"

lemma ex_cancelled_some: "run ex_pipe
     [Do StartEvent, Process ex_env, Process ex_env, Do (Ev_Error (http_error_error Cancelled)),
      Process ex_env, Process ex_env] (HttpRequest HttpConfig ''http://h/x'' 0) \<noteq> None"
  by code_simp

lemma ex_cancelled_reachable: "http_reachable ex_pipe gunzip ex_cancelled"
  unfolding ex_cancelled_def by (rule run_the [OF ex_cancelled_some])

lemma ex_cancelled_finished: "finished ex_cancelled \<and> hr_state ex_cancelled = FinalError"
  by code_simp

theorem http_one_end_witness: "hr_callbacks ex_cancelled \<noteq> [] \<and> is_final (last (hr_callbacks ex_cancelled))"
  using http_one_end [OF ex_cancelled_reachable] ex_cancelled_finished by simp

section \<open>The facade\<close>

text \<open>What the methods of \<^verbatim>\<open>HttpRequest\<close> make of a call\<close>

datatype 'p request_call = Call_SetPostData string | Call_SetPostDataPipe 'p | Call_SetHeader string string
  | Call_SetRequestMethod string | Call_Start | Call_Cancel | Call_Fail error_code | Call_SetTimeout nat

fun request_event :: "'p request_call \<Rightarrow> 'p http_event" where
  "request_event (Call_SetPostData d) = ConfigEvent (ConfigPostData d)"
| "request_event (Call_SetPostDataPipe p) = ConfigEvent (ConfigPostDataPipe p)"
| "request_event (Call_SetHeader n v) = ConfigEvent (ConfigHeader n v)"
| "request_event (Call_SetRequestMethod s) = ConfigEvent (ConfigRequestMethod s)"
| "request_event Call_Start = StartEvent"
| "request_event Call_Cancel = Ev_Error (http_error_error Cancelled)"
| "request_event (Call_Fail ec) = Ev_Error ec"
| "request_event (Call_SetTimeout t) = ConfigEvent (ConfigTimeout t)"

text \<open>
  The handler behind a request that is created with a function: it collects the response and calls
  the function at the end. \<^const>\<open>None\<close> is the error code that was never set.
\<close>

record CallbackResponse =
  cr_error_code :: "error_code option"
  redirects :: "string list"
  cr_headers :: "Headers option"
  response_content :: "char option list"

definition new_response :: CallbackResponse where
  "new_response = \<lparr>cr_error_code = None, redirects = [], cr_headers = None, response_content = []\<rparr>"

fun Handler :: "http_callback \<Rightarrow> CallbackResponse \<Rightarrow> CallbackResponse" where
  "Handler (RedirectHeaderReceived hs u) r = r\<lparr>redirects := redirects r @ [full_url u]\<rparr>"
| "Handler (ResponseHeaderReceived hs) r = r\<lparr>cr_headers := Some hs\<rparr>"
| "Handler (ResponseContentReceived p b) r = r\<lparr>response_content := response_content r @ b\<rparr>"
| "Handler (RequestResponseErrorEvent ec) r = r\<lparr>cr_error_code := Some ec\<rparr>"
| "Handler RequestResponseCompleteEvent r = r"

text \<open>What the function is called with\<close>

fun Handler_calls :: "CallbackResponse \<Rightarrow> http_callback list \<Rightarrow> CallbackResponse list" where
  "Handler_calls r [] = []"
| "Handler_calls r (c # cs) =
     (if is_final c then [Handler c r] else []) @ Handler_calls (Handler c r) cs"

lemma Handler_calls_append: "Handler_calls r (cs @ ds) = Handler_calls r cs @ Handler_calls (fold Handler cs r) ds"
  by (induction cs arbitrary: r) simp_all

lemma Handler_calls_none: "\<forall>c \<in> set cs. \<not> is_final c \<Longrightarrow> Handler_calls r cs = []"
  by (induction cs arbitrary: r) simp_all

fun piece :: "http_callback \<Rightarrow> char option list" where
  "piece (ResponseContentReceived p b) = b"
| "piece _ = []"

fun redirect_to :: "http_callback \<Rightarrow> string list" where
  "redirect_to (RedirectHeaderReceived hs u) = [full_url u]"
| "redirect_to _ = []"

lemma fold_Handler:
  assumes "\<forall>c \<in> set cs. \<not> is_final c"
  shows "response_content (fold Handler cs r) = response_content r @ concat (map piece cs)
    \<and> redirects (fold Handler cs r) = redirects r @ concat (map redirect_to cs)
    \<and> cr_error_code (fold Handler cs r) = cr_error_code r"
  using assms
proof (induction cs arbitrary: r)
  case (Cons c cs)
  then show ?case by (cases c) simp_all
qed simp



section \<open>Where a request goes\<close>

definition redirect_allowed :: "RedirectPolicy \<Rightarrow> (url \<times> bool) list \<Rightarrow> url \<Rightarrow> bool" where
  "redirect_allowed policy us u = (case policy of
     Deny \<Rightarrow> u = fst (hd us)
   | DenyDowngrade \<Rightarrow> (\<exists>x \<in> set us. snd x) \<longrightarrow> scheme u \<noteq> ''http''
   | Allow \<Rightarrow> True)"

definition visits_ok :: "RedirectPolicy \<Rightarrow> (url \<times> bool) list \<Rightarrow> bool" where
  "visits_ok policy us \<longleftrightarrow>
     (policy = Deny \<longrightarrow> (\<forall>x \<in> set us. fst x = fst (hd us)))
     \<and> (policy = DenyDowngrade \<longrightarrow> sorted (map snd us))"

definition visit_inv :: "'p http_request \<Rightarrow> bool" where
  "visit_inv m \<longleftrightarrow>
     visits_ok (redirect_policy m) (visited m)
     \<and> (\<forall>(u, s) \<in> set (visited m). scheme u = (if s then ''https'' else ''http''))
     \<and> (visited m \<noteq> [] \<longrightarrow> uses_ssl m = snd (last (visited m))
          \<and> (\<exists>u. parsed_url m = Some u \<and> redirect_allowed (redirect_policy m) (visited m) u))
     \<and> (hr_state m = Unstarted \<longrightarrow> visited m = [])"

text \<open>What the invariant looks at\<close>

definition visit_view where
  "visit_view m = (redirect_policy m, visited m, uses_ssl m, parsed_url m)"

lemma visit_inv_cong:
  "visit_view v = visit_view m \<Longrightarrow> (hr_state v = Unstarted \<longrightarrow> hr_state m = Unstarted) \<Longrightarrow> visit_inv m \<Longrightarrow> visit_inv v"
  by (simp add: visit_inv_def visit_view_def)

lemma visit_view_entry:
  "st \<noteq> Initializing \<Longrightarrow> st \<noteq> Redirect \<Longrightarrow> visit_view (state_entry lib env st ev m) = visit_view m"
  by (cases st)
     (simp_all add: visit_view_def Resolve_entry_def Connect_entry_def ProxyConnect_entry_def SSLHandshake_entry_def
        SendHeader_entry_def SendPost_entry_def PostViaInterface_def ReadHeaders_entry_def ParseHeaders_entry_def
        Error_entry_def FinalError_entry_def Complete_entry_def ReadContent_entry_def machine_defs verify_def Let_def
        split: option.split http_event.split prod.split retrieved.split)

lemma visit_view_complete_op: "visit_view (complete_op lib t res m) = visit_view m"
  by (cases "(lib, t, res, m)" rule: complete_op.cases)
     (simp_all add: visit_view_def HandleResolve_def HandleConnect_def HandleHeaderWrite_def HandleHandshake_def
        handle_simple_def HandleProxyConnectWrite_def HandleProxyHeaderRead_def HandleHeaderRead_def
        HandlePostWrite_def PostViaInterfaceDelayCallback_def PostViaInterface_def accept_def machine_defs
        verify_def Let_def split: option.split op_result.split retrieved.split prod.split)

lemma make_visit:
  assumes "visits_ok policy us" and "us \<noteq> [] \<longrightarrow> redirect_allowed policy us u"
    and "\<forall>(u, s) \<in> set us. scheme u = (if s then ''https'' else ''http'')"
    and "scheme u = (if s then ''https'' else ''http'')"
  shows "visits_ok policy (us @ [(u, s)]) \<and> redirect_allowed policy (us @ [(u, s)]) u"
proof (cases "us = []")
  case True
  then show ?thesis using assms(4) by (auto simp: visits_ok_def redirect_allowed_def split: RedirectPolicy.split)
next
  case False
  then have allowed: "redirect_allowed policy us u" using assms(2) by blast
  show ?thesis
  proof (cases policy)
    case Deny
    define v where "v = fst (hd us)"
    have "u = v" "\<forall>x \<in> set us. fst x = v"
      using allowed assms(1) Deny unfolding visits_ok_def redirect_allowed_def v_def by simp_all
    moreover have "fst (hd (us @ [(u, s)])) = v" using False by (simp add: v_def)
    ultimately show ?thesis using Deny unfolding visits_ok_def redirect_allowed_def by simp
  next
    case DenyDowngrade
    have "s" if "x \<in> set us" "snd x" for x
      using that allowed assms(4) DenyDowngrade by (auto simp: redirect_allowed_def split: if_splits)
    moreover have "s \<Longrightarrow> scheme u \<noteq> ''http''" using assms(4) by simp
    ultimately show ?thesis
      using DenyDowngrade assms(1) by (fastforce simp: visits_ok_def redirect_allowed_def sorted_append)
  next
    case Allow
    then show ?thesis by (simp add: visits_ok_def redirect_allowed_def)
  qed
qed

lemma DoInit_visit:
  assumes "visit_inv m"
  shows "visit_inv ((DoInit m)\<lparr>hr_state := Initializing\<rparr>)"
proof -
  define target where "target = (case parsed_url m of Some u \<Rightarrow> Some u | None \<Rightarrow> Url (url_text m))"
  have DoInit: "DoInit m = (case target of
       None \<Rightarrow> raise_error InvalidUrl (Disconnect m)
     | Some u \<Rightarrow>
         let m = (Disconnect m)\<lparr>parsed_url := Some u\<rparr>
         in if scheme u = ''http'' then raise InitializedEvent (make_socket False u m)
            else if scheme u = ''https'' then raise InitializedEvent (make_socket True u m)
            else raise_error InvalidUrl m)"
    by (cases "parsed_url m") (simp_all add: DoInit_def target_def Disconnect_def Let_def split: option.split)
  show ?thesis
  proof (cases target)
    case None
    then have "parsed_url m = None" by (auto simp: target_def split: option.splits)
    then have "visited m = []" using assms by (auto simp: visit_inv_def)
    then show ?thesis
      using None assms by (simp add: DoInit machine_defs visit_inv_def)
  next
    case (Some u)
    have allowed: "visited m \<noteq> [] \<longrightarrow> redirect_allowed (redirect_policy m) (visited m) u"
      using Some assms by (auto simp: target_def visit_inv_def)
    note step = make_visit [OF _ allowed]
    have inv: "visits_ok (redirect_policy m) (visited m)"
      "\<forall>(u, s) \<in> set (visited m). scheme u = (if s then ''https'' else ''http'')"
      using assms by (simp_all add: visit_inv_def)
    show ?thesis
      using Some allowed assms step [OF inv, of False] step [OF inv, of True]
      by (auto simp: DoInit machine_defs visit_inv_def Let_def)
  qed
qed

lemma Redirect_visit:
  assumes "visit_inv m"
  shows "visit_inv ((Redirect_entry loc m)\<lparr>hr_state := Redirect\<rparr>)"
proof -
  have allowed: "redirect_allowed (redirect_policy m) (visited m) u"
    if "redirect_policy m \<noteq> Deny" "\<not> (redirect_policy m = DenyDowngrade \<and> uses_ssl m \<and> scheme u = ''http'')"
      "visited m \<noteq> []" for u
  proof (cases "redirect_policy m")
    case DenyDowngrade
    then have "sorted (map snd (visited m))" "uses_ssl m = snd (last (visited m))"
      using assms that(3) by (simp_all add: visit_inv_def visits_ok_def)
    moreover have "\<exists>x \<in> set (visited m). snd x \<Longrightarrow> snd (last (visited m))"
      using that(3) calculation(1) by (cases "visited m" rule: rev_cases) (auto simp: sorted_append)
    ultimately show ?thesis using that(2) DenyDowngrade by (auto simp: redirect_allowed_def)
  qed (use that in \<open>simp_all add: redirect_allowed_def\<close>)
  show ?thesis
    using assms allowed by (auto simp: Redirect_entry_def machine_defs visit_inv_def split: option.split)
qed

lemma visited_apply_config [simp]: "visited (apply_config lib c m) = visited m"
  by (cases c) (simp_all add: SetPostInterface_def SetPostData_def)

lemma fire_visit:
  assumes "visit_inv m"
  shows "visit_inv (fire lib env ev m)"
proof (cases "finished m \<or> transition_target m ev = None")
  case True
  then show ?thesis
    by (intro visit_inv_cong [OF _ _ assms]) (auto simp: fire_def finished_def visit_view_def)
next
  case False
  then obtain target where t: "transition_target m ev = Some target" "\<not> finished m" by auto
  define x where "x = config_action lib ev (state_exit m)"
  have fire: "fire lib env ev m = (state_entry lib env target ev x)\<lparr>hr_state := target\<rparr>"
    using t by (simp add: fire_def finished_def x_def)
  have exit: "visit_inv (state_exit m)"
    by (rule visit_inv_cong [OF _ _ assms]) (simp_all add: state_exit_def visit_view_def)
  have x: "visit_inv x"
  proof (cases "\<exists>c. ev = ConfigEvent c")
    case True
    then have "hr_state m = Unstarted"
      using t(1) by (cases "hr_state m") (auto simp: transition_target_eq split: if_splits)
    then have "visited m = []" using assms by (simp add: visit_inv_def)
    then have "visited x = []"
      using True by (auto simp: x_def config_action_def state_exit_def)
    then show ?thesis by (simp add: visit_inv_def visits_ok_def)
  next
    case False
    then have "x = state_exit m" by (auto simp: x_def config_action_def split: http_event.split)
    then show ?thesis using exit by simp
  qed
  show ?thesis
  proof (cases "target = Initializing \<or> target = Redirect")
    case True
    have "target = Redirect \<longrightarrow> (\<exists>evt loc. ev = RedirectEvent evt loc)"
      using t(1) by (cases "hr_state m"; cases ev) (auto simp: transition_target_eq split: if_splits)
    then show ?thesis using True DoInit_visit [OF x] Redirect_visit [OF x] by (auto simp: fire)
  next
    case False
    have "target = Unstarted \<longrightarrow> hr_state m = Unstarted"
      using t(1) step_target_Unstarted by (auto simp: transition_target_eq)
    moreover have "hr_state x = hr_state m" by (simp add: x_def)
    ultimately show ?thesis
      unfolding fire using False visit_view_entry [of target lib env ev x]
      by (intro visit_inv_cong [OF _ _ x]) (simp_all add: visit_view_def)
  qed
qed

lemma visit_inv_step:
  assumes "http_step lib gunzip m m'" and "visit_inv m"
  shows "visit_inv m'"
  using assms(1)
proof cases
  case (Inner ev evs env)
  show ?thesis unfolding Inner(1) by (rule fire_visit, rule visit_inv_cong [OF _ _ assms(2)]) (simp_all add: visit_view_def)
next
  case (Outer ev evs env)
  show ?thesis unfolding Outer(1) by (rule fire_visit, rule visit_inv_cong [OF _ _ assms(2)]) (simp_all add: visit_view_def)
next
  case (User ev)
  show ?thesis unfolding User(1) by (rule visit_inv_cong [OF _ _ assms(2)]) (simp_all add: dispatch_def visit_view_def)
next
  case (Operation t res)
  show ?thesis
    unfolding Operation(1)
    by (rule visit_inv_cong [OF _ _ assms(2)])
       (simp_all add: visit_view_complete_op complete_op_frame, simp add: visit_view_def)
next
  case (Timer t aborted)
  show ?thesis
    unfolding Timer(1)
    by (rule visit_inv_cong [OF _ _ assms(2)]) (simp_all add: HandleTimer_def machine_defs visit_view_def Let_def)
next
  case (Content r r')
  show ?thesis
    unfolding Content(1)
    by (rule visit_inv_cong [OF _ _ assms(2)])
       (simp_all add: content_update_def machine_defs visit_view_def Let_def split: option.split)
next
  case (Content_Timeout r)
  show ?thesis
    unfolding Content_Timeout(1)
    by (rule visit_inv_cong [OF _ _ assms(2)])
       (simp_all add: content_update_def machine_defs visit_view_def Let_def split: option.split)
qed

lemma visit_inv_reachable: "http_reachable lib gunzip m \<Longrightarrow> visit_inv m"
proof (induction rule: http_reachable.induct)
  case (Begin config url_string time)
  show ?case by (simp add: visit_inv_def visits_ok_def HttpRequest_def)
next
  case (Step m m')
  then show ?case using visit_inv_step by blast
qed

text \<open>
  C6: a request that denies redirects only ever connects for the URL it began with, and one that denies
  downgrades never connects without SSL once it has connected with it, over redirects and the
  restarts after timeouts; a socket is for SSL exactly if the URL says https.
\<close>

theorem http_redirect_policy:
  assumes "http_reachable lib gunzip m"
  shows "(redirect_policy m = Deny \<longrightarrow> (\<forall>x \<in> set (visited m). fst x = fst (hd (visited m))))
    \<and> (redirect_policy m = DenyDowngrade \<longrightarrow> sorted (map snd (visited m)))
    \<and> (\<forall>(u, s) \<in> set (visited m). scheme u = (if s then ''https'' else ''http''))"
  using visit_inv_reachable [OF assms] unfolding visit_inv_def visits_ok_def by blast

theorem http_redirect_policy_witness: "visited ex_resolving = [(ex_url, False)] \<and> scheme ex_url = ''http''"
  using http_redirect_policy [OF ex_resolving_reachable] by (simp add: ex_resolving_eq)

end
