(* ===== verification/File_IO.thy ===== *)
theory File_IO
  imports Prelude "HOL-Library.Word"
begin

text \<open>
  \<^verbatim>\<open>utils/fileio.cpp\<close>: the wrapper around a C stream that the hasher and the uploader read
  files with. The stream is the bytes of the file, the position and the two indicators of C;
  \<open>fault\<close> is an offset from which on the device fails. The locale at the end is what the
  clients rely on.
\<close>

section \<open>The C stream\<close>

text \<open>Memory is not bounded here, so the two errors of an allocation do not occur.\<close>

datatype file_io_error = UnknownError | EndOfFile | StreamError | LineTooLong | NotEnoughMemory
  | BufferTooLarge | FileModified

record fileio =
  contents :: string
  pos :: nat
  feof :: bool
  ferror :: bool
  fault :: "nat option"
  size_hint :: nat

definition readable_end :: "fileio \<Rightarrow> nat" where
  "readable_end f = (case fault f of None \<Rightarrow> length (contents f) | Some k \<Rightarrow> min k (length (contents f)))"

definition fread :: "nat \<Rightarrow> fileio \<Rightarrow> string \<times> fileio" where
  "fread n f =
     (let b = take n (drop (pos f) (take (readable_end f) (contents f)));
          f' = f\<lparr>pos := pos f + length b\<rparr>
      in (b, if length b = n then f'
             else if readable_end f < length (contents f) then f'\<lparr>ferror := True\<rparr>
             else f'\<lparr>feof := True\<rparr>))"

text \<open>\<^verbatim>\<open>fgetc\<close> gives \<^const>\<open>None\<close> for \<^verbatim>\<open>EOF\<close>.\<close>

definition fgetc :: "fileio \<Rightarrow> char option \<times> fileio" where
  "fgetc f = (case fread 1 f of (b, f') \<Rightarrow> (case b of [] \<Rightarrow> None | c # _ \<Rightarrow> Some c, f'))"

definition fwrite :: "string \<Rightarrow> fileio \<Rightarrow> nat \<times> fileio" where
  "fwrite b f =
     (let room = (case fault f of None \<Rightarrow> length b | Some k \<Rightarrow> min (length b) (k - pos f));
          c = contents f @ replicate (pos f - length (contents f)) (CHR 0x00);
          f' = f\<lparr>contents := take (pos f) c @ take room b @ drop (pos f + room) c,
                 pos := pos f + room\<rparr>
      in (room, if room < length b then f'\<lparr>ferror := True\<rparr> else f'))"

datatype SeekAnchor = Current | Beginning | End

text \<open>A target before the start of the file is refused; nothing changes then.\<close>

definition fseeko :: "int \<Rightarrow> SeekAnchor \<Rightarrow> fileio \<Rightarrow> bool \<times> fileio" where
  "fseeko offset origin f =
     (let base = (case origin of Current \<Rightarrow> int (pos f) | Beginning \<Rightarrow> 0 | End \<Rightarrow> int (length (contents f)));
          target = base + offset
      in if target < 0 then (False, f) else (True, f\<lparr>pos := nat target, feof := False\<rparr>))"

section \<open>Operations\<close>

definition skDefaultBlockSize :: nat where "skDefaultBlockSize = 64 * 2 ^ 20"
definition skDefaultReadSize :: nat where "skDefaultReadSize = 2 ^ 30"

text \<open>
  \<^verbatim>\<open>FileIO::Open\<close> of an existing file for reading, or the error number of the system; the
  size of the file may be unavailable.
\<close>

definition Open :: "(nat + string) \<Rightarrow> nat option \<Rightarrow> nat option \<Rightarrow> nat + fileio" where
  "Open handle file_size flt = (case handle of
       Inl errno \<Rightarrow> Inl errno
     | Inr c \<Rightarrow> Inr \<lparr>contents = c, pos = 0, feof = False, ferror = False, fault = flt,
                 size_hint = (case file_size of None \<Rightarrow> skDefaultBlockSize
                              | Some n \<Rightarrow> if n = 0 then skDefaultBlockSize else n)\<rparr>)"

definition short_read_error :: "fileio \<Rightarrow> file_io_error" where
  "short_read_error f = (if feof f then EndOfFile else if ferror f then StreamError else UnknownError)"

definition Read :: "nat \<Rightarrow> fileio \<Rightarrow> string \<times> file_io_error option \<times> fileio" where
  "Read buffer_size f =
     (case fread buffer_size f of
        (b, f') \<Rightarrow> (b, if length b \<noteq> buffer_size then Some (short_read_error f') else None, f'))"

text \<open>The read size is never zero in the loop; the test makes the function total.\<close>

function ReadString_loop ::
  "nat \<Rightarrow> nat \<Rightarrow> string \<Rightarrow> file_io_error option \<Rightarrow> fileio \<Rightarrow> string \<times> file_io_error option \<times> fileio" where
  "ReadString_loop desired_bytes read_size buffer read_error f =
     (if read_error = None \<and> length buffer < desired_bytes \<and> 0 < read_size then
        case Read read_size f of
          (b, e, f') \<Rightarrow>
            ReadString_loop desired_bytes
              (min (desired_bytes - (length buffer + length b)) skDefaultBlockSize) (buffer @ b) e f'
      else (buffer, read_error, f))"
  by pat_completeness auto

termination
  by (relation "measure (\<lambda>(d, r, b, e, f). (if e = None then 1 else 0) + (d - length b))")
     (auto simp: Read_def simp flip: length_greater_0_conv split: prod.splits if_splits)

definition ReadString :: "nat \<Rightarrow> fileio \<Rightarrow> string \<times> file_io_error option \<times> fileio" where
  "ReadString desired_bytes f =
     ReadString_loop desired_bytes (min desired_bytes (size_hint f + 1)) [] None f"

text \<open>
  \<open>limit\<close> is \<^const>\<open>skDefaultReadSize\<close>. The character that ends the loop has been taken from the
  stream.
\<close>

function ReadLine_loop ::
  "nat \<Rightarrow> nat \<Rightarrow> string \<Rightarrow> char option \<Rightarrow> fileio \<Rightarrow> string \<times> char option \<times> nat \<times> fileio" where
  "ReadLine_loop limit bytes_consumed lineData inputChar f =
     (if inputChar \<noteq> None \<and> inputChar \<noteq> Some (CHR 0x0A) \<and> bytes_consumed < limit then
        case fgetc f of
          (c, f') \<Rightarrow> ReadLine_loop limit (bytes_consumed + 1) (lineData @ [the inputChar]) c f'
      else (lineData, inputChar, bytes_consumed, f))"
  by pat_completeness auto

termination
  by (relation "measure (\<lambda>(l, n, _). l - n)") auto

definition ReadLine :: "fileio \<Rightarrow> string \<times> file_io_error option \<times> fileio" where
  "ReadLine f =
     (case fgetc f of (c, f1) \<Rightarrow>
        case ReadLine_loop skDefaultReadSize 0 [] c f1 of (lineData, inputChar, bytes_consumed, f') \<Rightarrow>
          (lineData,
           if inputChar = None then Some (short_read_error f')
           else if skDefaultReadSize \<le> bytes_consumed then Some LineTooLong
           else None,
           f'))"

definition Write :: "string \<Rightarrow> fileio \<Rightarrow> nat \<times> file_io_error option \<times> fileio" where
  "Write buffer f =
     (case fwrite buffer f of
        (n, f') \<Rightarrow> (n, if n \<noteq> length buffer then Some (if ferror f' then StreamError else UnknownError)
                      else None, f'))"

definition WriteString :: "string \<Rightarrow> fileio \<Rightarrow> nat \<times> file_io_error option \<times> fileio" where
  "WriteString buffer f = Write buffer f"

text \<open>The offset is unsigned here and signed in \<^verbatim>\<open>fseeko\<close>.\<close>

definition Seek :: "SeekAnchor \<Rightarrow> 64 word \<Rightarrow> fileio \<Rightarrow> file_io_error option \<times> fileio" where
  "Seek anchor offset f =
     (case fseeko (sint offset) anchor f of
        (ok, f') \<Rightarrow> (if ok then None else Some (if ferror f' then StreamError else UnknownError), f'))"

definition Tell :: "fileio \<Rightarrow> nat" where
  "Tell f = pos f"

section \<open>Reading\<close>

definition rest_of :: "fileio \<Rightarrow> string" where
  "rest_of f = drop (pos f) (contents f)"

lemma fread_sound:
  assumes "fault f = None"
  shows "fread n f = (take n (rest_of f),
    f\<lparr>pos := pos f + min n (length (rest_of f)), feof := feof f \<or> length (rest_of f) < n\<rparr>)"
  using assms by (auto simp: fread_def readable_end_def rest_of_def min_def)

lemma Read_sound:
  assumes "fault f = None"
  shows "Read n f = (take n (rest_of f), if length (rest_of f) < n then Some EndOfFile else None,
    f\<lparr>pos := pos f + min n (length (rest_of f)), feof := feof f \<or> length (rest_of f) < n\<rparr>)"
  by (simp add: Read_def fread_sound [OF assms] short_read_error_def)

lemma Read_within:
  assumes "fault f = None" and "n \<le> length (rest_of f)"
  shows "Read n f = (take n (rest_of f), None, f\<lparr>pos := pos f + n\<rparr>)"
  using assms by (cases f) (simp add: Read_sound min_def)

lemma rest_of_update [simp]:
  "rest_of (f\<lparr>feof := e\<rparr>) = rest_of f"
  "rest_of (f\<lparr>pos := pos f + n\<rparr>) = drop n (rest_of f)"
  "rest_of (f\<lparr>pos := Suc (pos f)\<rparr>) = drop 1 (rest_of f)"
  by (simp_all add: rest_of_def add.commute drop_Suc)

declare ReadString_loop.simps [simp del] ReadLine_loop.simps [simp del]

lemma ReadString_loop_done:
  "\<not> length buffer < d \<or> e \<noteq> None \<Longrightarrow> ReadString_loop d r buffer e f = (buffer, e, f)"
  by (subst ReadString_loop.simps) auto

lemma ReadString_loop_sound:
  assumes "fault f = None" and "length buffer < d \<Longrightarrow> 0 < r" and "r \<le> d - length buffer"
  shows "case ReadString_loop d r buffer None f of (bs, e, f') \<Rightarrow>
    bs = buffer @ take (d - length buffer) (rest_of f)
    \<and> e = (if length (rest_of f) < d - length buffer then Some EndOfFile else None)
    \<and> rest_of f' = drop (d - length buffer) (rest_of f) \<and> contents f' = contents f \<and> fault f' = None"
  using assms
proof (induction "d - length buffer" arbitrary: r buffer f rule: less_induct)
  case less
  show ?case
  proof (cases "length buffer < d")
    case False
    then show ?thesis using less.prems(1) by (simp add: ReadString_loop_done)
  next
    case True
    let ?b = "take r (rest_of f)"
    let ?f = "f\<lparr>pos := pos f + min r (length (rest_of f)), feof := feof f \<or> length (rest_of f) < r\<rparr>"
    have step: "ReadString_loop d r buffer None f =
        ReadString_loop d (min (d - (length buffer + length ?b)) skDefaultBlockSize) (buffer @ ?b)
          (if length (rest_of f) < r then Some EndOfFile else None) ?f"
      using True less.prems(2)
      by (subst ReadString_loop.simps) (simp add: Read_sound [OF less.prems(1)])
    show ?thesis
    proof (cases "length (rest_of f) < r")
      case short: True
      then show ?thesis
        using less.prems(1,3) unfolding step by (simp add: ReadString_loop_done)
    next
      case False
      then have len: "length ?b = r" by simp
      have "d - length (buffer @ ?b) < d - length buffer" using True less.prems(2) len by simp
      from less.hyps [OF this, of ?f "min (d - (length buffer + length ?b)) skDefaultBlockSize"]
      have "case ReadString_loop d (min (d - (length buffer + length ?b)) skDefaultBlockSize) (buffer @ ?b) None ?f
          of (bs, e, f') \<Rightarrow> bs = (buffer @ ?b) @ take (d - length (buffer @ ?b)) (rest_of ?f)
          \<and> e = (if length (rest_of ?f) < d - length (buffer @ ?b) then Some EndOfFile else None)
          \<and> rest_of f' = drop (d - length (buffer @ ?b)) (rest_of ?f) \<and> contents f' = contents ?f
          \<and> fault f' = None"
        using less.prems(1) by (simp add: skDefaultBlockSize_def)
      moreover have "take r (rest_of f) @ take (d - (length buffer + r)) (drop r (rest_of f))
          = take (d - length buffer) (rest_of f)"
        using less.prems(3) by (simp add: take_add [symmetric] diff_diff_left [symmetric] del: diff_diff_left)
      moreover have "d - (length buffer + r) + r = d - length buffer" using less.prems(3) by simp
      ultimately show ?thesis
        using False less.prems(3) unfolding step by (auto simp: len split: prod.splits)
    qed
  qed
qed

text \<open>
  \<^verbatim>\<open>ReadString\<close> on a file that can be read returns the next bytes, as many as asked for or
  all that are left, reports the end of the file exactly when there were fewer, and leaves the
  stream behind them, whatever the size hint of the file was.
\<close>

theorem ReadString_exact:
  assumes "fault f = None" and "ReadString d f = (bs, e, f')"
  shows "bs = take d (rest_of f) \<and> e = (if length (rest_of f) < d then Some EndOfFile else None)
    \<and> rest_of f' = drop d (rest_of f) \<and> contents f' = contents f"
  using ReadString_loop_sound [OF assms(1), of "[]" d "min d (size_hint f + 1)"] assms(2)
  by (simp add: ReadString_def)

theorem ReadString_exact_witness:
  "\<exists>f'. ReadString 3 \<lparr>contents = ''ab'', pos = 0, feof = False, ferror = False, fault = None, size_hint = 1\<rparr>
     = (''ab'', Some EndOfFile, f')"
proof -
  let ?f = "\<lparr>contents = ''ab'', pos = 0, feof = False, ferror = False, fault = None, size_hint = 1\<rparr> :: fileio"
  obtain bs e f' where r: "ReadString 3 ?f = (bs, e, f')" by (cases "ReadString 3 ?f")
  show ?thesis using ReadString_exact [OF _ r] r by (simp add: rest_of_def)
qed

text \<open>A read before the end was met, on a device that may fail\<close>

lemma Read_cases:
  assumes "Read n f = (b, ec, f')" and "\<not> feof f"
  obtains (full) "ec = None" "b = take n (rest_of f)" "length b = n" "f' = f\<lparr>pos := pos f + n\<rparr>"
  | (eof) "ec = Some EndOfFile" "b = rest_of f" "length b < n"
  | (broken) "ec = Some StreamError" "fault f \<noteq> None"
proof -
  let ?b = "take n (drop (pos f) (take (readable_end f) (contents f)))"
  have re: "readable_end f \<le> length (contents f)" by (simp add: readable_end_def split: option.split)
  consider "length ?b = n" | "length ?b \<noteq> n" "readable_end f < length (contents f)"
    | "length ?b \<noteq> n" "readable_end f = length (contents f)" using re by linarith
  then show thesis
  proof cases
    case 1
    then have "?b = take n (rest_of f)"
      using re by (simp add: rest_of_def drop_take take_all_iff min_def split: if_splits)
    moreover have "b = ?b" "ec = None" "f' = f\<lparr>pos := pos f + n\<rparr>"
      using 1 assms(1) by (auto simp: Read_def fread_def Let_def)
    ultimately show thesis using 1 by (intro full) simp_all
  next
    case 2
    then have "fault f \<noteq> None" by (cases "fault f") (simp_all add: readable_end_def)
    then show thesis using 2 assms
      by (intro broken) (auto simp: Read_def fread_def Let_def short_read_error_def)
  next
    case 3
    then show thesis using assms
      by (intro eof) (auto simp: Read_def fread_def Let_def short_read_error_def rest_of_def)
  qed
qed

section \<open>Lines\<close>

lemma fgetc_sound:
  assumes "fault f = None"
  shows "fgetc f = (case rest_of f of [] \<Rightarrow> (None, f\<lparr>feof := True\<rparr>)
    | c # _ \<Rightarrow> (Some c, f\<lparr>pos := pos f + 1, feof := feof f\<rparr>))"
  by (cases "rest_of f") (simp_all add: fgetc_def fread_sound [OF assms])

text \<open>The loop with the first character already read.\<close>

lemma ReadLine_loop_sound:
  assumes "fault f = None" and "CHR 0x0A \<notin> set l" and "n + length l \<le> limit"
    and "rest_of f = l @ r" and "r = [] \<or> hd r = CHR 0x0A \<or> n + length l = limit"
  shows "\<exists>f' e. fgetc f = (c, f1) \<longrightarrow> ReadLine_loop limit n buffer c f1 =
    (buffer @ l, if r = [] then None else Some (hd r), n + length l, f')
    \<and> rest_of f' = tl r \<and> (r = [] \<longrightarrow> feof f')"
  using assms
proof (induction l arbitrary: f n buffer c f1)
  case Nil
  then show ?case
    by (cases r) (auto simp: fgetc_sound ReadLine_loop.simps [of limit])
next
  case (Cons a l)
  have f1: "fgetc f = (Some a, f\<lparr>pos := pos f + 1, feof := feof f\<rparr>)"
    using Cons.prems(1,4) by (simp add: fgetc_sound)
  obtain c' f2 where c': "fgetc (f\<lparr>pos := pos f + 1, feof := feof f\<rparr>) = (c', f2)" by fastforce
  have "rest_of (f\<lparr>pos := pos f + 1, feof := feof f\<rparr>) = l @ r" using Cons.prems(4) by simp
  from Cons.IH [of "f\<lparr>pos := pos f + 1, feof := feof f\<rparr>" "n + 1" c' f2 "buffer @ [a]", OF _ _ _ this]
  show ?case using Cons.prems f1 c' by (auto simp: ReadLine_loop.simps [of limit n])
qed

lemma ReadLine_sound:
  assumes "fault f = None" and "CHR 0x0A \<notin> set l" and "length l \<le> skDefaultReadSize"
    and "rest_of f = l @ c # r" and "c = CHR 0x0A \<or> length l = skDefaultReadSize"
  shows "\<exists>f'. ReadLine f = (l, if length l = skDefaultReadSize then Some LineTooLong else None, f')
    \<and> rest_of f' = r"
proof -
  obtain c' f1 where c': "fgetc f = (c', f1)" by fastforce
  then show ?thesis
    using ReadLine_loop_sound [OF assms(1,2), of 0 skDefaultReadSize "c # r" c' f1 "[]"] assms(3-5)
    by (auto simp: ReadLine_def)
qed

text \<open>
  a line that is longer than the limit of \<^verbatim>\<open>ReadLine\<close> is not only reported as too long:
  the character at the limit has been taken from the stream and is in none of the results, so the
  parts that are read do not join to the line. A line of exactly the limit is reported as too long.
\<close>

theorem ReadLine_loses_character:
  assumes "fault f = None" and "CHR 0x0A \<notin> set l" and "length l = skDefaultReadSize"
    and "rest_of f = l @ c # r"
  shows "\<exists>f'. ReadLine f = (l, Some LineTooLong, f') \<and> rest_of f' = r"
  using ReadLine_sound [OF assms(1,2) _ assms(4)] assms(3) by simp

theorem ReadLine_loses_character_witness:
  "\<exists>f'. ReadLine \<lparr>contents = replicate skDefaultReadSize (CHR ''a'') @ ''bc'', pos = 0, feof = False,
      ferror = False, fault = None, size_hint = 1\<rparr>
     = (replicate skDefaultReadSize (CHR ''a''), Some LineTooLong, f') \<and> rest_of f' = ''c''"
  by (rule ReadLine_loses_character [where c = "CHR ''b''"]) (auto simp: rest_of_def)

section \<open>Writing and seeking\<close>

lemma Seek_Beginning:
  assumes "p < 2 ^ 63"
  shows "Seek Beginning (word_of_nat p) f = (None, f\<lparr>pos := p, feof := False\<rparr>)"
proof -
  have "sint (word_of_nat p :: 64 word) = int p"
    using assms
    by (simp add: sint_uint unsigned_of_nat take_bit_nat_eq_self signed_take_bit_int_eq_self_iff)
  then show ?thesis by (simp add: Seek_def fseeko_def)
qed

text \<open>
  what is written at a position, within the file or behind its end, is read back from
  there, and the bytes of the file before and behind it are as they were.
\<close>

theorem Write_Read:
  assumes "fault f = None" and "p < 2 ^ 63"
    and "Seek Beginning (word_of_nat p) f = (None, f1)" and "Write b f1 = (n, e, f2)"
    and "Seek Beginning (word_of_nat p) f2 = (None, f3)"
  shows "n = length b \<and> e = None \<and> Read (length b) f3 = (b, None, f3\<lparr>pos := p + length b\<rparr>)
    \<and> take p (contents f2) = take p (contents f @ replicate (p - length (contents f)) (CHR 0x00))
    \<and> drop (p + length b) (contents f2) = drop (p + length b) (contents f)"
proof -
  have f1: "f1 = f\<lparr>pos := p, feof := False\<rparr>" and f3: "f3 = f2\<lparr>pos := p, feof := False\<rparr>"
    using assms(3,5) by (simp_all add: Seek_Beginning [OF assms(2)])
  let ?c = "contents f @ replicate (p - length (contents f)) (CHR 0x00)"
  have w: "n = length b" "e = None"
    "contents f2 = take p ?c @ b @ drop (p + length b) ?c" "fault f2 = None"
    using assms(1,4) by (auto simp: Write_def fwrite_def f1 Let_def)
  have len: "length (take p ?c) = p" by simp
  have "rest_of f3 = b @ drop (p + length b) ?c" by (simp add: f3 rest_of_def w(3))
  moreover have "drop (p + length b) ?c = drop (p + length b) (contents f)" by simp
  ultimately show ?thesis
    using w len Read_sound [of f3 "length b"] by (simp add: f3)
qed

theorem Write_Read_witness:
  "\<exists>f1 f2 f3 f4. let f = \<lparr>contents = ''abc'', pos = 0, feof = False, ferror = False, fault = None, size_hint = 3\<rparr>
     in Seek Beginning 1 f = (None, f1) \<and> Write ''xyz'' f1 = (3, None, f2)
        \<and> Seek Beginning 1 f2 = (None, f3) \<and> Read 3 f3 = (''xyz'', None, f4)"
proof -
  let ?f = "\<lparr>contents = ''abc'', pos = 0, feof = False, ferror = False, fault = None, size_hint = 3\<rparr> :: fileio"
  obtain f1 where f1: "Seek Beginning (word_of_nat 1) ?f = (None, f1)"
    using Seek_Beginning [of 1] by simp
  obtain n e f2 where f2: "Write ''xyz'' f1 = (n, e, f2)" by (cases "Write ''xyz'' f1")
  obtain f3 where f3: "Seek Beginning (word_of_nat 1) f2 = (None, f3)"
    using Seek_Beginning [of 1] by simp
  show ?thesis
    using Write_Read [OF _ _ f1 f2 f3] f1 f2 f3 by (auto simp: Let_def numeral_3_eq_3)
qed

end
