(* ===== verification/Upload_Stepping.thy ===== *)
theory Upload_Stepping
  imports Prelude
begin

text \<open>
  \<^verbatim>\<open>uploader/detail/stepping.cpp\<close>: the sizes and the ranges of the chunks a file is hashed and
  uploaded in. Sizes are 64-bit unsigned numbers, written as natural numbers with the
  wrap-around where it can occur.
\<close>

section \<open>Definitions\<close>

definition MB :: "nat \<Rightarrow> nat" where [code_defs]: "MB n = n * 1024 * 1024"

definition MaxStepping :: nat where [code_defs]: "MaxStepping = 7"

definition SteppingMinFileSize :: "nat \<Rightarrow> nat" where [code_defs]:
  "SteppingMinFileSize stepping =
     (if stepping = 0 then 0 else (MB 4 * 2 ^ ((stepping - 1) * 2)) mod 2 ^ 64)"

function ThresholdStepping_loop :: "nat \<Rightarrow> nat \<Rightarrow> nat \<Rightarrow> nat" where
  "ThresholdStepping_loop filesize stepping limit =
     (if limit \<le> filesize \<and> stepping < MaxStepping
      then ThresholdStepping_loop filesize (stepping + 1) (SteppingMinFileSize (stepping + 1 + 1))
      else stepping)"
  by pat_completeness auto

termination
  by (relation "measure (\<lambda>(_, stepping, _). MaxStepping - stepping)") auto

definition ThresholdStepping :: "nat \<Rightarrow> nat" where
  "ThresholdStepping filesize = ThresholdStepping_loop filesize 0 (SteppingMinFileSize (0 + 1))"

definition ChunkMaxSize :: "nat \<Rightarrow> nat" where
  "ChunkMaxSize filesize =
     (let threshold_stepping = ThresholdStepping filesize
      in if threshold_stepping = 0 then 1024 * 1024 * 4
         else 1024 * 1024 * 2 ^ (threshold_stepping - 1))"

type_synonym range = "nat \<times> nat"

partial_function (option) ChunkRanges_loop ::
  "nat \<Rightarrow> nat \<Rightarrow> nat \<Rightarrow> nat \<Rightarrow> range list \<Rightarrow> range list option" where
  "ChunkRanges_loop filesize chunk_size current_end current_chunk ranges =
     (if current_end < filesize then
        ChunkRanges_loop filesize chunk_size
          (min ((chunk_size * (current_chunk + 1)) mod 2 ^ 64) filesize)
          ((current_chunk + 1) mod 2 ^ 64)
          (ranges @ [(current_end, min ((chunk_size * (current_chunk + 1)) mod 2 ^ 64) filesize)])
      else Some ranges)"

definition ChunkRanges :: "nat \<Rightarrow> range list option" where
  "ChunkRanges filesize = ChunkRanges_loop filesize (ChunkMaxSize filesize) 0 0 []"

section \<open>Chunk sizes\<close>

declare ThresholdStepping_loop.simps [simp del]

lemma ThresholdStepping_eq:
  "ThresholdStepping n =
     (if n < 2 ^ 22 then 0 else if n < 2 ^ 24 then 1 else if n < 2 ^ 26 then 2 else if n < 2 ^ 28 then 3
      else if n < 2 ^ 30 then 4 else if n < 2 ^ 32 then 5 else if n < 2 ^ 34 then 6 else 7)"
  by (simp add: ThresholdStepping_def ThresholdStepping_loop.simps code_defs)

lemma ThresholdStepping_le: "ThresholdStepping n \<le> 7"
  by (simp add: ThresholdStepping_eq)

lemma ChunkMaxSize_range: "MB 1 \<le> ChunkMaxSize n" "ChunkMaxSize n \<le> MB 64"
proof -
  have "2 ^ (ThresholdStepping n - 1) \<le> (2 :: nat) ^ 6"
    by (rule power_increasing) (use ThresholdStepping_le [of n] in auto)
  then show "MB 1 \<le> ChunkMaxSize n" "ChunkMaxSize n \<le> MB 64"
    by (simp_all add: ChunkMaxSize_def MB_def Let_def)
qed

section \<open>Ranges\<close>

text \<open>Ranges that follow each other from one position to another, none of them empty.\<close>

fun contiguous :: "nat \<Rightarrow> range list \<Rightarrow> nat \<Rightarrow> bool" where
  "contiguous a [] z \<longleftrightarrow> a = z"
| "contiguous a ((b, e) # rs) z \<longleftrightarrow> b = a \<and> b < e \<and> contiguous e rs z"

lemma contiguous_append: "contiguous a (rs @ ss) z \<longleftrightarrow> (\<exists>m. contiguous a rs m \<and> contiguous m ss z)"
  by (induction rs arbitrary: a) auto

lemma contiguous_le: "contiguous a rs z \<Longrightarrow> a \<le> z"
  by (induction rs arbitrary: a) fastforce+

definition file_slice :: "'a list \<Rightarrow> range \<Rightarrow> 'a list" where
  "file_slice xs r = take (snd r - fst r) (drop (fst r) xs)"

lemma slice_split:
  assumes "a \<le> e" and "e \<le> z"
  shows "file_slice xs (a, z) = file_slice xs (a, e) @ file_slice xs (e, z)"
proof -
  have "z - a = (e - a) + (z - e)" using assms by simp
  then show ?thesis unfolding file_slice_def fst_conv snd_conv by (simp only: take_add) (simp add: assms)
qed

lemma contiguous_slices:
  "contiguous a rs z \<Longrightarrow> concat (map (file_slice xs) rs) = file_slice xs (a, z)"
proof (induction rs arbitrary: a)
  case (Cons r rs)
  obtain b e where r: "r = (b, e)" by (cases r)
  with Cons have "b = a" "b < e" "contiguous e rs z" "e \<le> z" by (auto dest: contiguous_le)
  with Cons.IH [of e] slice_split [of a e z xs] show ?case by (simp add: r)
qed (simp add: file_slice_def)

text \<open>The loop, as long as the product does not wrap.\<close>

definition range_at :: "nat \<Rightarrow> nat \<Rightarrow> nat \<Rightarrow> range" where
  "range_at n c i = (min (c * i) n, min (c * (i + 1)) n)"

lemma ChunkRanges_loop_sound:
  assumes "0 < c" and "n + c \<le> 2 ^ 64" and "n = (j - 1) * c + d" "0 < d" "d \<le> c" and "k \<le> j" "0 < j"
  shows "ChunkRanges_loop n c (min (c * k) n) k rs = Some (rs @ map (range_at n c) [k..<j])"
  using assms(6)
proof (induction "j - k" arbitrary: k rs)
  case 0
  then have "k = j" by simp
  moreover have "n \<le> c * j" using assms(3,5,7) by (cases j) auto
  ultimately show ?case by (subst ChunkRanges_loop.simps) simp
next
  case (Suc i)
  then have "k \<le> j - 1" by simp
  then have "c * k \<le> c * (j - 1)" by (rule mult_le_mono2)
  moreover have "n = c * (j - 1) + d" using assms(3) by (simp add: mult.commute)
  ultimately have more: "c * k < n" using assms(4) by linarith
  have fit: "c * (k + 1) < 2 ^ 64" "k + 1 < 2 ^ 64"
  proof -
    show fit: "c * (k + 1) < 2 ^ 64" using more assms(2) by simp
    have "k + 1 \<le> c * (k + 1)" using assms(1) by (cases c) auto
    with fit show "k + 1 < 2 ^ 64" by linarith
  qed
  have "ChunkRanges_loop n c (min (c * k) n) k rs
      = ChunkRanges_loop n c (min (c * (k + 1)) n) (k + 1) (rs @ [range_at n c k])"
    using more fit by (subst ChunkRanges_loop.simps) (simp add: range_at_def)
  also have "\<dots> = Some ((rs @ [range_at n c k]) @ map (range_at n c) [k + 1..<j])"
    by (rule Suc.hyps(1)) (use Suc in auto)
  finally show ?case using Suc(2,3) by (simp add: upt_conv_Cons)
qed

lemma contiguous_range_at:
  assumes "n \<le> c * j" and "\<And>i. i < j \<Longrightarrow> c * i < n" and "0 < c" and "k \<le> j"
  shows "contiguous (min (c * k) n) (map (range_at n c) [k..<j]) n"
  using assms(4)
proof (induction "j - k" arbitrary: k)
  case 0
  then show ?case using assms(1) by simp
next
  case (Suc i)
  then have "[k..<j] = k # [k + 1..<j]" "c * k < n" using assms(2) by (simp_all add: upt_conv_Cons)
  moreover have "contiguous (min (c * (k + 1)) n) (map (range_at n c) [k + 1..<j]) n"
    by (rule Suc.hyps(1)) (use Suc in auto)
  ultimately show ?case using assms(3) by (simp add: range_at_def)
qed

definition chunk_count :: "nat \<Rightarrow> nat" where
  "chunk_count n = (if n = 0 then 0 else (n - 1) div ChunkMaxSize n + 1)"

lemma ChunkRanges_eq:
  assumes "n \<le> 2 ^ 64 - 2 ^ 26"
  shows "ChunkRanges n = Some (map (range_at n (ChunkMaxSize n)) [0..<chunk_count n])"
proof (cases "n = 0")
  case True
  then show ?thesis by (simp add: ChunkRanges_def chunk_count_def ChunkRanges_loop.simps)
next
  case False
  let ?c = "ChunkMaxSize n"
  have c: "0 < ?c" "n + ?c \<le> 2 ^ 64" using ChunkMaxSize_range [of n] assms by (simp_all add: MB_def)
  have "n = (chunk_count n - 1) * ?c + ((n - 1) mod ?c + 1)"
    using False div_mult_mod_eq [of "n - 1" ?c] by (simp add: chunk_count_def)
  from ChunkRanges_loop_sound [OF c this, of 0 "[]"] show ?thesis
    using False c by (simp add: ChunkRanges_def chunk_count_def Suc_leI)
qed

lemma chunk_count_bounds:
  assumes "0 < n"
  shows "n \<le> ChunkMaxSize n * chunk_count n" "i < chunk_count n \<Longrightarrow> ChunkMaxSize n * i < n"
proof -
  let ?c = "ChunkMaxSize n"
  have c: "0 < ?c" using ChunkMaxSize_range(1) [of n] by (simp add: MB_def)
  have n: "n - 1 = ?c * ((n - 1) div ?c) + (n - 1) mod ?c" by simp
  have "(n - 1) mod ?c < ?c" using c by simp
  moreover have "?c * chunk_count n = ?c * ((n - 1) div ?c) + ?c"
    using assms by (simp add: chunk_count_def)
  ultimately show "n \<le> ?c * chunk_count n" using n assms by linarith
  assume "i < chunk_count n"
  then have "i \<le> (n - 1) div ?c" using assms by (simp add: chunk_count_def)
  then have "?c * i \<le> ?c * ((n - 1) div ?c)" by (rule mult_le_mono2)
  then show "?c * i < n" using n assms by linarith
qed

text \<open>
  C25: for every file of at most \<open>2^64 - 2^26\<close> bytes the loop that splits it ends, and the ranges
  follow each other from the first byte to the last without gap or overlap, none empty and none
  larger than the chunk size of the file; so the chunks of a file, put together, are the file.
\<close>

theorem ChunkRanges_partition:
  assumes "n \<le> 2 ^ 64 - 2 ^ 26"
  shows "\<exists>rs. ChunkRanges n = Some rs \<and> contiguous 0 rs n \<and> length rs = chunk_count n
    \<and> (\<forall>r \<in> set rs. snd r - fst r \<le> ChunkMaxSize n)
    \<and> (\<forall>bytes :: string. length bytes = n \<longrightarrow> concat (map (file_slice bytes) rs) = bytes)"
proof -
  let ?rs = "map (range_at n (ChunkMaxSize n)) [0..<chunk_count n]"
  have "contiguous 0 ?rs n"
  proof (cases "n = 0")
    case False
    then show ?thesis
      using contiguous_range_at [of n "ChunkMaxSize n" "chunk_count n" 0] chunk_count_bounds [of n]
        ChunkMaxSize_range(1) [of n] by (simp add: MB_def)
  qed (simp add: chunk_count_def)
  moreover have "\<forall>r \<in> set ?rs. snd r - fst r \<le> ChunkMaxSize n" by (auto simp: range_at_def)
  moreover have "concat (map (file_slice bytes) ?rs) = bytes" if "length bytes = n" for bytes :: string
    using contiguous_slices [of 0 ?rs n bytes] calculation(1) that by (simp add: file_slice_def)
  ultimately show ?thesis
    using ChunkRanges_eq [OF assms] by (intro exI [of _ ?rs]) simp
qed

theorem ChunkRanges_partition_witness:
  "\<exists>rs. ChunkRanges 5000000 = Some rs \<and> contiguous 0 rs 5000000 \<and> length rs = 5
    \<and> (\<forall>r \<in> set rs. snd r - fst r \<le> 1048576)"
  using ChunkRanges_partition [of 5000000]
  by (auto simp: chunk_count_def ChunkMaxSize_def ThresholdStepping_eq)

text \<open>
  for a larger file size the end of a chunk wraps around to a position before it, and the
  loop that splits the file never ends.
\<close>

theorem ChunkRanges_diverges:
  assumes "2 ^ 64 - 2 ^ 26 < n" and "n < 2 ^ 64"
  shows "ChunkRanges n = None"
proof -
  have c: "ChunkMaxSize n = 2 ^ 26" using assms by (simp add: ChunkMaxSize_def ThresholdStepping_eq)
  have before: "2 ^ 26 * k mod 2 ^ 64 < n" for k :: nat
  proof -
    have "2 ^ 26 * k mod 2 ^ 64 = 2 ^ 26 * (k mod 2 ^ 38)"
      using mult_mod_right [of "2 ^ 26" k "2 ^ 38"] by simp
    moreover have "k mod 2 ^ 38 \<le> 2 ^ 38 - 1" by simp
    ultimately have "2 ^ 26 * k mod 2 ^ 64 \<le> 2 ^ 26 * (2 ^ 38 - 1)" by simp
    then show ?thesis using assms(1) by simp
  qed
  have never: "m = n \<and> c = 2 ^ 26 \<longrightarrow> n \<le> current_end"
    if "ChunkRanges_loop m c current_end k rs = Some out" for m c current_end k rs out
  proof (rule ChunkRanges_loop.raw_induct [where P =
        "\<lambda>m c current_end _ _ _. m = n \<and> c = 2 ^ 26 \<longrightarrow> n \<le> current_end", OF _ that])
    fix loop m c current_end k rs and out :: "range list"
    assume hyp: "\<And>m c current_end k rs out. loop m c current_end k rs = Some out
        \<Longrightarrow> m = n \<and> c = 2 ^ 26 \<longrightarrow> n \<le> current_end"
      and body: "(if current_end < m
        then loop m c (min (c * (k + 1) mod 2 ^ 64) m) ((k + 1) mod 2 ^ 64)
          (rs @ [(current_end, min (c * (k + 1) mod 2 ^ 64) m)])
        else Some rs) = Some out"
    show "m = n \<and> c = 2 ^ 26 \<longrightarrow> n \<le> current_end"
    proof (cases "current_end < m")
      case True
      then show ?thesis using hyp body before [of "k + 1"] by fastforce
    qed auto
  qed
  then show ?thesis
    using assms by (cases "ChunkRanges_loop n (2 ^ 26) 0 0 []") (auto simp: ChunkRanges_def c dest: never)
qed

theorem ChunkRanges_diverges_witness: "ChunkRanges (2 ^ 64 - 1) = None"
  by (rule ChunkRanges_diverges) simp_all

end
