(* ===== verification/Upload_Chunks.thy ===== *)
theory Upload_Chunks
  imports File_IO Upload_Stepping
begin

unbundle bit_operations_syntax

text \<open>
  The chunks of an upload: the bitmap of \<^verbatim>\<open>upload_state_machine.hpp\<close> that says which of them the
  server has, the choice of the next one, and the pipe of \<^verbatim>\<open>transition_upload.hpp\<close> that a
  chunk is posted through.
\<close>

section \<open>The bitmap\<close>

datatype ChunkState = NeedsUpload | Uploading | Uploaded

text \<open>
  One word of the bitmap: \<open>i\<close> is the loop counter and \<open>bit_mask\<close> the word that moves with it;
  \<open>n\<close> is the number of chunks.
\<close>

fun bitmap_word :: "nat \<Rightarrow> 16 word \<Rightarrow> nat \<Rightarrow> 16 word \<Rightarrow> ChunkState list \<Rightarrow> ChunkState list" where
  "bitmap_word n w 0 bit_mask states = states"
| "bitmap_word n w (Suc i) bit_mask states =
     (if length states = n then states
      else bitmap_word n w i (push_bit 1 bit_mask)
             (states @ [if bit_mask AND w \<noteq> 0 then Uploaded else NeedsUpload]))"

text \<open>
  \<^verbatim>\<open>SetBitmap\<close>: the second result is false where the assertion on superfluous words fails.
\<close>

fun bitmap_words :: "nat \<Rightarrow> 16 word list \<Rightarrow> ChunkState list \<Rightarrow> ChunkState list \<times> bool" where
  "bitmap_words n [] states = (states, True)"
| "bitmap_words n (w # ws) states =
     (case bitmap_words n ws (bitmap_word n w 16 1 states) of
        (states', ok) \<Rightarrow> (states', length states < n \<and> ok))"

definition SetBitmap :: "nat \<Rightarrow> 16 word list \<Rightarrow> ChunkState list \<times> bool" where
  "SetBitmap n bitmap =
     (case bitmap_words n bitmap [] of
        (states, ok) \<Rightarrow> (states @ replicate (n - length states) NeedsUpload, ok))"

text \<open>\<^verbatim>\<open>NextChunkToUpload\<close>: \<open>r\<close> is the draw of the random device.\<close>

definition incomplete_chunks :: "ChunkState list \<Rightarrow> nat list" where
  "incomplete_chunks states = filter (\<lambda>i. states ! i = NeedsUpload) [0..<length states]"

definition NextChunkToUpload :: "nat \<Rightarrow> ChunkState list \<Rightarrow> nat option" where
  "NextChunkToUpload r states =
     (let ids = incomplete_chunks states in if ids = [] then None else Some (ids ! (r mod length ids)))"

lemma NextChunkToUpload_None: "NextChunkToUpload r states = None \<longleftrightarrow> NeedsUpload \<notin> set states"
  by (auto simp: NextChunkToUpload_def incomplete_chunks_def Let_def in_set_conv_nth filter_empty_conv)

lemma NextChunkToUpload_Some:
  assumes "NextChunkToUpload r states = Some i"
  shows "i < length states \<and> states ! i = NeedsUpload"
proof -
  have "incomplete_chunks states \<noteq> []" "i = incomplete_chunks states ! (r mod length (incomplete_chunks states))"
    using assms by (auto simp: NextChunkToUpload_def Let_def split: if_splits)
  then have "i \<in> set (incomplete_chunks states)" by simp
  then show ?thesis by (simp add: incomplete_chunks_def)
qed

lemma bitmap_word_length: "length states \<le> n \<Longrightarrow> length (bitmap_word n w i m states) \<le> n"
  by (induction i arbitrary: m states) auto

lemma bitmap_word_take:
  assumes "length states \<le> n"
  shows "bitmap_word n w i (2 ^ k) states =
    states @ map (\<lambda>j. if bit w (k + j) then Uploaded else NeedsUpload) [0..<min i (n - length states)]"
  using assms
proof (induction i arbitrary: k states)
  case (Suc i)
  let ?s = "if bit w k then Uploaded else NeedsUpload"
  have bit: "2 ^ k AND w \<noteq> 0 \<longleftrightarrow> bit w k"
    by (simp add: and_exp_eq_0_iff_not_bit and.commute [of "2 ^ k"])
  show ?case
  proof (cases "length states = n")
    case False
    have "push_bit 1 (2 ^ k) = (2 ^ (k + 1) :: 16 word)" by (simp add: mult.commute)
    then have "bitmap_word n w (Suc i) (2 ^ k) states = bitmap_word n w i (2 ^ (k + 1)) (states @ [?s])"
      using False bit by (simp only: bitmap_word.simps if_False)
    also have "\<dots> = (states @ [?s])
        @ map (\<lambda>j. if bit w (k + 1 + j) then Uploaded else NeedsUpload) [0..<min i (n - length (states @ [?s]))]"
      by (rule Suc.IH) (use Suc.prems False in simp)
    moreover have "min (Suc i) (n - length states) = Suc (min i (n - length (states @ [?s])))"
      using Suc.prems False by simp
    then have "[0..<min (Suc i) (n - length states)] = 0 # map Suc [0..<min i (n - length (states @ [?s]))]"
      by (simp only: upt_conv_Cons map_Suc_upt zero_less_Suc)
    ultimately show ?thesis by simp
  qed simp
qed simp

text \<open>Chunk \<open>i\<close> is bit \<open>i mod 16\<close> of word \<open>i div 16\<close>.\<close>

definition bitmap_bit :: "16 word list \<Rightarrow> nat \<Rightarrow> bool" where
  "bitmap_bit ws i \<longleftrightarrow> i div 16 < length ws \<and> bit (ws ! (i div 16)) (i mod 16)"

lemma bitmap_word_16:
  assumes "length states \<le> n"
  shows "bitmap_word n w 16 1 states =
    states @ map (\<lambda>j. if bit w j then Uploaded else NeedsUpload) [0..<min 16 (n - length states)]"
  using bitmap_word_take [OF assms, of w 16 0] by simp

lemma bitmap_bit_Cons: "bitmap_bit (w # ws) (16 + j) = bitmap_bit ws j"
proof -
  have "(16 + j) div 16 = Suc (j div 16)" by simp
  then show ?thesis by (simp only: bitmap_bit_def) simp
qed

lemma bitmap_words_states:
  assumes "length states \<le> n"
  shows "fst (bitmap_words n ws states) =
    states @ map (\<lambda>j. if bitmap_bit ws j then Uploaded else NeedsUpload)
               [0..<min (16 * length ws) (n - length states)]"
  using assms
proof (induction ws arbitrary: states)
  case (Cons w ws)
  let ?st = "bitmap_word n w 16 1 states"
  have len: "length ?st = length states + min 16 (n - length states)"
    by (simp add: bitmap_word_16 [OF Cons.prems] del: upt_Suc)
  then have IH: "fst (bitmap_words n ws ?st) = ?st @ map (\<lambda>j. if bitmap_bit ws j then Uploaded else NeedsUpload)
      [0..<min (16 * length ws) (n - length states - 16)]"
    using Cons.IH [of ?st] Cons.prems by (simp add: min_def split: if_splits)
  have first: "map (\<lambda>j. if bit w j then Uploaded else NeedsUpload) [0..<min 16 (n - length states)]
      = map (\<lambda>j. if bitmap_bit (w # ws) j then Uploaded else NeedsUpload) [0..<min 16 (n - length states)]"
    by (auto simp: bitmap_bit_def)
  have second: "map (\<lambda>j. if bitmap_bit ws j then Uploaded else NeedsUpload) [0..<k]
      = map (\<lambda>j. if bitmap_bit (w # ws) j then Uploaded else NeedsUpload) [16..<16 + k]" for k
    by (rule nth_equalityI) (simp_all add: bitmap_bit_Cons)
  have join: "[0..<min (16 * length (w # ws)) (n - length states)]
      = [0..<min 16 (n - length states)]
        @ (if n - length states \<le> 16 then [] else [16..<16 + min (16 * length ws) (n - length states - 16)])"
  proof (cases "n - length states \<le> 16")
    case False
    then have "min (16 * length (w # ws)) (n - length states)
        = 16 + min (16 * length ws) (n - length states - 16)" by simp
    then show ?thesis using False upt_add_eq_append [of 0 16] by simp
  qed simp
  have step: "fst (bitmap_words n (w # ws) states) = fst (bitmap_words n ws ?st)"
    by (simp split: prod.split)
  show ?case
  proof (cases "n - length states \<le> 16")
    case True
    then have "fst (bitmap_words n ws ?st) = ?st" using IH by simp
    then show ?thesis
      unfolding step join map_append using True
      by (simp only: bitmap_word_16 [OF Cons.prems] first if_True append_Nil2 list.map)
  next
    case False
    then show ?thesis
      unfolding step join map_append IH second
      by (simp only: bitmap_word_16 [OF Cons.prems] first if_False append_assoc)
  qed
qed simp

lemma bitmap_words_ok:
  assumes "length states \<le> n"
  shows "snd (bitmap_words n ws states) \<longleftrightarrow> ws = [] \<or> length states + 16 * (length ws - 1) < n"
  using assms
proof (induction ws arbitrary: states)
  case (Cons w ws)
  let ?st = "bitmap_word n w 16 1 states"
  have len: "length ?st = length states + min 16 (n - length states)"
    by (simp add: bitmap_word_16 [OF Cons.prems] del: upt_Suc)
  have "snd (bitmap_words n (w # ws) states) \<longleftrightarrow> length states < n \<and> snd (bitmap_words n ws ?st)"
    by (simp split: prod.split)
  also have "\<dots> \<longleftrightarrow> length states < n \<and> (ws = [] \<or> length ?st + 16 * (length ws - 1) < n)"
    using Cons.IH [of ?st] Cons.prems len by simp
  finally show ?case using len Cons.prems by (cases ws) auto
qed simp

lemma SetBitmap_states:
  "fst (SetBitmap n ws) = map (\<lambda>i. if bitmap_bit ws i then Uploaded else NeedsUpload) [0..<n]"
proof -
  have states: "fst (bitmap_words n ws []) = map (\<lambda>j. if bitmap_bit ws j then Uploaded else NeedsUpload)
      [0..<min (16 * length ws) n]"
    using bitmap_words_states [of "[]" n ws] by simp
  have "replicate (n - min (16 * length ws) n) NeedsUpload
      = map (\<lambda>j. if bitmap_bit ws j then Uploaded else NeedsUpload) [min (16 * length ws) n..<n]"
    by (rule nth_equalityI) (auto simp: bitmap_bit_def)
  moreover have "[0..<n] = [0..<min (16 * length ws) n] @ [min (16 * length ws) n..<n]"
    using upt_add_eq_append [of 0 "min (16 * length ws) n" "n - min (16 * length ws) n"] by simp
  ultimately have all: "fst (bitmap_words n ws [])
      @ replicate (n - length (fst (bitmap_words n ws []))) NeedsUpload
      = map (\<lambda>i. if bitmap_bit ws i then Uploaded else NeedsUpload) [0..<n]"
    unfolding states by simp
  then show ?thesis
    unfolding SetBitmap_def by (simp only: prod.case_eq_if fst_conv)
qed

lemma SetBitmap_shape: "length (fst (SetBitmap n ws)) = n" "Uploading \<notin> set (fst (SetBitmap n ws))"
  by (auto simp: SetBitmap_states)

text \<open>
  C28: after \<^verbatim>\<open>SetBitmap\<close> there is one state for every chunk, and a chunk counts as uploaded
  exactly if its bit is set: bit \<open>i mod 16\<close> of word \<open>i div 16\<close>, with the chunks that the words
  do not reach not uploaded. The assertion holds exactly if no word is superfluous.
\<close>

theorem SetBitmap_bits:
  "fst (SetBitmap n ws) = map (\<lambda>i. if bitmap_bit ws i then Uploaded else NeedsUpload) [0..<n]
   \<and> (snd (SetBitmap n ws) = (ws = [] \<or> 16 * (length ws - 1) < n))"
  using SetBitmap_states bitmap_words_ok [of "[]" n ws] by (simp add: SetBitmap_def prod.case_eq_if)

section \<open>Posting a chunk\<close>

text \<open>\<^verbatim>\<open>UploadPostDataPipe\<close>: the stream, the range and the position\<close>

record pipe =
  pipe_file :: fileio
  start_byte :: "64 word"
  end_byte :: "64 word"
  current_read_pos :: "64 word"

definition UploadPostDataPipe :: "fileio \<Rightarrow> 64 word \<Rightarrow> 64 word \<Rightarrow> pipe" where
  "UploadPostDataPipe f b e = \<lparr>pipe_file = f, start_byte = b, end_byte = e, current_read_pos = b\<rparr>"

definition PostDataSize :: "pipe \<Rightarrow> 64 word" where
  "PostDataSize p = end_byte p - start_byte p"

text \<open>\<^const>\<open>None\<close> is the null pointer, for the end and for an error alike.\<close>

definition RetreivePostDataChunk :: "pipe \<Rightarrow> string option \<times> pipe" where
  "RetreivePostDataChunk p =
     (let (seek_error, f) =
            (if word_of_nat (Tell (pipe_file p)) \<noteq> current_read_pos p
             then Seek Beginning (current_read_pos p) (pipe_file p)
             else (None, pipe_file p));
          p = p\<lparr>pipe_file := f\<rparr>;
          remaining_bytes = end_byte p - current_read_pos p;
          buffer_size = unat (min (1024 * 8) remaining_bytes)
      in if seek_error \<noteq> None \<or> remaining_bytes = 0 then (None, p)
         else (case Read buffer_size f of
                 (buffer, ec, f') \<Rightarrow>
                   if ec \<noteq> None \<or> length buffer \<noteq> buffer_size then (None, p\<lparr>pipe_file := f'\<rparr>)
                   else (Some buffer,
                         p\<lparr>pipe_file := f', current_read_pos := current_read_pos p + word_of_nat (length buffer)\<rparr>)))"

text \<open>
  The sender of the request asks for buffers until it gets none; the second result is false
  where the fuel did not suffice for that.
\<close>

fun drain :: "nat \<Rightarrow> pipe \<Rightarrow> string list \<times> bool" where
  "drain 0 p = ([], False)"
| "drain (Suc n) p = (case RetreivePostDataChunk p of
     (None, _) \<Rightarrow> ([], True)
   | (Some b, p') \<Rightarrow> (case drain n p' of (bs, fin) \<Rightarrow> (b # bs, fin)))"

text \<open>
  \<^verbatim>\<open>UploadNextChunk\<close> up to the creation of the request: the file is opened and positioned and
  the pipe is made. The range is assigned to two variables of type \<^verbatim>\<open>int\<close>.
\<close>

datatype upload_file_error = Open_Failed nat | Seek_Failed file_io_error

definition as_int :: "nat \<Rightarrow> 32 word" where
  "as_int n = word_of_nat n"

definition open_pipe ::
  "nat + fileio \<Rightarrow> 64 word \<Rightarrow> 64 word \<Rightarrow> upload_file_error + pipe" where
  "open_pipe file_io b e = (case file_io of
       Inl errno \<Rightarrow> Inl (Open_Failed errno)
     | Inr f \<Rightarrow> (case Seek Beginning b f of
                   (Some ec, _) \<Rightarrow> Inl (Seek_Failed ec)
                 | (None, f') \<Rightarrow> Inr (UploadPostDataPipe f' b e)))"

definition chunk_pipe :: "nat + fileio \<Rightarrow> range \<Rightarrow> upload_file_error + pipe" where
  "chunk_pipe file_io r = open_pipe file_io (scast (as_int (fst r))) (scast (as_int (snd r)))"

text \<open>The header \<^verbatim>\<open>x-unit-size\<close>: the difference is computed at type \<^verbatim>\<open>int\<close>.\<close>

definition x_unit_size :: "range \<Rightarrow> int" where
  "x_unit_size r = sint (as_int (snd r) - as_int (fst r))"

text \<open>\<^verbatim>\<open>DoSimpleUpload::Upload\<close> posts the whole file.\<close>

definition simple_pipe :: "nat + fileio \<Rightarrow> nat \<Rightarrow> upload_file_error + pipe" where
  "simple_pipe file_io fsize = open_pipe file_io 0 (word_of_nat fsize)"

subsection \<open>What a pipe sends\<close>

lemma unat_min_8192: "unat (min (8192 :: 64 word) w) = min 8192 (unat w)"
  by (simp add: min_def word_le_nat_alt)

lemma unat_word_of_nat: "n < 2 ^ 64 \<Longrightarrow> unat (word_of_nat n :: 64 word) = n"
  by (simp add: unsigned_of_nat take_bit_nat_eq_self)

lemma Retreive_step:
  assumes "fault (pipe_file p) = None" and "contents (pipe_file p) = c"
    and "pos (pipe_file p) = i" and "i < e" and "e \<le> length c" and "e < 2 ^ 63"
    and "current_read_pos p = word_of_nat i" and "end_byte p = word_of_nat e"
  shows "RetreivePostDataChunk p = (Some (file_slice c (i, min (i + 8192) e)),
    p\<lparr>pipe_file := (pipe_file p)\<lparr>pos := min (i + 8192) e\<rparr>,
      current_read_pos := word_of_nat (min (i + 8192) e)\<rparr>)"
proof -
  let ?f = "pipe_file p"
  let ?n = "min 8192 (e - i)"
  have rem: "word_of_nat e - word_of_nat i = (word_of_nat (e - i) :: 64 word)"
    using assms(4) by (simp add: of_nat_diff)
  have "unat (word_of_nat (e - i) :: 64 word) = e - i"
    using assms(4,6) by (intro unat_word_of_nat) simp
  then have size: "unat (min (8192 :: 64 word) (word_of_nat (e - i))) = ?n" by (simp add: unat_min_8192)
  have "unat (word_of_nat (e - i) :: 64 word) \<noteq> 0"
    using assms(4) \<open>unat (word_of_nat (e - i) :: 64 word) = e - i\<close> by simp
  then have nz: "(word_of_nat (e - i) :: 64 word) \<noteq> 0" by auto
  have rest: "rest_of ?f = drop i c" by (simp add: rest_of_def assms)
  have "?n \<le> length (rest_of ?f)" using assms(4,5) by (simp add: rest)
  then have read: "Read ?n ?f = (take ?n (drop i c), None, ?f\<lparr>pos := i + ?n\<rparr>)"
    using Read_within [OF assms(1)] assms(3) by (simp add: rest)
  have stop: "i + ?n = min (i + 8192) e" using assms(4) by simp
  have slice: "take ?n (drop i c) = file_slice c (i, min (i + 8192) e)"
    using assms(4) by (simp add: file_slice_def take_drop stop add.commute [of _ i] min_def)
  have len: "length (file_slice c (i, min (i + 8192) e)) = ?n"
    using assms(4,5) by (simp add: slice [symmetric])
  have add: "word_of_nat i + word_of_nat ?n = (word_of_nat (min (i + 8192) e) :: 64 word)"
    by (simp only: stop flip: of_nat_add)
  let ?b = "file_slice c (i, min (i + 8192) e)"
  have at: "word_of_nat (Tell ?f) = current_read_pos p" by (simp add: Tell_def assms(3,7))
  have body: "Read (unat (min (1024 * 8) (end_byte p - current_read_pos p))) ?f
      = (?b, None, ?f\<lparr>pos := min (i + 8192) e\<rparr>)"
    using read size by (simp add: assms(7,8) rem slice stop)
  have "length ?b = unat (min (1024 * 8) (end_byte p - current_read_pos p))"
    using len size by (simp add: assms(7,8) rem)
  moreover have "end_byte p - current_read_pos p \<noteq> 0" using nz by (simp add: assms(7,8) rem)
  moreover have "current_read_pos p + word_of_nat (length ?b) = word_of_nat (min (i + 8192) e)"
    using add by (simp only: len assms(7))
  ultimately show ?thesis
    unfolding RetreivePostDataChunk_def using at body by (cases p) (simp add: Let_def)
qed

lemma drain_slice:
  assumes "fault (pipe_file p) = None" and "contents (pipe_file p) = c"
    and "pos (pipe_file p) = i" and "i \<le> e" and "e \<le> length c" and "e < 2 ^ 63"
    and "current_read_pos p = word_of_nat i" and "end_byte p = word_of_nat e"
    and "e - i < 8192 * n"
  shows "\<exists>bs. drain (Suc n) p = (bs, True) \<and> concat bs = file_slice c (i, e)
    \<and> (\<forall>b \<in> set bs. 0 < length b \<and> length b \<le> 8192)"
  using assms
proof (induction n arbitrary: p i)
  case (Suc n)
  let ?j = "min (i + 8192) e"
  let ?p = "p\<lparr>pipe_file := (pipe_file p)\<lparr>pos := ?j\<rparr>, current_read_pos := word_of_nat ?j\<rparr>"
  show ?case
  proof (cases "i < e")
    case False
    then have "i = e" using Suc.prems(4) by simp
    then have "RetreivePostDataChunk p = (None, p)"
      using Suc.prems(3,7,8) by (simp add: RetreivePostDataChunk_def Tell_def)
    then show ?thesis using \<open>i = e\<close> by (simp add: file_slice_def)
  next
    case True
    have "\<exists>bs. drain (Suc n) ?p = (bs, True) \<and> concat bs = file_slice c (?j, e)
        \<and> (\<forall>b \<in> set bs. 0 < length b \<and> length b \<le> 8192)"
    proof (cases "n = 0")
      case True
      have "e - i < 8192" using Suc.prems(9) True by simp
      then have "?j = e" using Suc.prems(4) by simp
      then have "RetreivePostDataChunk ?p = (None, ?p)"
        using Suc.prems(8) by (simp add: RetreivePostDataChunk_def Tell_def)
      then show ?thesis using \<open>?j = e\<close> by (simp add: file_slice_def)
    next
      case False
      have "e - ?j < 8192 * n" using Suc.prems(9) False by (cases "i + 8192 \<le> e") auto
      then show ?thesis by (intro Suc.IH) (use Suc.prems in auto)
    qed
    then obtain bs where bs: "drain (Suc n) ?p = (bs, True)" "concat bs = file_slice c (?j, e)"
        "\<forall>b \<in> set bs. 0 < length b \<and> length b \<le> 8192" by blast
    have step: "RetreivePostDataChunk p = (Some (file_slice c (i, ?j)), ?p)"
      using Retreive_step [OF Suc.prems(1-3) True Suc.prems(5-8)] .
    have "drain (Suc (Suc n)) p = (file_slice c (i, ?j) # bs, True)"
      by (subst drain.simps) (simp only: step bs prod.case option.case)
    moreover have "file_slice c (i, ?j) @ file_slice c (?j, e) = file_slice c (i, e)"
      using slice_split [of i ?j e c] True by simp
    moreover have "0 < length (file_slice c (i, ?j)) \<and> length (file_slice c (i, ?j)) \<le> 8192"
      using True Suc.prems(5) by (auto simp: file_slice_def)
    ultimately show ?thesis using bs by auto
  qed
qed simp

lemma Seek_beginning:
  assumes "n < 2 ^ 63"
  shows "Seek Beginning (word_of_nat n) f = (None, f\<lparr>pos := n, feof := False\<rparr>)"
proof -
  have "sint (word_of_nat n :: 64 word) = int n"
    using assms by (simp add: signed_of_nat signed_take_bit_int_eq_self)
  then show ?thesis by (simp add: Seek_def fseeko_def)
qed

lemma open_pipe_sends:
  assumes "fault f = None" and "contents f = c" and "b \<le> e" and "e \<le> length c" and "e < 2 ^ 63"
    and "e - b < 8192 * n"
  shows "\<exists>p bs. open_pipe (Inr f) (word_of_nat b) (word_of_nat e) = Inr p
    \<and> drain (Suc n) p = (bs, True) \<and> concat bs = file_slice c (b, e)
    \<and> (\<forall>x \<in> set bs. 0 < length x \<and> length x \<le> 8192) \<and> unat (PostDataSize p) = e - b"
proof -
  let ?p = "UploadPostDataPipe (f\<lparr>pos := b, feof := False\<rparr>) (word_of_nat b) (word_of_nat e)"
  have "open_pipe (Inr f) (word_of_nat b) (word_of_nat e) = Inr ?p"
    using assms by (simp add: open_pipe_def Seek_beginning)
  moreover have "\<exists>bs. drain (Suc n) ?p = (bs, True) \<and> concat bs = file_slice c (b, e)
      \<and> (\<forall>x \<in> set bs. 0 < length x \<and> length x \<le> 8192)"
    by (rule drain_slice) (use assms in \<open>simp_all add: UploadPostDataPipe_def\<close>)
  moreover have "PostDataSize ?p = word_of_nat (e - b)"
    using assms(3) by (simp add: PostDataSize_def UploadPostDataPipe_def of_nat_diff)
  then have "unat (PostDataSize ?p) = e - b"
    using assms(5) by (simp only:) (rule unat_word_of_nat, simp)
  ultimately show ?thesis by blast
qed

lemma chunk_pipe_narrow:
  assumes "b < 2 ^ 31" and "e < 2 ^ 31"
  shows "chunk_pipe file_io (b, e) = open_pipe file_io (word_of_nat b) (word_of_nat e)"
proof -
  have "scast (as_int k) = (word_of_nat k :: 64 word)" if "k < 2 ^ 31" for k
    using that
    by (intro word_uint_eqI) (simp add: as_int_def signed_of_nat signed_take_bit_int_eq_self of_nat_diff)
  then show ?thesis using assms by (simp add: chunk_pipe_def)
qed

lemma chunk_pipe_opened:
  assumes "b < 2 ^ 31" and "e < 2 ^ 31"
  shows "chunk_pipe (Inr f) (b, e) =
    Inr (UploadPostDataPipe (f\<lparr>pos := b, feof := False\<rparr>) (word_of_nat b) (word_of_nat e))"
  using assms by (simp add: chunk_pipe_narrow open_pipe_def Seek_beginning)

text \<open>
  the request for a chunk of a file below 2 GiB sends exactly the bytes of the chunk, in
  buffers of at most 8192 bytes, and then ends; the length it announces for the body and the
  header for the size of the unit are the size of the chunk.
\<close>

theorem chunk_pipe_sends_chunk:
  assumes "fault f = None" and "b \<le> e" and "e \<le> length (contents f)" and "e < 2 ^ 31"
    and "e - b < 8192 * n"
  shows "\<exists>p bs. chunk_pipe (Inr f) (b, e) = Inr p
    \<and> drain (Suc n) p = (bs, True) \<and> concat bs = file_slice (contents f) (b, e)
    \<and> (\<forall>x \<in> set bs. 0 < length x \<and> length x \<le> 8192)
    \<and> unat (PostDataSize p) = e - b \<and> x_unit_size (b, e) = int (e - b)"
proof -
  have "as_int e - as_int b = word_of_nat (e - b)" using assms(2) by (simp add: as_int_def of_nat_diff)
  then have "x_unit_size (b, e) = sint (word_of_nat (e - b) :: 32 word)"
    by (simp only: x_unit_size_def fst_conv snd_conv)
  also have "\<dots> = int (e - b)"
    using assms(4) by (simp add: signed_of_nat signed_take_bit_int_eq_self del: of_nat_diff)
  finally have "x_unit_size (b, e) = int (e - b)" .
  moreover have "chunk_pipe (Inr f) (b, e) = open_pipe (Inr f) (word_of_nat b) (word_of_nat e)"
    using assms(2,4) by (simp add: chunk_pipe_narrow)
  ultimately show ?thesis using open_pipe_sends [OF assms(1) refl assms(2,3) _ assms(5)] assms(4) by simp
qed

definition example_file :: fileio where
  "example_file = \<lparr>contents = ''abcde'', pos = 0, feof = False, ferror = False, fault = None, size_hint = 5\<rparr>"

theorem chunk_pipe_sends_chunk_witness:
  "\<exists>p bs. chunk_pipe (Inr example_file) (1, 3) = Inr p
    \<and> drain 2 p = (bs, True) \<and> concat bs = ''bc'' \<and> unat (PostDataSize p) = 2"
proof -
  have "fault example_file = None" "contents example_file = ''abcde''" by (simp_all add: example_file_def)
  then have "\<exists>p bs. chunk_pipe (Inr example_file) (1, 3) = Inr p
      \<and> drain (Suc 1) p = (bs, True) \<and> concat bs = file_slice ''abcde'' (1, 3)
      \<and> (\<forall>x \<in> set bs. 0 < length x \<and> length x \<le> 8192)
      \<and> unat (PostDataSize p) = 3 - 1 \<and> x_unit_size (1, 3) = int (3 - 1)"
    using chunk_pipe_sends_chunk [of example_file 1 3 1] by (simp only:) simp
  moreover have "file_slice ''abcde'' (1, 3) = ''bc''" "Suc 1 = 2" "3 - 1 = (2 :: nat)"
    by (simp_all add: file_slice_def)
  ultimately show ?thesis by metis
qed

text \<open>
  chunks from 2 GiB on are not sent: the range is held in variables of type \<^verbatim>\<open>int\<close>, so
  that the chunk \<open>2 ^ 32\<close> bytes later sends the same bytes as the earlier one, and a chunk that
  starts in the upper half of the range fails with a seek error.
\<close>

theorem chunk_range_truncated:
  "chunk_pipe file_io (b + 2 ^ 32, e + 2 ^ 32) = chunk_pipe file_io (b, e)
   \<and> (2 ^ 31 \<le> b \<and> b < 2 ^ 32 \<longrightarrow> (\<exists>ec. chunk_pipe (Inr f) (b, e) = Inl (Seek_Failed ec)))"
proof
  have "as_int (k + 2 ^ 32) = as_int k" for k
    unfolding as_int_def by (rule word_uint_eqI) (simp only: unsigned_of_nat take_bit_eq_mod, simp)
  then show "chunk_pipe file_io (b + 2 ^ 32, e + 2 ^ 32) = chunk_pipe file_io (b, e)"
    by (simp only: chunk_pipe_def fst_conv snd_conv)
  show "2 ^ 31 \<le> b \<and> b < 2 ^ 32 \<longrightarrow> (\<exists>ec. chunk_pipe (Inr f) (b, e) = Inl (Seek_Failed ec))"
  proof
    assume b: "2 ^ 31 \<le> b \<and> b < 2 ^ 32"
    have "sint (as_int b) = signed_take_bit 31 (int b)" by (simp add: as_int_def signed_of_nat)
    also have "\<dots> = (int b + 2 ^ 31) mod 2 ^ 32 - 2 ^ 31"
      by (simp add: signed_take_bit_eq_take_bit_shift take_bit_eq_mod)
    also have "(int b + 2 ^ 31) mod 2 ^ 32 = ((int b - 2 ^ 31) + 2 ^ 32) mod 2 ^ 32" by (simp add: add.commute)
    also have "\<dots> = int b - 2 ^ 31" using b by (simp only: mod_add_self2) (rule mod_pos_pos_trivial, auto)
    finally have "sint (as_int b) = int b - 2 ^ 32" by simp
    then have "sint (scast (as_int b) :: 64 word) < 0"
      using b by (simp add: signed_scast_eq signed_take_bit_int_eq_self)
    then show "\<exists>ec. chunk_pipe (Inr f) (b, e) = Inl (Seek_Failed ec)"
      by (simp add: chunk_pipe_def open_pipe_def Seek_def fseeko_def)
  qed
qed

theorem chunk_range_truncated_witness:
  "chunk_pipe (Inr example_file) (2 ^ 32 + 1, 2 ^ 32 + 3) = chunk_pipe (Inr example_file) (1, 3)
   \<and> (\<exists>ec. chunk_pipe (Inr example_file) (2 ^ 31, 2 ^ 31 + 1) = Inl (Seek_Failed ec))"
  using chunk_range_truncated [of "Inr example_file" 1 3 example_file]
    chunk_range_truncated [of "Inr example_file" "2 ^ 31" "2 ^ 31 + 1" example_file]
  by (simp add: add.commute)

end
