(* ===== verification/Http_Post.thy ===== *)
theory Http_Post
  imports Http_Wire Upload_Chunks
begin

text \<open>
  How posted data is sent from a \<^verbatim>\<open>PostDataPipeInterface\<close> (\<^verbatim>\<open>state_send_post.hpp\<close>): the contract of
  a pipe as a locale, what the request promises for every pipe that keeps it, and the pipe of the
  chunks of an upload as an instance.
\<close>

section \<open>The text on the wire\<close>

fun wire_text :: "wire \<Rightarrow> string" where
  "wire_text (To_Proxy u t) = t"
| "wire_text (Plain u t) = t"
| "wire_text (Tls u h t) = t"

abbreviation sent_text :: "wire list \<Rightarrow> string" where
  "sent_text ws \<equiv> concat (map wire_text ws)"

lemma written_write_wire: "\<exists>w. written (write_wire t m) = written m @ [w] \<and> wire_text w = t"
  by (simp add: write_wire_def)

fun delayed :: "http_op \<times> nat \<times> nat \<Rightarrow> string" where
  "delayed (Op_Post_Delay b, d, r) = b"
| "delayed _ = []"

text \<open>The buffer that waits for the delay of the bandwidth\<close>

definition waiting :: "'p http_request \<Rightarrow> string" where
  "waiting m = concat (map delayed (live m))"

text \<open>The steps from the end of the header on, as long as the machine is in \<^const>\<open>SendPost\<close>\<close>

inductive posts ::
  "'p pipe_interface \<Rightarrow> (string \<Rightarrow> string option) \<Rightarrow> 'p http_request \<Rightarrow> 'p http_request \<Rightarrow> bool"
  for lib gunzip m where
  Enter: "hr_state m = SendHeader \<Longrightarrow> http_step lib gunzip m x \<Longrightarrow> hr_state x = SendPost \<Longrightarrow> posts lib gunzip m x"
| Stay: "posts lib gunzip m x \<Longrightarrow> http_step lib gunzip x y \<Longrightarrow> hr_state y = SendPost \<Longrightarrow> posts lib gunzip m y"

text \<open>What the progress of a post depends on\<close>

definition post_view where
  "post_view m = (hr_state m, post_data m, post_interface m, post_interface_size m,
     bytes_read_from_interface m, written m, live m)"

definition told_sent :: "'p http_request \<Rightarrow> bool" where
  "told_sent m \<longleftrightarrow> PostSent \<in> set (inner m @ outer m)"

lemma accept_eq_None: "state_data m \<noteq> Some d \<Longrightarrow> accept d r m = None"
  by (simp add: accept_def)

lemma stale_post:
  assumes "state_data m \<noteq> Some d"
  shows "post_view (complete_op lib (opn, d, r) res m) = post_view m
    \<and> told_sent (complete_op lib (opn, d, r) res m) = told_sent m"
proof -
  have "accept d r m = None" using assms by (rule accept_eq_None)
  then show ?thesis
    using assms
    by (cases opn)
       (auto simp: post_view_def told_sent_def live_def HandleResolve_def HandleConnect_def HandleHeaderWrite_def
          HandleHandshake_def handle_simple_def HandleProxyConnectWrite_def HandleProxyHeaderRead_def
          HandleHeaderRead_def HandlePostWrite_def PostViaInterfaceDelayCallback_def Let_def)
qed

lemma quiet_step_post:
  "post_view (HandleTimer t aborted m) = post_view m"
  "post_view (content_update r r' m) = post_view m"
  "post_view (dispatch evs m) = post_view m"
  "told_sent (HandleTimer t aborted m) \<Longrightarrow> told_sent m"
  "told_sent (content_update r r' m) \<Longrightarrow> told_sent m"
proof -
  have no: "PostSent \<noteq> content_outcome e" for e by (cases e) (simp_all add: failure_def)
  show "post_view (content_update r r' m) = post_view m"
    by (simp add: content_update_def machine_defs Let_def post_view_def live_def split: option.split)
  show "told_sent (content_update r r' m) \<Longrightarrow> told_sent m"
    using no by (auto simp: content_update_def dispatch_def told_sent_def Let_def split: option.splits)
qed (auto simp: HandleTimer_def machine_defs Let_def post_view_def told_sent_def live_def split: if_splits)

text \<open>How a step changes the state\<close>

lemma state_change:
  assumes step: "http_step lib gunzip m m'" and inv: "machine_inv m" and "hr_state m' \<noteq> hr_state m"
  obtains ev env where "m' = (state_entry lib env (hr_state m') ev
      (config_action lib ev (state_exit (m\<lparr>inner := [], outer := []\<rparr>))))\<lparr>hr_state := hr_state m'\<rparr>"
    and "inner m @ outer m = [ev]" and "step_target (hr_state m) (kind ev) m = Some (hr_state m')"
proof -
  note goal = that
  have fired: thesis
    if f: "m' = fire lib env ev v" and v: "inner m = ev # evs \<and> v = m\<lparr>inner := evs\<rparr>
        \<or> inner m = [] \<and> outer m = ev # evs \<and> v = m\<lparr>outer := evs\<rparr>" for env ev evs v
  proof -
    have st: "hr_state v = hr_state m" using v by auto
    have fin: "\<not> finished m" using f st assms(3) by (auto simp: fire_def finished_def)
    note alone = fired_alone [OF inv v fin]
    have "transition_target v ev \<noteq> None"
      using f st assms(3) by (auto simp: fire_def split: if_splits option.splits)
    then obtain target where t: "step_target (hr_state m) (kind ev) m = Some target"
      using alone by (auto simp: transition_target_eq)
    then have "m' = (state_entry lib env target ev (config_action lib ev (state_exit v)))\<lparr>hr_state := target\<rparr>"
      using f fin alone by (simp add: fire_def finished_def transition_target_eq)
    then show thesis using goal [of env ev] alone t by simp
  qed
  show thesis
    using step
  proof cases
    case (Inner ev evs env)
    then show thesis using fired by blast
  next
    case (Outer ev evs env)
    then show thesis using fired by blast
  next
    case (Operation t res)
    then show thesis using assms(3) by (simp add: complete_op_frame)
  qed (use assms(3) in \<open>simp_all add: dispatch_def\<close>)
qed

section \<open>The contract of a pipe\<close>

locale data_pipe =
  fixes lib :: "'p pipe_interface"
    and content :: "'p \<Rightarrow> string"
    and good :: "'p \<Rightarrow> bool"
  assumes no_throw: "fst (retrieve lib p) \<noteq> Thrown"
    and gives: "good p \<Longrightarrow> retrieve lib p = (Retrieved b, p')
      \<Longrightarrow> good p' \<and> content p = b @ content p' \<and> pipe_size lib p' = pipe_size lib p"
    and ends: "good p \<Longrightarrow> retrieve lib p = (Retrieved [], p') \<Longrightarrow> content p' = []"
begin

lemma lib_ok: "pipe_ok lib"
  by (simp add: pipe_ok_def no_throw)

lemma retrieved:
  assumes "good p"
  obtains b p' where "retrieve lib p = (Retrieved b, p')" and "good p'" and "content p = b @ content p'"
    and "pipe_size lib p' = pipe_size lib p" and "b = [] \<longrightarrow> content p' = []"
proof -
  obtain res p' where r: "retrieve lib p = (res, p')" by fastforce
  then obtain b where "res = Retrieved b" using no_throw [of p] by (cases res) auto
  then show thesis using that r gives [OF assms] ends [OF assms] by metis
qed

definition pipe_at :: "wire list \<Rightarrow> string \<Rightarrow> 'p http_request \<Rightarrow> string \<Rightarrow> bool" where
  "pipe_at base c m w \<longleftrightarrow> hr_state m = SendPost \<and> post_data m = None
     \<and> post_interface_size m = length c
     \<and> (\<exists>p ws. post_interface m = Some p \<and> good p \<and> pipe_size lib p = length c \<and> written m = base @ ws
          \<and> sent_text ws @ w @ content p = c \<and> bytes_read_from_interface m + length (content p) = length c
          \<and> (PostSent \<in> set (inner m @ outer m) \<longrightarrow> w = [] \<and> content p = []))"

lemma next_part:
  assumes "pipe_at base c m []" and "inner m = []" and "outer m = []" and "state_data m = Some d"
    and "PostViaInterface lib m = (evs, v)"
  shows "(evs = [PostSent] \<and> pending v = pending m
      \<or> (\<exists>b. evs = [] \<and> b \<noteq> [] \<and> pending v = pending m @ [(Op_Post_Delay b, d, 0)]))
    \<and> pipe_at base c (dispatch evs v) (concat (map delayed (drop (length (pending m)) (pending v))))
    \<and> pipe_at base c (v\<lparr>inner := evs\<rparr>) (concat (map delayed (drop (length (pending m)) (pending v))))
    \<and> state_data v = state_data m"
proof -
  obtain p ws where p: "post_interface m = Some p" "good p" "pipe_size lib p = length c" "written m = base @ ws"
    "sent_text ws @ content p = c" "bytes_read_from_interface m + length (content p) = length c"
    using assms(1) by (auto simp: pipe_at_def)
  obtain b p' where r: "retrieve lib p = (Retrieved b, p')" "good p'" "content p = b @ content p'"
    "pipe_size lib p' = pipe_size lib p" "b = [] \<longrightarrow> content p' = []"
    by (rule retrieved [OF p(2)])
  have base: "hr_state m = SendPost" "post_data m = None" "post_interface_size m = length c"
    using assms(1) by (simp_all add: pipe_at_def)
  show ?thesis
  proof (cases "b = []")
    case True
    then have "content p = []" using r by simp
    then show ?thesis
      using assms(2-5) p r base True by (auto simp: PostViaInterface_def pipe_at_def dispatch_def)
  next
    case False
    then show ?thesis
      using assms(2-5) p r base by (auto simp: PostViaInterface_def pipe_at_def dispatch_def)
  qed
qed

lemma pipe_at_cong:
  assumes "post_view v = post_view m" and "told_sent v \<longrightarrow> told_sent m" and "pipe_at base c m (waiting m)"
  shows "pipe_at base c v (waiting v)"
  using assms by (auto simp: pipe_at_def post_view_def told_sent_def waiting_def)

lemma delay_part:
  assumes inv: "machine_inv m" and at: "pipe_at base c m (waiting m)" and q: "quiet m"
    and t: "(Op_Post_Delay b, d, r) \<in> set (pending m)" and d: "state_data m = Some d"
    and possible: "completion_possible (Op_Post_Delay b, d, r) res m"
  defines "v \<equiv> PostViaInterfaceDelayCallback b d res (without (Op_Post_Delay b, d, r) m)"
  shows "pipe_at base c v (waiting v)"
proof -
  have live: "live m = [(Op_Post_Delay b, d, r)]" "delay_enabled m"
    using live_op [OF inv q d t] by (simp_all add: op_armed_def)
  have w: "waiting m = b" by (simp add: waiting_def live)
  have rest: "live (without (Op_Post_Delay b, d, r) m) = []" by (simp add: without_live live)
  have v: "v = start_op Op_Post_Write (write_wire b (SetAsyncTimeout
      ((without (Op_Post_Delay b, d, r) m)\<lparr>delay_enabled := False\<rparr>)))"
    using live(2) possible d by (auto simp: v_def PostViaInterfaceDelayCallback_def completion_possible_def without_def)
  have "live v = live (without (Op_Post_Delay b, d, r) m) @ [(Op_Post_Write, d, timeout_id m + 1)]"
    using d by (simp add: live_def v machine_defs verify_def without_def)
  then have "waiting v = []" by (simp add: waiting_def rest)
  moreover have "pipe_at base c v []"
    using at q w
    by (auto simp: pipe_at_def v machine_defs verify_def without_def quiet_def)
  ultimately show ?thesis by simp
qed

lemma write_part:
  fixes res :: op_result
  assumes inv: "machine_inv m" and at: "pipe_at base c m (waiting m)" and q: "quiet m"
    and t: "(Op_Post_Write, d, r) \<in> set (pending m)" and d: "state_data m = Some d"
  defines "v \<equiv> HandlePostWrite lib d r res (without (Op_Post_Write, d, r) m)"
  shows "pipe_at base c v (waiting v)"
proof -
  define x where "x = accepted (Op_Post_Write, d, r) m"
  have live: "live m = [(Op_Post_Write, d, r)]" using live_op [OF inv q d t] by simp
  have acc: "accept d r (without (Op_Post_Write, d, r) m) = Some x"
    using not_taken [OF inv q d t] by (simp add: accept_eq [OF d] x_def)
  have lx: "live x = []" using accepted_state [OF inv q d t] by (simp add: x_def)
  have at_x: "pipe_at base c x []"
    using at live by (auto simp: pipe_at_def waiting_def x_def accepted_def machine_defs without_def)
  have x: "inner x = []" "outer x = []" "state_data x = Some d" "post_interface x = post_interface m"
    using q d by (simp_all add: x_def quiet_def)
  show ?thesis
  proof (cases "res = Op_Failed")
    case True
    then have "v = dispatch [failure WriteFailure] x" using acc by (simp add: v_def HandlePostWrite_def)
    then show ?thesis
      using at_x lx by (auto simp: pipe_at_def waiting_def live_def dispatch_def failure_def)
  next
    case False
    obtain evs w where w: "PostViaInterface lib x = (evs, w)" by fastforce
    have "post_interface m \<noteq> None" using at by (auto simp: pipe_at_def)
    then have v: "v = dispatch evs w" using False acc w x by (simp add: v_def HandlePostWrite_def)
    note part = next_part [OF at_x x(1-3) w]
    then have "live v = drop (length (pending x)) (pending w)"
      using lx x(3) by (auto simp: v live_def dispatch_def)
    then show ?thesis using part by (simp add: v waiting_def)
  qed
qed

lemma entry_part:
  assumes "between x" and "post_data x = None" and "post_interface x = Some p" and "good p"
    and "pipe_size lib p = length (content p)"
  defines "v \<equiv> (SendPost_entry lib x)\<lparr>hr_state := SendPost\<rparr>"
  shows "pipe_at (written x) (content p) v (waiting v)"
proof -
  define y where "y = (new_state_data x)\<lparr>post_interface_size := pipe_size lib p, bytes_read_from_interface := 0,
      hr_state := SendPost\<rparr>"
  obtain evs w where w: "PostViaInterface lib y = (evs, w)" by fastforce
  have at: "pipe_at (written x) (content p) y []"
    using assms by (auto simp: pipe_at_def y_def new_state_data_def between_def)
  have y: "inner y = []" "outer y = []" "state_data y = Some (next_data x)"
    using assms(1) by (simp_all add: y_def new_state_data_def between_def)
  have ly: "live y = []"
    using assms(1) by (force simp: y_def new_state_data_def between_def live_def ids_ok_def filter_empty_conv)
  note part = next_part [OF at y w]
  have "PostViaInterface lib (y\<lparr>hr_state := hr_state x\<rparr>) = (evs, w\<lparr>hr_state := hr_state x\<rparr>)"
    using w by (auto simp: PostViaInterface_def verify_def Let_def split: option.splits prod.splits retrieved.splits if_splits)
  then have "v = w\<lparr>inner := inner w @ evs\<rparr>"
    using assms(2,3) part by (simp add: v_def SendPost_entry_def y_def new_state_data_def pipe_at_def)
  moreover have "inner w = []"
    using w y by (auto simp: PostViaInterface_def verify_def Let_def split: option.splits prod.splits retrieved.splits if_splits)
  ultimately have v: "v = w\<lparr>inner := evs\<rparr>" by simp
  have "live v = drop (length (pending y)) (pending w)"
    using part ly y(3) by (auto simp: v live_def)
  then show ?thesis using part by (simp add: v waiting_def)
qed

lemma enter_post:
  assumes "machine_inv m" and "hr_state m = SendHeader" and "http_step lib gunzip m x" and "hr_state x = SendPost"
    and "post_data m = None" and "post_interface m = Some p" and "good p" and "pipe_size lib p = length (content p)"
  shows "pipe_at (written m) (content p) x (waiting x)"
proof -
  have "hr_state x \<noteq> hr_state m" using assms(2,4) by simp
  from state_change [OF assms(3,1) this]
  obtain ev env where x: "x = (state_entry lib env (hr_state x) ev
      (config_action lib ev (state_exit (m\<lparr>inner := [], outer := []\<rparr>))))\<lparr>hr_state := hr_state x\<rparr>"
    and t: "step_target (hr_state m) (kind ev) m = Some (hr_state x)" by blast
  define y where "y = state_exit (m\<lparr>inner := [], outer := []\<rparr>)"
  have "kind ev = K_HeadersWritten" using t assms(2,4) by (auto split: if_splits)
  then have "config_action lib ev y = y" by (cases ev) (simp_all add: config_action_def)
  then have "x = (SendPost_entry lib y)\<lparr>hr_state := SendPost\<rparr>"
    using x assms(4) by (simp add: y_def)
  moreover have "between y" unfolding y_def by (rule exit_between [OF assms(1)])
  moreover have "written y = written m" "post_data y = post_data m" "post_interface y = post_interface m"
    by (simp_all add: y_def state_exit_def)
  ultimately show ?thesis using entry_part [of y p] assms(5-8) by simp
qed

lemma stay_post:
  assumes "machine_inv m" and "pipe_at base c m (waiting m)" and "http_step lib gunzip m x" and "hr_state x = SendPost"
  shows "pipe_at base c x (waiting x)"
proof -
  have st: "hr_state m = SendPost" using assms(2) by (simp add: pipe_at_def)
  have same: "pipe_at base c (fire lib env ev v) (waiting (fire lib env ev v))"
    if v: "inner m = ev # evs \<and> v = m\<lparr>inner := evs\<rparr> \<or> inner m = [] \<and> outer m = ev # evs \<and> v = m\<lparr>outer := evs\<rparr>"
      and x: "x = fire lib env ev v" for env ev evs v
  proof -
    have "hr_state v = SendPost" using v st by auto
    then have "transition_target v ev = None"
      using x assms(4) by (auto simp: fire_def transition_target_eq split: if_splits option.splits)
    then have "fire lib env ev v = (if is_config ev then v\<lparr>misused := True\<rparr> else v\<lparr>broken := True\<rparr>)"
      using \<open>hr_state v = SendPost\<close> by (simp add: fire_def)
    then show ?thesis
      using v by (intro pipe_at_cong [OF _ _ assms(2)]) (auto simp: post_view_def live_def told_sent_def)
  qed
  show ?thesis
    using assms(3)
  proof cases
    case (Inner ev evs env)
    then show ?thesis using same by blast
  next
    case (Outer ev evs env)
    then show ?thesis using same by blast
  next
    case (User ev)
    show ?thesis
      unfolding User(1)
      by (rule pipe_at_cong [OF _ _ assms(2)])
         (simp add: quiet_step_post, use User(3) in \<open>auto simp: told_sent_def dispatch_def user_may_def\<close>)
  next
    case (Operation t res)
    obtain opn d r where t: "t = (opn, d, r)" by (cases t)
    show ?thesis
    proof (cases "state_data m = Some d")
      case True
      then have "op_of SendPost opn"
        using live_op [OF assms(1) Operation(2) True] Operation(3) st by (simp add: t)
      then consider "opn = Op_Post_Write" | b where "opn = Op_Post_Delay b" by (cases opn) auto
      then show ?thesis
        using write_part [OF assms(1,2) Operation(2) _ True] delay_part [OF assms(1,2) Operation(2) _ True]
          Operation(1,3,4)
        by cases (auto simp: t without_def)
    next
      case False
      have "t \<notin> set (live m)" using False by (auto simp: t live_def)
      then have "live (without t m) = live m" by (simp add: without_live remove1_idem)
      then have "post_view (without t m) = post_view m" "told_sent (without t m) = told_sent m"
        by (simp_all add: post_view_def without_def told_sent_def)
      moreover have "state_data (without t m) \<noteq> Some d" using False by (simp add: without_def)
      ultimately show ?thesis
        unfolding Operation(1) t without_def [symmetric]
        by (intro pipe_at_cong [OF _ _ assms(2)]) (simp_all add: stale_post)
    qed
  next
    case (Timer t aborted)
    then show ?thesis using pipe_at_cong [OF _ _ assms(2)] quiet_step_post(1,4) by blast
  next
    case (Content r r')
    then show ?thesis using pipe_at_cong [OF _ _ assms(2)] quiet_step_post(2,5) by blast
  next
    case (Content_Timeout r)
    then show ?thesis using pipe_at_cong [OF _ _ assms(2)] quiet_step_post(2,5) by blast
  qed
qed

lemma posts_progress:
  assumes "posts lib gunzip m x" and "http_reachable lib gunzip m"
    and "post_data m = None" and "post_interface m = Some p" and "good p" and "pipe_size lib p = length (content p)"
  shows "http_reachable lib gunzip x \<and> pipe_at (written m) (content p) x (waiting x)"
  using assms(1)
proof (induction rule: posts.induct)
  case (Enter x)
  then show ?case
    using enter_post http_reachable_inv [OF assms(2)] lib_ok assms(2-6) http_reachable.Step by blast
next
  case (Stay x y)
  then show ?case using stay_post http_reachable_inv lib_ok http_reachable.Step by blast
qed

text \<open>A post that is over has sent the content of the pipe, and has exhausted it.\<close>

lemma post_complete:
  assumes "posts lib gunzip m x" and "http_reachable lib gunzip m"
    and "post_data m = None" and "post_interface m = Some p" and "good p" and "pipe_size lib p = length (content p)"
    and "http_step lib gunzip x y" and "hr_state y = ReadHeaders"
  shows "\<exists>ws p'. written y = written m @ ws \<and> sent_text ws = content p
    \<and> post_interface y = Some p' \<and> good p' \<and> content p' = [] \<and> pipe_size lib p' = pipe_size lib p"
proof -
  note x = posts_progress [OF assms(1-6)]
  then have st: "hr_state x = SendPost" by (simp add: pipe_at_def)
  have inv: "machine_inv x" using x http_reachable_inv lib_ok by blast
  have "hr_state y \<noteq> hr_state x" using assms(8) st by simp
  from state_change [OF assms(7) inv this]
  obtain ev env where y: "y = (state_entry lib env (hr_state y) ev
      (config_action lib ev (state_exit (x\<lparr>inner := [], outer := []\<rparr>))))\<lparr>hr_state := hr_state y\<rparr>"
    and ev: "inner x @ outer x = [ev]" and t: "step_target (hr_state x) (kind ev) x = Some (hr_state y)" by blast
  have sent: "ev = PostSent" using t st assms(8) by (cases ev) (auto split: if_splits)
  then have "y = (ReadHeaders_entry (state_exit (x\<lparr>inner := [], outer := []\<rparr>)))\<lparr>hr_state := ReadHeaders\<rparr>"
    using y assms(8) by (simp add: config_action_def)
  then have "written y = written x" "post_interface y = post_interface x"
    by (simp_all add: ReadHeaders_entry_def machine_defs verify_def state_exit_def)
  moreover have "PostSent \<in> set (inner x @ outer x)" unfolding ev sent by simp
  ultimately show ?thesis using x assms(6) by (auto simp: pipe_at_def)
qed

text \<open>What was read is announced: the size never disagrees with what the pipe gave.\<close>

lemma exhausted_pipe_fails:
  assumes "good p" and "content p = []" and "pipe_size lib p \<noteq> 0"
    and "post_data m = None" and "post_interface m = Some p"
  shows "inner (SendPost_entry lib m) = inner m @ [failure PostInterfaceReadFailure]"
proof -
  obtain b p' where r: "retrieve lib p = (Retrieved b, p')" "content p = b @ content p'"
    by (rule retrieved [OF assms(1)])
  then have "b = []" using assms(2) by simp
  then show ?thesis
    using assms(3-5) r(1) by (simp add: SendPost_entry_def new_state_data_def PostViaInterface_def)
qed

end

section \<open>The pipe of an upload\<close>

text \<open>\<^verbatim>\<open>UploadPostDataPipe\<close> as the \<^verbatim>\<open>PostDataPipeInterface\<close> of the request\<close>

definition upload_lib :: "pipe pipe_interface" where
  "upload_lib = \<lparr>pipe_size = (\<lambda>p. unat (PostDataSize p)),
     retrieve = (\<lambda>p. case RetreivePostDataChunk p of
                        (None, p') \<Rightarrow> (Retrieved [], p')
                      | (Some b, p') \<Rightarrow> (Retrieved b, p'))\<rparr>"

definition upload_good :: "pipe \<Rightarrow> bool" where
  "upload_good p \<longleftrightarrow> fault (pipe_file p) = None \<and> pos (pipe_file p) \<le> unat (end_byte p)
     \<and> unat (end_byte p) \<le> length (contents (pipe_file p)) \<and> unat (end_byte p) < 2 ^ 63
     \<and> current_read_pos p = word_of_nat (pos (pipe_file p))"

definition upload_content :: "pipe \<Rightarrow> string" where
  "upload_content p = file_slice (contents (pipe_file p)) (pos (pipe_file p), unat (end_byte p))"

lemma upload_retrieve:
  assumes "upload_good p" and "RetreivePostDataChunk p = (r, p')"
  shows "upload_good p' \<and> upload_content p = (case r of None \<Rightarrow> [] | Some b \<Rightarrow> b) @ upload_content p'
    \<and> (r = None \<longleftrightarrow> upload_content p = []) \<and> r \<noteq> Some []"
proof -
  define c i e where "c = contents (pipe_file p)" and "i = pos (pipe_file p)" and "e = unat (end_byte p)"
  have p: "fault (pipe_file p) = None" "contents (pipe_file p) = c" "pos (pipe_file p) = i" "i \<le> e"
    "e \<le> length c" "e < 2 ^ 63" "current_read_pos p = word_of_nat i" "end_byte p = word_of_nat e"
    using assms(1) by (simp_all add: upload_good_def c_def i_def e_def)
  show ?thesis
  proof (cases "i < e")
    case True
    let ?j = "min (i + 8192) e"
    have r: "r = Some (file_slice c (i, ?j))"
      "p' = p\<lparr>pipe_file := (pipe_file p)\<lparr>pos := ?j\<rparr>, current_read_pos := word_of_nat ?j\<rparr>"
      using assms(2) Retreive_step [OF p(1-3) True p(5-8)] by simp_all
    have "length (file_slice c (i, ?j)) = ?j - i" using True p(5) by (simp add: file_slice_def)
    then have "file_slice c (i, ?j) \<noteq> []" using True by auto
    moreover have "file_slice c (i, e) = file_slice c (i, ?j) @ file_slice c (?j, e)"
      using True by (intro slice_split) simp_all
    moreover have "upload_good p'"
      using p(1,2,5,6) r(2) e_def by (simp add: upload_good_def)
    ultimately show ?thesis using p(2,3) by (auto simp: upload_content_def r e_def [symmetric])
  next
    case False
    then have "i = e" using p(4) by simp
    then have "RetreivePostDataChunk p = (None, p)"
      using p(3,7,8) by (simp add: RetreivePostDataChunk_def Tell_def)
    then show ?thesis
      using assms p(3) \<open>i = e\<close> by (simp add: upload_content_def e_def [symmetric] file_slice_def)
  qed
qed

lemma Retreive_size: "RetreivePostDataChunk p = (r, p') \<Longrightarrow> PostDataSize p' = PostDataSize p"
  by (auto simp: RetreivePostDataChunk_def PostDataSize_def Let_def split: prod.splits if_splits)

interpretation upload_pipe: data_pipe upload_lib upload_content upload_good
proof unfold_locales
  show "fst (retrieve upload_lib p) \<noteq> Thrown" for p
    by (simp add: upload_lib_def split: prod.split option.split)
  fix p b p'
  assume good: "upload_good p" and ret: "retrieve upload_lib p = (Retrieved b, p')"
  obtain r where r: "RetreivePostDataChunk p = (r, p')" "b = (case r of None \<Rightarrow> [] | Some b \<Rightarrow> b)"
    using ret by (simp add: upload_lib_def split: prod.splits option.splits)
  show "upload_good p' \<and> upload_content p = b @ upload_content p'
      \<and> pipe_size upload_lib p' = pipe_size upload_lib p"
    using upload_retrieve [OF good r(1)] r(2) Retreive_size [OF r(1)] by (simp add: upload_lib_def)
next
  fix p p'
  assume good: "upload_good p" and ret: "retrieve upload_lib p = (Retrieved [], p')"
  obtain r where r: "RetreivePostDataChunk p = (r, p')" "r = None \<or> r = Some []"
    using ret by (simp add: upload_lib_def split: prod.splits option.splits)
  show "upload_content p' = []"
    using upload_retrieve [OF good r(1)] r(2) by auto
qed

lemma chunk_pipe_good:
  assumes "chunk_pipe (Inr f) (b, e) = Inr p" and "fault f = None" and "b \<le> e" and "e \<le> length (contents f)"
    and "e < 2 ^ 31"
  shows "upload_good p \<and> upload_content p = file_slice (contents f) (b, e)
    \<and> pipe_size upload_lib p = length (upload_content p) \<and> pipe_size upload_lib p = e - b"
proof -
  have p: "p = UploadPostDataPipe (f\<lparr>pos := b, feof := False\<rparr>) (word_of_nat b) (word_of_nat e)"
    using assms by (simp add: chunk_pipe_opened)
  have e: "unat (word_of_nat e :: 64 word) = e" using assms(5) by (intro unat_word_of_nat) simp
  have "PostDataSize p = word_of_nat (e - b)"
    using assms(3) by (simp add: PostDataSize_def UploadPostDataPipe_def of_nat_diff p)
  then have size: "pipe_size upload_lib p = e - b"
    using assms(5) unat_word_of_nat [of "e - b"] by (simp add: upload_lib_def del: of_nat_diff)
  have "unat (end_byte p) = e" by (simp add: p UploadPostDataPipe_def del: unsigned_of_nat) (rule e)
  then have "upload_good p" "upload_content p = file_slice (contents f) (b, e)"
    using assms by (simp_all add: p upload_good_def upload_content_def UploadPostDataPipe_def)
  moreover have "length (file_slice (contents f) (b, e)) = e - b"
    using assms(4) by (simp add: file_slice_def)
  ultimately show ?thesis using size by simp
qed



section \<open>A chunk on its way\<close>

definition ex_chunk :: pipe where
  "ex_chunk = UploadPostDataPipe (example_file\<lparr>pos := 1, feof := False\<rparr>) 1 3"

definition ex_header_moves :: "pipe move list" where
  "ex_header_moves = [Do (ConfigEvent (ConfigPostDataPipe ex_chunk)), Process ex_env, Do StartEvent,
     Process ex_env, Process ex_env, Finish (Op_Done [] 0), Process ex_env, Finish (Op_Done [] 0),
     Process ex_env, Finish (Op_Done [] 0)]"

text \<open>The header is written; the post begins, its only buffer waits and is written; the end is told.\<close>

definition ex_header_sent :: "pipe http_request" where
  "ex_header_sent = the (run upload_lib ex_header_moves (HttpRequest HttpConfig ''http://h/x'' 0))"

fun ex_posting :: "nat \<Rightarrow> pipe http_request" where
  "ex_posting 0 = ex_header_sent"
| "ex_posting (Suc n) =
     the (move_one upload_lib (if n = 0 \<or> n = 3 then Process ex_env else Finish (Op_Done [] 0)) (ex_posting n))"

lemma ex_header_some: "run upload_lib ex_header_moves (HttpRequest HttpConfig ''http://h/x'' 0) \<noteq> None"
  by code_simp

lemma ex_post_moves:
  "move_one upload_lib (Process ex_env) (ex_posting 0) \<noteq> None"
  "move_one upload_lib (Finish (Op_Done [] 0)) (ex_posting 1) \<noteq> None"
  "move_one upload_lib (Finish (Op_Done [] 0)) (ex_posting 2) \<noteq> None"
  "move_one upload_lib (Process ex_env) (ex_posting 3) \<noteq> None"
  by code_simp+

lemma ex_post_states:
  "hr_state (ex_posting 0) = SendHeader" "hr_state (ex_posting 1) = SendPost" "hr_state (ex_posting 2) = SendPost"
  "hr_state (ex_posting 3) = SendPost" "hr_state (ex_posting 4) = ReadHeaders"
  "post_interface (ex_posting 0) = Some ex_chunk" "post_data (ex_posting 0) = None"
  by code_simp+

lemma ex_post_steps:
  "http_step upload_lib gunzip (ex_posting 0) (ex_posting 1)"
  "http_step upload_lib gunzip (ex_posting 1) (ex_posting 2)"
  "http_step upload_lib gunzip (ex_posting 2) (ex_posting 3)"
  "http_step upload_lib gunzip (ex_posting 3) (ex_posting 4)"
proof -
  have s: "http_step upload_lib gunzip m (the (move_one upload_lib v m))" if "move_one upload_lib v m \<noteq> None" for v m
    using that by (auto intro: move_step)
  have n: "ex_posting 1 = the (move_one upload_lib (Process ex_env) (ex_posting 0))"
    "ex_posting 2 = the (move_one upload_lib (Finish (Op_Done [] 0)) (ex_posting 1))"
    "ex_posting 3 = the (move_one upload_lib (Finish (Op_Done [] 0)) (ex_posting 2))"
    "ex_posting 4 = the (move_one upload_lib (Process ex_env) (ex_posting 3))"
    by (simp_all only: numeral_eq_Suc One_nat_def pred_numeral_simps BitM.simps ex_posting.simps) simp_all
  show "http_step upload_lib gunzip (ex_posting 0) (ex_posting 1)"
    unfolding n(1) by (rule s [OF ex_post_moves(1)])
  show "http_step upload_lib gunzip (ex_posting 1) (ex_posting 2)"
    unfolding n(2) by (rule s [OF ex_post_moves(2)])
  show "http_step upload_lib gunzip (ex_posting 2) (ex_posting 3)"
    unfolding n(3) by (rule s [OF ex_post_moves(3)])
  show "http_step upload_lib gunzip (ex_posting 3) (ex_posting 4)"
    unfolding n(4) by (rule s [OF ex_post_moves(4)])
qed

declare ex_posting.simps [simp del]

lemma ex_post_run:
  "http_reachable upload_lib gunzip (ex_posting 0) \<and> posts upload_lib gunzip (ex_posting 0) (ex_posting 3)"
proof -
  have "http_reachable upload_lib gunzip (ex_posting 0)"
    unfolding ex_posting.simps ex_header_sent_def by (rule run_the [OF ex_header_some])
  moreover have "posts upload_lib gunzip (ex_posting 0) (ex_posting 3)"
    by (rule Stay [OF Stay [OF Enter]]) (rule ex_post_states ex_post_steps)+
  ultimately show ?thesis ..
qed

lemma ex_chunk_pipe: "chunk_pipe (Inr example_file) (1, 3) = Inr ex_chunk"
  by (simp add: chunk_pipe_opened ex_chunk_def)



end
