(* ===== verification/Upload_Hasher.thy ===== *)
theory Upload_Hasher
  imports File_IO Upload_Stepping
begin

text \<open>
  \<^verbatim>\<open>uploader/hasher.cpp\<close> and \<^verbatim>\<open>uploader/detail/hasher_transitions\<close>: a file is read in blocks,
  each run from the queue of the I/O service, and hashed as a whole and by chunk. SHA-256 is a
  parameter; a hasher object is the bytes it was given. The file system is what a step
  observes of it.
\<close>

section \<open>Data\<close>

datatype hash_error = File_Error file_io_error | System_Error nat | Hash_Cancelled

record hasher_state =
  filesize :: nat
  mtime :: nat
  primary_hasher :: string
  chunk_hasher :: string
  chunk_ranges :: "range list"
  chunk_hashes :: "string list"

record FileHashes =
  file_size :: nat
  hash :: string
  fh_chunk_hashes :: "string list"
  fh_chunk_ranges :: "range list"

datatype hash_event =
    StartHash hasher_state
  | ReadNext hasher_state fileio nat
  | HashSuccess hasher_state string
  | Hash_Error hasher_state hash_error

text \<open>\<^verbatim>\<open>last_write_time\<close> and \<^verbatim>\<open>file_size\<close>, or the error number of the system\<close>

record observation =
  obs_mtime :: "nat + nat"
  obs_size :: "nat + nat"

section \<open>Transitions\<close>

text \<open>
  \<^const>\<open>None\<close> is the exception of \<^verbatim>\<open>at\<close> or the failed assertion. The bytes read are the
  buffer; sizes stay below the size of a file, so the additions do not wrap.
\<close>

function ParseRead ::
  "(string \<Rightarrow> string) \<Rightarrow> hasher_state \<Rightarrow> nat \<Rightarrow> string \<Rightarrow> (nat \<times> hasher_state) option" where
  "ParseRead sha256 state previous_total_bytes_read buffer =
     (if buffer = [] then Some (previous_total_bytes_read, state)
      else if length (chunk_ranges state) \<le> length (chunk_hashes state) then None
      else
        let read_end = previous_total_bytes_read + length buffer;
            range_end = snd (chunk_ranges state ! length (chunk_hashes state));
            state = state\<lparr>primary_hasher := primary_hasher state @ buffer\<rparr>
        in if range_end \<le> previous_total_bytes_read then None
           else if read_end < range_end
           then Some (previous_total_bytes_read + length buffer,
                      state\<lparr>chunk_hasher := chunk_hasher state @ buffer\<rparr>)
           else
             let bytes_to_first_chunk = range_end - previous_total_bytes_read;
                 state = state\<lparr>chunk_hashes := chunk_hashes state
                                 @ [sha256 (chunk_hasher state @ take bytes_to_first_chunk buffer)],
                               chunk_hasher := []\<rparr>
             in ParseRead sha256 state (previous_total_bytes_read + bytes_to_first_chunk)
                  (drop bytes_to_first_chunk buffer))"
  by pat_completeness auto

termination
  by (relation "measure (\<lambda>(_, _, _, buffer). length buffer)") auto

text \<open>\<^verbatim>\<open>VerifyFileUnchanged\<close>: the error it reports, if any\<close>

definition VerifyFileUnchanged :: "observation \<Rightarrow> hasher_state \<Rightarrow> hash_error option" where
  "VerifyFileUnchanged obs state =
     (case obs_mtime obs of
        Inl errno \<Rightarrow> Some (System_Error errno)
      | Inr t \<Rightarrow>
          if t \<noteq> mtime state then Some (File_Error FileModified)
          else (case obs_size obs of
                  Inl errno \<Rightarrow> Some (System_Error errno)
                | Inr n \<Rightarrow> if n \<noteq> filesize state then Some (File_Error FileModified) else None))"

definition OpenFile :: "nat + fileio \<Rightarrow> hasher_state \<Rightarrow> hash_event" where
  "OpenFile opened state = (case opened of
       Inl errno \<Rightarrow> Hash_Error state (System_Error errno)
     | Inr file_io \<Rightarrow> ReadNext state file_io 0)"

definition buf_size :: nat where [code_defs]: "buf_size = 1024 * 8"

text \<open>
  The event that a block leads to: \<^const>\<open>ReadNext\<close> is posted, the others are processed at once.
  \<^const>\<open>None\<close> is a failure of \<^const>\<open>ParseRead\<close> or of the assertion behind it.
\<close>

definition ReadFile ::
  "(string \<Rightarrow> string) \<Rightarrow> observation \<Rightarrow> observation \<Rightarrow> hasher_state \<Rightarrow> fileio \<Rightarrow> nat \<Rightarrow> hash_event option"
where
  "ReadFile sha256 obs1 obs2 state file_io read_byte_pos =
     (case VerifyFileUnchanged obs1 state of
        Some err \<Rightarrow> Some (Hash_Error state err)
      | None \<Rightarrow>
          (case Read buf_size file_io of
             (buffer, ec, file_io) \<Rightarrow>
               if ec = Some EndOfFile then
                 (case ParseRead sha256 state read_byte_pos buffer of
                    None \<Rightarrow> None
                  | Some (_, state) \<Rightarrow>
                      if length (chunk_ranges state) \<noteq> length (chunk_hashes state) then None
                      else
                        let digest = sha256 (primary_hasher state);
                            state = state\<lparr>primary_hasher := []\<rparr>
                        in (case VerifyFileUnchanged obs2 state of
                              Some err \<Rightarrow> Some (Hash_Error state err)
                            | None \<Rightarrow> Some (HashSuccess state digest)))
               else
                 (case ec of
                    Some e \<Rightarrow> Some (Hash_Error state (File_Error e))
                  | None \<Rightarrow>
                      (case ParseRead sha256 state read_byte_pos buffer of
                         None \<Rightarrow> None
                       | Some (total_bytes_read, state) \<Rightarrow>
                           Some (ReadNext state file_io total_bytes_read)))))"

section \<open>The state machine of the hasher\<close>

datatype hash_machine_state = Unstarted | Started | Reading | Success | Failed

text \<open>The rows of the transition table, by source state and kind of event\<close>

fun hash_transition :: "hash_machine_state \<Rightarrow> hash_event \<Rightarrow> hash_machine_state option" where
  "hash_transition Unstarted (StartHash _) = Some Started"
| "hash_transition Started (ReadNext _ _ _) = Some Reading"
| "hash_transition Started (Hash_Error _ _) = Some Failed"
| "hash_transition Reading (HashSuccess _ _) = Some Success"
| "hash_transition Reading (ReadNext _ _ _) = Some Reading"
| "hash_transition Reading (Hash_Error _ _) = Some Failed"
| "hash_transition _ _ = None"

record hash_machine =
  machine_state :: hash_machine_state
  callbacks :: "(hash_error + FileHashes) list"
  posted :: "hash_event list"
  hash_assertion :: bool       \<comment> \<open>an assertion failed\<close>

record hash_env =
  opened :: "nat + fileio"
  obs1 :: observation
  obs2 :: observation

text \<open>What the transition into a state tells the callback\<close>

fun hash_entry :: "hash_machine_state \<Rightarrow> hash_event \<Rightarrow> (hash_error + FileHashes) list" where
  "hash_entry Success (HashSuccess state digest) =
     [Inr \<lparr>file_size = filesize state, hash = digest,
           fh_chunk_hashes = chunk_hashes state, fh_chunk_ranges = chunk_ranges state\<rparr>]"
| "hash_entry Failed (Hash_Error _ err) = [Inl err]"
| "hash_entry _ _ = []"

text \<open>What the action of a row processes next: \<^const>\<open>None\<close> is a failed assertion.\<close>

fun hash_action ::
  "(string \<Rightarrow> string) \<Rightarrow> hash_env \<Rightarrow> hash_event \<Rightarrow> hash_event list option" where
  "hash_action sha256 env (StartHash state) = Some [OpenFile (opened env) state]"
| "hash_action sha256 env (ReadNext state file_io p) =
     map_option (\<lambda>ev. [ev]) (ReadFile sha256 (obs1 env) (obs2 env) state file_io p)"
| "hash_action sha256 env _ = Some []"

fun is_read :: "hash_event \<Rightarrow> bool" where
  "is_read (ReadNext _ _ _) = True"
| "is_read _ = False"

text \<open>
  One transition: terminate states ignore every event, other states assert on an event without
  a row. The second result are the events the action processed; a \<^const>\<open>ReadNext\<close> of
  \<^const>\<open>ReadFile\<close> is posted instead.
\<close>

definition hash_fire ::
  "(string \<Rightarrow> string) \<Rightarrow> hash_env \<Rightarrow> hash_machine \<Rightarrow> hash_event \<Rightarrow> hash_machine \<times> hash_event list" where
  "hash_fire sha256 env m ev =
     (if machine_state m \<in> {Success, Failed} then (m, [])
      else (case hash_transition (machine_state m) ev of
              None \<Rightarrow> (m\<lparr>hash_assertion := True\<rparr>, [])
            | Some target \<Rightarrow>
                (case hash_action sha256 env ev of
                   None \<Rightarrow> (m\<lparr>hash_assertion := True\<rparr>, [])
                 | Some evs \<Rightarrow>
                     let m = m\<lparr>machine_state := target, callbacks := callbacks m @ hash_entry target ev\<rparr>
                     in if is_read ev
                        then (m\<lparr>posted := posted m @ filter is_read evs\<rparr>, filter (\<lambda>e. \<not> is_read e) evs)
                        else (m, evs))))"

text \<open>
  \<^verbatim>\<open>process_event\<close> with the events that the actions queue: starting leads to a first block,
  and that to an end or to a posted event, so three rounds are enough.
\<close>

fun hash_queue ::
  "(string \<Rightarrow> string) \<Rightarrow> hash_env \<Rightarrow> nat \<Rightarrow> hash_machine \<Rightarrow> hash_event list \<Rightarrow> hash_machine" where
  "hash_queue sha256 env n m [] = m"
| "hash_queue sha256 env 0 m (ev # evs) = m"
| "hash_queue sha256 env (Suc n) m (ev # evs) =
     (case hash_fire sha256 env m ev of (m', new) \<Rightarrow> hash_queue sha256 env n m' (evs @ new))"

definition process_event ::
  "(string \<Rightarrow> string) \<Rightarrow> hash_env \<Rightarrow> hash_machine \<Rightarrow> hash_event \<Rightarrow> hash_machine" where
  "process_event sha256 env m ev = hash_queue sha256 env 3 m [ev]"

text \<open>More rounds change nothing.\<close>

fun ends_reading :: "hash_event \<Rightarrow> bool" where
  "ends_reading (HashSuccess _ _) = True" | "ends_reading (Hash_Error _ _) = True" | "ends_reading _ = False"

lemma hash_fire_ends: "ends_reading ev \<Longrightarrow> snd (hash_fire h env m ev) = []"
  by (cases ev) (simp_all add: hash_fire_def split: option.split)

lemma ReadFile_ends_or_reads:
  "ReadFile h o1 o2 st f p = Some ev \<Longrightarrow> ends_reading ev \<or> is_read ev"
  by (auto simp del: ParseRead.simps simp: ReadFile_def Let_def split: option.splits prod.splits if_splits)

lemma hash_fire_read_outcome:
  assumes "is_read ev"
  shows "snd (hash_fire h env m ev) = [] \<or> (\<exists>e. snd (hash_fire h env m ev) = [e] \<and> ends_reading e)"
  using assms by (cases ev) (auto simp: hash_fire_def split: option.split dest!: ReadFile_ends_or_reads)

lemma hash_fire_start_outcome:
  assumes "ev = StartHash st"
  shows "snd (hash_fire h env m ev) = [] \<or>
    (\<exists>e. snd (hash_fire h env m ev) = [e] \<and> (ends_reading e \<or> is_read e))"
  using assms by (auto simp: hash_fire_def OpenFile_def split: option.split sum.split)

text \<open>A round that leads to nothing or to one event of a kind that needs \<open>n\<close> rounds\<close>

lemma hash_queue_one:
  assumes "snd (hash_fire h env m ev) = [] \<or> (\<exists>e. snd (hash_fire h env m ev) = [e] \<and> P e)"
    and "\<And>e m'. P e \<Longrightarrow> hash_queue h env (n + k) m' [e] = hash_queue h env n m' [e]"
  shows "hash_queue h env (Suc n + k) m [ev] = hash_queue h env (Suc n) m [ev]"
proof -
  obtain m' new where f: "hash_fire h env m ev = (m', new)" by fastforce
  then have rnd: "hash_queue h env (Suc j) m [ev] = hash_queue h env j m' new" for j by simp
  have nil: "hash_queue h env j m' [] = m'" for j by (cases j) simp_all
  have "hash_queue h env (n + k) m' new = hash_queue h env n m' new"
  proof (cases "new = []")
    case True
    show ?thesis unfolding True by (rule trans [OF nil nil [symmetric]])
  next
    case False
    with assms(1) f obtain e where "new = [e]" "P e" by auto
    then show ?thesis using assms(2) [of e m'] by blast
  qed
  then show ?thesis unfolding add_Suc rnd .
qed

lemma hash_queue_rounds: "hash_queue h env (3 + k) m [ev] = hash_queue h env 3 m [ev]"
proof -
  have ends: "hash_queue h env (Suc 0 + k) m [ev] = hash_queue h env (Suc 0) m [ev]"
    if "ends_reading ev" for k m ev
    by (rule hash_queue_one [where P = "\<lambda>_. False"]) (simp_all only: hash_fire_ends [OF that] simp_thms)
  have read: "hash_queue h env (Suc (Suc 0) + k) m [ev] = hash_queue h env (Suc (Suc 0)) m [ev]"
    if "is_read ev \<or> ends_reading ev" for k m ev
  proof (rule hash_queue_one [where P = ends_reading and n = "Suc 0", OF _ ends])
    show "snd (hash_fire h env m ev) = [] \<or> (\<exists>e. snd (hash_fire h env m ev) = [e] \<and> ends_reading e)"
      using that hash_fire_read_outcome hash_fire_ends by blast
  qed
  have "hash_queue h env (Suc (Suc (Suc 0)) + k) m [ev] = hash_queue h env (Suc (Suc (Suc 0))) m [ev]"
  proof (rule hash_queue_one [where P = "\<lambda>e. is_read e \<or> ends_reading e" and n = "Suc (Suc 0)", OF _ read])
    have "(\<exists>st. ev = StartHash st) \<or> is_read ev \<or> ends_reading ev" by (cases ev) simp_all
    then show "snd (hash_fire h env m ev) = []
        \<or> (\<exists>e. snd (hash_fire h env m ev) = [e] \<and> (is_read e \<or> ends_reading e))"
      using hash_fire_start_outcome [of ev _ h env m] hash_fire_read_outcome [of ev h env m] hash_fire_ends [of ev h env m]
      by (elim disjE exE) blast+
  qed
  moreover have "Suc (Suc (Suc 0)) = 3" by simp
  ultimately show ?thesis by (simp only:)
qed

definition Hasher :: "nat \<Rightarrow> nat \<Rightarrow> (hash_machine \<times> hasher_state) option" where
  "Hasher fsize fmtime =
     (case ChunkRanges fsize of
        None \<Rightarrow> None
      | Some ranges \<Rightarrow>
          Some (\<lparr>machine_state = Unstarted, callbacks = [], posted = [], hash_assertion = False\<rparr>,
                \<lparr>filesize = fsize, mtime = fmtime, primary_hasher = [], chunk_hasher = [],
                 chunk_ranges = ranges, chunk_hashes = []\<rparr>))"

definition Start :: "(string \<Rightarrow> string) \<Rightarrow> hash_env \<Rightarrow> hasher_state \<Rightarrow> hash_machine \<Rightarrow> hash_machine" where
  "Start sha256 env state m = process_event sha256 env m (StartHash state)"

definition Cancel :: "(string \<Rightarrow> string) \<Rightarrow> hash_env \<Rightarrow> hasher_state \<Rightarrow> hash_machine \<Rightarrow> hash_machine" where
  "Cancel sha256 env state m = process_event sha256 env m (Hash_Error state Hash_Cancelled)"

text \<open>The I/O service runs the first posted event.\<close>

definition run_posted :: "(string \<Rightarrow> string) \<Rightarrow> hash_env \<Rightarrow> hash_machine \<Rightarrow> hash_machine" where
  "run_posted sha256 env m = (case posted m of
       [] \<Rightarrow> m
     | ev # evs \<Rightarrow> process_event sha256 env (m\<lparr>posted := evs\<rparr>) ev)"

section \<open>Reading a block\<close>

declare ParseRead.simps [simp del]

text \<open>
  The hashers after the first \<open>p\<close> bytes: \<open>dn\<close> are the ranges that are complete, \<open>b\<close> the start of
  the one that is being hashed.
\<close>

definition hash_inv :: "(string \<Rightarrow> string) \<Rightarrow> string \<Rightarrow> range list \<Rightarrow> nat \<Rightarrow> hasher_state \<Rightarrow> bool" where
  "hash_inv sha256 bytes ranges p st \<longleftrightarrow>
     chunk_ranges st = ranges \<and> filesize st = length bytes \<and> p \<le> length bytes
     \<and> primary_hasher st = take p bytes
     \<and> (\<exists>dn rest b. ranges = dn @ rest \<and> chunk_hashes st = map (sha256 \<circ> file_slice bytes) dn
          \<and> contiguous 0 dn b \<and> contiguous b rest (length bytes) \<and> b \<le> p
          \<and> (rest \<noteq> [] \<longrightarrow> p < snd (hd rest)) \<and> chunk_hasher st = file_slice bytes (b, p))"

lemma file_slice_length: "e \<le> length bytes \<Longrightarrow> length (file_slice bytes (b, e)) = e - b"
  by (simp add: file_slice_def)

lemma ParseRead_block:
  assumes inv: "hash_inv sha256 bytes ranges p st" and "p < q" "q \<le> length bytes"
    and fits: "q \<le> snd (ranges ! length (chunk_hashes st))"
  shows "\<exists>st'. ParseRead sha256 st p (file_slice bytes (p, q)) = Some (q, st')
    \<and> hash_inv sha256 bytes ranges q st' \<and> mtime st' = mtime st"
proof -
  obtain dn rest b where st: "chunk_ranges st = ranges" "filesize st = length bytes"
      "primary_hasher st = take p bytes" "ranges = dn @ rest"
      "chunk_hashes st = map (sha256 \<circ> file_slice bytes) dn" "contiguous 0 dn b"
      "contiguous b rest (length bytes)" "b \<le> p" "rest \<noteq> [] \<longrightarrow> p < snd (hd rest)"
      "chunk_hasher st = file_slice bytes (b, p)"
    using inv by (auto simp: hash_inv_def)
  have "rest \<noteq> []" using st(7,8) assms(2,3) by auto
  then obtain e rest' where rest: "rest = (b, e) # rest'" "b < e" "contiguous e rest' (length bytes)"
    using st(7) by (cases rest) auto
  have e: "ranges ! length (chunk_hashes st) = (b, e)" by (simp add: st rest)
  have pe: "p < e" "q \<le> e" "e \<le> length bytes"
    using st(9) fits e contiguous_le [OF rest(3)] by (simp_all add: rest)
  let ?buffer = "file_slice bytes (p, q)"
  have buf: "length ?buffer = q - p" "?buffer \<noteq> []"
    using file_slice_length [OF assms(3), of p] assms(2) by auto
  have primary: "primary_hasher st @ ?buffer = take q bytes"
    using slice_split [of 0 p q bytes] assms(2) by (simp add: st file_slice_def)
  have chunk: "chunk_hasher st @ ?buffer = file_slice bytes (b, q)"
    using slice_split [of b p q bytes] st(8) assms(2) by (simp add: st)
  show ?thesis
  proof (cases "q < e")
    case True
    let ?st = "st\<lparr>primary_hasher := take q bytes, chunk_hasher := file_slice bytes (b, q)\<rparr>"
    have "ParseRead sha256 st p ?buffer = Some (q, ?st)"
      using True assms(2) buf pe by (subst ParseRead.simps) (simp add: st rest primary [unfolded st] chunk [unfolded st])
    moreover have "hash_inv sha256 bytes ranges q ?st"
      unfolding hash_inv_def using True assms(2,3) st rest
      by (intro conjI exI [of _ dn] exI [of _ rest] exI [of _ b]) simp_all
    ultimately show ?thesis by auto
  next
    case False
    then have q: "q = e" using pe by simp
    let ?st = "st\<lparr>primary_hasher := take q bytes, chunk_hasher := [],
      chunk_hashes := map (sha256 \<circ> file_slice bytes) (dn @ [(b, e)])\<rparr>"
    have "take (e - p) ?buffer = ?buffer" "drop (e - p) ?buffer = []" using buf(1) by (simp_all add: q)
    then have "ParseRead sha256 st p ?buffer = Some (q, ?st)"
      using assms(2) buf pe chunk [unfolded st]
      by (subst ParseRead.simps) (simp add: st rest primary [unfolded st q] q ParseRead.simps [of _ _ _ "[]"])
    moreover have "hash_inv sha256 bytes ranges q ?st"
    proof -
      have "contiguous 0 (dn @ [(b, e)]) e" unfolding contiguous_append using st(6) rest(2) by auto
      moreover have "rest' \<noteq> [] \<longrightarrow> q < snd (hd rest')" using rest(3) q by (cases rest') auto
      moreover have "[] = file_slice bytes (e, q)" by (simp add: file_slice_def q)
      ultimately show ?thesis
        unfolding hash_inv_def using assms(3) st(1,2,4) rest(1,3) q
        by (intro conjI exI [of _ "dn @ [(b, e)]"] exI [of _ rest'] exI [of _ e]) simp_all
    qed
    ultimately show ?thesis by auto
  qed
qed

text \<open>
  a block that reaches over the end of a chunk is given to the hasher of the whole file twice
  from there on: the recursive call hashes what is left again, so the digest of the file would be
  wrong. With the block size and chunk sizes of the SDK no block does.
\<close>

theorem ParseRead_spanning_hashes_twice:
  "ParseRead sha256 \<lparr>filesize = 3, mtime = 0, primary_hasher = [], chunk_hasher = [],
       chunk_ranges = [(0, 2), (2, 3)], chunk_hashes = []\<rparr> 0 ''abc''
   = Some (3, \<lparr>filesize = 3, mtime = 0, primary_hasher = ''abcc'', chunk_hasher = [],
       chunk_ranges = [(0, 2), (2, 3)], chunk_hashes = [sha256 ''ab'', sha256 ''c'']\<rparr>)"
  by (simp add: ParseRead.simps)

section \<open>Events\<close>

definition block_aligned :: "nat \<Rightarrow> range list \<Rightarrow> bool" where
  "block_aligned n ranges \<longleftrightarrow> (\<forall>r \<in> set ranges. buf_size dvd snd r \<or> snd r = n)"

lemma ChunkRanges_aligned:
  assumes "n \<le> 2 ^ 64 - 2 ^ 26" and "ChunkRanges n = Some rs"
  shows "block_aligned n rs"
proof -
  have "buf_size dvd ChunkMaxSize n"
    by (simp add: ChunkMaxSize_def buf_size_def Let_def dvd_mult2)
  then have "buf_size dvd ChunkMaxSize n * (i + 1)" for i by (rule dvd_mult2)
  then show ?thesis
    using assms ChunkRanges_eq [OF assms(1)] by (auto simp: block_aligned_def range_at_def min_def)
qed

fun event_ok :: "(string \<Rightarrow> string) \<Rightarrow> string \<Rightarrow> range list \<Rightarrow> hash_event \<Rightarrow> bool" where
  "event_ok sha256 bytes ranges (StartHash st) \<longleftrightarrow> hash_inv sha256 bytes ranges 0 st"
| "event_ok sha256 bytes ranges (ReadNext st f p) \<longleftrightarrow> hash_inv sha256 bytes ranges p st
     \<and> contents f = bytes \<and> pos f = p \<and> \<not> feof f \<and> buf_size dvd p"
| "event_ok sha256 bytes ranges (HashSuccess st digest) \<longleftrightarrow> digest = sha256 bytes
     \<and> filesize st = length bytes \<and> chunk_ranges st = ranges
     \<and> chunk_hashes st = map (sha256 \<circ> file_slice bytes) ranges"
| "event_ok sha256 bytes ranges (Hash_Error _ _) \<longleftrightarrow> True"

lemma block_fits:
  assumes inv: "hash_inv sha256 bytes ranges p st" and "block_aligned (length bytes) ranges"
    and "buf_size dvd p" and "p < q" and "q \<le> p + buf_size" and "q \<le> length bytes"
  shows "q \<le> snd (ranges ! length (chunk_hashes st))"
proof -
  obtain dn rest b where "ranges = dn @ rest" "chunk_hashes st = map (sha256 \<circ> file_slice bytes) dn"
      "contiguous b rest (length bytes)" "b \<le> p" "rest \<noteq> [] \<longrightarrow> p < snd (hd rest)"
    using inv unfolding hash_inv_def by blast
  moreover from this have "rest \<noteq> []" using assms(4,6) by auto
  ultimately obtain r where r: "ranges ! length (chunk_hashes st) = r" "r \<in> set ranges" "p < snd r"
    by (cases rest) auto
  show ?thesis
  proof (cases "snd r = length bytes")
    case False
    then have "buf_size dvd snd r" using assms(2) r(2) by (auto simp: block_aligned_def)
    then have "buf_size dvd snd r - p" using assms(3) by simp
    then have "buf_size \<le> snd r - p" using r(3) by (intro dvd_imp_le) auto
    then show ?thesis using assms(5) r by simp
  qed (use assms r in simp)
qed

lemma hash_inv_done:
  assumes "hash_inv sha256 bytes ranges (length bytes) st"
  shows "chunk_hashes st = map (sha256 \<circ> file_slice bytes) ranges"
proof -
  obtain dn rest b where *: "ranges = dn @ rest" "chunk_hashes st = map (sha256 \<circ> file_slice bytes) dn"
      "contiguous b rest (length bytes)" "rest \<noteq> [] \<longrightarrow> length bytes < snd (hd rest)"
    using assms by (auto simp: hash_inv_def)
  have "rest = []"
  proof (rule ccontr)
    assume "rest \<noteq> []"
    then obtain r rest' where "rest = r # rest'" by (cases rest) auto
    then have "snd r \<le> length bytes" using *(3) contiguous_le by (cases r) fastforce
    then show False using *(4) \<open>rest = r # rest'\<close> by simp
  qed
  then show ?thesis using * by simp
qed

text \<open>One block, or the rest of the file.\<close>

lemma ParseRead_next:
  assumes "hash_inv sha256 bytes ranges p st" and "block_aligned (length bytes) ranges"
    and "buf_size dvd p" and "p \<le> q" and "q \<le> p + buf_size" and "q \<le> length bytes"
  shows "\<exists>st'. ParseRead sha256 st p (file_slice bytes (p, q)) = Some (q, st')
    \<and> hash_inv sha256 bytes ranges q st' \<and> mtime st' = mtime st"
proof (cases "p < q")
  case True
  then show ?thesis using ParseRead_block [OF assms(1) True assms(6)] block_fits [OF assms(1-3) True assms(5,6)] by blast
next
  case False
  then show ?thesis
    using assms(1,4) by (simp add: file_slice_def ParseRead.simps [of _ _ _ "[]"])
qed

lemma ReadFile_event:
  assumes ok: "event_ok sha256 bytes ranges (ReadNext st f p)"
    and al: "block_aligned (length bytes) ranges"
  shows "\<exists>ev. ReadFile sha256 o1 o2 st f p = Some ev \<and> event_ok sha256 bytes ranges ev"
proof (cases "VerifyFileUnchanged o1 st")
  case None
  note inv = ok [unfolded event_ok.simps]
  have p: "hash_inv sha256 bytes ranges p st" "buf_size dvd p" "p \<le> length bytes"
    and rest: "rest_of f = drop p bytes"
    using inv by (auto simp: hash_inv_def rest_of_def)
  obtain b ec f' where rd: "Read buf_size f = (b, ec, f')" by (cases "Read buf_size f")
  have "\<not> feof f" using inv by simp
  with rd show ?thesis
  proof (cases rule: Read_cases)
    case full
    then have len: "p + buf_size \<le> length bytes" using rest p(3) by auto
    then have b: "b = file_slice bytes (p, p + buf_size)" using full rest by (simp add: file_slice_def)
    obtain st' where "ParseRead sha256 st p b = Some (p + buf_size, st')"
      "hash_inv sha256 bytes ranges (p + buf_size) st'"
      using ParseRead_next [OF p(1) al p(2), of "p + buf_size"] len b by auto
    then show ?thesis
      using inv full p(2) by (simp add: ReadFile_def None rd)
  next
    case eof
    have b: "b = file_slice bytes (p, length bytes)" using eof rest by (simp add: file_slice_def)
    have "length bytes \<le> p + buf_size" using eof rest by simp
    then obtain st' where st': "ParseRead sha256 st p b = Some (length bytes, st')"
      "hash_inv sha256 bytes ranges (length bytes) st'"
      using ParseRead_next [OF p(1) al p(2), of "length bytes"] p(3) b by auto
    have "chunk_hashes st' = map (sha256 \<circ> file_slice bytes) ranges" by (rule hash_inv_done [OF st'(2)])
    moreover have "chunk_ranges st' = ranges" "filesize st' = length bytes" "primary_hasher st' = bytes"
      using st'(2) by (auto simp: hash_inv_def)
    ultimately show ?thesis
      using eof st'(1) by (simp add: ReadFile_def None rd Let_def split: option.split)
  next
    case broken
    then show ?thesis by (simp add: ReadFile_def None rd)
  qed
qed (simp add: ReadFile_def)

section \<open>Runs of the hasher\<close>

definition reference_hashes :: "(string \<Rightarrow> string) \<Rightarrow> string \<Rightarrow> range list \<Rightarrow> FileHashes" where
  "reference_hashes sha256 bytes ranges =
     \<lparr>file_size = length bytes, hash = sha256 bytes,
      fh_chunk_hashes = map (sha256 \<circ> file_slice bytes) ranges, fh_chunk_ranges = ranges\<rparr>"

definition machine_ok :: "(string \<Rightarrow> string) \<Rightarrow> string \<Rightarrow> range list \<Rightarrow> hash_machine \<Rightarrow> bool" where
  "machine_ok sha256 bytes ranges m \<longleftrightarrow>
     (\<forall>ev \<in> set (posted m). is_read ev \<and> event_ok sha256 bytes ranges ev)
     \<and> \<not> hash_assertion m
     \<and> (if machine_state m \<in> {Success, Failed}
        then \<exists>r. callbacks m = [r] \<and> (\<forall>fh. r = Inr fh \<longrightarrow> fh = reference_hashes sha256 bytes ranges)
        else callbacks m = [])"

fun fits_state :: "hash_machine_state \<Rightarrow> hash_event \<Rightarrow> bool" where
  "fits_state Unstarted (StartHash _) \<longleftrightarrow> True"
| "fits_state Started (ReadNext _ _ _) \<longleftrightarrow> True"
| "fits_state Started (Hash_Error _ _) \<longleftrightarrow> True"
| "fits_state Reading ev \<longleftrightarrow> (\<forall>st. ev \<noteq> StartHash st)"
| "fits_state Success _ \<longleftrightarrow> True"
| "fits_state Failed _ \<longleftrightarrow> True"
| "fits_state _ _ \<longleftrightarrow> False"

lemma OpenFile_event:
  assumes "event_ok sha256 bytes ranges (StartHash st)"
    and "\<And>f. opnd = Inr f \<Longrightarrow> contents f = bytes \<and> pos f = 0 \<and> \<not> feof f"
  shows "event_ok sha256 bytes ranges (OpenFile opnd st)" "fits_state Started (OpenFile opnd st)"
  using assms by (cases opnd; simp add: OpenFile_def)+

lemma hash_fire_read:
  assumes ok: "machine_ok sha256 bytes ranges m" and al: "block_aligned (length bytes) ranges"
    and ev: "event_ok sha256 bytes ranges (ReadNext st f p)" and "machine_state m \<in> {Started, Reading}"
  obtains ev' where "ReadFile sha256 (obs1 env) (obs2 env) st f p = Some ev'"
    and "event_ok sha256 bytes ranges ev'"
    and "hash_fire sha256 env m (ReadNext st f p) =
      (m\<lparr>machine_state := Reading, posted := posted m @ (if is_read ev' then [ev'] else [])\<rparr>,
       if is_read ev' then [] else [ev'])"
proof -
  obtain ev' where ev': "ReadFile sha256 (obs1 env) (obs2 env) st f p = Some ev'"
    "event_ok sha256 bytes ranges ev'"
    using ReadFile_event [OF ev al] by blast
  show thesis
    by (rule that [OF ev']) (use assms(4) ev'(1) in \<open>auto simp: hash_fire_def\<close>)
qed

lemma ReadFile_no_start: "ReadFile sha256 o1 o2 st f p = Some ev \<Longrightarrow> ev \<noteq> StartHash st'"
  by (auto simp: ReadFile_def Let_def split: option.splits prod.splits if_splits)

text \<open>An end that is processed while the machine reads\<close>

lemma hash_fire_end:
  assumes ok: "machine_ok sha256 bytes ranges m" and ev: "event_ok sha256 bytes ranges ev"
    and "machine_state m \<in> {Started, Reading}" and "fits_state (machine_state m) ev" and "\<not> is_read ev"
  shows "machine_ok sha256 bytes ranges (fst (hash_fire sha256 env m ev))"
    "snd (hash_fire sha256 env m ev) = []"
    "machine_state (fst (hash_fire sha256 env m ev)) \<in> {Success, Failed}"
    "posted (fst (hash_fire sha256 env m ev)) = posted m"
  using assms
  by (cases ev; auto simp: hash_fire_def machine_ok_def reference_hashes_def)+

lemma hash_queue_Cons:
  "hash_queue sha256 env (Suc n) m [ev] = hash_queue sha256 env n (fst (hash_fire sha256 env m ev)) (snd (hash_fire sha256 env m ev))"
  by (simp split: prod.split)

lemma hash_queue_Nil [simp]: "hash_queue sha256 env n m [] = m"
  by (cases n) simp_all

text \<open>A block, with whatever end it leads to: the machine reads on with one posted event, or has ended.\<close>

lemma hash_queue_read:
  assumes ok: "machine_ok sha256 bytes ranges m" and al: "block_aligned (length bytes) ranges"
    and ev: "event_ok sha256 bytes ranges (ReadNext st f p)"
    and ms: "machine_state m \<in> {Started, Reading}" and "posted m = []"
    and ev': "ReadFile sha256 (obs1 env) (obs2 env) st f p = Some ev'"
    and m'_def: "m' = hash_queue sha256 env (Suc (Suc n)) m [ReadNext st f p]"
  shows "machine_ok sha256 bytes ranges m'"
    and "is_read ev' \<Longrightarrow> machine_state m' = Reading \<and> posted m' = [ev']"
    and "\<not> is_read ev' \<Longrightarrow> machine_state m' \<in> {Success, Failed} \<and> posted m' = []
      \<and> callbacks m' = hash_entry (machine_state m') ev'"
proof -
  let ?m = "m\<lparr>machine_state := Reading, posted := if is_read ev' then [ev'] else []\<rparr>"
  obtain ev'' where fire: "event_ok sha256 bytes ranges ev'"
    "hash_fire sha256 env m (ReadNext st f p) = (?m, if is_read ev' then [] else [ev'])"
    by (rule hash_fire_read [OF ok al ev ms, of env]) (use ev' assms(5) in auto)
  have m': "m' = (if is_read ev' then ?m else hash_queue sha256 env (Suc n) ?m [ev'])"
    unfolding m'_def by (simp add: fire(2))
  have ok': "machine_ok sha256 bytes ranges ?m"
    using ok ms fire(1) by (auto simp: machine_ok_def)
  have nonread: "\<not> is_read ev' \<Longrightarrow> fits_state Reading ev'"
    using ReadFile_no_start [OF ev'] by simp
  note fin = hash_fire_end [OF ok' fire(1), of env]
  show "machine_ok sha256 bytes ranges m'"
    using ok' fin nonread m' by (cases "is_read ev'") (simp_all add: hash_queue_Cons del: hash_queue.simps(3))
  show "machine_state m' = Reading \<and> posted m' = [ev']" if "is_read ev'"
    using that m' by simp
  show "machine_state m' \<in> {Success, Failed} \<and> posted m' = []
      \<and> callbacks m' = hash_entry (machine_state m') ev'" if "\<not> is_read ev'"
  proof -
    have "callbacks (fst (hash_fire sha256 env ?m ev'))
        = hash_entry (machine_state (fst (hash_fire sha256 env ?m ev'))) ev'"
      using ok' that nonread by (cases ev') (auto simp: hash_fire_def machine_ok_def)
    then show ?thesis
      using that fin nonread m' by (simp add: hash_queue_Cons del: hash_queue.simps(3))
  qed
qed

datatype hash_input = Run hash_env | Abort hash_env

fun hash_input_step ::
  "(string \<Rightarrow> string) \<Rightarrow> hasher_state \<Rightarrow> hash_input \<Rightarrow> hash_machine \<Rightarrow> hash_machine" where
  "hash_input_step sha256 st (Run env) m = run_posted sha256 env m"
| "hash_input_step sha256 st (Abort env) m = Cancel sha256 env st m"

definition hasher_run ::
  "(string \<Rightarrow> string) \<Rightarrow> hasher_state \<Rightarrow> hash_env \<Rightarrow> hash_input list \<Rightarrow> hash_machine \<Rightarrow> hash_machine" where
  "hasher_run sha256 st env inputs m = fold (hash_input_step sha256 st) inputs (Start sha256 env st m)"

definition settled :: "hash_machine \<Rightarrow> bool" where
  "settled m \<longleftrightarrow> machine_state m \<in> {Success, Failed} \<or> machine_state m = Reading \<and> length (posted m) = 1"

lemma process_event_terminal:
  assumes "machine_state m \<in> {Success, Failed}"
  shows "process_event sha256 env m ev = m"
  using assms by (simp add: process_event_def numeral_3_eq_3 hash_fire_def)

lemma hash_input_step_ok:
  assumes ok: "machine_ok sha256 bytes ranges m" and al: "block_aligned (length bytes) ranges"
    and "settled m"
  shows "machine_ok sha256 bytes ranges (hash_input_step sha256 st i m) \<and> settled (hash_input_step sha256 st i m)"
proof (cases "machine_state m \<in> {Success, Failed}")
  case True
  then have "machine_ok sha256 bytes ranges (m\<lparr>posted := tl (posted m)\<rparr>)"
    using ok by (cases "posted m") (auto simp: machine_ok_def)
  then show ?thesis
    using True assms
    by (cases i; cases "posted m")
       (auto simp: run_posted_def Cancel_def process_event_terminal settled_def)
next
  case False
  then have reading: "machine_state m = Reading" "length (posted m) = 1" using assms(3) by (auto simp: settled_def)
  show ?thesis
  proof (cases i)
    case (Run env)
    obtain st' f p where posted: "posted m = [ReadNext st' f p]" "event_ok sha256 bytes ranges (ReadNext st' f p)"
      using reading(2) ok by (cases "posted m"; cases "hd (posted m)") (auto simp: machine_ok_def)
    obtain ev' where ev': "ReadFile sha256 (obs1 env) (obs2 env) st' f p = Some ev'"
      using ReadFile_event [OF posted(2) al] by blast
    have ok': "machine_ok sha256 bytes ranges (m\<lparr>posted := []\<rparr>)" using ok by (simp add: machine_ok_def)
    have "hash_input_step sha256 st i m
        = hash_queue sha256 env (Suc (Suc 1)) (m\<lparr>posted := []\<rparr>) [ReadNext st' f p]"
      by (simp add: Run run_posted_def posted(1) process_event_def numeral_3_eq_3 del: hash_queue.simps)
    note next_state = hash_queue_read [OF ok' al posted(2) _ _ ev' this]
    show ?thesis
      using next_state reading unfolding settled_def by (cases "is_read ev'") (simp_all del: hash_input_step.simps)
  next
    case (Abort env)
    then show ?thesis
      using hash_fire_end [OF ok, of "Hash_Error st Hash_Cancelled" env] reading
      by (simp add: Cancel_def process_event_def numeral_3_eq_3 hash_queue_Cons settled_def del: hash_queue.simps(3))
  qed
qed

definition opens :: "nat + fileio \<Rightarrow> string \<Rightarrow> bool" where
  "opens opnd bytes \<longleftrightarrow> (\<forall>f. opnd = Inr f \<longrightarrow> contents f = bytes \<and> pos f = 0 \<and> \<not> feof f)"

lemma Hasher_ok:
  assumes "length bytes \<le> 2 ^ 64 - 2 ^ 26" and "Hasher (length bytes) t = Some (m, st)"
  obtains ranges where "ChunkRanges (length bytes) = Some ranges" and "block_aligned (length bytes) ranges"
    and "hash_inv sha256 bytes ranges 0 st" and "mtime st = t"
    and "m = \<lparr>machine_state = Unstarted, callbacks = [], posted = [], hash_assertion = False\<rparr>"
proof -
  obtain ranges where r: "ChunkRanges (length bytes) = Some ranges" "contiguous 0 ranges (length bytes)"
    using ChunkRanges_partition [OF assms(1)] by blast
  have "hash_inv sha256 bytes ranges 0 st"
    unfolding hash_inv_def using assms(2) r
    by (intro conjI exI [of _ "[]"] exI [of _ ranges] exI [of _ 0])
       (auto simp: Hasher_def file_slice_def neq_Nil_conv)
  then show thesis
    using that r(1) ChunkRanges_aligned [OF assms(1) r(1)] assms(2) by (auto simp: Hasher_def)
qed

lemma Start_queue:
  assumes "machine_state m = Unstarted"
  shows "Start sha256 env st m
    = hash_queue sha256 env (Suc (Suc 0)) (m\<lparr>machine_state := Started\<rparr>) [OpenFile (opened env) st]"
  using assms
  by (simp add: Start_def process_event_def numeral_3_eq_3 hash_queue_Cons hash_fire_def del: hash_queue.simps)

lemma Start_ok:
  assumes "hash_inv sha256 bytes ranges 0 st" and al: "block_aligned (length bytes) ranges"
    and m: "m = \<lparr>machine_state = Unstarted, callbacks = [], posted = [], hash_assertion = False\<rparr>"
    and "opens (opened env) bytes"
  shows "machine_ok sha256 bytes ranges (Start sha256 env st m) \<and> settled (Start sha256 env st m)"
proof -
  let ?m = "m\<lparr>machine_state := Started\<rparr>"
  have ok: "machine_ok sha256 bytes ranges ?m" by (simp add: m machine_ok_def)
  have start: "Start sha256 env st m = hash_queue sha256 env (Suc (Suc 0)) ?m [OpenFile (opened env) st]"
    by (rule Start_queue) (simp add: m)
  have ev: "event_ok sha256 bytes ranges (OpenFile (opened env) st)"
    by (rule OpenFile_event(1)) (use assms in \<open>auto simp: opens_def\<close>)
  show ?thesis
  proof (cases "opened env")
    case (Inl errno)
    then show ?thesis
      unfolding start
      using hash_fire_end [OF ok ev, of env]
      by (simp add: OpenFile_def m hash_queue_Cons settled_def del: hash_queue.simps(3))
  next
    case (Inr f)
    then have ev: "event_ok sha256 bytes ranges (ReadNext st f 0)"
      and start: "Start sha256 env st m = hash_queue sha256 env (Suc (Suc 0)) ?m [ReadNext st f 0]"
      using ev start by (simp_all only: OpenFile_def sum.case)
    obtain ev' where ev': "ReadFile sha256 (obs1 env) (obs2 env) st f 0 = Some ev'"
      using ReadFile_event [OF ev al] by blast
    note next_state = hash_queue_read [OF ok al ev _ _ ev' start]
    show ?thesis using next_state unfolding settled_def by (cases "is_read ev'") (simp_all add: m)
  qed
qed

lemma fold_hash_input_ok:
  assumes "machine_ok sha256 bytes ranges m \<and> settled m" and "block_aligned (length bytes) ranges"
  shows "machine_ok sha256 bytes ranges (fold (hash_input_step sha256 st) inputs m)
    \<and> settled (fold (hash_input_step sha256 st) inputs m)"
  using assms(1)
proof (induction inputs arbitrary: m)
  case (Cons i inputs)
  then show ?case using hash_input_step_ok [OF _ assms(2), of sha256 m st i] by simp
qed simp

text \<open>
  C17: whatever the hasher observes of the file system, and whether and when it is cancelled, no
  assertion fails, the callback is called at most once, and hashes it is given are those of the
  file: the digest of all its bytes and, for each range, the digest of the bytes in it.
\<close>

theorem hasher_result:
  assumes "length bytes \<le> 2 ^ 64 - 2 ^ 26" and "Hasher (length bytes) t = Some (m, st)"
    and "opens (opened env) bytes"
  shows "\<exists>ranges. ChunkRanges (length bytes) = Some ranges \<and>
    (let m' = hasher_run sha256 st env inputs m
     in \<not> hash_assertion m' \<and> length (callbacks m') \<le> 1
        \<and> (\<forall>fh. Inr fh \<in> set (callbacks m') \<longrightarrow>
             file_size fh = length bytes \<and> hash fh = sha256 bytes \<and> fh_chunk_ranges fh = ranges
             \<and> fh_chunk_hashes fh = map (sha256 \<circ> file_slice bytes) ranges))"
proof -
  obtain ranges where r: "ChunkRanges (length bytes) = Some ranges" "block_aligned (length bytes) ranges"
    "hash_inv sha256 bytes ranges 0 st"
    "m = \<lparr>machine_state = Unstarted, callbacks = [], posted = [], hash_assertion = False\<rparr>"
    by (rule Hasher_ok [OF assms(1,2)])
  have "machine_ok sha256 bytes ranges (hasher_run sha256 st env inputs m)"
    using fold_hash_input_ok [OF Start_ok [OF r(3,2,4) assms(3)] r(2)] by (simp add: hasher_run_def)
  then show ?thesis
    using r(1) by (intro exI [of _ ranges]) (auto simp: machine_ok_def reference_hashes_def Let_def split: if_splits)
qed

section \<open>The hasher ends\<close>

definition unchanged :: "string \<Rightarrow> nat \<Rightarrow> hash_env \<Rightarrow> bool" where
  "unchanged bytes t env \<longleftrightarrow> obs_mtime (obs1 env) = Inr t \<and> obs_mtime (obs2 env) = Inr t
     \<and> obs_size (obs1 env) = Inr (length bytes) \<and> obs_size (obs2 env) = Inr (length bytes)"

lemma ReadFile_unchanged:
  assumes ok: "event_ok sha256 bytes ranges (ReadNext st f p)"
    and al: "block_aligned (length bytes) ranges"
    and "unchanged bytes (mtime st) env" and "fault f = None"
  shows "if p + buf_size \<le> length bytes
    then \<exists>st' f'. ReadFile sha256 (obs1 env) (obs2 env) st f p = Some (ReadNext st' f' (p + buf_size))
      \<and> mtime st' = mtime st \<and> fault f' = None
    else \<exists>st' d. ReadFile sha256 (obs1 env) (obs2 env) st f p = Some (HashSuccess st' d)"
proof -
  note inv = ok [unfolded event_ok.simps]
  have p: "hash_inv sha256 bytes ranges p st" "buf_size dvd p" "p \<le> length bytes" "filesize st = length bytes"
    and rest: "rest_of f = drop p bytes"
    using inv by (auto simp: hash_inv_def rest_of_def)
  have ver: "VerifyFileUnchanged (obs1 env) st = None"
    "mtime st' = mtime st \<Longrightarrow> filesize st' = length bytes \<Longrightarrow> VerifyFileUnchanged (obs2 env) st' = None" for st'
    using assms(3) p(4) by (simp_all add: VerifyFileUnchanged_def unchanged_def)
  show ?thesis
  proof (cases "p + buf_size \<le> length bytes")
    case True
    then have "Read buf_size f = (file_slice bytes (p, p + buf_size), None, f\<lparr>pos := pos f + buf_size\<rparr>)"
      using Read_sound [OF assms(4), of buf_size] inv rest by (simp add: file_slice_def)
    then show ?thesis
      using True ParseRead_next [OF p(1) al p(2), of "p + buf_size"] assms(4) inv
      by (auto simp: ReadFile_def ver)
  next
    case False
    then have rd: "\<exists>f'. Read buf_size f = (file_slice bytes (p, length bytes), Some EndOfFile, f')"
      using Read_sound [OF assms(4), of buf_size] rest p(3) by (simp add: file_slice_def)
    obtain st' where st': "ParseRead sha256 st p (file_slice bytes (p, length bytes)) = Some (length bytes, st')"
      "hash_inv sha256 bytes ranges (length bytes) st'" "mtime st' = mtime st"
      using ParseRead_next [OF p(1) al p(2), of "length bytes"] False p(3) by auto
    have "length (chunk_ranges st') = length (chunk_hashes st')" "filesize st' = length bytes"
      using hash_inv_done [OF st'(2)] st'(2) by (simp_all add: hash_inv_def)
    then show ?thesis
      using False rd st' by (auto simp: ReadFile_def ver Let_def)
  qed
qed

definition reading_at ::
  "(string \<Rightarrow> string) \<Rightarrow> string \<Rightarrow> range list \<Rightarrow> nat \<Rightarrow> nat \<Rightarrow> hash_machine \<Rightarrow> bool" where
  "reading_at sha256 bytes ranges t p m \<longleftrightarrow> machine_ok sha256 bytes ranges m \<and> machine_state m = Reading
     \<and> (\<exists>st f. posted m = [ReadNext st f p] \<and> mtime st = t \<and> fault f = None)"

definition hashed :: "(string \<Rightarrow> string) \<Rightarrow> string \<Rightarrow> range list \<Rightarrow> hash_machine \<Rightarrow> bool" where
  "hashed sha256 bytes ranges m \<longleftrightarrow> callbacks m = [Inr (reference_hashes sha256 bytes ranges)]"

lemma read_advances:
  assumes ok: "machine_ok sha256 bytes ranges m" and al: "block_aligned (length bytes) ranges"
    and ev: "event_ok sha256 bytes ranges (ReadNext st f p)"
    and ms: "machine_state m \<in> {Started, Reading}" and "posted m = []"
    and "unchanged bytes (mtime st) env" and "fault f = None"
    and m': "m' = hash_queue sha256 env (Suc (Suc n)) m [ReadNext st f p]"
  shows "if p + buf_size \<le> length bytes then reading_at sha256 bytes ranges (mtime st) (p + buf_size) m'
    else hashed sha256 bytes ranges m'"
proof (cases "p + buf_size \<le> length bytes")
  case True
  then obtain st' f' where rd: "ReadFile sha256 (obs1 env) (obs2 env) st f p = Some (ReadNext st' f' (p + buf_size))"
    "mtime st' = mtime st" "fault f' = None"
    using ReadFile_unchanged [OF ev al assms(6,7)] by auto
  show ?thesis using hash_queue_read [OF ok al ev ms assms(5) rd(1) m'] True rd(2,3) by (simp add: reading_at_def)
next
  case False
  then obtain st' d where rd: "ReadFile sha256 (obs1 env) (obs2 env) st f p = Some (HashSuccess st' d)"
    using ReadFile_unchanged [OF ev al assms(6,7)] by auto
  note out = hash_queue_read [OF ok al ev ms assms(5) rd m']
  have "machine_state m' \<in> {Success, Failed}" "callbacks m' = hash_entry (machine_state m') (HashSuccess st' d)"
    using out(3) by simp_all
  moreover obtain r where "callbacks m' = [r]" "\<forall>fh. r = Inr fh \<longrightarrow> fh = reference_hashes sha256 bytes ranges"
    using out(1) calculation(1) by (auto simp: machine_ok_def)
  ultimately show ?thesis using False by (auto simp: hashed_def)
qed

lemma reading_runs:
  assumes "reading_at sha256 bytes ranges t (buf_size * i) m" and al: "block_aligned (length bytes) ranges"
    and "\<forall>env \<in> set envs. unchanged bytes t env"
    and "length envs = length bytes div buf_size + 1 - i" and "i \<le> length bytes div buf_size"
  shows "hashed sha256 bytes ranges (fold (hash_input_step sha256 st0) (map Run envs) m)"
  using assms(1,3-5)
proof (induction envs arbitrary: i m)
  case (Cons env envs)
  obtain st f where m: "machine_ok sha256 bytes ranges m" "machine_state m = Reading"
      "posted m = [ReadNext st f (buf_size * i)]" "mtime st = t" "fault f = None"
    using Cons.prems(1) by (auto simp: reading_at_def)
  have ev: "event_ok sha256 bytes ranges (ReadNext st f (buf_size * i))" using m by (auto simp: machine_ok_def)
  have ok': "machine_ok sha256 bytes ranges (m\<lparr>posted := []\<rparr>)" using m by (simp add: machine_ok_def)
  have step: "hash_input_step sha256 st0 (Run env) m
      = hash_queue sha256 env (Suc (Suc 1)) (m\<lparr>posted := []\<rparr>) [ReadNext st f (buf_size * i)]"
    by (simp add: run_posted_def m process_event_def numeral_3_eq_3 del: hash_queue.simps)
  have adv: "if buf_size * i + buf_size \<le> length bytes
      then reading_at sha256 bytes ranges t (buf_size * i + buf_size) (hash_input_step sha256 st0 (Run env) m)
      else hashed sha256 bytes ranges (hash_input_step sha256 st0 (Run env) m)"
    by (rule read_advances [OF ok' al ev _ _ _ m(5) step, unfolded m(4)]) (use m Cons.prems(2) in simp_all)
  have last: "buf_size * i + buf_size \<le> length bytes \<longleftrightarrow> i < length bytes div buf_size"
    using less_eq_div_iff_mult_less_eq [of buf_size "i + 1" "length bytes"]
    by (simp add: buf_size_def algebra_simps Suc_le_eq)
  show ?case
  proof (cases "i < length bytes div buf_size")
    case True
    then have "reading_at sha256 bytes ranges t (buf_size * (i + 1)) (hash_input_step sha256 st0 (Run env) m)"
      using adv last by (simp add: add.commute)
    from Cons.IH [OF this] show ?thesis using Cons.prems True by (simp del: hash_input_step.simps)
  next
    case False
    then have "envs = []" using Cons.prems(3,4) by simp
    then show ?thesis using adv last False by (simp del: hash_input_step.simps)
  qed
qed simp

text \<open>
  a readable file that does not change is hashed: after one block at the start and as many
  posted ones as the file has full blocks, the callback has been given the hashes of the
  reference definition.
\<close>

theorem hasher_completes:
  assumes "length bytes \<le> 2 ^ 64 - 2 ^ 26" and "Hasher (length bytes) t = Some (m, st)"
    and "opened env = Inr f" and "contents f = bytes" "pos f = 0" "\<not> feof f" "fault f = None"
    and "unchanged bytes t env" and "\<forall>env \<in> set envs. unchanged bytes t env"
    and "length envs = length bytes div buf_size"
  shows "\<exists>ranges. ChunkRanges (length bytes) = Some ranges \<and>
    callbacks (hasher_run sha256 st env (map Run envs) m)
      = [Inr \<lparr>file_size = length bytes, hash = sha256 bytes,
              fh_chunk_hashes = map (sha256 \<circ> file_slice bytes) ranges, fh_chunk_ranges = ranges\<rparr>]"
proof -
  obtain ranges where r: "ChunkRanges (length bytes) = Some ranges" "block_aligned (length bytes) ranges"
    "hash_inv sha256 bytes ranges 0 st" "mtime st = t"
    "m = \<lparr>machine_state = Unstarted, callbacks = [], posted = [], hash_assertion = False\<rparr>"
    by (rule Hasher_ok [OF assms(1,2)])
  let ?m = "m\<lparr>machine_state := Started\<rparr>"
  have ok: "machine_ok sha256 bytes ranges ?m" by (simp add: r machine_ok_def)
  have start: "Start sha256 env st m = hash_queue sha256 env (Suc (Suc 0)) ?m [ReadNext st f 0]"
    by (subst Start_queue) (simp_all add: r OpenFile_def assms(3))
  have ev: "event_ok sha256 bytes ranges (ReadNext st f 0)" using r assms by simp
  have adv: "if buf_size \<le> length bytes then reading_at sha256 bytes ranges t buf_size (Start sha256 env st m)
      else hashed sha256 bytes ranges (Start sha256 env st m)"
    by (rule read_advances [OF ok r(2) ev _ _ _ assms(7) start, unfolded r(4) add_0])
       (use r(5) assms(8) in simp_all)
  have "hashed sha256 bytes ranges (hasher_run sha256 st env (map Run envs) m)"
  proof (cases "buf_size \<le> length bytes")
    case True
    then have "1 \<le> length bytes div buf_size" by (simp add: buf_size_def Suc_le_eq div_greater_zero_iff)
    then show ?thesis
      using reading_runs [of sha256 bytes ranges t 1 "Start sha256 env st m" envs st] adv True r(2) assms(9,10)
      by (simp add: hasher_run_def)
  next
    case False
    then show ?thesis using adv assms(10) by (simp add: hasher_run_def)
  qed
  then show ?thesis using r(1) by (auto simp: hashed_def reference_hashes_def)
qed

text \<open>A file of three bytes, which is one block\<close>

definition small_env :: hash_env where
  "small_env =
     \<lparr>opened = Inr \<lparr>contents = ''abc'', pos = 0, feof = False, ferror = False, fault = None, size_hint = 3\<rparr>,
      obs1 = \<lparr>obs_mtime = Inr 7, obs_size = Inr 3\<rparr>, obs2 = \<lparr>obs_mtime = Inr 7, obs_size = Inr 3\<rparr>\<rparr>"

lemma small_hasher: "\<exists>m st. Hasher (length ''abc'') 7 = Some (m, st)"
  using ChunkRanges_partition [of 3] by (auto simp: Hasher_def numeral_3_eq_3)

theorem hasher_result_witness:
  "\<exists>m st. Hasher (length ''abc'') 7 = Some (m, st)
     \<and> length (callbacks (hasher_run rev st small_env [Abort small_env] m)) \<le> 1"
proof -
  obtain m st where h: "Hasher (length ''abc'') 7 = Some (m, st)" using small_hasher by blast
  have "opens (opened small_env) ''abc''" by (simp add: opens_def small_env_def)
  from hasher_result [OF _ h this, of rev "[Abort small_env]"] h show ?thesis by (auto simp: Let_def)
qed

theorem hasher_completes_witness:
  "\<exists>m st ranges. Hasher (length ''abc'') 7 = Some (m, st)
     \<and> callbacks (hasher_run rev st small_env [] m)
         = [Inr \<lparr>file_size = length ''abc'', hash = rev ''abc'',
                 fh_chunk_hashes = map (rev \<circ> file_slice ''abc'') ranges, fh_chunk_ranges = ranges\<rparr>]"
proof -
  obtain m st where h: "Hasher (length ''abc'') 7 = Some (m, st)" using small_hasher by blast
  have "opened small_env = Inr \<lparr>contents = ''abc'', pos = 0, feof = False, ferror = False, fault = None, size_hint = 3\<rparr>"
    by (simp add: small_env_def)
  from hasher_completes [OF _ h this, of "[]" rev] h show ?thesis
    by (auto simp: small_env_def unchanged_def buf_size_def)
qed

end
