(* ===== verification/Upload_Request.thy ===== *)
theory Upload_Request
  imports Api_Query Upload_Chunks "HOL-Library.Char_ord" "HOL-Library.List_Lexorder"
begin

text \<open>
  What an upload is asked to do, \<^verbatim>\<open>uploader/upload_request.cpp\<close>, and the URL and headers of
  the requests that send the file, \<^verbatim>\<open>uploader/detail/transition_upload\<close>. A
  \<^verbatim>\<open>std::map\<close> is the list of its pairs in the order of the keys. \<^verbatim>\<open>AsDateTime\<close> is
  written by the date library and is a parameter.
\<close>

datatype UploadTarget = ParentFolderKey string | CloudPath string

datatype OnDuplicateAction = Fail | Replace | AutoRename

record UploadRequest =
  local_file_path :: string
  utf8_target_name :: "string option"
  upload_target_folder :: "UploadTarget option"
  on_duplicate_action :: OnDuplicateAction

definition new_UploadRequest :: "string \<Rightarrow> UploadRequest" where
  "new_UploadRequest path = \<lparr>local_file_path = path, utf8_target_name = None,
     upload_target_folder = None, on_duplicate_action = Fail\<rparr>"

definition SetTargetFilename :: "string \<Rightarrow> UploadRequest \<Rightarrow> UploadRequest" where
  "SetTargetFilename n r = r\<lparr>utf8_target_name := Some n\<rparr>"

text \<open>The first result is true where \<^verbatim>\<open>std::logic_error\<close> is thrown; the target is set then too.\<close>

definition SetTargetFolderkey :: "string \<Rightarrow> UploadRequest \<Rightarrow> bool \<times> UploadRequest" where
  "SetTargetFolderkey k r =
     ((case upload_target_folder r of Some (CloudPath _) \<Rightarrow> True | _ \<Rightarrow> False),
      r\<lparr>upload_target_folder := Some (ParentFolderKey k)\<rparr>)"

definition SetTargetFolderPath :: "string \<Rightarrow> UploadRequest \<Rightarrow> bool \<times> UploadRequest" where
  "SetTargetFolderPath p r =
     ((case upload_target_folder r of Some (ParentFolderKey _) \<Rightarrow> True | _ \<Rightarrow> False),
      r\<lparr>upload_target_folder := Some (CloudPath p)\<rparr>)"

definition SetOnDuplicateAction :: "OnDuplicateAction \<Rightarrow> UploadRequest \<Rightarrow> UploadRequest" where
  "SetOnDuplicateAction a r = r\<lparr>on_duplicate_action := a\<rparr>"

section \<open>Query maps\<close>

text \<open>\<^verbatim>\<open>query_map[k] = v\<close>\<close>

fun map_put :: "string \<Rightarrow> string \<Rightarrow> params \<Rightarrow> params" where
  "map_put k v [] = [(k, v)]"
| "map_put k v ((k', v') # m) =
     (if k < k' then (k, v) # (k', v') # m
      else if k = k' then (k, v) # m
      else (k', v') # map_put k v m)"

fun query_piece :: "string \<times> string \<Rightarrow> string" where
  "query_piece (k, v) = (if v = [] then percent_Encode k else k @ ''='' @ percent_Encode v)"

definition AssembleQuery :: "params \<Rightarrow> string" where
  "AssembleQuery query_map = ''?'' @ join_with ''&'' (map query_piece query_map)"

fun TargetUrlVisitor :: "UploadTarget \<Rightarrow> params \<Rightarrow> params" where
  "TargetUrlVisitor (ParentFolderKey k) m = (if k \<noteq> [] then map_put ''folder_key'' k m else m)"
| "TargetUrlVisitor (CloudPath p) m = map_put ''path'' p m"

text \<open>
  What the two forms of \<^verbatim>\<open>BuildUrl\<close> read of the state machine. Their bodies are the same up to
  the address.
\<close>

record url_source =
  us_action_token :: string
  us_on_duplicate :: OnDuplicateAction
  us_mtime :: string             \<comment> \<open>the time as \<^verbatim>\<open>AsDateTime\<close> writes it\<close>
  us_target :: UploadTarget

fun put_duplicate_action :: "OnDuplicateAction \<Rightarrow> params \<Rightarrow> params" where
  "put_duplicate_action Fail m = m"
| "put_duplicate_action Replace m = map_put ''action_on_duplicate'' ''replace'' m"
| "put_duplicate_action AutoRename m = map_put ''action_on_duplicate'' ''keep'' m"

definition url_query :: "url_source \<Rightarrow> params" where
  "url_query s =
     (let m = map_put ''session_token'' (us_action_token s) [];
          m = map_put ''response_format'' ''json'' m;
          m = put_duplicate_action (us_on_duplicate s) m;
          m = map_put ''mtime'' (us_mtime s) m
      in TargetUrlVisitor (us_target s) m)"

definition simple_BuildUrl :: "url_source \<Rightarrow> string" where
  "simple_BuildUrl s =
     ''http://www.mediafire.com/api/1.3/upload/simple.php'' @ AssembleQuery (url_query s)"

definition chunk_BuildUrl :: "url_source \<Rightarrow> string" where
  "chunk_BuildUrl s =
     ''http://www.mediafire.com/api/1.3/upload/resumable.php'' @ AssembleQuery (url_query s)"

section \<open>Headers\<close>

definition simple_SetHeaders :: "string \<Rightarrow> nat \<Rightarrow> params" where
  "simple_SetHeaders filename fsize =
     [(''Content-Type'', ''application/octet-stream''),
      (''x-filename'', filename),
      (''x-filesize'', show_nat fsize)]"

definition chunk_SetHeaders ::
  "string \<Rightarrow> nat \<Rightarrow> string \<Rightarrow> range list \<Rightarrow> string list \<Rightarrow> nat \<Rightarrow> params" where
  "chunk_SetHeaders filename fsize fhash ranges hashes chunk_id =
     [(''Content-Type'', ''application/octet-stream''),
      (''x-filename'', filename),
      (''x-filesize'', show_nat fsize),
      (''x-filehash'', fhash),
      (''x-unit-hash'', hashes ! chunk_id),
      (''x-unit-id'', show_nat chunk_id),
      (''x-unit-size'', show_int (x_unit_size (ranges ! chunk_id)))]"

section \<open>Properties\<close>

definition map_ok :: "params \<Rightarrow> bool" where
  "map_ok m \<longleftrightarrow> sorted_wrt (<) (map fst m)"

lemma map_put_keys: "set (map fst (map_put k v m)) = insert k (set (map fst m))"
  by (induction k v m rule: map_put.induct) auto

lemma map_put_ok [simp]: "map_ok m \<Longrightarrow> map_ok (map_put k v m)"
proof (induction k v m rule: map_put.induct)
  case (2 k v k' v' m)
  have "\<forall>x \<in> set (map fst (map_put k v m)). k' < x" if "\<not> k < k'" "k \<noteq> k'"
    using that 2(2) unfolding map_put_keys by (auto simp: map_ok_def)
  with 2 show ?case by (auto simp: map_ok_def)
qed (simp add: map_ok_def)

lemma map_put_get [simp]:
  "map_ok m \<Longrightarrow> map_of (map_put k v m) k' = (if k' = k then Some v else map_of m k')"
proof (induction k v m rule: map_put.induct)
  case (2 k v k1 v1 m)
  have "map_of m k = None" if "k < k1" 
    using that 2(2) by (force simp: map_ok_def map_of_eq_None_iff)
  moreover have "map_ok m" using 2(2) by (simp add: map_ok_def)
  ultimately show ?case using 2(1) by auto
qed simp

lemma map_put_not_Nil [simp]: "map_put k v m \<noteq> []"
  by (cases m) (auto split: if_splits)

declare map_put.simps [simp del]

lemma AssembleQuery_roundtrip:
  assumes "\<forall>k \<in> set (map fst m). percent_Encode k = k" and "m \<noteq> []"
  shows "parse_query percent_Decode (tl (AssembleQuery m)) = Some m"
proof -
  have sep: "c \<notin> set k" if "k \<in> set (map fst m)" "c \<in> {CHR ''&'', CHR ''=''}" for k c
    using get_parameter.enc_no_separator [of c k] assms(1) that by auto
  have "CHR ''&'' \<notin> set (query_piece kv)" if "kv \<in> set m" for kv
  proof (cases kv)
    case (Pair k v)
    then have "CHR ''&'' \<notin> set k" using sep [of k "CHR ''&''"] that by force
    then show ?thesis by (simp add: Pair get_parameter.enc_no_ampersand)
  qed
  then have "\<forall>p \<in> set (map query_piece m). CHR ''&'' \<notin> set p" by auto
  then have split: "split_on (CHR ''&'') (tl (AssembleQuery m)) = map query_piece m"
    using split_join [of "map query_piece m" "CHR ''&''"] assms(2) by (simp add: AssembleQuery_def)
  have "(parse_piece percent_Decode \<circ> query_piece) kv = Some (id kv)" if "kv \<in> set m" for kv
  proof (cases kv)
    case (Pair k v)
    then have "k \<in> set (map fst m)" using that by force
    then have k: "CHR ''='' \<notin> set k" "percent_Encode k = k" using sep [of k "CHR ''=''"] assms(1) by auto
    have "percent_Decode [] = Some []" using get_parameter.dec_enc [of "[]"] by (simp add: percent_Encode_def)
    moreover have "\<forall>x \<in> set k. x \<noteq> CHR ''=''" using k(1) by auto
    ultimately have "parse_piece percent_Decode k = Some (k, [])"
      by (simp add: parse_piece_def takeWhile_no_stop dropWhile_no_stop)
    then show ?thesis
      using get_parameter.parse_piece_enc [OF k(1), of v] k(2) by (simp add: Pair piece_def)
  qed
  then have "those (map (parse_piece percent_Decode \<circ> query_piece) m) = Some (map id m)"
    by (intro those_map_Some ballI)
  then show ?thesis by (simp add: parse_query_def split)
qed

text \<open>
  the query of an upload request, simple or by chunks, can be read back and is exactly the
  action token, the response format, the time of modification, the action on a duplicate
  unless it is the default, and the target folder unless it is the root, each byte for byte.
\<close>

theorem upload_url_parameters:
  "parse_query percent_Decode
     (drop (length ''http://www.mediafire.com/api/1.3/upload/simple.php?'') (simple_BuildUrl s)) = Some (url_query s)
   \<and> parse_query percent_Decode
     (drop (length ''http://www.mediafire.com/api/1.3/upload/resumable.php?'') (chunk_BuildUrl s)) = Some (url_query s)
   \<and> map_of (url_query s) =
       [''session_token'' \<mapsto> us_action_token s, ''response_format'' \<mapsto> ''json'', ''mtime'' \<mapsto> us_mtime s]
       ++ (case us_on_duplicate s of Fail \<Rightarrow> Map.empty
           | Replace \<Rightarrow> [''action_on_duplicate'' \<mapsto> ''replace'']
           | AutoRename \<Rightarrow> [''action_on_duplicate'' \<mapsto> ''keep''])
       ++ (case us_target s of ParentFolderKey k \<Rightarrow> if k = [] then Map.empty else [''folder_key'' \<mapsto> k]
           | CloudPath p \<Rightarrow> [''path'' \<mapsto> p])"
proof -
  have keys: "set (map fst (url_query s)) \<subseteq> {''session_token'', ''response_format'', ''mtime'',
      ''action_on_duplicate'', ''folder_key'', ''path''}"
    by (cases "us_on_duplicate s"; cases "us_target s")
       (auto simp: url_query_def Let_def map_put_keys simp del: set_map split: if_splits)
  have plain: "\<forall>k \<in> {''session_token'', ''response_format'', ''mtime'', ''action_on_duplicate'',
      ''folder_key'', ''path''}. percent_Encode k = k"
    by (simp add: percent_Encode_def RequiresPercentEncoding_def)
  have enc: "\<forall>k \<in> set (map fst (url_query s)). percent_Encode k = k"
    by (intro ballI bspec [OF plain] subsetD [OF keys])
  have "url_query s \<noteq> []" by (cases "us_target s") (simp_all add: url_query_def Let_def)
  with enc have q: "parse_query percent_Decode (tl (AssembleQuery (url_query s))) = Some (url_query s)"
    by (rule AssembleQuery_roundtrip)
  have cut: "drop (length (base @ ''?'')) (base @ AssembleQuery (url_query s)) = tl (AssembleQuery (url_query s))" for base
    by (simp add: AssembleQuery_def)
  have ok: "map_ok []" by (simp add: map_ok_def)
  show ?thesis
  proof (intro conjI)
    show "parse_query percent_Decode
       (drop (length ''http://www.mediafire.com/api/1.3/upload/simple.php?'') (simple_BuildUrl s)) = Some (url_query s)"
      using cut [of "''http://www.mediafire.com/api/1.3/upload/simple.php''"] q by (simp add: simple_BuildUrl_def)
    show "parse_query percent_Decode
       (drop (length ''http://www.mediafire.com/api/1.3/upload/resumable.php?'') (chunk_BuildUrl s)) = Some (url_query s)"
      using cut [of "''http://www.mediafire.com/api/1.3/upload/resumable.php''"] q by (simp add: chunk_BuildUrl_def)
  next
    show "map_of (url_query s) = [''session_token'' \<mapsto> us_action_token s, ''response_format'' \<mapsto> ''json'', ''mtime'' \<mapsto> us_mtime s]
       ++ (case us_on_duplicate s of Fail \<Rightarrow> Map.empty
           | Replace \<Rightarrow> [''action_on_duplicate'' \<mapsto> ''replace'']
           | AutoRename \<Rightarrow> [''action_on_duplicate'' \<mapsto> ''keep''])
       ++ (case us_target s of ParentFolderKey k \<Rightarrow> if k = [] then Map.empty else [''folder_key'' \<mapsto> k]
           | CloudPath p \<Rightarrow> [''path'' \<mapsto> p])"
      using ok by (cases "us_on_duplicate s"; cases "us_target s")
        (auto simp: url_query_def Let_def fun_eq_iff)
  qed
qed

end
