(* ===== verification/Upload_Machine.thy ===== *)
theory Upload_Machine
  imports Upload_Hasher Upload_Request Errors
begin

text \<open>
  The state machine of one upload, \<^verbatim>\<open>uploader/detail/upload_state_machine.hpp\<close>, with the
  actions of its transitions from \<^verbatim>\<open>transition_check.hpp\<close>, \<^verbatim>\<open>transition_upload.hpp\<close>,
  \<^verbatim>\<open>transition_instant_upload.hpp\<close>, \<^verbatim>\<open>transition_poll_upload.hpp\<close> and
  \<^verbatim>\<open>transitions.hpp\<close>. A transition runs the exit of the source state, the action of the row
  and the entry of the target; an event that is raised on the way waits in the queue until it
  is over. What the file system, the server and the timer answer are arguments. A failed
  assertion sets a flag and the code goes on, as in a release build.
\<close>

section \<open>Data\<close>

datatype errc = BadUploadResponse | Upload_Cancelled | FileExistInFolder | FiledropKeyInvalid
  | FiledropMisconfigured | Upload_FilenameMissing | FilesizeInvalid | HashIncorrect
  | IncompleteUpload | InsufficientCloudStorage | InternalUploadError | LogicError
  | MaxFilesizeExceeded | MissingFileData | Paused | Permissions | SessionInvalid
  | TargetFolderInTrash | TargetFolderMissing | ZeroByteFile

datatype upload_error = Upload_Errc errc | System_Errno nat | Hash_Failure hash_error
  | File_Failure upload_file_error | Response_Code error_code | Upload_Response int
  | Poll_Result int | Poll_File_Error int

datatype CountState = No_Count | Count_Hashing | Count_Uploading

datatype UploadState = EnqueuedForHashing | St_Hashing | EnqueuedForUpload | St_Uploading
  | St_Polling | St_Error upload_error string "string option"
  | St_Complete string string string "nat option"

datatype machine_state = Initial | WaitForHashSignal | SetupHasher | Hashing
  | WaitForUploadSignal | InUploadCheck | InstantUpload | UploadChunk | UploadFile | PollUpload
  | CompleteWithSuccess | CompleteWithError

datatype upload_event = Ev_Start | Ev_Error upload_error string | Ev_StartHash
  | Ev_Hash hash_event | Ev_StartUpload string
  | NeedsSingleUpload | NeedsChunkUpload | Ev_InstantUpload | AlreadyUploaded string string
  | ChunkSuccess nat string | SimpleUploadComplete string | ChunkUploadComplete string
  | InstantSuccess string string nat | PollComplete string string nat

text \<open>The methods of \<^verbatim>\<open>UploadStateMachineCallbackInterface\<close>\<close>

datatype manager_call = HandleAddToHash | HandleRemoveToHash | HandleAddToUpload
  | HandleRemoveToUpload | HandleComplete | IncrementHashingCount | DecrementHashingCount
  | IncrementUploadingCount | DecrementUploadingCount

text \<open>What the machine waits for an answer of: API calls, posts and its timer\<close>

datatype request =
    Check_Call string string nat UploadTarget bool
  | Instant_Call string string nat OnDuplicateAction UploadTarget
  | Simple_Post string params pipe
  | Chunk_Post nat string params pipe
  | Poll_Call string
  | Poll_Timer string

record UploadConfig =
  cfg_filename :: string
  cfg_on_duplicate :: OnDuplicateAction
  cfg_target :: UploadTarget

record upload =
  config :: UploadConfig
  connected :: bool
  upl_state :: machine_state
  u_filesize :: nat
  u_mtime :: nat
  u_hash :: string
  u_chunk_ranges :: "range list"
  u_chunk_hashes :: "string list"
  count_state :: CountState
  chunk_states :: "ChunkState list"
  action_token :: string
  upload_key :: string
  upload_request :: bool
  queue :: "upload_event list"
  posted_reads :: "hash_event list"
  awaiting :: "request list"
  statuses :: "UploadState list"
  calls :: "manager_call list"
  asserted :: bool
  looping :: bool

text \<open>The environment of a step: what a look at the file gives, and the draw of the random device\<close>

record upload_env = hash_env +
  fs_size :: "nat + nat"
  fs_mtime :: "nat + nat"
  draw :: nat

text \<open>SHA-256 and the date library\<close>

record upload_lib =
  sha256 :: "string \<Rightarrow> string"
  AsDateTime :: "nat \<Rightarrow> string"

definition new_upload :: "UploadConfig \<Rightarrow> upload" where
  "new_upload c = \<lparr>config = c, connected = True, upl_state = Initial, u_filesize = 0, u_mtime = 0,
     u_hash = [], u_chunk_ranges = [], u_chunk_hashes = [], count_state = No_Count,
     chunk_states = [], action_token = [], upload_key = [], upload_request = False,
     queue = [], posted_reads = [], awaiting = [], statuses = [], calls = [],
     asserted = False, looping = False\<rparr>"

section \<open>Operations\<close>

definition check :: "bool \<Rightarrow> upload \<Rightarrow> upload" where
  "check b u = (if b then u else u\<lparr>asserted := True\<rparr>)"

definition ProcessEvent :: "upload_event \<Rightarrow> upload \<Rightarrow> upload" where
  "ProcessEvent ev u = u\<lparr>queue := queue u @ [ev]\<rparr>"

definition CALLBACK_INTERFACE :: "manager_call \<Rightarrow> upload \<Rightarrow> upload" where
  "CALLBACK_INTERFACE c u = (if connected u then u\<lparr>calls := calls u @ [c]\<rparr> else u)"

definition SendStatus :: "UploadState \<Rightarrow> upload \<Rightarrow> upload" where
  "SendStatus st u = u\<lparr>statuses := statuses u @ [st]\<rparr>"

definition Request :: "request \<Rightarrow> upload \<Rightarrow> upload" where
  "Request r u = u\<lparr>awaiting := awaiting u @ [r]\<rparr>"

definition SetCountState :: "CountState \<Rightarrow> upload \<Rightarrow> upload" where
  "SetCountState cs u =
     (let u = (case count_state u of No_Count \<Rightarrow> u
               | Count_Hashing \<Rightarrow> CALLBACK_INTERFACE DecrementHashingCount u
               | Count_Uploading \<Rightarrow> CALLBACK_INTERFACE DecrementUploadingCount u);
          u = (case cs of No_Count \<Rightarrow> u
               | Count_Hashing \<Rightarrow> CALLBACK_INTERFACE IncrementHashingCount u
               | Count_Uploading \<Rightarrow> CALLBACK_INTERFACE IncrementUploadingCount u)
      in u\<lparr>count_state := cs\<rparr>)"

definition SetChunkState :: "nat \<Rightarrow> ChunkState \<Rightarrow> upload \<Rightarrow> upload" where
  "SetChunkState chunk_id cs u =
     (if chunk_id < length (chunk_states u) then u\<lparr>chunk_states := (chunk_states u)[chunk_id := cs]\<rparr>
      else ProcessEvent (Ev_Error (Upload_Errc LogicError) ''Requested chunk to set not in range.'')
             (check False u))"

definition SetCompleteHashData :: "string \<Rightarrow> hasher_state \<Rightarrow> upload \<Rightarrow> upload" where
  "SetCompleteHashData h hash_data u =
     u\<lparr>u_hash := h, u_chunk_ranges := chunk_ranges hash_data, u_chunk_hashes := chunk_hashes hash_data\<rparr>"

definition Disconnect :: "upload \<Rightarrow> upload" where
  "Disconnect u = u\<lparr>connected := False\<rparr>"

section \<open>Exits and entries\<close>

definition Initial_exit :: "upload_env \<Rightarrow> upload \<Rightarrow> upload" where
  "Initial_exit env u =
     (case fs_size env of
        Inl errno \<Rightarrow> ProcessEvent (Ev_Error (System_Errno errno) ''Filsize unavailable.'')
                       (u\<lparr>u_filesize := 2 ^ 64 - 1\<rparr>)
      | Inr n \<Rightarrow>
          let u = u\<lparr>u_filesize := n\<rparr> in
          (case fs_mtime env of
             Inl errno \<Rightarrow> ProcessEvent (Ev_Error (System_Errno errno) ''Mtime unavailable.'')
                            (u\<lparr>u_mtime := 2 ^ 64 - 1\<rparr>)
           | Inr t \<Rightarrow>
               let u = u\<lparr>u_mtime := t\<rparr> in
               if n = 0
               then ProcessEvent (Ev_Error (Upload_Errc ZeroByteFile) ''API does not support empty files'') u
               else u))"

fun on_exit :: "upload_env \<Rightarrow> machine_state \<Rightarrow> upload \<Rightarrow> upload" where
  "on_exit env Initial u = Initial_exit env u"
| "on_exit env WaitForHashSignal u = CALLBACK_INTERFACE HandleRemoveToHash u"
| "on_exit env WaitForUploadSignal u = CALLBACK_INTERFACE HandleRemoveToUpload u"
| "on_exit env UploadChunk u = u\<lparr>upload_request := False\<rparr>"
| "on_exit env _ u = u"

definition SetupHasher_entry :: "upload \<Rightarrow> upload" where
  "SetupHasher_entry u =
     (let u = SetCountState Count_Hashing u in
      case ChunkRanges (u_filesize u) of
        None \<Rightarrow> u\<lparr>looping := True\<rparr>
      | Some ranges \<Rightarrow>
          ProcessEvent (Ev_Hash (StartHash
            \<lparr>filesize = u_filesize u, mtime = u_mtime u, primary_hasher = [], chunk_hasher = [],
             chunk_ranges = ranges, chunk_hashes = []\<rparr>)) u)"

definition UploadChunk_entry :: "nat \<Rightarrow> string \<Rightarrow> upload \<Rightarrow> upload" where
  "UploadChunk_entry chunk_id key u =
     (let u = check (chunk_id < length (chunk_states u) \<and> chunk_states u ! chunk_id = Uploading) u;
          u = check (key \<noteq> []) u;
          u = (if upload_key u = [] then u\<lparr>upload_key := key\<rparr> else u)
      in SetChunkState chunk_id Uploaded u)"

definition complete_success :: "string \<Rightarrow> string \<Rightarrow> nat option \<Rightarrow> upload \<Rightarrow> upload" where
  "complete_success quickkey filename revision u =
     (let u = SetCountState No_Count (check (quickkey \<noteq> []) u)
      in CALLBACK_INTERFACE HandleComplete
           (SendStatus (St_Complete quickkey filename (u_hash u) revision) u))"

definition complete_error :: "upload_error \<Rightarrow> string \<Rightarrow> upload \<Rightarrow> upload" where
  "complete_error err description u =
     (let u = SetCountState No_Count u
      in CALLBACK_INTERFACE HandleComplete
           (SendStatus (St_Error err description (if u_hash u = [] then None else Some (u_hash u))) u))"

fun on_entry :: "machine_state \<Rightarrow> upload_event \<Rightarrow> upload \<Rightarrow> upload" where
  "on_entry WaitForHashSignal ev u = SendStatus EnqueuedForHashing (CALLBACK_INTERFACE HandleAddToHash u)"
| "on_entry SetupHasher ev u = SetupHasher_entry u"
| "on_entry Hashing ev u = (case ev of Ev_Hash (StartHash _) \<Rightarrow> SendStatus St_Hashing u | _ \<Rightarrow> u)"
| "on_entry WaitForUploadSignal ev u = SendStatus EnqueuedForUpload (CALLBACK_INTERFACE HandleAddToUpload u)"
| "on_entry InUploadCheck ev u = (case ev of
     Ev_StartUpload token \<Rightarrow>
       SendStatus St_Uploading (SetCountState Count_Uploading ((check (token \<noteq> []) u)\<lparr>action_token := token\<rparr>))
   | _ \<Rightarrow> u)"
| "on_entry UploadChunk ev u = (case ev of ChunkSuccess chunk_id key \<Rightarrow> UploadChunk_entry chunk_id key u | _ \<Rightarrow> u)"
| "on_entry PollUpload ev u = SendStatus St_Polling u"
| "on_entry CompleteWithSuccess ev u = (case ev of
     AlreadyUploaded quickkey filename \<Rightarrow> complete_success quickkey filename None u
   | InstantSuccess quickkey filename revision \<Rightarrow> complete_success quickkey filename (Some revision) u
   | PollComplete quickkey filename revision \<Rightarrow> complete_success quickkey filename (Some revision) u
   | _ \<Rightarrow> u)"
| "on_entry CompleteWithError ev u = (case ev of
     Ev_Error err description \<Rightarrow> complete_error err description u
   | Ev_Hash (Hash_Error _ err) \<Rightarrow> complete_error (Hash_Failure err) [] u
   | _ \<Rightarrow> u)"
| "on_entry _ ev u = u"

section \<open>Actions\<close>

definition ReadFile_action :: "upload_lib \<Rightarrow> upload_env \<Rightarrow> hasher_state \<Rightarrow> fileio \<Rightarrow> nat \<Rightarrow> upload \<Rightarrow> upload" where
  "ReadFile_action lib env state file_io p u =
     (case ReadFile (sha256 lib) (obs1 env) (obs2 env) state file_io p of
        None \<Rightarrow> check False u
      | Some ev \<Rightarrow> if is_read ev then u\<lparr>posted_reads := posted_reads u @ [ev]\<rparr>
                   else ProcessEvent (Ev_Hash ev) u)"

definition Check_action :: "upload \<Rightarrow> upload" where
  "Check_action u =
     Request (Check_Call (cfg_filename (config u)) (u_hash u) (u_filesize u) (cfg_target (config u))
                (1 < length (u_chunk_ranges u)))
       (check (u_hash u \<noteq> [] \<and> u_chunk_ranges u \<noteq> []) u)"

definition upload_source :: "upload_lib \<Rightarrow> upload \<Rightarrow> url_source" where
  "upload_source lib u = \<lparr>us_action_token = action_token u, us_on_duplicate = cfg_on_duplicate (config u),
     us_mtime = AsDateTime lib (u_mtime u), us_target = cfg_target (config u)\<rparr>"

definition file_failure :: "upload_file_error \<Rightarrow> upload_event" where
  "file_failure e = Ev_Error (File_Failure e)
     (case e of Open_Failed _ \<Rightarrow> ''Unable to open file.'' | Seek_Failed _ \<Rightarrow> ''Seek file failed.'')"

definition pipe_asserts :: "pipe \<Rightarrow> bool" where
  "pipe_asserts p \<longleftrightarrow> PostDataSize p > 0 \<and> start_byte p < end_byte p"

definition DoSimpleUpload :: "upload_lib \<Rightarrow> upload_env \<Rightarrow> upload \<Rightarrow> upload" where
  "DoSimpleUpload lib env u =
     (case simple_pipe (opened env) (u_filesize u) of
        Inl e \<Rightarrow> ProcessEvent (file_failure e) u
      | Inr p \<Rightarrow>
          (Request (Simple_Post (simple_BuildUrl (upload_source lib u))
                      (simple_SetHeaders (cfg_filename (config u)) (u_filesize u)) p)
             (check (pipe_asserts p) u))\<lparr>upload_request := True\<rparr>)"

definition UploadNextChunk :: "upload_lib \<Rightarrow> upload_env \<Rightarrow> nat \<Rightarrow> upload \<Rightarrow> upload" where
  "UploadNextChunk lib env chunk_id u =
     (case chunk_pipe (opened env) (u_chunk_ranges u ! chunk_id) of
        Inl e \<Rightarrow> ProcessEvent (file_failure e) u
      | Inr p \<Rightarrow>
          let headers = chunk_SetHeaders (cfg_filename (config u)) (u_filesize u) (u_hash u)
                          (u_chunk_ranges u) (u_chunk_hashes u) chunk_id;
              url = chunk_BuildUrl (upload_source lib u);
              u = SetChunkState chunk_id Uploading (check (pipe_asserts p) u)
          in (Request (Chunk_Post chunk_id url headers p) u)\<lparr>upload_request := True\<rparr>)"

definition DoChunkUpload :: "upload_lib \<Rightarrow> upload_env \<Rightarrow> upload \<Rightarrow> upload" where
  "DoChunkUpload lib env u =
     (case NextChunkToUpload (draw env) (chunk_states u) of
        Some chunk_id \<Rightarrow> UploadNextChunk lib env chunk_id u
      | None \<Rightarrow> ProcessEvent (ChunkUploadComplete (upload_key u)) (check (upload_key u \<noteq> []) u))"

definition DoInstantUpload :: "upload \<Rightarrow> upload" where
  "DoInstantUpload u =
     Request (Instant_Call (cfg_filename (config u)) (u_hash u) (u_filesize u)
                (cfg_on_duplicate (config u)) (cfg_target (config u)))
       (check (u_hash u \<noteq> []) u)"

definition StartPoll :: "string \<Rightarrow> upload \<Rightarrow> upload" where
  "StartPoll key u =
     (if key = [] then ProcessEvent (Ev_Error (Upload_Errc LogicError) ''Filsize unavailable.'') (check False u)
      else Request (Poll_Call key) u)"

section \<open>The transition table\<close>

datatype action = No_Action | Open_File | Read_File | Save_Hash | Do_Check | Do_Simple_Upload
  | Do_Chunk_Upload | Do_Instant_Upload | Do_Poll

datatype event_kind = K_Start | K_Error | K_StartHash | K_he_StartHash | K_he_ReadNext
  | K_he_HashSuccess | K_he_Error | K_StartUpload | K_NeedsSingleUpload | K_NeedsChunkUpload
  | K_InstantUpload | K_AlreadyUploaded | K_ChunkSuccess | K_SimpleUploadComplete
  | K_ChunkUploadComplete | K_InstantSuccess | K_PollComplete

primrec hash_kind :: "hash_event \<Rightarrow> event_kind" where
  "hash_kind (StartHash _) = K_he_StartHash"
| "hash_kind (ReadNext _ _ _) = K_he_ReadNext"
| "hash_kind (HashSuccess _ _) = K_he_HashSuccess"
| "hash_kind (Hash_Error _ _) = K_he_Error"

primrec kind :: "upload_event \<Rightarrow> event_kind" where
  "kind Ev_Start = K_Start"
| "kind (Ev_Error _ _) = K_Error"
| "kind Ev_StartHash = K_StartHash"
| "kind (Ev_Hash ev) = hash_kind ev"
| "kind (Ev_StartUpload _) = K_StartUpload"
| "kind NeedsSingleUpload = K_NeedsSingleUpload"
| "kind NeedsChunkUpload = K_NeedsChunkUpload"
| "kind Ev_InstantUpload = K_InstantUpload"
| "kind (AlreadyUploaded _ _) = K_AlreadyUploaded"
| "kind (ChunkSuccess _ _) = K_ChunkSuccess"
| "kind (SimpleUploadComplete _) = K_SimpleUploadComplete"
| "kind (ChunkUploadComplete _) = K_ChunkUploadComplete"
| "kind (InstantSuccess _ _ _) = K_InstantSuccess"
| "kind (PollComplete _ _ _) = K_PollComplete"

datatype guard = No_Guard | HasHash | Not_HasHash

definition rows :: "(machine_state \<times> event_kind \<times> machine_state \<times> action \<times> guard) list" where
  "rows =
    [(Initial, K_Start, WaitForHashSignal, No_Action, Not_HasHash),
     (Initial, K_Start, WaitForUploadSignal, No_Action, HasHash),
     (Initial, K_Error, CompleteWithError, No_Action, No_Guard),

     (WaitForHashSignal, K_StartHash, SetupHasher, No_Action, No_Guard),
     (WaitForHashSignal, K_Error, CompleteWithError, No_Action, No_Guard),

     (SetupHasher, K_he_StartHash, Hashing, Open_File, No_Guard),

     (Hashing, K_he_ReadNext, Hashing, Read_File, No_Guard),
     (Hashing, K_he_HashSuccess, WaitForUploadSignal, Save_Hash, No_Guard),
     (Hashing, K_he_Error, CompleteWithError, No_Action, No_Guard),

     (WaitForUploadSignal, K_StartUpload, InUploadCheck, Do_Check, No_Guard),
     (WaitForUploadSignal, K_Error, CompleteWithError, No_Action, No_Guard),

     (InUploadCheck, K_NeedsSingleUpload, UploadFile, Do_Simple_Upload, No_Guard),
     (InUploadCheck, K_NeedsChunkUpload, UploadChunk, Do_Chunk_Upload, No_Guard),

     (InUploadCheck, K_InstantUpload, InstantUpload, Do_Instant_Upload, No_Guard),
     (InUploadCheck, K_AlreadyUploaded, CompleteWithSuccess, No_Action, No_Guard),
     (InUploadCheck, K_Error, CompleteWithError, No_Action, No_Guard),

     (InstantUpload, K_InstantSuccess, CompleteWithSuccess, No_Action, No_Guard),
     (InstantUpload, K_Error, CompleteWithError, No_Action, No_Guard),

     (UploadChunk, K_ChunkSuccess, UploadChunk, Do_Chunk_Upload, No_Guard),
     (UploadChunk, K_ChunkUploadComplete, PollUpload, Do_Poll, No_Guard),
     (UploadChunk, K_Error, CompleteWithError, No_Action, No_Guard),

     (UploadFile, K_SimpleUploadComplete, PollUpload, Do_Poll, No_Guard),
     (UploadFile, K_Error, CompleteWithError, No_Action, No_Guard),

     (PollUpload, K_PollComplete, CompleteWithSuccess, No_Action, No_Guard),
     (PollUpload, K_Error, CompleteWithError, No_Action, No_Guard)]"

text \<open>A guard is evaluated on the machine: the first argument is \<^verbatim>\<open>HasHash\<close>.\<close>

definition guard_holds :: "bool \<Rightarrow> guard \<Rightarrow> bool" where
  "guard_holds has_hash g = (case g of No_Guard \<Rightarrow> True | HasHash \<Rightarrow> has_hash | Not_HasHash \<Rightarrow> \<not> has_hash)"

definition transition_table :: "bool \<Rightarrow> machine_state \<Rightarrow> upload_event \<Rightarrow> (machine_state \<times> action) option" where
  "transition_table has_hash s ev =
     (case find (\<lambda>(source, k, _, _, g). source = s \<and> k = kind ev \<and> guard_holds has_hash g) rows of
        None \<Rightarrow> None
      | Some (_, _, target, act, _) \<Rightarrow> Some (target, act))"

definition run_action :: "upload_lib \<Rightarrow> upload_env \<Rightarrow> action \<Rightarrow> upload_event \<Rightarrow> upload \<Rightarrow> upload" where
  "run_action lib env act ev u = (case act of
       No_Action \<Rightarrow> u
     | Open_File \<Rightarrow> (case ev of Ev_Hash (StartHash st) \<Rightarrow> ProcessEvent (Ev_Hash (OpenFile (opened env) st)) u | _ \<Rightarrow> u)
     | Read_File \<Rightarrow> (case ev of Ev_Hash (ReadNext st f p) \<Rightarrow> ReadFile_action lib env st f p u | _ \<Rightarrow> u)
     | Save_Hash \<Rightarrow> (case ev of Ev_Hash (HashSuccess st h) \<Rightarrow> SetCompleteHashData h st u | _ \<Rightarrow> u)
     | Do_Check \<Rightarrow> Check_action u
     | Do_Simple_Upload \<Rightarrow> DoSimpleUpload lib env u
     | Do_Chunk_Upload \<Rightarrow> DoChunkUpload lib env u
     | Do_Instant_Upload \<Rightarrow> DoInstantUpload u
     | Do_Poll \<Rightarrow> (case ev of SimpleUploadComplete key \<Rightarrow> StartPoll key u
                  | ChunkUploadComplete key \<Rightarrow> StartPoll key u | _ \<Rightarrow> u))"

definition final_state :: "machine_state \<Rightarrow> bool" where
  "final_state s \<longleftrightarrow> s = CompleteWithSuccess \<or> s = CompleteWithError"

text \<open>\<^verbatim>\<open>process_event\<close>: a terminate state ignores every event, an event without a row asserts.\<close>

definition fire :: "upload_lib \<Rightarrow> upload_env \<Rightarrow> upload_event \<Rightarrow> upload \<Rightarrow> upload" where
  "fire lib env ev u =
     (if final_state (upl_state u) then u
      else (case transition_table (u_hash u \<noteq> []) (upl_state u) ev of
              None \<Rightarrow> check False u
            | Some (target, act) \<Rightarrow>
                on_entry target ev (run_action lib env act ev (on_exit env (upl_state u) u))\<lparr>upl_state := target\<rparr>))"

section \<open>Answers\<close>

record check_response =
  cr_file_exists :: bool
  cr_hash_different :: bool
  cr_duplicate_quickkey :: "string option"
  cr_storage_limit_exceeded :: bool
  cr_hash_exists :: bool
  cr_resumable :: "(nat \<times> 16 word list) option"

record poll_response =
  pr_result :: int
  pr_fileerror :: int
  pr_quickkey :: "string option"
  pr_filename :: "string option"
  pr_revision :: "nat option"

text \<open>
  What \<^verbatim>\<open>ResponseBase::InitializeWithContent\<close> finds in the answer to a post: the error and its
  text, and the two fields of the body
\<close>

record post_response =
  po_error :: "(error_code \<times> string option) option"
  po_result :: "int option"
  po_key :: "string option"

datatype reply =
    Check_Failed error_code "string option" | Check_Reply check_response
  | Instant_Failed error_code | Instant_Reply string string nat
  | Post_Failed error_code "string option" | Post_Reply post_response
  | Poll_Reply poll_response
  | Timer_Fired | Timer_Aborted

definition HandleCheck :: "check_response \<Rightarrow> upload \<Rightarrow> upload" where
  "HandleCheck r u =
     (let u = check (cfg_filename (config u) \<noteq> []) u in
      if cr_file_exists r \<and> \<not> cr_hash_different r \<and> cr_duplicate_quickkey r \<noteq> None
      then ProcessEvent (AlreadyUploaded (the (cr_duplicate_quickkey r)) (cfg_filename (config u))) u
      else if cr_storage_limit_exceeded r
      then ProcessEvent (Ev_Error (Upload_Errc InsufficientCloudStorage)
             ''Account lacks sufficient storage for upload to cloud'') u
      else if cr_file_exists r \<and> cfg_on_duplicate (config u) \<noteq> Replace
              \<and> cfg_on_duplicate (config u) \<noteq> AutoRename
      then ProcessEvent (Ev_Error (Upload_Errc FileExistInFolder) ''File already exists in folder.'') u
      else if cr_hash_exists r then ProcessEvent Ev_InstantUpload u
      else if 1 < length (u_chunk_ranges u)
      then (case cr_resumable r of
              None \<Rightarrow> ProcessEvent NeedsSingleUpload (check False u)
            | Some (number_of_units, words) \<Rightarrow>
                if number_of_units \<noteq> length (u_chunk_ranges u)
                then ProcessEvent NeedsSingleUpload (check False u)
                else (case SetBitmap (length (u_chunk_ranges u)) words of
                        (states, ok) \<Rightarrow>
                          ProcessEvent NeedsChunkUpload ((check ok u)\<lparr>chunk_states := states\<rparr>)))
      else ProcessEvent NeedsSingleUpload (check (u_chunk_ranges u \<noteq> []) u))"

text \<open>
  \<^verbatim>\<open>HandleUploadResponse\<close> and \<^verbatim>\<open>HandleChunkResponse\<close> differ in the event for success alone.
\<close>

definition post_outcome :: "(string \<Rightarrow> upload_event) \<Rightarrow> post_response \<Rightarrow> upload_event" where
  "post_outcome success r =
     (case po_error r of
        Some (ec, text) \<Rightarrow>
          (case po_result r of
             Some error \<Rightarrow> Ev_Error (Upload_Response error) ''Upload rejected''
           | None \<Rightarrow> Ev_Error (Response_Code ec) (case text of Some t \<Rightarrow> t | None \<Rightarrow> ''Upload rejected''))
      | None \<Rightarrow>
          (case po_key r of
             Some key \<Rightarrow> success key
           | None \<Rightarrow>
               (case po_result r of
                  Some error \<Rightarrow> Ev_Error (Upload_Response error) ''Upload rejected''
                | None \<Rightarrow> Ev_Error (Response_Code (api_error ContentInvalidData))
                            ''Upload response missing uploadkey'')))"

definition HandleUploadResponse :: "post_response \<Rightarrow> upload \<Rightarrow> upload" where
  "HandleUploadResponse r u = ProcessEvent (post_outcome SimpleUploadComplete r) u"

definition HandleChunkResponse :: "nat \<Rightarrow> post_response \<Rightarrow> upload \<Rightarrow> upload" where
  "HandleChunkResponse chunk_id r u = ProcessEvent (post_outcome (ChunkSuccess chunk_id) r) u"

definition HandlePollCompleteResponse :: "poll_response \<Rightarrow> upload \<Rightarrow> upload" where
  "HandlePollCompleteResponse r u =
     (case pr_quickkey r of
        None \<Rightarrow> ProcessEvent (Ev_Error (Response_Code (api_error ContentInvalidData))
                  ''Successful response missing quickkey'') u
      | Some quickkey \<Rightarrow>
          (case pr_revision r of
             None \<Rightarrow> ProcessEvent (Ev_Error (Response_Code (api_error ContentInvalidData))
                       ''Successful response missing revision'') u
           | Some revision \<Rightarrow>
               ProcessEvent (PollComplete quickkey
                 (case pr_filename r of Some n \<Rightarrow> n | None \<Rightarrow> cfg_filename (config u)) revision) u))"

definition HandlePollResponse :: "string \<Rightarrow> poll_response \<Rightarrow> upload \<Rightarrow> upload" where
  "HandlePollResponse key r u =
     (if pr_result r < 0 then ProcessEvent (Ev_Error (Poll_Result (pr_result r)) ''Poll upload bad response'') u
      else if pr_fileerror r \<noteq> 0
      then ProcessEvent (Ev_Error (Poll_File_Error (pr_fileerror r)) ''Poll upload file error received'') u
      else if pr_quickkey r \<noteq> None then HandlePollCompleteResponse r u
      else Request (Poll_Timer key) u)"

text \<open>The callbacks of the calls, by request and answer; other pairs do not occur.\<close>

fun deliver :: "request \<Rightarrow> reply \<Rightarrow> upload \<Rightarrow> upload" where
  "deliver (Check_Call _ _ _ _ _) reply u = (case reply of
     Check_Failed ec text \<Rightarrow>
       ProcessEvent (Ev_Error (Response_Code ec) (case text of Some t \<Rightarrow> t | None \<Rightarrow> ''unknown error'')) u
   | Check_Reply r \<Rightarrow> HandleCheck r u
   | _ \<Rightarrow> u)"
| "deliver (Instant_Call _ _ _ _ _) reply u = (case reply of
     Instant_Failed ec \<Rightarrow> ProcessEvent (Ev_Error (Response_Code ec) ''Failed to instant upload file.'') u
   | Instant_Reply quickkey filename revision \<Rightarrow> ProcessEvent (InstantSuccess quickkey filename revision) u
   | _ \<Rightarrow> u)"
| "deliver (Simple_Post _ _ _) reply u = (case reply of
     Post_Failed ec text \<Rightarrow>
       ProcessEvent (Ev_Error (Response_Code ec) (case text of Some t \<Rightarrow> t | None \<Rightarrow> ''Unknown error'')) u
   | Post_Reply r \<Rightarrow> HandleUploadResponse r u
   | _ \<Rightarrow> u)"
| "deliver (Chunk_Post chunk_id _ _ _) reply u = (case reply of
     Post_Failed ec text \<Rightarrow>
       ProcessEvent (Ev_Error (Response_Code ec) (case text of Some t \<Rightarrow> t | None \<Rightarrow> ''Unknown error'')) u
   | Post_Reply r \<Rightarrow> HandleChunkResponse chunk_id r u
   | _ \<Rightarrow> u)"
| "deliver (Poll_Call key) reply u = (case reply of Poll_Reply r \<Rightarrow> HandlePollResponse key r u | _ \<Rightarrow> u)"
| "deliver (Poll_Timer key) reply u = (case reply of Timer_Fired \<Rightarrow> StartPoll key u | _ \<Rightarrow> u)"

section \<open>Fields\<close>

text \<open>What the operations leave as it is, and what they do to the one field they change\<close>

lemma check_frame [simp]:
  "config (check b u) = config u"
  "connected (check b u) = connected u"
  "upl_state (check b u) = upl_state u"
  "u_filesize (check b u) = u_filesize u"
  "u_mtime (check b u) = u_mtime u"
  "u_hash (check b u) = u_hash u"
  "u_chunk_ranges (check b u) = u_chunk_ranges u"
  "u_chunk_hashes (check b u) = u_chunk_hashes u"
  "count_state (check b u) = count_state u"
  "chunk_states (check b u) = chunk_states u"
  "action_token (check b u) = action_token u"
  "upload_key (check b u) = upload_key u"
  "upload_request (check b u) = upload_request u"
  "queue (check b u) = queue u"
  "posted_reads (check b u) = posted_reads u"
  "awaiting (check b u) = awaiting u"
  "statuses (check b u) = statuses u"
  "calls (check b u) = calls u"
  "looping (check b u) = looping u"
  by (simp_all add: check_def)

lemma ProcessEvent_frame [simp]:
  "config (ProcessEvent ev u) = config u"
  "connected (ProcessEvent ev u) = connected u"
  "upl_state (ProcessEvent ev u) = upl_state u"
  "u_filesize (ProcessEvent ev u) = u_filesize u"
  "u_mtime (ProcessEvent ev u) = u_mtime u"
  "u_hash (ProcessEvent ev u) = u_hash u"
  "u_chunk_ranges (ProcessEvent ev u) = u_chunk_ranges u"
  "u_chunk_hashes (ProcessEvent ev u) = u_chunk_hashes u"
  "count_state (ProcessEvent ev u) = count_state u"
  "chunk_states (ProcessEvent ev u) = chunk_states u"
  "action_token (ProcessEvent ev u) = action_token u"
  "upload_key (ProcessEvent ev u) = upload_key u"
  "upload_request (ProcessEvent ev u) = upload_request u"
  "posted_reads (ProcessEvent ev u) = posted_reads u"
  "awaiting (ProcessEvent ev u) = awaiting u"
  "statuses (ProcessEvent ev u) = statuses u"
  "calls (ProcessEvent ev u) = calls u"
  "asserted (ProcessEvent ev u) = asserted u"
  "looping (ProcessEvent ev u) = looping u"
  by (simp_all add: ProcessEvent_def)

lemma CALLBACK_INTERFACE_frame [simp]:
  "config (CALLBACK_INTERFACE c u) = config u"
  "connected (CALLBACK_INTERFACE c u) = connected u"
  "upl_state (CALLBACK_INTERFACE c u) = upl_state u"
  "u_filesize (CALLBACK_INTERFACE c u) = u_filesize u"
  "u_mtime (CALLBACK_INTERFACE c u) = u_mtime u"
  "u_hash (CALLBACK_INTERFACE c u) = u_hash u"
  "u_chunk_ranges (CALLBACK_INTERFACE c u) = u_chunk_ranges u"
  "u_chunk_hashes (CALLBACK_INTERFACE c u) = u_chunk_hashes u"
  "count_state (CALLBACK_INTERFACE c u) = count_state u"
  "chunk_states (CALLBACK_INTERFACE c u) = chunk_states u"
  "action_token (CALLBACK_INTERFACE c u) = action_token u"
  "upload_key (CALLBACK_INTERFACE c u) = upload_key u"
  "upload_request (CALLBACK_INTERFACE c u) = upload_request u"
  "queue (CALLBACK_INTERFACE c u) = queue u"
  "posted_reads (CALLBACK_INTERFACE c u) = posted_reads u"
  "awaiting (CALLBACK_INTERFACE c u) = awaiting u"
  "statuses (CALLBACK_INTERFACE c u) = statuses u"
  "asserted (CALLBACK_INTERFACE c u) = asserted u"
  "looping (CALLBACK_INTERFACE c u) = looping u"
  by (simp_all add: CALLBACK_INTERFACE_def)

lemma SendStatus_frame [simp]:
  "config (SendStatus st u) = config u"
  "connected (SendStatus st u) = connected u"
  "upl_state (SendStatus st u) = upl_state u"
  "u_filesize (SendStatus st u) = u_filesize u"
  "u_mtime (SendStatus st u) = u_mtime u"
  "u_hash (SendStatus st u) = u_hash u"
  "u_chunk_ranges (SendStatus st u) = u_chunk_ranges u"
  "u_chunk_hashes (SendStatus st u) = u_chunk_hashes u"
  "count_state (SendStatus st u) = count_state u"
  "chunk_states (SendStatus st u) = chunk_states u"
  "action_token (SendStatus st u) = action_token u"
  "upload_key (SendStatus st u) = upload_key u"
  "upload_request (SendStatus st u) = upload_request u"
  "queue (SendStatus st u) = queue u"
  "posted_reads (SendStatus st u) = posted_reads u"
  "awaiting (SendStatus st u) = awaiting u"
  "calls (SendStatus st u) = calls u"
  "asserted (SendStatus st u) = asserted u"
  "looping (SendStatus st u) = looping u"
  by (simp_all add: SendStatus_def)

lemma Request_frame [simp]:
  "config (Request r u) = config u"
  "connected (Request r u) = connected u"
  "upl_state (Request r u) = upl_state u"
  "u_filesize (Request r u) = u_filesize u"
  "u_mtime (Request r u) = u_mtime u"
  "u_hash (Request r u) = u_hash u"
  "u_chunk_ranges (Request r u) = u_chunk_ranges u"
  "u_chunk_hashes (Request r u) = u_chunk_hashes u"
  "count_state (Request r u) = count_state u"
  "chunk_states (Request r u) = chunk_states u"
  "action_token (Request r u) = action_token u"
  "upload_key (Request r u) = upload_key u"
  "upload_request (Request r u) = upload_request u"
  "queue (Request r u) = queue u"
  "posted_reads (Request r u) = posted_reads u"
  "statuses (Request r u) = statuses u"
  "calls (Request r u) = calls u"
  "asserted (Request r u) = asserted u"
  "looping (Request r u) = looping u"
  by (simp_all add: Request_def)

lemma field_effect [simp]:
  "queue (ProcessEvent ev u) = queue u @ [ev]"
  "statuses (SendStatus st u) = statuses u @ [st]"
  "awaiting (Request r u) = awaiting u @ [r]"
  "asserted (check b u) \<longleftrightarrow> asserted u \<or> \<not> b"
  "calls (CALLBACK_INTERFACE c u) = calls u @ (if connected u then [c] else [])"
  by (simp_all add: ProcessEvent_def SendStatus_def Request_def check_def CALLBACK_INTERFACE_def)

primrec leave_calls :: "CountState \<Rightarrow> manager_call list" where
  "leave_calls No_Count = []"
| "leave_calls Count_Hashing = [DecrementHashingCount]"
| "leave_calls Count_Uploading = [DecrementUploadingCount]"

primrec enter_calls :: "CountState \<Rightarrow> manager_call list" where
  "enter_calls No_Count = []"
| "enter_calls Count_Hashing = [IncrementHashingCount]"
| "enter_calls Count_Uploading = [IncrementUploadingCount]"

lemma SetCountState_frame [simp]:
  "config (SetCountState cs u) = config u"
  "connected (SetCountState cs u) = connected u"
  "upl_state (SetCountState cs u) = upl_state u"
  "u_filesize (SetCountState cs u) = u_filesize u"
  "u_mtime (SetCountState cs u) = u_mtime u"
  "u_hash (SetCountState cs u) = u_hash u"
  "u_chunk_ranges (SetCountState cs u) = u_chunk_ranges u"
  "u_chunk_hashes (SetCountState cs u) = u_chunk_hashes u"
  "chunk_states (SetCountState cs u) = chunk_states u"
  "action_token (SetCountState cs u) = action_token u"
  "upload_key (SetCountState cs u) = upload_key u"
  "upload_request (SetCountState cs u) = upload_request u"
  "queue (SetCountState cs u) = queue u"
  "posted_reads (SetCountState cs u) = posted_reads u"
  "awaiting (SetCountState cs u) = awaiting u"
  "statuses (SetCountState cs u) = statuses u"
  "asserted (SetCountState cs u) = asserted u"
  "looping (SetCountState cs u) = looping u"
  "count_state (SetCountState cs u) = cs"
  "calls (SetCountState cs u) = calls u @ (if connected u then leave_calls (count_state u) @ enter_calls cs else [])"
  by (cases "count_state u"; cases cs; simp add: SetCountState_def Let_def)+

section \<open>Steps\<close>

text \<open>
  An answer fits its request; the timer is only set again after it fired, so a wait is not
  aborted. Between the steps of one event the machine does nothing else: a
  step from outside needs an empty queue.
\<close>

fun answers :: "request \<Rightarrow> reply \<Rightarrow> bool" where
  "answers (Check_Call _ _ _ _ _) rep = (case rep of Check_Failed _ _ \<Rightarrow> True | Check_Reply _ \<Rightarrow> True | _ \<Rightarrow> False)"
| "answers (Instant_Call _ _ _ _ _) rep = (case rep of Instant_Failed _ \<Rightarrow> True | Instant_Reply _ _ _ \<Rightarrow> True | _ \<Rightarrow> False)"
| "answers (Simple_Post _ _ _) rep = (case rep of Post_Failed _ _ \<Rightarrow> True | Post_Reply _ \<Rightarrow> True | _ \<Rightarrow> False)"
| "answers (Chunk_Post _ _ _ _) rep = (case rep of Post_Failed _ _ \<Rightarrow> True | Post_Reply _ \<Rightarrow> True | _ \<Rightarrow> False)"
| "answers (Poll_Call _) rep = (case rep of Poll_Reply _ \<Rightarrow> True | _ \<Rightarrow> False)"
| "answers (Poll_Timer _) rep = (rep = Timer_Fired)"

fun external :: "upload_event \<Rightarrow> bool" where
  "external Ev_StartHash = True"
| "external (Ev_StartUpload _) = True"
| "external (Ev_Error _ _) = True"
| "external _ = False"

inductive upload_step :: "upload_lib \<Rightarrow> upload \<Rightarrow> upload \<Rightarrow> bool" for lib where
  Queued: "queue u = ev # evs \<Longrightarrow> upload_step lib u (fire lib env ev (u\<lparr>queue := evs\<rparr>))"
| External: "queue u = [] \<Longrightarrow> external ev \<Longrightarrow> upload_step lib u (fire lib env ev u)"
| Posted: "queue u = [] \<Longrightarrow> posted_reads u = ev # evs \<Longrightarrow>
    upload_step lib u (fire lib env (Ev_Hash ev) (u\<lparr>posted_reads := evs\<rparr>))"
| Answer: "queue u = [] \<Longrightarrow> awaiting u = rs @ r # rs' \<Longrightarrow> answers r rep \<Longrightarrow>
    upload_step lib u (deliver r rep (u\<lparr>awaiting := rs @ rs'\<rparr>))"

inductive upload_reachable :: "upload_lib \<Rightarrow> upload \<Rightarrow> bool" for lib where
  Begin: "upload_reachable lib ((new_upload c)\<lparr>queue := [Ev_Start]\<rparr>)"
| Step: "upload_reachable lib u \<Longrightarrow> upload_step lib u u' \<Longrightarrow> upload_reachable lib u'"

text \<open>The rows of the table, one case each\<close>

lemma hash_kind_iff:
  "hash_kind h = K_he_StartHash \<longleftrightarrow> (\<exists>st. h = StartHash st)"
  "hash_kind h = K_he_ReadNext \<longleftrightarrow> (\<exists>st f p. h = ReadNext st f p)"
  "hash_kind h = K_he_HashSuccess \<longleftrightarrow> (\<exists>st d. h = HashSuccess st d)"
  "hash_kind h = K_he_Error \<longleftrightarrow> (\<exists>st e. h = Hash_Error st e)"
  "hash_kind h \<notin> {K_Start, K_Error, K_StartHash, K_StartUpload, K_NeedsSingleUpload, K_NeedsChunkUpload,
     K_InstantUpload, K_AlreadyUploaded, K_ChunkSuccess, K_SimpleUploadComplete, K_ChunkUploadComplete,
     K_InstantSuccess, K_PollComplete}"
  by (cases h; simp)+

lemma kind_iff:
  "kind ev = K_Start \<longleftrightarrow> ev = Ev_Start"
  "kind ev = K_Error \<longleftrightarrow> (\<exists>e d. ev = Ev_Error e d)"
  "kind ev = K_StartHash \<longleftrightarrow> ev = Ev_StartHash"
  "kind ev = K_he_StartHash \<longleftrightarrow> (\<exists>st. ev = Ev_Hash (StartHash st))"
  "kind ev = K_he_ReadNext \<longleftrightarrow> (\<exists>st f p. ev = Ev_Hash (ReadNext st f p))"
  "kind ev = K_he_HashSuccess \<longleftrightarrow> (\<exists>st d. ev = Ev_Hash (HashSuccess st d))"
  "kind ev = K_he_Error \<longleftrightarrow> (\<exists>st e. ev = Ev_Hash (Hash_Error st e))"
  "kind ev = K_StartUpload \<longleftrightarrow> (\<exists>t. ev = Ev_StartUpload t)"
  "kind ev = K_NeedsSingleUpload \<longleftrightarrow> ev = NeedsSingleUpload"
  "kind ev = K_NeedsChunkUpload \<longleftrightarrow> ev = NeedsChunkUpload"
  "kind ev = K_InstantUpload \<longleftrightarrow> ev = Ev_InstantUpload"
  "kind ev = K_AlreadyUploaded \<longleftrightarrow> (\<exists>q n. ev = AlreadyUploaded q n)"
  "kind ev = K_ChunkSuccess \<longleftrightarrow> (\<exists>i k. ev = ChunkSuccess i k)"
  "kind ev = K_SimpleUploadComplete \<longleftrightarrow> (\<exists>k. ev = SimpleUploadComplete k)"
  "kind ev = K_ChunkUploadComplete \<longleftrightarrow> (\<exists>k. ev = ChunkUploadComplete k)"
  "kind ev = K_InstantSuccess \<longleftrightarrow> (\<exists>q n r. ev = InstantSuccess q n r)"
  "kind ev = K_PollComplete \<longleftrightarrow> (\<exists>q n r. ev = PollComplete q n r)"
  by (cases ev; use hash_kind_iff in auto)+

lemma transition_row:
  assumes "transition_table hh s ev = Some (t, a)"
  obtains g where "(s, kind ev, t, a, g) \<in> set rows" "guard_holds hh g"
proof -
  from assms obtain x where "find (\<lambda>(source, k, _, _, g). source = s \<and> k = kind ev \<and> guard_holds hh g) rows = Some x"
    "(fst (snd (snd x)), fst (snd (snd (snd x)))) = (t, a)"
    by (auto simp: transition_table_def split: option.splits)
  then obtain i where "i < length rows" "rows ! i = x" "fst x = s" "fst (snd x) = kind ev"
      "guard_holds hh (snd (snd (snd (snd x))))" "fst (snd (snd x)) = t" "fst (snd (snd (snd x))) = a"
    by (auto simp: find_Some_iff)
  then show thesis using that [of "snd (snd (snd (snd x)))"] nth_mem [of i rows] by (cases x) auto
qed

end
