(* ===== verification/Upload_Lifecycle.thy ===== *)
theory Upload_Lifecycle
  imports Upload_Machine
begin

text \<open>
  The life of one upload: what is pending in each state of the machine, the order of the
  statuses it reports, and when its chunks are complete.
\<close>

section \<open>The transitions\<close>

text \<open>A step of the machine on an event, row by row\<close>

lemma fire_final: "final_state (upl_state u) \<Longrightarrow> fire lib env ev u = u"
  by (simp add: fire_def)

lemma fire_row:
  assumes "\<not> final_state (upl_state u)" and "transition_table (u_hash u \<noteq> []) (upl_state u) ev = Some (t, a)"
  shows "fire lib env ev u = on_entry t ev (run_action lib env a ev (on_exit env (upl_state u) u))\<lparr>upl_state := t\<rparr>"
  using assms by (simp add: fire_def)

lemma fire_no_row:
  assumes "\<not> final_state (upl_state u)" and "transition_table (u_hash u \<noteq> []) (upl_state u) ev = None"
  shows "fire lib env ev u = check False u"
  using assms by (simp add: fire_def)

lemma table_lookup [simp]:
  "transition_table hh Initial Ev_Start = Some (if hh then WaitForUploadSignal else WaitForHashSignal, No_Action)"
  "transition_table hh WaitForHashSignal Ev_StartHash = Some (SetupHasher, No_Action)"
  "transition_table hh SetupHasher (Ev_Hash (StartHash st)) = Some (Hashing, Open_File)"
  "transition_table hh Hashing (Ev_Hash (ReadNext st f p)) = Some (Hashing, Read_File)"
  "transition_table hh Hashing (Ev_Hash (HashSuccess st h)) = Some (WaitForUploadSignal, Save_Hash)"
  "transition_table hh Hashing (Ev_Hash (Hash_Error st e)) = Some (CompleteWithError, No_Action)"
  "transition_table hh WaitForUploadSignal (Ev_StartUpload tok) = Some (InUploadCheck, Do_Check)"
  "transition_table hh InUploadCheck NeedsSingleUpload = Some (UploadFile, Do_Simple_Upload)"
  "transition_table hh InUploadCheck NeedsChunkUpload = Some (UploadChunk, Do_Chunk_Upload)"
  "transition_table hh InUploadCheck Ev_InstantUpload = Some (InstantUpload, Do_Instant_Upload)"
  "transition_table hh InUploadCheck (AlreadyUploaded q n) = Some (CompleteWithSuccess, No_Action)"
  "transition_table hh InstantUpload (InstantSuccess q n r) = Some (CompleteWithSuccess, No_Action)"
  "transition_table hh UploadChunk (ChunkSuccess i k) = Some (UploadChunk, Do_Chunk_Upload)"
  "transition_table hh UploadChunk (ChunkUploadComplete k) = Some (PollUpload, Do_Poll)"
  "transition_table hh UploadFile (SimpleUploadComplete k) = Some (PollUpload, Do_Poll)"
  "transition_table hh PollUpload (PollComplete q n r) = Some (CompleteWithSuccess, No_Action)"
  by (cases hh; simp add: transition_table_def rows_def guard_holds_def)+

lemma table_error:
  "transition_table hh s (Ev_Error e d) =
     (if s \<in> {SetupHasher, Hashing} \<or> final_state s then None else Some (CompleteWithError, No_Action))"
  by (cases s) (simp_all add: transition_table_def rows_def guard_holds_def final_state_def)

text \<open>The events of the manager have one row each.\<close>

lemma table_external:
  "transition_table hh s Ev_StartHash = (if s = WaitForHashSignal then Some (SetupHasher, No_Action) else None)"
  "transition_table hh s (Ev_StartUpload tok) = (if s = WaitForUploadSignal then Some (InUploadCheck, Do_Check) else None)"
  by (cases s; simp add: transition_table_def rows_def guard_holds_def)+

section \<open>What is pending\<close>

text \<open>One chunk is on its way, and no other.\<close>

definition in_flight :: "nat \<Rightarrow> ChunkState list \<Rightarrow> bool" where
  "in_flight i states \<longleftrightarrow> i < length states \<and> states ! i = Uploading
     \<and> (\<forall>j < length states. states ! j = Uploading \<longrightarrow> j = i)"

definition all_uploaded :: "ChunkState list \<Rightarrow> bool" where
  "all_uploaded states \<longleftrightarrow> (\<forall>s \<in> set states. s = Uploaded)"

definition error_event :: "upload_event \<Rightarrow> bool" where
  "error_event ev \<longleftrightarrow> (\<exists>e d. ev = Ev_Error e d)"

text \<open>
  Nothing is pending in a state that waits for the manager; otherwise exactly one thing is: an
  event in the queue, a posted read, or the answer to a request.
\<close>

definition idle :: "upload \<Rightarrow> bool" where
  "idle u \<longleftrightarrow> queue u = [] \<and> posted_reads u = [] \<and> awaiting u = []"

definition one_event :: "(upload_event \<Rightarrow> bool) \<Rightarrow> upload \<Rightarrow> bool" where
  "one_event P u \<longleftrightarrow> (\<exists>ev. queue u = [ev] \<and> P ev) \<and> posted_reads u = [] \<and> awaiting u = []"

definition one_request :: "(request \<Rightarrow> bool) \<Rightarrow> upload \<Rightarrow> bool" where
  "one_request P u \<longleftrightarrow> (\<exists>r. awaiting u = [r] \<and> P r) \<and> posted_reads u = [] \<and> queue u = []"

definition one_read :: "upload \<Rightarrow> bool" where
  "one_read u \<longleftrightarrow> (\<exists>st f p. posted_reads u = [ReadNext st f p]) \<and> queue u = [] \<and> awaiting u = []"

definition check_event :: "upload \<Rightarrow> upload_event \<Rightarrow> bool" where
  "check_event u ev \<longleftrightarrow> error_event ev \<or> kind ev \<in> {K_AlreadyUploaded, K_InstantUpload, K_NeedsSingleUpload}
       \<and> chunk_states u = []
     \<or> ev = NeedsChunkUpload \<and> length (chunk_states u) = length (u_chunk_ranges u)
       \<and> Uploading \<notin> set (chunk_states u)"

definition chunk_event :: "upload \<Rightarrow> upload_event \<Rightarrow> bool" where
  "chunk_event u ev \<longleftrightarrow> error_event ev
     \<or> (\<exists>i k. ev = ChunkSuccess i k \<and> in_flight i (chunk_states u))
     \<or> (\<exists>k. ev = ChunkUploadComplete k \<and> all_uploaded (chunk_states u) \<and> k \<in> {[], upload_key u})"

fun pending :: "machine_state \<Rightarrow> upload \<Rightarrow> bool" where
  "pending Initial u = one_event (\<lambda>ev. ev = Ev_Start) u"
| "pending WaitForHashSignal u = (idle u \<or> one_event error_event u)"
| "pending SetupHasher u = (one_event (\<lambda>ev. kind ev = K_he_StartHash) u \<or> idle u \<and> looping u)"
| "pending Hashing u =
     (one_event (\<lambda>ev. kind ev \<in> {K_he_ReadNext, K_he_HashSuccess, K_he_Error}) u
      \<or> one_read u \<or> idle u \<and> asserted u)"
| "pending WaitForUploadSignal u = idle u"
| "pending InUploadCheck u =
     (one_event (check_event u) u
      \<or> one_request (\<lambda>r. (\<exists>a b c d e. r = Check_Call a b c d e)) u \<and> chunk_states u = [])"
| "pending InstantUpload u =
     (one_event (\<lambda>ev. error_event ev \<or> kind ev = K_InstantSuccess) u
      \<or> one_request (\<lambda>r. (\<exists>a b c d e. r = Instant_Call a b c d e)) u)"
| "pending UploadFile u =
     (one_event (\<lambda>ev. error_event ev \<or> kind ev = K_SimpleUploadComplete) u
      \<or> one_request (\<lambda>r. (\<exists>a b c. r = Simple_Post a b c)) u)"
| "pending UploadChunk u =
     (length (chunk_states u) = length (u_chunk_ranges u)
      \<and> (one_event (chunk_event u) u
         \<or> one_request (\<lambda>r. (\<exists>i a b c. r = Chunk_Post i a b c \<and> in_flight i (chunk_states u))) u))"
| "pending PollUpload u =
     (one_event (\<lambda>ev. error_event ev \<or> kind ev = K_PollComplete) u
      \<or> one_request (\<lambda>r. (\<exists>k. r = Poll_Call k) \<or> (\<exists>k. r = Poll_Timer k)) u)"
| "pending CompleteWithSuccess u = idle u"
| "pending CompleteWithError u = True"

text \<open>The chunks in the states that have none on the way\<close>

fun chunks_settled :: "machine_state \<Rightarrow> upload \<Rightarrow> bool" where
  "chunks_settled InUploadCheck u = True"
| "chunks_settled UploadChunk u = True"
| "chunks_settled CompleteWithError u = True"
| "chunks_settled PollUpload u = all_uploaded (chunk_states u)"
| "chunks_settled CompleteWithSuccess u = all_uploaded (chunk_states u)"
| "chunks_settled _ u = (chunk_states u = [])"

definition upload_inv :: "upload \<Rightarrow> bool" where
  "upload_inv u \<longleftrightarrow> pending (upl_state u) u \<and> chunks_settled (upl_state u) u
     \<and> (upl_state u = Initial \<longrightarrow> u_hash u = [])"

lemma upload_inv_finalI:
  "upl_state u = CompleteWithError \<Longrightarrow> upload_inv u"
  "upl_state u = CompleteWithSuccess \<Longrightarrow> all_uploaded (chunk_states u) \<Longrightarrow> idle u \<Longrightarrow> upload_inv u"
  by (simp_all add: upload_inv_def)

lemma fire_error:
  assumes "\<not> final_state (upl_state u)" and "upl_state u \<notin> {SetupHasher, Hashing}"
  shows "upl_state (fire lib env (Ev_Error e d) u) = CompleteWithError"
  using assms by (simp add: fire_row table_error)

lemma complete_success_frame [simp]:
  "chunk_states (complete_success q n r u) = chunk_states u"
  "idle (complete_success q n r u) = idle u"
  by (simp_all add: complete_success_def idle_def Let_def)

lemma idle_state [simp]: "idle (u\<lparr>upl_state := s\<rparr>) = idle u"
  by (simp add: idle_def)

lemma fire_Start:
  assumes "upl_state u = Initial" "u_hash u = []" "idle u" "chunk_states u = []"
  shows "upload_inv (fire lib env Ev_Start u)"
proof -
  have "queue (Initial_exit env u) = [] \<or> (\<exists>ev. queue (Initial_exit env u) = [ev] \<and> error_event ev)"
    using assms by (auto simp: Initial_exit_def idle_def error_event_def Let_def split: sum.splits)
  moreover have "posted_reads (Initial_exit env u) = []" "awaiting (Initial_exit env u) = []"
      "chunk_states (Initial_exit env u) = []"
    using assms by (simp_all add: Initial_exit_def idle_def Let_def split: sum.splits)
  ultimately show ?thesis
    using assms by (auto simp: fire_row final_state_def upload_inv_def idle_def one_event_def run_action_def)
qed

lemma fire_StartHash:
  assumes "upl_state u = WaitForHashSignal" "idle u" "chunk_states u = []"
  shows "upload_inv (fire lib env Ev_StartHash u)"
  using assms
  by (auto simp: fire_row final_state_def upload_inv_def idle_def one_event_def run_action_def
      SetupHasher_entry_def Let_def split: option.splits)

lemma fire_he_StartHash:
  assumes "upl_state u = SetupHasher" "idle u" "chunk_states u = []"
  shows "upload_inv (fire lib env (Ev_Hash (StartHash st)) u)"
  using assms
  by (auto simp: fire_row final_state_def upload_inv_def idle_def one_event_def run_action_def
      OpenFile_def split: sum.splits)

lemma ReadFile_kind:
  assumes "ReadFile sha o1 o2 st f p = Some ev"
  shows "is_read ev \<and> (\<exists>st f p. ev = ReadNext st f p) \<or> \<not> is_read ev \<and> hash_kind ev \<in> {K_he_HashSuccess, K_he_Error}"
  using assms by (auto simp: ReadFile_def Let_def split: option.splits prod.splits if_splits)

lemma fire_ReadNext:
  assumes "upl_state u = Hashing" "idle u" "chunk_states u = []"
  shows "upload_inv (fire lib env (Ev_Hash (ReadNext st f p)) u)"
  using assms ReadFile_kind [of "sha256 lib" "obs1 env" "obs2 env" st f p]
  by (auto simp: fire_row final_state_def upload_inv_def idle_def one_event_def one_read_def run_action_def
      ReadFile_action_def split: option.splits)

lemma fire_HashSuccess:
  assumes "upl_state u = Hashing" "idle u" "chunk_states u = []"
  shows "upload_inv (fire lib env (Ev_Hash (HashSuccess st h)) u)"
  using assms
  by (auto simp: fire_row final_state_def upload_inv_def idle_def run_action_def SetCompleteHashData_def)

lemma fire_Hash_Error:
  assumes "upl_state u = Hashing"
  shows "upload_inv (fire lib env (Ev_Hash (Hash_Error st e)) u)"
  using assms by (intro upload_inv_finalI(1)) (simp add: fire_row final_state_def)

lemma fire_StartUpload:
  assumes "upl_state u = WaitForUploadSignal" "idle u" "chunk_states u = []"
  shows "upload_inv (fire lib env (Ev_StartUpload tok) u)"
  using assms
  by (auto simp: fire_row final_state_def upload_inv_def idle_def one_request_def run_action_def Check_action_def)

lemma fire_NeedsSingleUpload:
  assumes "upl_state u = InUploadCheck" "idle u" "chunk_states u = []"
  shows "upload_inv (fire lib env NeedsSingleUpload u)"
  using assms
  by (auto simp: fire_row final_state_def upload_inv_def idle_def one_request_def one_event_def error_event_def
      run_action_def DoSimpleUpload_def file_failure_def split: sum.splits)

lemma fire_InstantUpload:
  assumes "upl_state u = InUploadCheck" "idle u" "chunk_states u = []"
  shows "upload_inv (fire lib env Ev_InstantUpload u)"
  using assms
  by (auto simp: fire_row final_state_def upload_inv_def idle_def one_request_def run_action_def DoInstantUpload_def)

lemma fire_success:
  assumes "upl_state u \<in> {InUploadCheck, InstantUpload, PollUpload}" "idle u" "all_uploaded (chunk_states u)"
    and "transition_table (u_hash u \<noteq> []) (upl_state u) ev = Some (CompleteWithSuccess, No_Action)"
  shows "upload_inv (fire lib env ev u)"
  using assms by (intro upload_inv_finalI(2))
    (auto simp: fire_row final_state_def run_action_def split: upload_event.splits)

lemma fire_poll:
  assumes "upl_state u \<in> {UploadChunk, UploadFile}" "idle u" "all_uploaded (chunk_states u)"
    and "ev = ChunkUploadComplete k \<and> upl_state u = UploadChunk \<or> ev = SimpleUploadComplete k \<and> upl_state u = UploadFile"
  shows "upload_inv (fire lib env ev u)"
  using assms by (auto simp: fire_row final_state_def upload_inv_def idle_def one_request_def one_event_def
      error_event_def run_action_def StartPoll_def)

section \<open>Chunks\<close>

lemma all_uploadedI: "NeedsUpload \<notin> set states \<Longrightarrow> Uploading \<notin> set states \<Longrightarrow> all_uploaded states"
  unfolding all_uploaded_def by (metis ChunkState.exhaust)

lemma in_flight_start:
  assumes "Uploading \<notin> set states" "i < length states"
  shows "in_flight i (states[i := Uploading])"
  using assms by (auto simp: in_flight_def nth_list_update in_set_conv_nth)

lemma in_flight_done:
  assumes "in_flight i states"
  shows "Uploading \<notin> set (states[i := Uploaded])"
  using assms by (auto simp: in_flight_def in_set_conv_nth nth_list_update split: if_splits)

lemma in_flight_next:
  assumes "in_flight i states" "j < length states" "states ! j = NeedsUpload"
  shows "in_flight j (states[j := Uploading, i := Uploaded])"
proof -
  have "states ! i = Uploading" using assms(1) by (simp add: in_flight_def)
  then have "i \<noteq> j" using assms(3) by force
  then have "states[j := Uploading, i := Uploaded] = (states[i := Uploaded])[j := Uploading]"
    by (rule list_update_swap [symmetric])
  then show ?thesis using in_flight_start [OF in_flight_done [OF assms(1)], of j] assms(2) by simp
qed

text \<open>What starting the next chunk does to the machine\<close>

lemma DoChunkUpload_cases:
  assumes "idle u" and "length (chunk_states u) = length (u_chunk_ranges u)"
  obtains (complete) "NeedsUpload \<notin> set (chunk_states u)" "chunk_states (DoChunkUpload lib env u) = chunk_states u"
      "one_event (\<lambda>ev. ev = ChunkUploadComplete (upload_key u)) (DoChunkUpload lib env u)"
  | (failed) "one_event error_event (DoChunkUpload lib env u)" "chunk_states (DoChunkUpload lib env u) = chunk_states u"
  | (started) i a b c where "i < length (chunk_states u)" "chunk_states u ! i = NeedsUpload"
      "chunk_states (DoChunkUpload lib env u) = (chunk_states u)[i := Uploading]"
      "one_request (\<lambda>r. r = Chunk_Post i a b c) (DoChunkUpload lib env u)"
proof (cases "NextChunkToUpload (draw env) (chunk_states u)")
  case None
  then show thesis
    using complete assms(1) NextChunkToUpload_None [of "draw env" "chunk_states u"]
    by (simp add: DoChunkUpload_def idle_def one_event_def)
next
  case (Some i)
  note i = NextChunkToUpload_Some [OF Some]
  show thesis
  proof (cases "chunk_pipe (opened env) (u_chunk_ranges u ! i)")
    case (Inl e)
    then show thesis
      using failed Some assms(1)
      by (simp add: DoChunkUpload_def UploadNextChunk_def idle_def one_event_def error_event_def file_failure_def)
  next
    case (Inr p)
    then show thesis
      using Some assms(1) i started [of i]
      by (simp add: DoChunkUpload_def UploadNextChunk_def idle_def one_request_def SetChunkState_def Let_def)
  qed
qed

lemma DoChunkUpload_frame [simp]:
  "u_chunk_ranges (DoChunkUpload lib env u) = u_chunk_ranges u"
  "upload_key (DoChunkUpload lib env u) = upload_key u"
  by (simp_all add: DoChunkUpload_def UploadNextChunk_def SetChunkState_def Let_def split: option.splits sum.splits)

lemma fire_NeedsChunkUpload:
  assumes "upl_state u = InUploadCheck" "idle u" "length (chunk_states u) = length (u_chunk_ranges u)"
    and "Uploading \<notin> set (chunk_states u)"
  shows "upload_inv (fire lib env NeedsChunkUpload u)"
proof -
  let ?u = "DoChunkUpload lib env u"
  have fire: "fire lib env NeedsChunkUpload u = ?u\<lparr>upl_state := UploadChunk\<rparr>"
    using assms(1) by (simp add: fire_row final_state_def run_action_def)
  from assms(2,3) show ?thesis
  proof (cases rule: DoChunkUpload_cases [where lib = lib and env = env])
    case complete
    then show ?thesis
      unfolding fire using assms(3,4) all_uploadedI
      by (auto simp: upload_inv_def one_event_def chunk_event_def)
  next
    case failed
    then show ?thesis unfolding fire using assms(3) by (auto simp: upload_inv_def one_event_def chunk_event_def)
  next
    case (started i a b c)
    then show ?thesis
      unfolding fire using assms(3,4) in_flight_start
      by (auto simp: upload_inv_def one_request_def)
  qed
qed

lemma UploadChunk_entry_in_range:
  assumes "i < length (chunk_states u)"
  shows "chunk_states (UploadChunk_entry i k u) = (chunk_states u)[i := Uploaded]"
    "queue (UploadChunk_entry i k u) = queue u" "awaiting (UploadChunk_entry i k u) = awaiting u"
    "posted_reads (UploadChunk_entry i k u) = posted_reads u"
    "u_chunk_ranges (UploadChunk_entry i k u) = u_chunk_ranges u"
    "upload_key (UploadChunk_entry i k u) = (if upload_key u = [] then k else upload_key u)"
  using assms by (simp_all add: UploadChunk_entry_def SetChunkState_def Let_def)

lemma fire_ChunkSuccess:
  assumes "upl_state u = UploadChunk" "idle u" "length (chunk_states u) = length (u_chunk_ranges u)"
    and fl: "in_flight i (chunk_states u)"
  shows "upload_inv (fire lib env (ChunkSuccess i k) u)"
proof -
  let ?v = "u\<lparr>upload_request := False\<rparr>"
  let ?u = "DoChunkUpload lib env ?v"
  have fire: "fire lib env (ChunkSuccess i k) u = (UploadChunk_entry i k ?u)\<lparr>upl_state := UploadChunk\<rparr>"
    using assms(1) by (simp add: fire_row final_state_def run_action_def)
  have v: "idle ?v" "length (chunk_states ?v) = length (u_chunk_ranges ?v)"
    using assms(2,3) by (simp_all add: idle_def)
  have i: "i < length (chunk_states u)" using fl by (simp add: in_flight_def)
  from v show ?thesis
  proof (cases rule: DoChunkUpload_cases [where lib = lib and env = env])
    case complete
    then have "all_uploaded ((chunk_states u)[i := Uploaded])"
      using in_flight_done [OF fl] by (intro all_uploadedI) (auto dest: set_update_subset_insert [THEN subsetD])
    then show ?thesis
      unfolding fire using complete i assms(3)
      by (auto simp: upload_inv_def one_event_def chunk_event_def UploadChunk_entry_in_range)
  next
    case failed
    then show ?thesis
      unfolding fire using i assms(3)
      by (auto simp: upload_inv_def one_event_def chunk_event_def UploadChunk_entry_in_range)
  next
    case (started j a b c)
    then have "in_flight j ((chunk_states u)[j := Uploading, i := Uploaded])"
      using in_flight_next [OF fl] by simp
    then show ?thesis
      unfolding fire using started i assms(3)
      by (auto simp: upload_inv_def one_request_def UploadChunk_entry_in_range)
  qed
qed

section \<open>The invariant\<close>

lemma upload_inv_error:
  assumes "\<not> final_state (upl_state u)" and "upl_state u \<notin> {SetupHasher, Hashing}" and "error_event ev"
  shows "upload_inv (fire lib env ev u)"
  using assms fire_error by (auto simp: error_event_def intro!: upload_inv_finalI(1))

lemma upload_inv_check [simp]: "upload_inv (check False u) = upload_inv (u\<lparr>asserted := True\<rparr>)"
  by (simp add: check_def)

text \<open>The event at the head of the queue\<close>

lemma upload_inv_queued:
  assumes inv: "upload_inv u" and q: "queue u = ev # evs"
  shows "upload_inv (fire lib env ev (u\<lparr>queue := evs\<rparr>))"
proof (cases "final_state (upl_state u)")
  case True
  then show ?thesis using inv q by (auto simp: fire_final final_state_def upload_inv_def idle_def)
next
  case nf: False
  let ?v = "u\<lparr>queue := evs\<rparr>"
  have pend: "pending (upl_state u) u" using inv by (simp add: upload_inv_def)
  have one: "evs = [] \<and> P ev \<and> idle ?v" if "one_event P u" for P
    using that q by (auto simp: one_event_def idle_def)
  have empty: "\<not> idle u" "\<not> one_request P u" "\<not> one_read u" for P
    using q by (auto simp: idle_def one_request_def one_read_def)
  show ?thesis
  proof (cases "upl_state u")
    case Initial
    then have "ev = Ev_Start" "idle ?v" "chunk_states u = []" "u_hash u = []"
      using pend one [of "\<lambda>ev. ev = Ev_Start"] inv by (auto simp: upload_inv_def)
    then show ?thesis using Initial by (simp add: fire_Start)
  next
    case WaitForHashSignal
    then show ?thesis using pend one [of error_event] empty by (auto simp: final_state_def intro!: upload_inv_error)
  next
    case SetupHasher
    then have "\<exists>st. ev = Ev_Hash (StartHash st)" "idle ?v" "chunk_states u = []"
      using pend one [of "\<lambda>ev. kind ev = K_he_StartHash"] empty inv by (auto simp: upload_inv_def kind_iff)
    then show ?thesis using SetupHasher by (auto intro: fire_he_StartHash)
  next
    case Hashing
    then have "\<exists>st f p h e. ev = Ev_Hash (ReadNext st f p) \<or> ev = Ev_Hash (HashSuccess st h) \<or> ev = Ev_Hash (Hash_Error st e)"
      and "idle ?v" and "chunk_states ?v = []"
      using pend one [of "\<lambda>ev. kind ev \<in> {K_he_ReadNext, K_he_HashSuccess, K_he_Error}"] empty inv
      by (auto simp: upload_inv_def kind_iff)
    then show ?thesis using Hashing by (auto intro!: fire_ReadNext fire_HashSuccess fire_Hash_Error)
  next
    case WaitForUploadSignal
    then show ?thesis using pend empty by simp
  next
    case InUploadCheck
    then have ev: "check_event u ev" "idle ?v" using pend one [of "check_event u"] empty by auto
    have st: "upl_state ?v = InUploadCheck" using InUploadCheck by simp
    from ev(1) consider "error_event ev" | q n where "ev = AlreadyUploaded q n" "chunk_states u = []"
      | "ev = Ev_InstantUpload" "chunk_states u = []" | "ev = NeedsSingleUpload" "chunk_states u = []"
      | "ev = NeedsChunkUpload" "length (chunk_states u) = length (u_chunk_ranges u)" "Uploading \<notin> set (chunk_states u)"
      by (auto simp: check_event_def kind_iff)
    then show ?thesis
    proof cases
      case 1 then show ?thesis using InUploadCheck by (intro upload_inv_error) (simp_all add: final_state_def)
    next
      case 2 then show ?thesis using st ev(2) by (intro fire_success) (simp_all add: all_uploaded_def)
    next
      case 3 then show ?thesis using st ev(2) by (simp add: fire_InstantUpload)
    next
      case 4 then show ?thesis using st ev(2) by (simp add: fire_NeedsSingleUpload)
    next
      case 5 then show ?thesis using st ev(2) by (simp add: fire_NeedsChunkUpload)
    qed
  next
    case InstantUpload
    then have "error_event ev \<or> kind ev = K_InstantSuccess" "idle ?v" "chunk_states u = []"
      using pend one empty inv by (auto simp: upload_inv_def)
    then show ?thesis using InstantUpload by (cases "error_event ev")
      (auto simp: kind_iff final_state_def all_uploaded_def intro: upload_inv_error fire_success)
  next
    case UploadChunk
    then have ev: "chunk_event u ev" "idle ?v" "length (chunk_states u) = length (u_chunk_ranges u)"
      using pend one [of "chunk_event u"] empty by auto
    have st: "upl_state ?v = UploadChunk" using UploadChunk by simp
    from ev(1) consider "error_event ev" | i k where "ev = ChunkSuccess i k" "in_flight i (chunk_states u)"
      | k where "ev = ChunkUploadComplete k" "all_uploaded (chunk_states u)"
      by (auto simp: chunk_event_def)
    then show ?thesis
    proof cases
      case 1 then show ?thesis using UploadChunk by (intro upload_inv_error) (simp_all add: final_state_def)
    next
      case 2 then show ?thesis using st ev(2,3) by (simp add: fire_ChunkSuccess)
    next
      case 3 then show ?thesis using st ev(2) by (intro fire_poll [where k = k]) simp_all
    qed
  next
    case UploadFile
    then have "error_event ev \<or> kind ev = K_SimpleUploadComplete" "idle ?v" "chunk_states u = []"
      using pend one empty inv by (auto simp: upload_inv_def)
    then show ?thesis using UploadFile by (cases "error_event ev")
      (auto simp: kind_iff final_state_def all_uploaded_def intro: upload_inv_error fire_poll)
  next
    case PollUpload
    then have "error_event ev \<or> kind ev = K_PollComplete" "idle ?v" "all_uploaded (chunk_states u)"
      using pend one empty inv by (auto simp: upload_inv_def)
    then show ?thesis using PollUpload by (cases "error_event ev")
      (auto simp: kind_iff final_state_def intro: upload_inv_error fire_success)
  qed (use nf in \<open>simp_all add: final_state_def\<close>)
qed

text \<open>An event of the manager, which finds the queue empty\<close>

lemma upload_inv_asserted: "upload_inv u \<Longrightarrow> upload_inv (u\<lparr>asserted := True\<rparr>)"
  by (cases "upl_state u")
     (auto simp: upload_inv_def one_event_def one_request_def one_read_def idle_def check_event_def chunk_event_def)

lemma upload_inv_external:
  assumes inv: "upload_inv u" and q: "queue u = []" and "external ev"
  shows "upload_inv (fire lib env ev u)"
proof (cases "final_state (upl_state u)")
  case True
  then show ?thesis using inv by (simp add: fire_final)
next
  case nf: False
  have no_row: ?thesis if "transition_table (u_hash u \<noteq> []) (upl_state u) ev = None"
    using fire_no_row [OF nf that] upload_inv_asserted [OF inv] by (simp add: check_def)
  have idle: "idle u" "chunk_states u = []" if "upl_state u \<in> {WaitForHashSignal, WaitForUploadSignal}"
    using inv q that by (auto simp: upload_inv_def one_event_def)
  from assms(3) consider e d where "ev = Ev_Error e d" | "ev = Ev_StartHash" | tok where "ev = Ev_StartUpload tok"
    by (cases ev) auto
  then show ?thesis
  proof cases
    case 1
    then show ?thesis
      using no_row nf by (cases "upl_state u \<in> {SetupHasher, Hashing}")
        (auto simp: table_error error_event_def intro!: upload_inv_error)
  next
    case 2
    then show ?thesis
      using no_row idle by (cases "upl_state u = WaitForHashSignal") (auto simp: table_external fire_StartHash)
  next
    case 3
    then show ?thesis
      using no_row idle by (cases "upl_state u = WaitForUploadSignal") (auto simp: table_external fire_StartUpload)
  qed
qed

lemma upload_inv_posted:
  assumes inv: "upload_inv u" and q: "queue u = []" "posted_reads u = ev # evs"
  shows "upload_inv (fire lib env (Ev_Hash ev) (u\<lparr>posted_reads := evs\<rparr>))"
proof (cases "final_state (upl_state u)")
  case True
  then show ?thesis using inv q by (auto simp: fire_final final_state_def upload_inv_def idle_def)
next
  case False
  then have "upl_state u = Hashing \<and> (\<exists>st f p. ev = ReadNext st f p) \<and> idle (u\<lparr>posted_reads := evs\<rparr>) \<and> chunk_states u = []"
    using inv q by (cases "upl_state u")
      (auto simp: upload_inv_def one_event_def one_request_def one_read_def idle_def final_state_def)
  then show ?thesis by (auto intro: fire_ReadNext)
qed

text \<open>An answer\<close>

lemma HandleCheck_frame [simp]:
  "upl_state (HandleCheck r u) = upl_state u" "u_hash (HandleCheck r u) = u_hash u"
  by (simp_all add: HandleCheck_def Let_def split: option.splits prod.splits)

lemma StartPoll_frame [simp]:
  "upl_state (StartPoll k u) = upl_state u" "chunk_states (StartPoll k u) = chunk_states u"
  by (simp_all add: StartPoll_def)

lemma HandlePollResponse_frame [simp]:
  "upl_state (HandlePollResponse k r u) = upl_state u" "chunk_states (HandlePollResponse k r u) = chunk_states u"
  by (simp_all add: HandlePollResponse_def HandlePollCompleteResponse_def split: option.splits)

lemma deliver_state [simp]: "upl_state (deliver r rep u) = upl_state u"
  by (cases r) (auto simp: HandleUploadResponse_def HandleChunkResponse_def split: reply.splits)

lemma post_outcome_cases:
  "error_event (post_outcome f r) \<or> (\<exists>k. post_outcome f r = f k)"
  by (auto simp: post_outcome_def error_event_def split: option.splits prod.splits)

lemma HandleCheck_event:
  assumes "idle u" "chunk_states u = []"
  shows "one_event (check_event (HandleCheck r u)) (HandleCheck r u)"
proof -
  have bm: "length (fst (SetBitmap n ws)) = n" "Uploading \<notin> set (fst (SetBitmap n ws))" for n ws
    by (simp_all add: SetBitmap_shape)
  show ?thesis
    using assms bm
    by (auto simp: HandleCheck_def Let_def one_event_def check_event_def error_event_def idle_def prod.case_eq_if
        split: option.splits)
qed

lemma HandlePollResponse_pending:
  assumes "idle u"
  shows "one_event (\<lambda>ev. error_event ev \<or> kind ev = K_PollComplete) (HandlePollResponse k r u)
    \<or> one_request (\<lambda>r. (\<exists>k. r = Poll_Call k) \<or> (\<exists>k. r = Poll_Timer k)) (HandlePollResponse k r u)"
  using assms by (auto simp: HandlePollResponse_def HandlePollCompleteResponse_def one_event_def
      one_request_def idle_def error_event_def split: option.splits)

lemma upload_inv_answer:
  assumes inv: "upload_inv u" and q: "queue u = []" "awaiting u = rs @ r # rs'" and "answers r rep"
  shows "upload_inv (deliver r rep (u\<lparr>awaiting := rs @ rs'\<rparr>))"
proof (cases "final_state (upl_state u)")
  case True
  then have "upl_state u = CompleteWithError"
    using inv q(2) by (auto simp: final_state_def upload_inv_def idle_def)
  then show ?thesis by (intro upload_inv_finalI(1)) simp
next
  case nf: False
  let ?v = "u\<lparr>awaiting := rs @ rs'\<rparr>"
  have pend: "pending (upl_state u) u" using inv by (simp add: upload_inv_def)
  have one: "P r \<and> idle ?v" if "one_request P u" for P
    using that q by (auto simp: one_request_def idle_def append_eq_Cons_conv)
  have empty: "\<not> idle u" "\<not> one_event P u" "\<not> one_read u" for P
    using q by (auto simp: idle_def one_event_def one_read_def)
  show ?thesis
  proof (cases "upl_state u")
    case InUploadCheck
    then have r: "\<exists>a b c d e. r = Check_Call a b c d e" "idle ?v" "chunk_states ?v = []"
      using pend one [of "\<lambda>r. \<exists>a b c d e. r = Check_Call a b c d e"] empty by auto
    with assms(4) consider ec t where "rep = Check_Failed ec t" | cr where "rep = Check_Reply cr"
      by (auto split: reply.splits)
    then show ?thesis
    proof cases
      case 1
      with r InUploadCheck show ?thesis
        by (auto simp: upload_inv_def one_event_def check_event_def error_event_def idle_def)
    next
      case 2
      with r InUploadCheck HandleCheck_event [OF r(2,3)] show ?thesis by (auto simp: upload_inv_def)
    qed
  next
    case InstantUpload
    then have r: "\<exists>a b c d e. r = Instant_Call a b c d e" "idle ?v" "chunk_states ?v = []"
      using pend one [of "\<lambda>r. \<exists>a b c d e. r = Instant_Call a b c d e"] empty inv by (auto simp: upload_inv_def)
    with assms(4) InstantUpload show ?thesis
      by (auto simp: upload_inv_def one_event_def error_event_def idle_def split: reply.splits)
  next
    case UploadFile
    then have r: "\<exists>a b c. r = Simple_Post a b c" "idle ?v" "chunk_states ?v = []"
      using pend one [of "\<lambda>r. \<exists>a b c. r = Simple_Post a b c"] empty inv by (auto simp: upload_inv_def)
    have "error_event (post_outcome SimpleUploadComplete x) \<or> kind (post_outcome SimpleUploadComplete x) = K_SimpleUploadComplete" for x
      using post_outcome_cases [of SimpleUploadComplete x] by auto
    with r assms(4) UploadFile show ?thesis
      by (auto simp: upload_inv_def one_event_def error_event_def idle_def HandleUploadResponse_def split: reply.splits)
  next
    case UploadChunk
    then obtain i a b c where r: "r = Chunk_Post i a b c" "in_flight i (chunk_states u)" "idle ?v"
        "length (chunk_states u) = length (u_chunk_ranges u)"
      using pend one [of "\<lambda>r. \<exists>i a b c. r = Chunk_Post i a b c \<and> in_flight i (chunk_states u)"] empty by auto
    have "chunk_event u (post_outcome (ChunkSuccess i) x)" for x
      unfolding chunk_event_def using post_outcome_cases [of "ChunkSuccess i" x] r(2) by blast
    moreover have "chunk_event (ProcessEvent e ?v) = chunk_event u" for e
      by (simp add: chunk_event_def fun_eq_iff)
    ultimately show ?thesis using r assms(4) UploadChunk
      by (auto simp: upload_inv_def one_event_def idle_def HandleChunkResponse_def split: reply.splits)
         (auto simp: chunk_event_def error_event_def)
  next
    case PollUpload
    then have r: "(\<exists>k. r = Poll_Call k) \<or> (\<exists>k. r = Poll_Timer k)" "idle ?v" "all_uploaded (chunk_states ?v)"
      using pend one [of "\<lambda>r. (\<exists>k. r = Poll_Call k) \<or> (\<exists>k. r = Poll_Timer k)"] empty inv by (auto simp: upload_inv_def)
    show ?thesis
    proof (cases "\<exists>k. r = Poll_Call k")
      case True
      then obtain k pr where "r = Poll_Call k" "rep = Poll_Reply pr" using assms(4) by (auto split: reply.splits)
      then show ?thesis using r PollUpload HandlePollResponse_pending [OF r(2)] by (auto simp: upload_inv_def)
    next
      case False
      then obtain k where "r = Poll_Timer k" "rep = Timer_Fired" using r(1) assms(4) by auto
      then show ?thesis using r(2,3) PollUpload
        by (auto simp: upload_inv_def StartPoll_def one_event_def one_request_def idle_def error_event_def)
    qed
  qed (use pend empty nf in \<open>auto simp: final_state_def\<close>)
qed

lemma upload_inv_step:
  assumes "upload_step lib u u'" and "upload_inv u"
  shows "upload_inv u'"
  using assms
  by (induction) (auto intro: upload_inv_queued upload_inv_external upload_inv_posted upload_inv_answer)

lemma reachable_inv: "upload_reachable lib u \<Longrightarrow> upload_inv u"
proof (induction rule: upload_reachable.induct)
  case (Begin c)
  show ?case by (simp add: upload_inv_def one_event_def new_upload_def)
qed (rule upload_inv_step)

text \<open>
  C29: an upload that is not over is never stuck: unless it waits for the manager to let it hash
  or upload, exactly one thing is pending, an event in its queue, the next read, or the answer
  to one request. The two exceptions are a hashing step that failed an assertion and a file so
  large that its ranges are computed for ever.
\<close>

theorem upload_never_stuck:
  assumes "upload_reachable lib u" and "\<not> final_state (upl_state u)"
    and "upl_state u \<notin> {WaitForHashSignal, WaitForUploadSignal}" and "\<not> asserted u" and "\<not> looping u"
  shows "length (queue u) + length (posted_reads u) + length (awaiting u) = 1"
  using reachable_inv [OF assms(1)] assms(2-)
  by (cases "upl_state u")
     (auto simp: upload_inv_def final_state_def idle_def one_event_def one_request_def one_read_def)


text \<open>
  C30: every step keeps the invariant of an upload, which every upload has at its start; so while
  one sends chunks, its states stay as many as its ranges, no access to them is out of range,
  and a request that is under way is for the one chunk that is marked as being uploaded.
\<close>

theorem one_chunk_in_flight:
  assumes "upload_inv u'" and "upload_step lib u' u" and "upl_state u = UploadChunk"
  shows "upload_inv u \<and> upload_inv ((new_upload c)\<lparr>queue := [Ev_Start]\<rparr>)
    \<and> length (chunk_states u) = length (u_chunk_ranges u)
    \<and> (\<forall>i url headers p. Chunk_Post i url headers p \<in> set (awaiting u) \<longrightarrow>
         awaiting u = [Chunk_Post i url headers p] \<and> i < length (u_chunk_ranges u)
         \<and> (\<forall>j < length (chunk_states u). chunk_states u ! j = Uploading \<longleftrightarrow> j = i))"
proof -
  have inv: "upload_inv u" using upload_inv_step [OF assms(2,1)] .
  have start: "upload_inv ((new_upload c)\<lparr>queue := [Ev_Start]\<rparr>)"
    by (simp add: upload_inv_def one_event_def new_upload_def)
  have len: "length (chunk_states u) = length (u_chunk_ranges u)"
    and "one_event (chunk_event u) u
      \<or> one_request (\<lambda>r. (\<exists>i a b c. r = Chunk_Post i a b c \<and> in_flight i (chunk_states u))) u"
    using inv assms(3) by (simp_all add: upload_inv_def)
  then consider "awaiting u = []"
    | i a b c where "awaiting u = [Chunk_Post i a b c]" "in_flight i (chunk_states u)"
    unfolding one_event_def one_request_def by blast
  then show ?thesis
  proof cases
    case 2
    then show ?thesis using len inv start unfolding in_flight_def by auto
  qed (simp add: len inv start)
qed

section \<open>The order of the statuses\<close>

definition status_order :: "UploadState list" where
  "status_order = [EnqueuedForHashing, St_Hashing, EnqueuedForUpload, St_Uploading, St_Polling]"

text \<open>How many of them a state has reported\<close>

primrec status_count :: "machine_state \<Rightarrow> nat" where
  "status_count Initial = 0"
| "status_count WaitForHashSignal = 1"
| "status_count SetupHasher = 1"
| "status_count Hashing = 2"
| "status_count WaitForUploadSignal = 3"
| "status_count InUploadCheck = 4"
| "status_count InstantUpload = 4"
| "status_count UploadChunk = 4"
| "status_count UploadFile = 4"
| "status_count PollUpload = 5"
| "status_count CompleteWithSuccess = 0"
| "status_count CompleteWithError = 0"

primrec is_final_status :: "UploadState \<Rightarrow> bool" where
  "is_final_status EnqueuedForHashing = False"
| "is_final_status St_Hashing = False"
| "is_final_status EnqueuedForUpload = False"
| "is_final_status St_Uploading = False"
| "is_final_status St_Polling = False"
| "is_final_status (St_Error _ _ _) = True"
| "is_final_status (St_Complete _ _ _ _) = True"

definition status_inv :: "upload \<Rightarrow> bool" where
  "status_inv u \<longleftrightarrow>
     (if final_state (upl_state u)
      then \<exists>n st. statuses u = take n status_order @ [st] \<and> is_final_status st
        \<and> ((\<exists>q f h r. st = St_Complete q f h r) \<longleftrightarrow> upl_state u = CompleteWithSuccess)
      else statuses u = take (status_count (upl_state u)) status_order)"

lemma on_exit_statuses [simp]:
  "statuses (on_exit env s u) = statuses u"
  by (cases s) (simp_all add: Initial_exit_def Let_def split: sum.splits)

lemma Initial_exit_statuses [simp]: "statuses (Initial_exit env u) = statuses u"
  using on_exit_statuses [of env Initial u] by simp

lemma run_action_statuses [simp]:
  "statuses (run_action lib env act ev u) = statuses u"
  by (cases act) (simp_all add: run_action_def ReadFile_action_def SetCompleteHashData_def Check_action_def
      DoSimpleUpload_def DoChunkUpload_def UploadNextChunk_def SetChunkState_def DoInstantUpload_def
      StartPoll_def Let_def split: upload_event.splits hash_event.splits option.splits sum.splits)

lemma entry_statuses [simp]:
  "statuses (SetupHasher_entry u) = statuses u"
  "statuses (UploadChunk_entry i k u) = statuses u"
  by (simp_all add: SetupHasher_entry_def UploadChunk_entry_def SetChunkState_def Let_def split: option.splits)

lemma status_inv_update [simp]:
  "status_inv (u\<lparr>queue := q\<rparr>) = status_inv u"
  "status_inv (u\<lparr>posted_reads := r\<rparr>) = status_inv u"
  "status_inv (u\<lparr>asserted := b\<rparr>) = status_inv u"
  by (simp_all add: status_inv_def)

lemma status_inv_fire:
  assumes inv: "status_inv u" and hash: "upl_state u = Initial \<longrightarrow> u_hash u = []"
  shows "status_inv (fire lib env ev u)"
proof (cases "final_state (upl_state u) \<or> transition_table (u_hash u \<noteq> []) (upl_state u) ev = None")
  case True
  then show ?thesis
    using inv by (cases "final_state (upl_state u)") (simp_all add: fire_final fire_no_row check_def)
next
  case False
  then obtain t a where nf: "\<not> final_state (upl_state u)"
    and row: "transition_table (u_hash u \<noteq> []) (upl_state u) ev = Some (t, a)" by auto
  let ?w = "run_action lib env a ev (on_exit env (upl_state u) u)"
  have fire: "fire lib env ev u = (on_entry t ev ?w)\<lparr>upl_state := t\<rparr>" using fire_row [OF nf row] .
  have w: "statuses ?w = take (status_count (upl_state u)) status_order"
    using inv nf by (simp add: status_inv_def)
  obtain g where g: "(upl_state u, kind ev, t, a, g) \<in> set rows" "guard_holds (u_hash u \<noteq> []) g"
    using row by (rule transition_row)
  show ?thesis
  proof (cases "final_state t")
    case True
    then have "(\<exists>e d st h. t = CompleteWithError \<and> (ev = Ev_Error e d \<or> ev = Ev_Hash (Hash_Error st h)))
        \<or> (\<exists>q n r. t = CompleteWithSuccess \<and> (ev = AlreadyUploaded q n \<or> ev = InstantSuccess q n r \<or> ev = PollComplete q n r))"
      using g(1) by (auto simp: rows_def final_state_def kind_iff)
    then have "\<exists>st. statuses (on_entry t ev ?w) = statuses ?w @ [st] \<and> is_final_status st
        \<and> ((\<exists>q f h r. st = St_Complete q f h r) \<longleftrightarrow> t = CompleteWithSuccess)"
      by (auto simp: complete_success_def complete_error_def Let_def)
    then show ?thesis using True w unfolding fire by (auto simp: status_inv_def)
  next
    case False
    then have "statuses (on_entry t ev ?w) = take (status_count t) status_order"
      using g hash w by (auto simp: rows_def kind_iff status_order_def guard_holds_def final_state_def)
    then show ?thesis using False unfolding fire by (simp add: status_inv_def)
  qed
qed

lemma deliver_statuses [simp]: "statuses (deliver r rep u) = statuses u"
  by (cases r) (auto simp: HandleUploadResponse_def HandleChunkResponse_def HandleCheck_def HandlePollResponse_def
      HandlePollCompleteResponse_def StartPoll_def Let_def split: reply.splits option.splits prod.splits)

lemma status_inv_deliver [simp]:
  "status_inv (deliver r rep u) = status_inv u" "status_inv (u\<lparr>awaiting := a\<rparr>) = status_inv u"
  by (simp_all add: status_inv_def)

lemma status_inv_step:
  assumes "upload_step lib u u'" and "status_inv u" and "upload_inv u"
  shows "status_inv u'"
proof -
  have "upl_state u = Initial \<longrightarrow> u_hash u = []" using assms(3) by (simp add: upload_inv_def)
  with assms(1,2) show ?thesis by cases (auto intro!: status_inv_fire)
qed

text \<open>
  C8: the statuses of an upload come in the order of its life, each at most once: enqueued for
  hashing, hashing, enqueued for upload, uploading, polling. An upload that is over has reported
  a part of them from the start and then exactly one last status, success or an error; one that
  is not over has reported neither.
\<close>

theorem status_protocol:
  assumes "upload_reachable lib u"
  shows "\<exists>n. (if final_state (upl_state u)
    then \<exists>st. statuses u = take n status_order @ [st] \<and> is_final_status st
      \<and> ((\<exists>q f h r. st = St_Complete q f h r) \<longleftrightarrow> upl_state u = CompleteWithSuccess)
    else statuses u = take n status_order)"
proof -
  have "status_inv u"
    using assms
  proof (induction rule: upload_reachable.induct)
    case (Begin c)
    show ?case by (simp add: status_inv_def final_state_def new_upload_def)
  next
    case (Step u u')
    then show ?case using status_inv_step reachable_inv by blast
  qed
  then show ?thesis by (auto simp: status_inv_def split: if_splits)
qed

section \<open>The last chunk\<close>

text \<open>Queued events, one after the other, each in its environment\<close>

fun pump :: "upload_lib \<Rightarrow> upload_env list \<Rightarrow> upload \<Rightarrow> upload" where
  "pump lib [] u = u"
| "pump lib (env # envs) u = (case queue u of
     [] \<Rightarrow> u
   | ev # evs \<Rightarrow> pump lib envs (fire lib env ev (u\<lparr>queue := evs\<rparr>)))"

lemma pump_Cons:
  "queue u = ev # evs \<Longrightarrow> pump lib (env # envs) u = pump lib envs (fire lib env ev (u\<lparr>queue := evs\<rparr>))"
  by simp

lemma pump_reachable: "upload_reachable lib u \<Longrightarrow> upload_reachable lib (pump lib envs u)"
proof (induction envs arbitrary: u)
  case (Cons env envs)
  then show ?case
  proof (cases "queue u")
    case (Cons ev evs)
    then have "upload_reachable lib (fire lib env ev (u\<lparr>queue := evs\<rparr>))"
      using Cons.prems upload_reachable.Step upload_step.Queued by blast
    then show ?thesis using Cons.IH Cons by simp
  qed simp
qed simp

text \<open>
  when the last missing chunk is acknowledged, every chunk is marked as uploaded; the upload
  goes on to poll with the upload key of an earlier chunk, but if there is none, because only one
  chunk was missing, it ends with a logic error: the action of the transition reads the key
  before the entry of the state stores it.
\<close>

theorem last_chunk_outcome:
  assumes "upl_state u = UploadChunk" and "queue u = [ChunkSuccess i k]" and "awaiting u = []"
    and "posted_reads u = []" and "in_flight i (chunk_states u)" and "NeedsUpload \<notin> set (chunk_states u)"
  shows "let v = pump lib [env1, env2, env3] u in
    all_uploaded (chunk_states v)
    \<and> (if upload_key u = []
       then upl_state v = CompleteWithError
         \<and> (\<exists>h. last (statuses v) = St_Error (Upload_Errc LogicError) ''Filsize unavailable.'' h)
       else upl_state v = PollUpload \<and> awaiting v = [Poll_Call (upload_key u)])"
proof -
  have i: "i < length (chunk_states u)" using assms(5) by (simp add: in_flight_def)
  define v where "v = fire lib env1 (ChunkSuccess i k) (u\<lparr>queue := []\<rparr>)"
  have "NextChunkToUpload d (chunk_states u) = None" for d using assms(6) by (simp add: NextChunkToUpload_None)
  then have v: "queue v = [ChunkUploadComplete (upload_key u)]" "awaiting v = []" "upl_state v = UploadChunk"
      "chunk_states v = (chunk_states u)[i := Uploaded]"
    using i assms(1,3)
    by (simp_all add: v_def fire_row final_state_def run_action_def DoChunkUpload_def UploadChunk_entry_in_range)
  define w where "w = fire lib env2 (ChunkUploadComplete (upload_key u)) (v\<lparr>queue := []\<rparr>)"
  have w: "chunk_states w = (chunk_states u)[i := Uploaded]" "upl_state w = PollUpload"
      "upload_key u \<noteq> [] \<Longrightarrow> queue w = [] \<and> awaiting w = [Poll_Call (upload_key u)]"
      "upload_key u = [] \<Longrightarrow> queue w = [Ev_Error (Upload_Errc LogicError) ''Filsize unavailable.'']"
    using v by (simp_all add: w_def fire_row final_state_def run_action_def StartPoll_def)
  have pump: "pump lib [env1, env2, env3] u = pump lib [env3] w"
    by (simp only: pump_Cons [OF assms(2)] pump_Cons [OF v(1)] v_def [symmetric] w_def [symmetric])
  have all: "all_uploaded ((chunk_states u)[i := Uploaded])"
    using in_flight_done [OF assms(5)] assms(6)
    by (intro all_uploadedI) (auto dest: set_update_subset_insert [THEN subsetD])
  show ?thesis
  proof (cases "upload_key u = []")
    case False
    then show ?thesis unfolding pump using all w by simp
  next
    case True
    have "fire lib env3 (Ev_Error (Upload_Errc LogicError) ''Filsize unavailable.'') (w\<lparr>queue := []\<rparr>)
      = (complete_error (Upload_Errc LogicError) ''Filsize unavailable.'' (w\<lparr>queue := []\<rparr>))\<lparr>upl_state := CompleteWithError\<rparr>"
      using w(2) by (simp add: fire_row table_error final_state_def run_action_def)
    then show ?thesis unfolding pump using True all w by (simp add: complete_error_def Let_def)
  qed
qed

section \<open>An example\<close>

text \<open>
  A file of three bytes that the cloud has already: hashed, checked and done. The steps are those
  of the model, with a hash function that always gives the same digest.
\<close>

definition ex_lib :: upload_lib where
  "ex_lib = \<lparr>sha256 = (\<lambda>_. ''h''), AsDateTime = (\<lambda>_. ''d'')\<rparr>"

definition ex_file :: fileio where
  "ex_file = \<lparr>contents = ''abc'', pos = 0, feof = False, ferror = False, fault = None, size_hint = 3\<rparr>"

definition ex_env :: upload_env where
  "ex_env = \<lparr>opened = Inr ex_file, obs1 = \<lparr>obs_mtime = Inr 7, obs_size = Inr 3\<rparr>,
     obs2 = \<lparr>obs_mtime = Inr 7, obs_size = Inr 3\<rparr>, fs_size = Inr 3, fs_mtime = Inr 7, draw = 0\<rparr>"

definition ex_config :: UploadConfig where
  "ex_config = \<lparr>cfg_filename = ''f'', cfg_on_duplicate = Fail, cfg_target = ParentFolderKey []\<rparr>"

definition ex_waiting :: upload where
  "ex_waiting = pump ex_lib [ex_env] ((new_upload ex_config)\<lparr>queue := [Ev_Start]\<rparr>)"

definition ex_hashed :: upload where
  "ex_hashed = pump ex_lib [ex_env, ex_env, ex_env] (fire ex_lib ex_env Ev_StartHash ex_waiting)"

definition ex_checking :: upload where
  "ex_checking = fire ex_lib ex_env (Ev_StartUpload ''tok'') ex_hashed"

definition ex_answer :: check_response where
  "ex_answer = \<lparr>cr_file_exists = True, cr_hash_different = False, cr_duplicate_quickkey = Some ''qk'',
     cr_storage_limit_exceeded = False, cr_hash_exists = True, cr_resumable = None\<rparr>"

definition ex_done :: upload where
  "ex_done = pump ex_lib [ex_env] (HandleCheck ex_answer (ex_checking\<lparr>awaiting := []\<rparr>))"

lemma ex_waiting_eq:
  "ex_waiting = (new_upload ex_config)\<lparr>upl_state := WaitForHashSignal, u_filesize := 3, u_mtime := 7,
     statuses := [EnqueuedForHashing], calls := [HandleAddToHash]\<rparr>"
  by (simp add: ex_waiting_def new_upload_def fire_def final_state_def run_action_def
      Initial_exit_def ex_env_def SendStatus_def CALLBACK_INTERFACE_def)

definition ex_hasher :: hasher_state where
  "ex_hasher = \<lparr>filesize = 3, mtime = 7, primary_hasher = [], chunk_hasher = [], chunk_ranges = [(0, 3)],
     chunk_hashes = []\<rparr>"

lemma ex_ranges: "ChunkRanges 3 = Some [(0, 3)]"
  using ChunkRanges_eq [of 3] by (simp add: chunk_count_def range_at_def ChunkMaxSize_def ThresholdStepping_eq MB_def)

lemma ex_read:
  "ReadFile (sha256 ex_lib) (obs1 ex_env) (obs2 ex_env) ex_hasher ex_file 0
   = Some (HashSuccess (ex_hasher\<lparr>chunk_hashes := [''h'']\<rparr>) ''h'')"
  by (simp add: ReadFile_def Read_sound rest_of_def ex_file_def ex_env_def ex_lib_def ex_hasher_def
      VerifyFileUnchanged_def buf_size_def ParseRead.simps)

lemma ex_hashed_eq:
  "ex_hashed = (new_upload ex_config)\<lparr>upl_state := WaitForUploadSignal, u_filesize := 3, u_mtime := 7,
     u_hash := ''h'', u_chunk_ranges := [(0, 3)], u_chunk_hashes := [''h''], count_state := Count_Hashing,
     statuses := [EnqueuedForHashing, St_Hashing, EnqueuedForUpload],
     calls := [HandleAddToHash, HandleRemoveToHash, IncrementHashingCount, HandleAddToUpload]\<rparr>"
proof -
  let ?e = "\<lambda>s sts q. \<lparr>config = ex_config, connected = True, upl_state = s, u_filesize = 3, u_mtime = 7,
     u_hash = [], u_chunk_ranges = [], u_chunk_hashes = [], count_state = Count_Hashing,
     chunk_states = [], action_token = [], upload_key = [], upload_request = False,
     queue = q, posted_reads = [], awaiting = [], statuses = sts,
     calls = [HandleAddToHash, HandleRemoveToHash, IncrementHashingCount],
     asserted = False, looping = False\<rparr>"
  let ?E = "EnqueuedForHashing" and ?st = "ex_hasher\<lparr>chunk_hashes := [''h'']\<rparr>"
  have 1: "fire ex_lib ex_env Ev_StartHash ex_waiting = ?e SetupHasher [?E] [Ev_Hash (StartHash ex_hasher)]"
    by (simp add: ex_waiting_eq fire_def final_state_def run_action_def SetupHasher_entry_def new_upload_def
        SetCountState_def CALLBACK_INTERFACE_def ProcessEvent_def ex_ranges ex_hasher_def Let_def)
  have 2: "fire ex_lib ex_env (Ev_Hash (StartHash ex_hasher)) (?e SetupHasher [?E] [])
    = ?e Hashing [?E, St_Hashing] [Ev_Hash (ReadNext ex_hasher ex_file 0)]"
    by (simp add: fire_def final_state_def run_action_def OpenFile_def ex_env_def ProcessEvent_def SendStatus_def)
  have 3: "fire ex_lib ex_env (Ev_Hash (ReadNext ex_hasher ex_file 0)) (?e Hashing [?E, St_Hashing] [])
    = ?e Hashing [?E, St_Hashing] [Ev_Hash (HashSuccess ?st ''h'')]"
    by (simp add: fire_def final_state_def run_action_def ReadFile_action_def ex_read ProcessEvent_def)
  have 4: "fire ex_lib ex_env (Ev_Hash (HashSuccess ?st ''h'')) (?e Hashing [?E, St_Hashing] []) = ex_hashed"
    unfolding ex_hashed_def 1 by (simp add: 2 3)
  show ?thesis
    unfolding 4 [symmetric]
    by (simp add: fire_def final_state_def run_action_def SetCompleteHashData_def ex_hasher_def new_upload_def
        CALLBACK_INTERFACE_def SendStatus_def)
qed

lemma ex_checking_eq:
  "ex_checking = ex_hashed\<lparr>upl_state := InUploadCheck, count_state := Count_Uploading, action_token := ''tok'',
     awaiting := [Check_Call ''f'' ''h'' 3 (ParentFolderKey []) False],
     statuses := statuses ex_hashed @ [St_Uploading],
     calls := calls ex_hashed @ [HandleRemoveToUpload, DecrementHashingCount, IncrementUploadingCount]\<rparr>"
  by (simp add: ex_checking_def ex_hashed_eq fire_def final_state_def run_action_def Check_action_def new_upload_def
      CALLBACK_INTERFACE_def SendStatus_def SetCountState_def Request_def check_def ex_config_def Let_def)

lemma ex_reachable: "upload_reachable ex_lib ex_checking" "upload_reachable ex_lib ex_done"
proof -
  have 1: "upload_reachable ex_lib ex_waiting"
    unfolding ex_waiting_def by (intro pump_reachable upload_reachable.Begin)
  have "queue ex_waiting = []" by (simp add: ex_waiting_eq new_upload_def)
  then have "upload_reachable ex_lib (fire ex_lib ex_env Ev_StartHash ex_waiting)"
    using 1 upload_reachable.Step upload_step.External external.simps(1) by blast
  then have 2: "upload_reachable ex_lib ex_hashed" unfolding ex_hashed_def by (rule pump_reachable)
  have "queue ex_hashed = []" by (simp add: ex_hashed_eq new_upload_def)
  then show 3: "upload_reachable ex_lib ex_checking"
    unfolding ex_checking_def using 2 upload_reachable.Step upload_step.External external.simps(2) by blast
  have c: "queue ex_checking = []" "awaiting ex_checking = [] @ Check_Call ''f'' ''h'' 3 (ParentFolderKey []) False # []"
    by (simp_all add: ex_checking_eq ex_hashed_eq new_upload_def)
  have "upload_step ex_lib ex_checking
      (deliver (Check_Call ''f'' ''h'' 3 (ParentFolderKey []) False) (Check_Reply ex_answer) (ex_checking\<lparr>awaiting := [] @ []\<rparr>))"
    by (rule upload_step.Answer [OF c]) simp
  then have "upload_reachable ex_lib (HandleCheck ex_answer (ex_checking\<lparr>awaiting := []\<rparr>))"
    using upload_reachable.Step [OF 3] by simp
  then show "upload_reachable ex_lib ex_done" unfolding ex_done_def by (rule pump_reachable)
qed

lemma ex_done_state: "upl_state ex_done = CompleteWithSuccess"
  by (simp add: ex_done_def ex_checking_eq ex_hashed_eq new_upload_def HandleCheck_def ex_answer_def ex_config_def
      check_def ProcessEvent_def fire_def final_state_def run_action_def)

theorem upload_never_stuck_witness: "length (queue ex_checking) + length (posted_reads ex_checking) + length (awaiting ex_checking) = 1"
  using upload_never_stuck [OF ex_reachable(1)]
  by (simp add: ex_checking_eq ex_hashed_eq new_upload_def final_state_def)


theorem status_protocol_witness:
  "\<exists>n st. statuses ex_done = take n status_order @ [st] \<and> is_final_status st \<and> (\<exists>q f h r. st = St_Complete q f h r)"
  using status_protocol [OF ex_reachable(2)] by (auto simp: ex_done_state final_state_def)

theorem last_chunk_outcome_witness:
  "upl_state (pump ex_lib [ex_env, ex_env, ex_env]
     ((new_upload ex_config)\<lparr>upl_state := UploadChunk, chunk_states := [Uploaded, Uploading],
        queue := [ChunkSuccess 1 ''k'']\<rparr>)) = CompleteWithError"
proof -
  let ?u = "(new_upload ex_config)\<lparr>upl_state := UploadChunk, chunk_states := [Uploaded, Uploading],
        queue := [ChunkSuccess 1 ''k'']\<rparr>"
  have "in_flight 1 [Uploaded, Uploading]" by (auto simp: in_flight_def less_Suc_eq)
  then show ?thesis
    using last_chunk_outcome [of ?u 1 "''k''" ex_lib ex_env ex_env ex_env]
    by (simp add: new_upload_def Let_def del: pump.simps)
qed

definition ex_chunks :: upload where
  "ex_chunks = (new_upload ex_config)\<lparr>upl_state := UploadChunk, u_filesize := 3, u_hash := ''h'',
     u_chunk_ranges := [(0, 2), (2, 3)], u_chunk_hashes := [''h'', ''h''],
     chunk_states := [Uploading, NeedsUpload], queue := [ChunkSuccess 0 ''k'']\<rparr>"

theorem one_chunk_in_flight_witness:
  "\<exists>url headers p. awaiting (fire ex_lib ex_env (ChunkSuccess 0 ''k'') (ex_chunks\<lparr>queue := []\<rparr>)) = [Chunk_Post 1 url headers p]
     \<and> chunk_states (fire ex_lib ex_env (ChunkSuccess 0 ''k'') (ex_chunks\<lparr>queue := []\<rparr>)) ! 1 = Uploading"
proof -
  let ?u = "fire ex_lib ex_env (ChunkSuccess 0 ''k'') (ex_chunks\<lparr>queue := []\<rparr>)"
  have fl: "in_flight 0 [Uploading, NeedsUpload]" by (auto simp: in_flight_def less_Suc_eq)
  then have inv: "upload_inv ex_chunks"
    by (simp add: upload_inv_def ex_chunks_def new_upload_def one_event_def chunk_event_def)
  have step: "upload_step ex_lib ex_chunks ?u"
    by (rule upload_step.Queued) (simp add: ex_chunks_def)
  let ?v = "ex_chunks\<lparr>queue := [], upload_request := False\<rparr>"
  have fire: "?u = (UploadChunk_entry 0 ''k'' (DoChunkUpload ex_lib ex_env ?v))\<lparr>upl_state := UploadChunk\<rparr>"
    by (simp add: ex_chunks_def fire_row final_state_def run_action_def)
  have "NextChunkToUpload (draw ex_env) (chunk_states ?v) = Some 1"
    by (simp add: NextChunkToUpload_def incomplete_chunks_def upt_rec ex_env_def ex_chunks_def)
  then have up: "DoChunkUpload ex_lib ex_env ?v = UploadNextChunk ex_lib ex_env 1 ?v"
    by (simp add: DoChunkUpload_def)
  have v: "chunk_states ?v = [Uploading, NeedsUpload]" "u_chunk_ranges ?v ! 1 = (2, 3)" "awaiting ?v = []"
    by (simp_all add: ex_chunks_def new_upload_def)
  obtain p where "chunk_pipe (opened ex_env) (2, 3) = Inr p"
    by (simp add: chunk_pipe_def open_pipe_def ex_env_def Seek_def fseeko_def as_int_def)
  then obtain url headers where w: "awaiting (UploadNextChunk ex_lib ex_env 1 ?v) = [Chunk_Post 1 url headers p]"
      "chunk_states (UploadNextChunk ex_lib ex_env 1 ?v) = [Uploading, Uploading]"
    unfolding UploadNextChunk_def v(2) using v(1,3) by (simp add: SetChunkState_def Let_def)
  have u: "awaiting ?u = [Chunk_Post 1 url headers p]" "upl_state ?u = UploadChunk" "length (chunk_states ?u) = 2"
    unfolding fire up by (simp_all add: UploadChunk_entry_in_range w [simplified])
  then have "chunk_states ?u ! 1 = Uploading"
    using one_chunk_in_flight [OF inv step u(2)] by auto
  with u(1) show ?thesis by blast
qed

end
