(* ===== verification/Upload_Manager.thy ===== *)
theory Upload_Manager
  imports Upload_Lifecycle
begin

text \<open>
  The manager of the uploads, \<^verbatim>\<open>uploader/detail/upload_manager_impl.cpp\<close>: which uploads may
  hash and which may upload, the action token they need, and the system that the manager makes
  with the state machines of its uploads. A machine is its number. Every operation runs under
  the mutex of the manager and is one step; the calls that a transition of a machine makes are
  applied in their order with the transition.
\<close>

section \<open>The state of the manager\<close>

text \<open>
  Hashing and uploading are limited in the same way. \<open>waiting\<close> is \<^verbatim>\<open>to_hash_\<close> or
  \<^verbatim>\<open>to_upload_\<close>, \<open>enqueued\<close> the set of those that were told to start, \<open>current\<close> the count of
  those that did.
\<close>

record pool =
  waiting :: "nat list"
  enqueued :: "nat list"
  current :: nat

datatype ActionTokenState = Token_Invalid | Token_Retrieving | Token_Error | Token_Valid

datatype posted_task = Post_StartHash nat | Post_StartUpload nat string

record manager =
  hash_pool :: pool
  upload_pool :: pool
  uploading_hashes :: "string list"
  requests :: "nat list"
  mgr_token :: string
  token_state :: ActionTokenState
  token_expires :: nat
  disable_enqueue :: bool
  ticks :: nat                        \<comment> \<open>posted calls of \<^verbatim>\<open>Tick\<close>\<close>
  posted_tasks :: "posted_task list"
  token_calls :: nat                  \<comment> \<open>calls for a token under way\<close>
  retry_timers :: nat                 \<comment> \<open>waits of the retry timer\<close>

definition max_concurrent :: nat where [code_defs]: "max_concurrent = 2"
definition kActionTokenRetry :: nat where [code_defs]: "kActionTokenRetry = 15"
definition kActionTokenLife :: nat where [code_defs]: "kActionTokenLife = 1440 div 4 * 3 * 60"

definition empty_pool :: pool where
  "empty_pool = \<lparr>waiting = [], enqueued = [], current = 0\<rparr>"

definition UploadManagerImpl :: manager where
  "UploadManagerImpl = \<lparr>hash_pool = empty_pool, upload_pool = empty_pool, uploading_hashes = [],
     requests = [], mgr_token = [], token_state = Token_Invalid, token_expires = 0,
     disable_enqueue = False, ticks = 0, posted_tasks = [], token_calls = 0, retry_timers = 0\<rparr>"

section \<open>Pools\<close>

definition pool_add :: "nat \<Rightarrow> pool \<Rightarrow> pool" where
  "pool_add i p = p\<lparr>waiting := waiting p @ [i]\<rparr>"

definition pool_remove :: "nat \<Rightarrow> pool \<Rightarrow> pool" where
  "pool_remove i p = p\<lparr>waiting := remove1 i (waiting p)\<rparr>"

definition pool_erase :: "nat \<Rightarrow> pool \<Rightarrow> pool" where
  "pool_erase i p = p\<lparr>enqueued := removeAll i (enqueued p)\<rparr>"

definition pool_increment :: "nat \<Rightarrow> pool \<Rightarrow> pool" where
  "pool_increment i p = p\<lparr>current := (current p + 1) mod 2 ^ 32, enqueued := removeAll i (enqueued p)\<rparr>"

text \<open>An unsigned counter wraps around at zero.\<close>

definition pool_decrement :: "pool \<Rightarrow> pool" where
  "pool_decrement p = p\<lparr>current := (if current p = 0 then 2 ^ 32 - 1 else current p - 1)\<rparr>"

definition pool_free :: "pool \<Rightarrow> bool" where
  "pool_free p \<longleftrightarrow> current p + length (enqueued p) < max_concurrent"

section \<open>The calls of the machines\<close>

definition EnqueueTick :: "manager \<Rightarrow> manager" where
  "EnqueueTick m = (if disable_enqueue m then m else m\<lparr>ticks := ticks m + 1\<rparr>)"

definition HandleComplete_call :: "nat \<Rightarrow> string \<Rightarrow> manager \<Rightarrow> manager" where
  "HandleComplete_call i h m =
     (let m = m\<lparr>hash_pool := pool_erase i (hash_pool m), upload_pool := pool_erase i (upload_pool m),
                requests := removeAll i (requests m)\<rparr>;
          m = (if h \<noteq> [] then m\<lparr>uploading_hashes := removeAll h (uploading_hashes m)\<rparr> else m)
      in EnqueueTick m)"

primrec apply_call :: "nat \<Rightarrow> string \<Rightarrow> manager_call \<Rightarrow> manager \<Rightarrow> manager" where
  "apply_call i h HandleAddToHash m = EnqueueTick (m\<lparr>hash_pool := pool_add i (hash_pool m)\<rparr>)"
| "apply_call i h HandleRemoveToHash m = EnqueueTick (m\<lparr>hash_pool := pool_remove i (hash_pool m)\<rparr>)"
| "apply_call i h HandleAddToUpload m = EnqueueTick (m\<lparr>upload_pool := pool_add i (upload_pool m)\<rparr>)"
| "apply_call i h HandleRemoveToUpload m = EnqueueTick (m\<lparr>upload_pool := pool_remove i (upload_pool m)\<rparr>)"
| "apply_call i h HandleComplete m = HandleComplete_call i h m"
| "apply_call i h IncrementHashingCount m = m\<lparr>hash_pool := pool_increment i (hash_pool m)\<rparr>"
| "apply_call i h DecrementHashingCount m =
     (let m = EnqueueTick m in m\<lparr>hash_pool := pool_decrement (hash_pool m)\<rparr>)"
| "apply_call i h IncrementUploadingCount m = m\<lparr>upload_pool := pool_increment i (upload_pool m)\<rparr>"
| "apply_call i h DecrementUploadingCount m =
     (let m = EnqueueTick m in m\<lparr>upload_pool := pool_decrement (upload_pool m)\<rparr>)"

definition apply_calls :: "nat \<Rightarrow> string \<Rightarrow> manager_call list \<Rightarrow> manager \<Rightarrow> manager" where
  "apply_calls i h cs m = fold (apply_call i h) cs m"

section \<open>Ticks\<close>

text \<open>The loop takes one from the front of \<^verbatim>\<open>to_hash_\<close> each time.\<close>

fun start_hashings :: "nat list \<Rightarrow> manager \<Rightarrow> manager" where
  "start_hashings [] m = m"
| "start_hashings (i # rest) m =
     (if pool_free (hash_pool m)
      then start_hashings rest
             (m\<lparr>hash_pool := (hash_pool m)\<lparr>waiting := rest, enqueued := List.insert i (enqueued (hash_pool m))\<rparr>,
                posted_tasks := posted_tasks m @ [Post_StartHash i]\<rparr>)
      else m)"

definition Tick_StartHashings :: "manager \<Rightarrow> manager" where
  "Tick_StartHashings m = start_hashings (waiting (hash_pool m)) m"

text \<open>
  \<open>hash_of\<close> gives the hash of a machine. The first upload whose hash is not being uploaded is
  started, and only that one.
\<close>

definition Tick_StartUploads :: "(nat \<Rightarrow> string) \<Rightarrow> nat \<Rightarrow> manager \<Rightarrow> manager" where
  "Tick_StartUploads hash_of now m =
     (if waiting (upload_pool m) = [] then m
      else if token_state m \<noteq> Token_Valid \<or> token_expires m < now
      then if token_state m = Token_Error \<and> now < token_expires m then m
           else m\<lparr>token_state := Token_Retrieving, token_calls := token_calls m + 1\<rparr>
      else if pool_free (upload_pool m)
      then (case find (\<lambda>i. hash_of i \<notin> set (uploading_hashes m)) (waiting (upload_pool m)) of
              None \<Rightarrow> m
            | Some i \<Rightarrow>
                m\<lparr>upload_pool := (upload_pool m)\<lparr>waiting := remove1 i (waiting (upload_pool m)),
                                  enqueued := List.insert i (enqueued (upload_pool m))\<rparr>,
                  uploading_hashes := List.insert (hash_of i) (uploading_hashes m),
                  posted_tasks := posted_tasks m @ [Post_StartUpload i (mgr_token m)]\<rparr>)
      else m)"

definition Tick :: "(nat \<Rightarrow> string) \<Rightarrow> nat \<Rightarrow> manager \<Rightarrow> manager" where
  "Tick hash_of now m = Tick_StartHashings (Tick_StartUploads hash_of now m)"

text \<open>The answer to the call for a token: \<^const>\<open>None\<close> is an error.\<close>

definition HandleActionToken :: "(nat \<Rightarrow> string) \<Rightarrow> nat \<Rightarrow> string option \<Rightarrow> manager \<Rightarrow> manager" where
  "HandleActionToken hash_of now response m = (case response of
       None \<Rightarrow> m\<lparr>token_state := Token_Error, token_expires := now + kActionTokenRetry,
                 retry_timers := retry_timers m + 1\<rparr>
     | Some token \<Rightarrow> Tick hash_of now
         (m\<lparr>token_state := Token_Valid, mgr_token := token, token_expires := now + kActionTokenLife\<rparr>))"

definition ActionTokenRetry :: "(nat \<Rightarrow> string) \<Rightarrow> nat \<Rightarrow> bool \<Rightarrow> manager \<Rightarrow> manager" where
  "ActionTokenRetry hash_of now err m =
     (if \<not> err \<and> token_state m = Token_Error
      then Tick hash_of now (m\<lparr>mgr_token := [], token_state := Token_Invalid\<rparr>)
      else m)"

section \<open>The system\<close>

record upload_system =
  mgr :: manager
  next_handle :: nat
  machines :: "nat \<Rightarrow> upload"

definition hash_of :: "upload_system \<Rightarrow> nat \<Rightarrow> string" where
  "hash_of s i = u_hash (machines s i)"

text \<open>A machine has done a step: its calls reach the manager.\<close>

definition settle :: "nat \<Rightarrow> upload \<Rightarrow> upload_system \<Rightarrow> upload_system" where
  "settle i u s = s\<lparr>machines := (machines s)(i := u\<lparr>calls := []\<rparr>),
     mgr := apply_calls i (u_hash u) (calls u) (mgr s)\<rparr>"

definition run_tick :: "nat \<Rightarrow> upload_system \<Rightarrow> upload_system" where
  "run_tick now s = s\<lparr>mgr := Tick (hash_of s) now (mgr s)\<rparr>"

definition Add :: "upload_lib \<Rightarrow> upload_env \<Rightarrow> nat \<Rightarrow> UploadConfig \<Rightarrow> upload_system \<Rightarrow> upload_system" where
  "Add lib env now c s =
     (let i = next_handle s;
          s = s\<lparr>next_handle := i + 1, machines := (machines s)(i := new_upload c),
                mgr := (mgr s)\<lparr>requests := List.insert i (requests (mgr s))\<rparr>\<rparr>
      in run_tick now (settle i (fire lib env Ev_Start (new_upload c)) s))"

datatype UploadModification = Cancel | Pause

definition modification_event :: "UploadModification \<Rightarrow> upload_event" where
  "modification_event md = (case md of
       Cancel \<Rightarrow> Ev_Error (Upload_Errc Upload_Cancelled) ''Cancellation requested''
     | Pause \<Rightarrow> Ev_Error (Upload_Errc Paused) ''Pause requested.'')"

definition ModifyUpload :: "upload_lib \<Rightarrow> upload_env \<Rightarrow> nat \<Rightarrow> UploadModification \<Rightarrow> upload_system \<Rightarrow> upload_system" where
  "ModifyUpload lib env i md s =
     (if i \<in> set (requests (mgr s))
      then settle i (fire lib env (modification_event md) (machines s i)) s else s)"

definition task_event :: "posted_task \<Rightarrow> nat \<times> upload_event" where
  "task_event t = (case t of Post_StartHash i \<Rightarrow> (i, Ev_StartHash) | Post_StartUpload i token \<Rightarrow> (i, Ev_StartUpload token))"

definition system_init :: upload_system where
  "system_init = \<lparr>mgr = UploadManagerImpl, next_handle = 0,
     machines = (\<lambda>_. new_upload \<lparr>cfg_filename = [], cfg_on_duplicate = Fail, cfg_target = ParentFolderKey []\<rparr>)\<rparr>"

text \<open>
  The destructor: no further call reaches the manager, and every upload is told that it is
  cancelled.
\<close>

definition UploadManagerImpl_destroy :: "upload_lib \<Rightarrow> upload_env \<Rightarrow> upload_system \<Rightarrow> upload_system" where
  "UploadManagerImpl_destroy lib env s =
     (let rs = requests (mgr s);
          s = s\<lparr>mgr := (mgr s)\<lparr>disable_enqueue := True, requests := []\<rparr>\<rparr>
      in fold (\<lambda>i s. s\<lparr>machines := (machines s)(i :=
            fire lib env (Ev_Error (Upload_Errc Upload_Cancelled) ''Cancelled due to shutdown.'')
              (Disconnect (machines s i)))\<rparr>) rs s)"

inductive system_step :: "upload_lib \<Rightarrow> upload_system \<Rightarrow> upload_system \<Rightarrow> bool" for lib where
  Add: "system_step lib s (Add lib env now c s)"
| Modify: "queue (machines s i) = [] \<Longrightarrow> system_step lib s (ModifyUpload lib env i md s)"
| Queued: "i < next_handle s \<Longrightarrow> queue (machines s i) = ev # evs \<Longrightarrow>
    system_step lib s (settle i (fire lib env ev ((machines s i)\<lparr>queue := evs\<rparr>)) s)"
| Posted: "i < next_handle s \<Longrightarrow> queue (machines s i) = [] \<Longrightarrow> posted_reads (machines s i) = ev # evs \<Longrightarrow>
    system_step lib s (settle i (fire lib env (Ev_Hash ev) ((machines s i)\<lparr>posted_reads := evs\<rparr>)) s)"
| Answer: "i < next_handle s \<Longrightarrow> queue (machines s i) = [] \<Longrightarrow> awaiting (machines s i) = rs @ r # rs' \<Longrightarrow>
    answers r rep \<Longrightarrow>
    system_step lib s (settle i (deliver r rep ((machines s i)\<lparr>awaiting := rs @ rs'\<rparr>)) s)"
| Task: "posted_tasks (mgr s) = t # ts \<Longrightarrow> task_event t = (i, ev) \<Longrightarrow> queue (machines s i) = [] \<Longrightarrow>
    system_step lib s (settle i (fire lib env ev (machines s i)) (s\<lparr>mgr := (mgr s)\<lparr>posted_tasks := ts\<rparr>\<rparr>))"
| Tick: "0 < ticks (mgr s) \<Longrightarrow>
    system_step lib s (run_tick now (s\<lparr>mgr := (mgr s)\<lparr>ticks := ticks (mgr s) - 1\<rparr>\<rparr>))"
| Token: "0 < token_calls (mgr s) \<Longrightarrow>
    system_step lib s (s\<lparr>mgr := HandleActionToken (hash_of s) now response ((mgr s)\<lparr>token_calls := token_calls (mgr s) - 1\<rparr>)\<rparr>)"
| Retry: "0 < retry_timers (mgr s) \<Longrightarrow>
    system_step lib s (s\<lparr>mgr := ActionTokenRetry (hash_of s) now err ((mgr s)\<lparr>retry_timers := retry_timers (mgr s) - 1\<rparr>)\<rparr>)"

inductive system_reachable :: "upload_lib \<Rightarrow> upload_system \<Rightarrow> bool" for lib where
  Begin: "system_reachable lib system_init"
| Step: "system_reachable lib s \<Longrightarrow> system_step lib s s' \<Longrightarrow> system_reachable lib s'"

section \<open>What a machine tells the manager\<close>

primrec count_of :: "machine_state \<Rightarrow> CountState" where
  "count_of Initial = No_Count"
| "count_of WaitForHashSignal = No_Count"
| "count_of SetupHasher = Count_Hashing"
| "count_of Hashing = Count_Hashing"
| "count_of WaitForUploadSignal = Count_Hashing"
| "count_of InUploadCheck = Count_Uploading"
| "count_of InstantUpload = Count_Uploading"
| "count_of UploadChunk = Count_Uploading"
| "count_of UploadFile = Count_Uploading"
| "count_of PollUpload = Count_Uploading"
| "count_of CompleteWithSuccess = No_Count"
| "count_of CompleteWithError = No_Count"

fun exit_calls :: "machine_state \<Rightarrow> manager_call list" where
  "exit_calls WaitForHashSignal = [HandleRemoveToHash]"
| "exit_calls WaitForUploadSignal = [HandleRemoveToUpload]"
| "exit_calls _ = []"

fun entry_calls :: "CountState \<Rightarrow> machine_state \<Rightarrow> manager_call list" where
  "entry_calls c WaitForHashSignal = [HandleAddToHash]"
| "entry_calls c SetupHasher = leave_calls c @ [IncrementHashingCount]"
| "entry_calls c WaitForUploadSignal = [HandleAddToUpload]"
| "entry_calls c InUploadCheck = leave_calls c @ [IncrementUploadingCount]"
| "entry_calls c CompleteWithSuccess = leave_calls c @ [HandleComplete]"
| "entry_calls c CompleteWithError = leave_calls c @ [HandleComplete]"
| "entry_calls c _ = []"

definition quiet :: "upload \<Rightarrow> bool" where
  "quiet u \<longleftrightarrow> connected u \<and> calls u = [] \<and> count_state u = count_of (upl_state u)"

lemma on_exit_manager [simp]:
  "connected (on_exit env s u) = connected u" "count_state (on_exit env s u) = count_state u"
  "calls (on_exit env s u) = calls u @ (if connected u then exit_calls s else [])"
  by (cases s; simp add: Initial_exit_def Let_def split: sum.splits)+

lemma run_action_manager [simp]:
  "connected (run_action lib env act ev u) = connected u"
  "count_state (run_action lib env act ev u) = count_state u"
  "calls (run_action lib env act ev u) = calls u"
  by (cases act; simp add: run_action_def ReadFile_action_def SetCompleteHashData_def Check_action_def
      DoSimpleUpload_def DoChunkUpload_def UploadNextChunk_def SetChunkState_def DoInstantUpload_def
      StartPoll_def Let_def split: upload_event.splits hash_event.splits option.splits sum.splits)+

lemma deliver_manager [simp]:
  "connected (deliver r rep u) = connected u" "count_state (deliver r rep u) = count_state u"
  "calls (deliver r rep u) = calls u" "u_hash (deliver r rep u) = u_hash u"
  by (cases r; auto simp: HandleUploadResponse_def HandleChunkResponse_def HandleCheck_def HandlePollResponse_def
      HandlePollCompleteResponse_def StartPoll_def Let_def split: reply.splits option.splits prod.splits)+

lemma on_entry_manager:
  assumes row: "(s, kind ev, t, a, g) \<in> set rows" and "connected u" "count_state u = count_of s"
    and "s = Initial \<longrightarrow> g \<noteq> HasHash"
  shows "connected (on_entry t ev u)" "calls (on_entry t ev u) = calls u @ entry_calls (count_of s) t"
    "count_state (on_entry t ev u) = count_of t"
  using assms
  by (auto simp: rows_def kind_iff SetupHasher_entry_def UploadChunk_entry_def SetChunkState_def
      complete_success_def complete_error_def Let_def split: option.splits)

lemma fire_effect:
  assumes "quiet u" "\<not> final_state (upl_state u)"
    and row: "transition_table (u_hash u \<noteq> []) (upl_state u) ev = Some (t, a)"
    and hash: "upl_state u = Initial \<longrightarrow> u_hash u = []"
  shows "upl_state (fire lib env ev u) = t" "connected (fire lib env ev u)" "count_state (fire lib env ev u) = count_of t"
    "calls (fire lib env ev u) = exit_calls (upl_state u) @ entry_calls (count_of (upl_state u)) t"
proof -
  obtain g where g: "(upl_state u, kind ev, t, a, g) \<in> set rows" "guard_holds (u_hash u \<noteq> []) g"
    using row by (rule transition_row)
  have "upl_state u = Initial \<longrightarrow> g \<noteq> HasHash" using g(2) hash by (auto simp: guard_holds_def)
  from on_entry_manager [OF g(1) _ _ this, of "run_action lib env a ev (on_exit env (upl_state u) u)"] assms(1)
  show "upl_state (fire lib env ev u) = t" "connected (fire lib env ev u)" "count_state (fire lib env ev u) = count_of t"
    "calls (fire lib env ev u) = exit_calls (upl_state u) @ entry_calls (count_of (upl_state u)) t"
    by (simp_all add: fire_row [OF assms(2) row] quiet_def)
qed

section \<open>The invariant of a pool\<close>

text \<open>
  \<open>W\<close> are the states that wait for the pool, \<open>C\<close> those that count in it; \<open>tasks\<close> are the starts
  that are posted and not yet run.
\<close>

definition pool_inv ::
  "(machine_state \<Rightarrow> bool) \<Rightarrow> (machine_state \<Rightarrow> bool) \<Rightarrow> (nat \<Rightarrow> machine_state) \<Rightarrow> nat \<Rightarrow> pool \<Rightarrow> nat list \<Rightarrow> bool"
where
  "pool_inv W C st N p tasks \<longleftrightarrow>
     distinct (waiting p) \<and> distinct (enqueued p) \<and> set (waiting p) \<inter> set (enqueued p) = {}
     \<and> set (waiting p) \<union> set (enqueued p) = {i. i < N \<and> W (st i)}
     \<and> current p = card {i. i < N \<and> C (st i)}
     \<and> current p + length (enqueued p) \<le> max_concurrent
     \<and> distinct tasks \<and> set (enqueued p) \<subseteq> set tasks
     \<and> (\<forall>i \<in> set tasks. i < N \<and> (i \<in> set (enqueued p) \<or> final_state (st i)))"

definition pool_effect ::
  "(machine_state \<Rightarrow> bool) \<Rightarrow> (machine_state \<Rightarrow> bool) \<Rightarrow> nat \<Rightarrow> machine_state \<Rightarrow> machine_state \<Rightarrow> pool \<Rightarrow> pool" where
  "pool_effect W C i s t p =
     (let p = (if W s \<and> \<not> W t then pool_remove i p else p);
          p = (if C s \<and> \<not> C t then pool_decrement p else p);
          p = (if \<not> C s \<and> C t then pool_increment i p else p);
          p = (if \<not> W s \<and> W t then pool_add i p else p)
      in if final_state t then pool_erase i p else p)"

lemma finite_below [simp]: "finite {j. j < (N :: nat) \<and> P j}"
  by (rule finite_subset [of _ "{..<N}"]) auto

lemma count_update:
  assumes "i < (N :: nat)"
  shows "card {j. j < N \<and> C ((st(i := t)) j)} =
    (if C (st i) then card {j. j < N \<and> C (st j)} - 1 else card {j. j < N \<and> C (st j)}) + (if C t then 1 else 0)"
proof -
  let ?A = "{j. j < N \<and> C (st j)}"
  have set: "{j. j < N \<and> C ((st(i := t)) j)} = (if C t then insert i (?A - {i}) else ?A - {i})"
    using assms by (auto split: if_splits)
  have "finite (?A - {i})" by (rule finite_Diff) simp
  then have "card (insert i (?A - {i})) = card (?A - {i}) + 1" by (subst card_insert_disjoint) simp_all
  moreover have "card (?A - {i}) = (if C (st i) then card ?A - 1 else card ?A)"
    using assms by (simp add: card_Diff_singleton_if)
  ultimately show ?thesis unfolding set by simp
qed

lemma count_positive: "i < (N :: nat) \<Longrightarrow> C (st i) \<Longrightarrow> 0 < card {j. j < N \<and> C (st j)}"
  by (auto simp: card_gt_0_iff)

lemma pool_sets_update:
  assumes "i < (N :: nat)"
  shows "{j. j < N \<and> W ((st(i := t)) j)} = {j. j < N \<and> W (st j)} - {i} \<union> (if W t then {i} else {})"
  using assms by (auto split: if_splits)

lemma length_removeAll_distinct:
  "distinct xs \<Longrightarrow> length (removeAll i xs) = (if i \<in> set xs then length xs - 1 else length xs)"
  by (auto simp: distinct_remove1_removeAll [symmetric] length_remove1)

text \<open>A machine that is told to start does so.\<close>

lemma pool_start:
  assumes inv: "pool_inv W C st N p (i # ts)" and i: "i < N" "W (st i)" "\<not> C (st i)" "\<not> final_state (st i)"
    and t: "\<not> W t" "C t" "\<not> final_state t"
  shows "pool_inv W C (st(i := t)) N (pool_effect W C i (st i) t p) ts"
proof -
  have en: "i \<in> set (enqueued p)" using inv i(4) by (auto simp: pool_inv_def)
  then have wait: "i \<notin> set (waiting p)" and len: "0 < length (enqueued p)" and ts: "i \<notin> set ts"
    using inv by (auto simp: pool_inv_def)
  have "current p + length (enqueued p) \<le> 2" using inv by (simp add: pool_inv_def max_concurrent_def)
  then have "(current p + 1) mod 2 ^ 32 = current p + 1" by simp
  then have eff: "pool_effect W C i (st i) t p
      = p\<lparr>current := current p + 1, enqueued := removeAll i (enqueued p)\<rparr>"
    using i t wait by (cases p) (simp add: pool_effect_def pool_remove_def pool_increment_def Let_def remove1_idem)
  have "length (removeAll i (enqueued p)) = length (enqueued p) - 1"
    using inv en by (simp add: pool_inv_def length_removeAll_distinct)
  moreover have "current p + length (enqueued p) \<le> max_concurrent" using inv by (simp add: pool_inv_def)
  ultimately have "current p + 1 + length (removeAll i (enqueued p)) \<le> max_concurrent"
    using len by linarith
  then show ?thesis
    unfolding eff pool_inv_def count_update [where C = C, OF i(1)] pool_sets_update [where W = W, OF i(1)]
    using inv i t wait len ts unfolding pool_inv_def by (auto simp: distinct_removeAll)
qed

text \<open>Every other transition\<close>

lemma pool_move:
  assumes inv: "pool_inv W C st N p ts" and i: "i < N" "\<not> final_state (st i)"
    and excl: "\<And>s. W s \<Longrightarrow> \<not> C s" "\<And>s. final_state s \<Longrightarrow> \<not> W s \<and> \<not> C s"
    and t: "C t \<Longrightarrow> C (st i)" "W (st i) \<Longrightarrow> W t \<or> final_state t" "W t \<Longrightarrow> \<not> C (st i)"
  shows "pool_inv W C (st(i := t)) N (pool_effect W C i (st i) t p) ts"
proof -
  have task: "i \<in> set ts \<Longrightarrow> i \<in> set (enqueued p)" using inv i(2) by (auto simp: pool_inv_def)
  have not_in: "\<not> W (st i) \<Longrightarrow> i \<notin> set (waiting p) \<and> i \<notin> set (enqueued p)"
    using inv by (auto simp: pool_inv_def)
  have pos: "C (st i) \<Longrightarrow> 0 < current p" using inv count_positive [OF i(1)] by (simp add: pool_inv_def)
  have en: "removeAll i (enqueued p) = enqueued p" if "\<not> W (st i)" using not_in that by simp
  consider (same) "W t = W (st i)" "C t = C (st i)" "\<not> final_state t"
    | (enter) "\<not> W (st i)" "W t" "\<not> C (st i)" "\<not> C t" "\<not> final_state t"
    | (quit) "W (st i)" "final_state t" "\<not> C (st i)" "\<not> C t" "\<not> W t"
    | (leave) "\<not> W (st i)" "\<not> W t" "C (st i)" "\<not> C t"
    | (other) "\<not> W (st i)" "\<not> W t" "\<not> C (st i)" "\<not> C t"
    using excl t by metis
  then show ?thesis
  proof cases
    case same
    then have eff: "pool_effect W C i (st i) t p = p" by (simp add: pool_effect_def)
    show ?thesis
      unfolding eff pool_inv_def count_update [where C = C, OF i(1)] pool_sets_update [where W = W, OF i(1)]
      using inv i task same pos unfolding pool_inv_def by auto
  next
    case enter
    then have eff: "pool_effect W C i (st i) t p = p\<lparr>waiting := waiting p @ [i]\<rparr>"
      by (simp add: pool_effect_def pool_add_def)
    show ?thesis
      unfolding eff pool_inv_def count_update [where C = C, OF i(1)] pool_sets_update [where W = W, OF i(1)]
      using inv i task enter not_in unfolding pool_inv_def by auto
  next
    case quit
    then have eff: "pool_effect W C i (st i) t p
        = p\<lparr>waiting := remove1 i (waiting p), enqueued := removeAll i (enqueued p)\<rparr>"
      by (simp add: pool_effect_def pool_remove_def pool_erase_def)
    have "current p + length (removeAll i (enqueued p)) \<le> max_concurrent"
      using inv length_removeAll_less_eq [of i "enqueued p"] unfolding pool_inv_def by linarith
    then show ?thesis
      unfolding eff pool_inv_def count_update [where C = C, OF i(1)] pool_sets_update [where W = W, OF i(1)]
      using inv i task quit unfolding pool_inv_def by (auto simp: distinct_remove1_removeAll distinct_removeAll)
  next
    case leave
    then have eff: "pool_effect W C i (st i) t p = p\<lparr>current := current p - 1\<rparr>"
      using pos en by (cases p) (auto simp: pool_effect_def pool_decrement_def pool_erase_def Let_def)
    show ?thesis
      unfolding eff pool_inv_def count_update [where C = C, OF i(1)] pool_sets_update [where W = W, OF i(1)]
      using inv i task leave pos not_in unfolding pool_inv_def by auto
  next
    case other
    then have eff: "pool_effect W C i (st i) t p = p"
      using en by (cases p) (auto simp: pool_effect_def pool_erase_def Let_def)
    show ?thesis
      unfolding eff pool_inv_def count_update [where C = C, OF i(1)] pool_sets_update [where W = W, OF i(1)]
      using inv i task other not_in unfolding pool_inv_def by auto
  qed
qed

lemma pool_drop_task:
  assumes "pool_inv W C st N p (i # ts)" and "final_state (st i)" and "\<And>s. final_state s \<Longrightarrow> \<not> W s"
  shows "pool_inv W C st N p ts"
proof -
  have "i \<notin> set (enqueued p)" using assms unfolding pool_inv_def by blast
  then show ?thesis using assms(1) unfolding pool_inv_def by auto
qed

section \<open>The two pools\<close>

definition waits_hash :: "machine_state \<Rightarrow> bool" where "waits_hash s \<longleftrightarrow> s = WaitForHashSignal"
definition waits_upload :: "machine_state \<Rightarrow> bool" where "waits_upload s \<longleftrightarrow> s = WaitForUploadSignal"
definition hashes :: "machine_state \<Rightarrow> bool" where "hashes s \<longleftrightarrow> count_of s = Count_Hashing"
definition uploads :: "machine_state \<Rightarrow> bool" where "uploads s \<longleftrightarrow> count_of s = Count_Uploading"

lemmas pool_state_defs = waits_hash_def waits_upload_def hashes_def uploads_def

lemma apply_calls_simps [simp]:
  "apply_calls i h [] m = m"
  "apply_calls i h (c # cs) m = apply_calls i h cs (apply_call i h c m)"
  by (simp_all add: apply_calls_def)

lemma EnqueueTick_frame [simp]:
  "hash_pool (EnqueueTick m) = hash_pool m" "upload_pool (EnqueueTick m) = upload_pool m"
  "posted_tasks (EnqueueTick m) = posted_tasks m" "requests (EnqueueTick m) = requests m"
  "disable_enqueue (EnqueueTick m) = disable_enqueue m"
  "ticks (EnqueueTick m) = (if disable_enqueue m then ticks m else ticks m + 1)"
  by (simp_all add: EnqueueTick_def)

lemma HandleComplete_frame [simp]:
  "hash_pool (HandleComplete_call i h m) = pool_erase i (hash_pool m)"
  "upload_pool (HandleComplete_call i h m) = pool_erase i (upload_pool m)"
  "posted_tasks (HandleComplete_call i h m) = posted_tasks m"
  "requests (HandleComplete_call i h m) = removeAll i (requests m)"
  "disable_enqueue (HandleComplete_call i h m) = disable_enqueue m"
  "ticks (HandleComplete_call i h m) = (if disable_enqueue m then ticks m else ticks m + 1)"
  by (simp_all add: HandleComplete_call_def Let_def)

text \<open>The calls of a transition are the effects on both pools, and enqueue a tick if there are any.\<close>

lemma calls_effect:
  assumes "(s, k, t, a, g) \<in> set rows" and "s = Initial \<longrightarrow> g \<noteq> HasHash"
  shows "hash_pool (apply_calls i h (exit_calls s @ entry_calls (count_of s) t) m)
      = pool_effect waits_hash hashes i s t (hash_pool m)"
    "upload_pool (apply_calls i h (exit_calls s @ entry_calls (count_of s) t) m)
      = pool_effect waits_upload uploads i s t (upload_pool m)"
  using assms
  by (auto simp: rows_def pool_effect_def pool_state_defs final_state_def Let_def)

lemma calls_frame:
  assumes "(s, k, t, a, g) \<in> set rows"
  shows "posted_tasks (apply_calls i h (exit_calls s @ entry_calls (count_of s) t) m) = posted_tasks m"
    "disable_enqueue (apply_calls i h (exit_calls s @ entry_calls (count_of s) t) m) = disable_enqueue m"
    "set (requests (apply_calls i h (exit_calls s @ entry_calls (count_of s) t) m)) \<subseteq> set (requests m)"
    "\<not> disable_enqueue m \<Longrightarrow> exit_calls s @ entry_calls (count_of s) t = []
      \<or> 0 < ticks (apply_calls i h (exit_calls s @ entry_calls (count_of s) t) m)"
  using assms by (auto simp: rows_def Let_def)

section \<open>The invariant of the system\<close>

definition hash_tasks :: "manager \<Rightarrow> nat list" where
  "hash_tasks m = concat (map (\<lambda>t. case t of Post_StartHash i \<Rightarrow> [i] | _ \<Rightarrow> []) (posted_tasks m))"

definition upload_tasks :: "manager \<Rightarrow> nat list" where
  "upload_tasks m = concat (map (\<lambda>t. case t of Post_StartUpload i _ \<Rightarrow> [i] | _ \<Rightarrow> []) (posted_tasks m))"

definition state_of :: "upload_system \<Rightarrow> nat \<Rightarrow> machine_state" where
  "state_of s i = upl_state (machines s i)"

definition machine_sound :: "upload \<Rightarrow> bool" where
  "machine_sound u \<longleftrightarrow> upload_inv u \<and> quiet u \<and> upl_state u \<noteq> Initial"

definition hash_tick_pending :: "manager \<Rightarrow> bool" where
  "hash_tick_pending m \<longleftrightarrow> (waiting (hash_pool m) \<noteq> [] \<and> pool_free (hash_pool m) \<longrightarrow> 0 < ticks m)"

definition system_inv :: "upload_system \<Rightarrow> bool" where
  "system_inv s \<longleftrightarrow>
     (\<forall>i < next_handle s. machine_sound (machines s i))
     \<and> pool_inv waits_hash hashes (state_of s) (next_handle s) (hash_pool (mgr s)) (hash_tasks (mgr s))
     \<and> pool_inv waits_upload uploads (state_of s) (next_handle s) (upload_pool (mgr s)) (upload_tasks (mgr s))
     \<and> set (requests (mgr s)) \<subseteq> {..<next_handle s}
     \<and> \<not> disable_enqueue (mgr s) \<and> hash_tick_pending (mgr s)"

lemma pool_facts:
  "waits_hash s \<Longrightarrow> \<not> hashes s" "final_state s \<Longrightarrow> \<not> waits_hash s \<and> \<not> hashes s"
  "waits_upload s \<Longrightarrow> \<not> uploads s" "final_state s \<Longrightarrow> \<not> waits_upload s \<and> \<not> uploads s"
  by (auto simp: pool_state_defs final_state_def)

text \<open>Which transitions count: all others than the two starts\<close>

lemma row_moves:
  assumes "(s, k, t, a, g) \<in> set rows" and "s = Initial \<longrightarrow> g \<noteq> HasHash"
  shows "k \<noteq> K_StartHash \<Longrightarrow> (hashes t \<longrightarrow> hashes s) \<and> (waits_hash s \<longrightarrow> waits_hash t \<or> final_state t)
      \<and> (waits_hash t \<longrightarrow> \<not> hashes s)"
    "k \<noteq> K_StartUpload \<Longrightarrow> (uploads t \<longrightarrow> uploads s) \<and> (waits_upload s \<longrightarrow> waits_upload t \<or> final_state t)
      \<and> (waits_upload t \<longrightarrow> \<not> uploads s)"
  using assms by (auto simp: rows_def pool_state_defs final_state_def)

lemma settle_simps [simp]:
  "next_handle (settle i u s) = next_handle s"
  "machines (settle i u s) = (machines s)(i := u\<lparr>calls := []\<rparr>)"
  "mgr (settle i u s) = apply_calls i (u_hash u) (calls u) (mgr s)"
  "state_of (settle i u s) = (state_of s)(i := upl_state u)"
  by (auto simp: settle_def state_of_def)

lemma state_of_mgr [simp]: "state_of (s\<lparr>mgr := m\<rparr>) = state_of s"
  by (simp add: state_of_def fun_eq_iff)

lemma upload_inv_calls [simp]: "upload_inv (u\<lparr>calls := c\<rparr>) = upload_inv u"
  by (cases "upl_state u")
     (simp_all add: upload_inv_def one_event_def one_request_def one_read_def idle_def check_event_def chunk_event_def)

lemma hash_tick_pending_calls:
  assumes "hash_tick_pending m" and "(s, k, t, a, g) \<in> set rows" and "\<not> disable_enqueue m"
  shows "hash_tick_pending (apply_calls i h (exit_calls s @ entry_calls (count_of s) t) m)"
proof (cases "exit_calls s @ entry_calls (count_of s) t = []")
  case True
  then show ?thesis using assms(1) by (simp only: True apply_calls_simps)
next
  case False
  then show ?thesis using calls_frame(4) [OF assms(2,3), of i h] by (simp only: hash_tick_pending_def) blast
qed

section \<open>Steps of the machines\<close>

text \<open>
  What a step of a machine does not depend on: everything but the two pools, and the machine
  itself where it is in \<open>X\<close>
\<close>

definition system_frame :: "nat set \<Rightarrow> upload_system \<Rightarrow> bool" where
  "system_frame X s \<longleftrightarrow> (\<forall>i < next_handle s. i \<notin> X \<longrightarrow> machine_sound (machines s i))
     \<and> set (requests (mgr s)) \<subseteq> {..<next_handle s} \<and> \<not> disable_enqueue (mgr s) \<and> hash_tick_pending (mgr s)"

definition hash_pool_ok :: "(nat \<Rightarrow> machine_state) \<Rightarrow> nat \<Rightarrow> manager \<Rightarrow> bool" where
  "hash_pool_ok st N m \<longleftrightarrow> pool_inv waits_hash hashes st N (hash_pool m) (hash_tasks m)"

definition upload_pool_ok :: "(nat \<Rightarrow> machine_state) \<Rightarrow> nat \<Rightarrow> manager \<Rightarrow> bool" where
  "upload_pool_ok st N m \<longleftrightarrow> pool_inv waits_upload uploads st N (upload_pool m) (upload_tasks m)"

lemma system_inv_split:
  "system_inv s \<longleftrightarrow> system_frame {} s \<and> hash_pool_ok (state_of s) (next_handle s) (mgr s)
     \<and> upload_pool_ok (state_of s) (next_handle s) (mgr s)"
  by (auto simp: system_inv_def system_frame_def hash_pool_ok_def upload_pool_ok_def)

lemma tasks_posted:
  "posted_tasks m' = posted_tasks m \<Longrightarrow> hash_tasks m' = hash_tasks m"
  "posted_tasks m' = posted_tasks m \<Longrightarrow> upload_tasks m' = upload_tasks m"
  by (simp_all add: hash_tasks_def upload_tasks_def)

lemma settle_unchanged:
  assumes "system_inv s" and "calls v = []" "upl_state v = state_of s i" "machine_sound v" 
  shows "system_inv (settle i v s)"
proof -
  have "machine_sound (v\<lparr>calls := []\<rparr>)" using assms(4) by (simp add: machine_sound_def quiet_def)
  then show ?thesis
    using assms(1-3) by (auto simp: system_inv_def)
qed

lemma settle_row:
  assumes frame: "system_frame {i} s" and i: "i < next_handle s"
    and u: "quiet u" "upl_state u = state_of s i" "\<not> final_state (upl_state u)" "upl_state u = Initial \<longrightarrow> u_hash u = []"
    and row: "transition_table (u_hash u \<noteq> []) (upl_state u) ev = Some (t, a)"
    and inv: "upload_inv (fire lib env ev u)"
    and hash: "kind ev \<noteq> K_StartHash \<and> hash_pool_ok (state_of s) (next_handle s) (mgr s)
      \<or> pool_inv waits_hash hashes ((state_of s)(i := t)) (next_handle s)
          (pool_effect waits_hash hashes i (state_of s i) t (hash_pool (mgr s))) (hash_tasks (mgr s))"
    and upl: "kind ev \<noteq> K_StartUpload \<and> upload_pool_ok (state_of s) (next_handle s) (mgr s)
      \<or> pool_inv waits_upload uploads ((state_of s)(i := t)) (next_handle s)
          (pool_effect waits_upload uploads i (state_of s i) t (upload_pool (mgr s))) (upload_tasks (mgr s))"
  shows "system_inv (settle i (fire lib env ev u) s)"
proof -
  let ?v = "fire lib env ev u" and ?N = "next_handle s" and ?st = "state_of s"
  obtain g where g: "(?st i, kind ev, t, a, g) \<in> set rows" and "guard_holds (u_hash u \<noteq> []) g"
    using row u(2) by (auto elim: transition_row)
  then have gi: "?st i = Initial \<longrightarrow> g \<noteq> HasHash" using u(2,4) by (auto simp: guard_holds_def)
  note eff = fire_effect [OF u(1,3) row, of lib env]
  have v: "upl_state ?v = t" "connected ?v" "count_state ?v = count_of t"
      "calls ?v = exit_calls (?st i) @ entry_calls (count_of (?st i)) t"
    using eff u(2,4) by simp_all
  let ?m = "apply_calls i (u_hash ?v) (calls ?v) (mgr s)"
  have t: "t \<noteq> Initial" using g by (auto simp: rows_def)
  have "hash_pool_ok (?st(i := t)) ?N ?m"
  proof -
    have "pool_inv waits_hash hashes (?st(i := t)) ?N (pool_effect waits_hash hashes i (?st i) t (hash_pool (mgr s))) (hash_tasks (mgr s))"
      using hash
    proof
      assume "kind ev \<noteq> K_StartHash \<and> hash_pool_ok ?st ?N (mgr s)"
      then show ?thesis
        using row_moves(1) [OF g gi] u(2,3) i
        by (intro pool_move) (auto simp: hash_pool_ok_def pool_facts)
    qed
    then show ?thesis
      unfolding hash_pool_ok_def v(4) calls_effect(1) [OF g gi] tasks_posted(1) [OF calls_frame(1) [OF g]] .
  qed
  moreover have "upload_pool_ok (?st(i := t)) ?N ?m"
  proof -
    have "pool_inv waits_upload uploads (?st(i := t)) ?N (pool_effect waits_upload uploads i (?st i) t (upload_pool (mgr s))) (upload_tasks (mgr s))"
      using upl
    proof
      assume "kind ev \<noteq> K_StartUpload \<and> upload_pool_ok ?st ?N (mgr s)"
      then show ?thesis
        using row_moves(2) [OF g gi] u(2,3) i
        by (intro pool_move) (auto simp: upload_pool_ok_def pool_facts)
    qed
    then show ?thesis
      unfolding upload_pool_ok_def v(4) calls_effect(2) [OF g gi] tasks_posted(2) [OF calls_frame(1) [OF g]] .
  qed
  moreover have "system_frame {} (settle i ?v s)"
    using frame inv t v(1-3) calls_frame(2,3) [OF g, of i "u_hash ?v" "mgr s"]
      hash_tick_pending_calls [OF _ g, of "mgr s" i "u_hash ?v"]
    by (auto simp: system_frame_def machine_sound_def quiet_def v(4))
  ultimately show ?thesis by (simp add: system_inv_split v(1))
qed

lemma settle_fire:
  assumes inv: "system_inv s" and i: "i < next_handle s"
    and u: "quiet u" "upl_state u = state_of s i" and ev: "final_state (upl_state u) \<or> kind ev \<notin> {K_StartHash, K_StartUpload}"
    and upl: "upload_inv (fire lib env ev u)"
  shows "system_inv (settle i (fire lib env ev u) s)"
proof -
  have ni: "upl_state u \<noteq> Initial" using inv i u(2) by (auto simp: system_inv_def machine_sound_def state_of_def)
  consider "final_state (upl_state u)" | "\<not> final_state (upl_state u)" "transition_table (u_hash u \<noteq> []) (upl_state u) ev = None"
    | t a where "\<not> final_state (upl_state u)" "transition_table (u_hash u \<noteq> []) (upl_state u) ev = Some (t, a)"
    by (cases "transition_table (u_hash u \<noteq> []) (upl_state u) ev") auto
  then show ?thesis
  proof cases
    case 1
    then show ?thesis
      using upl u ni by (intro settle_unchanged [OF inv]) (auto simp: fire_final machine_sound_def quiet_def)
  next
    case 2
    then show ?thesis
      using upl u ni by (intro settle_unchanged [OF inv])
        (simp_all add: fire_no_row machine_sound_def quiet_def del: upload_inv_check)
  next
    case 3
    then show ?thesis
      using settle_row [OF _ i u 3(1) _ 3(2) upl] inv ev ni by (auto simp: system_inv_split system_frame_def)
  qed
qed

section \<open>Ticks\<close>

lemma pool_enqueue:
  assumes inv: "pool_inv W C st N p ts" and i: "i \<in> set (waiting p)" and "pool_free p"
    and "\<And>s. final_state s \<Longrightarrow> \<not> W s"
  shows "pool_inv W C st N (p\<lparr>waiting := remove1 i (waiting p), enqueued := List.insert i (enqueued p)\<rparr>) (ts @ [i])"
proof -
  have W: "i < N" "W (st i)" "i \<notin> set (enqueued p)" using inv i by (auto simp: pool_inv_def)
  then have "i \<notin> set ts" using inv assms(4) by (auto simp: pool_inv_def)
  moreover have "current p + Suc (length (enqueued p)) \<le> max_concurrent"
    using assms(3) by (simp add: pool_free_def)
  ultimately show ?thesis
    using inv i W unfolding pool_inv_def by (auto simp: distinct_remove1_removeAll distinct_removeAll)
qed

lemma start_hashings_ok:
  assumes "waiting (hash_pool m) = xs" and "hash_pool_ok st N m"
  shows "hash_pool_ok st N (start_hashings xs m)
    \<and> (waiting (hash_pool (start_hashings xs m)) = [] \<or> \<not> pool_free (hash_pool (start_hashings xs m)))
    \<and> upload_pool (start_hashings xs m) = upload_pool m \<and> upload_tasks (start_hashings xs m) = upload_tasks m
    \<and> requests (start_hashings xs m) = requests m \<and> disable_enqueue (start_hashings xs m) = disable_enqueue m"
  using assms
proof (induction xs arbitrary: m)
  case (Cons i xs)
  show ?case
  proof (cases "pool_free (hash_pool m)")
    case True
    let ?m = "m\<lparr>hash_pool := (hash_pool m)\<lparr>waiting := xs, enqueued := List.insert i (enqueued (hash_pool m))\<rparr>,
                posted_tasks := posted_tasks m @ [Post_StartHash i]\<rparr>"
    have "hash_pool_ok st N ?m"
      using pool_enqueue [of waits_hash hashes st N "hash_pool m" "hash_tasks m" i] Cons.prems True pool_facts(2)
      by (simp add: hash_pool_ok_def hash_tasks_def)
    moreover have "upload_tasks ?m = upload_tasks m" by (simp add: upload_tasks_def)
    ultimately show ?thesis using Cons.IH [of ?m] True by simp
  qed (use Cons.prems in simp)
qed simp

lemma Tick_StartUploads_ok:
  assumes "upload_pool_ok st N m"
  shows "upload_pool_ok st N (Tick_StartUploads h now m)
    \<and> hash_pool (Tick_StartUploads h now m) = hash_pool m \<and> hash_tasks (Tick_StartUploads h now m) = hash_tasks m
    \<and> requests (Tick_StartUploads h now m) = requests m \<and> disable_enqueue (Tick_StartUploads h now m) = disable_enqueue m"
proof (cases "find (\<lambda>i. h i \<notin> set (uploading_hashes m)) (waiting (upload_pool m))")
  case None
  then show ?thesis
    using assms by (auto simp: Tick_StartUploads_def upload_pool_ok_def upload_tasks_def hash_tasks_def)
next
  case (Some i)
  then have "i \<in> set (waiting (upload_pool m))" by (auto simp: find_Some_iff)
  then have "pool_free (upload_pool m) \<Longrightarrow> pool_inv waits_upload uploads st N
      ((upload_pool m)\<lparr>waiting := remove1 i (waiting (upload_pool m)), enqueued := List.insert i (enqueued (upload_pool m))\<rparr>)
      (upload_tasks m @ [i])"
    using assms pool_facts(4) by (intro pool_enqueue) (auto simp: upload_pool_ok_def)
  then show ?thesis
    using assms Some by (auto simp: Tick_StartUploads_def upload_pool_ok_def upload_tasks_def hash_tasks_def)
qed

definition manager_ok :: "(nat \<Rightarrow> machine_state) \<Rightarrow> nat \<Rightarrow> manager \<Rightarrow> bool" where
  "manager_ok st N m \<longleftrightarrow> hash_pool_ok st N m \<and> upload_pool_ok st N m
     \<and> set (requests m) \<subseteq> {..<N} \<and> \<not> disable_enqueue m"

lemma Tick_ok:
  assumes "manager_ok st N m"
  shows "manager_ok st N (Tick h now m) \<and> hash_tick_pending (Tick h now m)"
proof -
  let ?m = "Tick_StartUploads h now m"
  note m = Tick_StartUploads_ok [of st N m h now]
  have "hash_pool_ok st N ?m" using assms m by (simp add: manager_ok_def hash_pool_ok_def)
  from start_hashings_ok [OF refl this] show ?thesis
    using assms m by (auto simp: Tick_def Tick_StartHashings_def manager_ok_def upload_pool_ok_def hash_tick_pending_def)
qed

lemma system_inv_manager:
  "system_inv s \<longleftrightarrow> (\<forall>i < next_handle s. machine_sound (machines s i))
     \<and> manager_ok (state_of s) (next_handle s) (mgr s) \<and> hash_tick_pending (mgr s)"
  by (auto simp: system_inv_def manager_ok_def hash_pool_ok_def upload_pool_ok_def)

lemma system_inv_mgr:
  assumes "system_inv s" and "manager_ok (state_of s) (next_handle s) m \<and> hash_tick_pending m"
  shows "system_inv (s\<lparr>mgr := m\<rparr>)"
  using assms by (simp add: system_inv_manager)

lemma manager_ok_update [simp]:
  "manager_ok st N (m\<lparr>ticks := a\<rparr>) = manager_ok st N m"
  "manager_ok st N (m\<lparr>token_calls := a\<rparr>) = manager_ok st N m"
  "manager_ok st N (m\<lparr>retry_timers := a\<rparr>) = manager_ok st N m"
  "manager_ok st N (m\<lparr>token_state := b\<rparr>) = manager_ok st N m"
  "manager_ok st N (m\<lparr>mgr_token := c\<rparr>) = manager_ok st N m"
  "manager_ok st N (m\<lparr>token_expires := a\<rparr>) = manager_ok st N m"
  by (simp_all add: manager_ok_def hash_pool_ok_def upload_pool_ok_def hash_tasks_def upload_tasks_def)

lemma hash_tick_pending_update [simp]:
  "hash_tick_pending (m\<lparr>token_calls := a\<rparr>) = hash_tick_pending m"
  "hash_tick_pending (m\<lparr>retry_timers := a\<rparr>) = hash_tick_pending m"
  "hash_tick_pending (m\<lparr>token_state := b\<rparr>) = hash_tick_pending m"
  "hash_tick_pending (m\<lparr>token_expires := a\<rparr>) = hash_tick_pending m"
  by (simp_all add: hash_tick_pending_def)

section \<open>Every step\<close>

lemma queue_kind:
  assumes "upload_inv u" and "queue u = ev # evs"
  shows "final_state (upl_state u) \<or> kind ev \<notin> {K_StartHash, K_StartUpload}"
  using assms
  by (cases "upl_state u") (auto simp: upload_inv_def final_state_def idle_def one_event_def one_request_def one_read_def
      check_event_def chunk_event_def error_event_def)

lemma posted_kind:
  assumes "upload_inv u" and "queue u = []" and "posted_reads u = ev # evs"
  shows "final_state (upl_state u) \<or> kind (Ev_Hash ev) \<notin> {K_StartHash, K_StartUpload}"
  using hash_kind_iff(5) [of ev] by auto

lemma machine_soundD:
  assumes "system_inv s" and "i < next_handle s"
  shows "upload_inv (machines s i)" "quiet (machines s i)" "upl_state (machines s i) = state_of s i"
    "state_of s i \<noteq> Initial"
  using assms by (auto simp: system_inv_def machine_sound_def state_of_def)

lemma quiet_update [simp]:
  "quiet (u\<lparr>queue := q\<rparr>) = quiet u" "quiet (u\<lparr>posted_reads := r\<rparr>) = quiet u" "quiet (u\<lparr>awaiting := a\<rparr>) = quiet u"
  by (simp_all add: quiet_def)

text \<open>A posted start\<close>

lemma task_hash_step:
  assumes inv: "system_inv s" and tasks: "posted_tasks (mgr s) = Post_StartHash i # ts" and q: "queue (machines s i) = []"
  shows "system_inv (settle i (fire lib env Ev_StartHash (machines s i)) (s\<lparr>mgr := (mgr s)\<lparr>posted_tasks := ts\<rparr>\<rparr>))"
proof -
  let ?m = "(mgr s)\<lparr>posted_tasks := ts\<rparr>" and ?u = "machines s i" and ?N = "next_handle s"
  let ?s = "s\<lparr>mgr := ?m\<rparr>"
  have ht: "hash_tasks (mgr s) = i # hash_tasks ?m" "upload_tasks ?m = upload_tasks (mgr s)"
    by (simp_all add: hash_tasks_def upload_tasks_def tasks)
  have pi: "pool_inv waits_hash hashes (state_of s) ?N (hash_pool (mgr s)) (i # hash_tasks ?m)"
    using inv ht(1) by (simp add: system_inv_def)
  then have i: "i < ?N" and en: "i \<in> set (enqueued (hash_pool (mgr s))) \<or> final_state (state_of s i)"
    by (simp_all add: pool_inv_def)
  note u = machine_soundD [OF inv i]
  have st: "state_of ?s = state_of s" by simp
  have frame: "system_frame {i} ?s" and up: "upload_pool_ok (state_of ?s) ?N ?m"
    using inv by (auto simp: system_inv_split system_frame_def hash_tick_pending_def upload_pool_ok_def ht(2) st)
  have fire: "upload_inv (fire lib env Ev_StartHash ?u)" using upload_inv_external [OF u(1) q] by simp
  show ?thesis
  proof (cases "final_state (state_of s i)")
    case True
    then have "pool_inv waits_hash hashes (state_of s) ?N (hash_pool (mgr s)) (hash_tasks ?m)"
      using pool_drop_task [OF pi] pool_facts(2) by blast
    then have "system_inv ?s" using inv up ht(2)
      by (auto simp: system_inv_def upload_pool_ok_def hash_tick_pending_def st)
    then show ?thesis
      using True u fire by (intro settle_unchanged) (auto simp: fire_final machine_sound_def quiet_def st)
  next
    case False
    then have W: "waits_hash (state_of s i)" using en pi by (auto simp: pool_inv_def)
    then have row: "transition_table (u_hash ?u \<noteq> []) (upl_state ?u) Ev_StartHash = Some (SetupHasher, No_Action)"
      using u(3) by (simp add: waits_hash_def)
    have "pool_inv waits_hash hashes ((state_of s)(i := SetupHasher)) ?N
        (pool_effect waits_hash hashes i (state_of s i) SetupHasher (hash_pool (mgr s))) (hash_tasks ?m)"
      using W False by (intro pool_start [OF pi i]) (simp_all add: pool_state_defs final_state_def)
    then show ?thesis
      using i u fire frame up row False by (intro settle_row) (auto simp: st)
  qed
qed

lemma task_upload_step:
  assumes inv: "system_inv s" and tasks: "posted_tasks (mgr s) = Post_StartUpload i tok # ts" and q: "queue (machines s i) = []"
  shows "system_inv (settle i (fire lib env (Ev_StartUpload tok) (machines s i)) (s\<lparr>mgr := (mgr s)\<lparr>posted_tasks := ts\<rparr>\<rparr>))"
proof -
  let ?m = "(mgr s)\<lparr>posted_tasks := ts\<rparr>" and ?u = "machines s i" and ?N = "next_handle s"
  let ?s = "s\<lparr>mgr := ?m\<rparr>"
  have ht: "upload_tasks (mgr s) = i # upload_tasks ?m" "hash_tasks ?m = hash_tasks (mgr s)"
    by (simp_all add: hash_tasks_def upload_tasks_def tasks)
  have pi: "pool_inv waits_upload uploads (state_of s) ?N (upload_pool (mgr s)) (i # upload_tasks ?m)"
    using inv ht(1) by (simp add: system_inv_def)
  then have i: "i < ?N" and en: "i \<in> set (enqueued (upload_pool (mgr s))) \<or> final_state (state_of s i)"
    by (simp_all add: pool_inv_def)
  note u = machine_soundD [OF inv i]
  have st: "state_of ?s = state_of s" by simp
  have frame: "system_frame {i} ?s" and hp: "hash_pool_ok (state_of ?s) ?N ?m"
    using inv by (auto simp: system_inv_split system_frame_def hash_tick_pending_def hash_pool_ok_def ht(2) st)
  have fire: "upload_inv (fire lib env (Ev_StartUpload tok) ?u)" using upload_inv_external [OF u(1) q] by simp
  show ?thesis
  proof (cases "final_state (state_of s i)")
    case True
    then have "pool_inv waits_upload uploads (state_of s) ?N (upload_pool (mgr s)) (upload_tasks ?m)"
      using pool_drop_task [OF pi] pool_facts(4) by blast
    then have "system_inv ?s" using inv hp ht(2)
      by (auto simp: system_inv_def hash_pool_ok_def hash_tick_pending_def st)
    then show ?thesis
      using True u fire by (intro settle_unchanged) (auto simp: fire_final machine_sound_def quiet_def st)
  next
    case False
    then have W: "waits_upload (state_of s i)" using en pi by (auto simp: pool_inv_def)
    then have row: "transition_table (u_hash ?u \<noteq> []) (upl_state ?u) (Ev_StartUpload tok) = Some (InUploadCheck, Do_Check)"
      using u(3) by (simp add: waits_upload_def)
    have "pool_inv waits_upload uploads ((state_of s)(i := InUploadCheck)) ?N
        (pool_effect waits_upload uploads i (state_of s i) InUploadCheck (upload_pool (mgr s))) (upload_tasks ?m)"
      using W False by (intro pool_start [OF pi i]) (simp_all add: pool_state_defs final_state_def)
    then show ?thesis
      using i u fire frame hp row False by (intro settle_row) (auto simp: st)
  qed
qed

lemma pool_extend:
  assumes "pool_inv W C st N p ts" and "\<not> W t" "\<not> C t"
  shows "pool_inv W C (st(N := t)) (Suc N) p ts"
proof -
  have "{i. i < Suc N \<and> W ((st(N := t)) i)} = {i. i < N \<and> W (st i)}"
    "{i. i < Suc N \<and> C ((st(N := t)) i)} = {i. i < N \<and> C (st i)}"
    using assms(2,3) by (auto simp: less_Suc_eq)
  then show ?thesis using assms(1) unfolding pool_inv_def by auto
qed

lemma run_tick_inv:
  assumes "\<forall>i < next_handle s. machine_sound (machines s i)" "manager_ok (state_of s) (next_handle s) (mgr s)"
  shows "system_inv (run_tick now s)"
proof -
  have "state_of (run_tick now s) = state_of s" by (simp add: run_tick_def state_of_def fun_eq_iff)
  then show ?thesis using assms(1) Tick_ok [OF assms(2)] by (simp add: system_inv_manager run_tick_def)
qed

lemma Add_inv:
  assumes inv: "system_inv s"
  shows "system_inv (Add lib env now c s)"
proof -
  let ?i = "next_handle s" and ?u = "new_upload c"
  let ?s = "s\<lparr>next_handle := ?i + 1, machines := (machines s)(?i := ?u),
                mgr := (mgr s)\<lparr>requests := List.insert ?i (requests (mgr s))\<rparr>\<rparr>"
  have init: "upl_state ?u = Initial" "u_hash ?u = []" by (simp_all add: new_upload_def)
  have st: "state_of ?s = (state_of s)(?i := Initial)" by (auto simp: state_of_def new_upload_def)
  have tasks: "hash_tasks (mgr ?s) = hash_tasks (mgr s)" "upload_tasks (mgr ?s) = upload_tasks (mgr s)"
    by (simp_all add: hash_tasks_def upload_tasks_def)
  have pools: "hash_pool_ok (state_of ?s) (next_handle ?s) (mgr ?s)" "upload_pool_ok (state_of ?s) (next_handle ?s) (mgr ?s)"
    using inv by (simp_all only: hash_pool_ok_def upload_pool_ok_def st tasks)
      (auto simp: system_inv_def pool_state_defs intro!: pool_extend)
  have "upload_inv (fire lib env Ev_Start ?u)" by (rule fire_Start) (simp_all add: new_upload_def idle_def)
  moreover have "system_frame {?i} ?s"
    using inv by (auto simp: system_inv_def system_frame_def less_Suc_eq hash_tick_pending_def)
  moreover have "quiet ?u" by (simp add: quiet_def new_upload_def)
  moreover have "transition_table (u_hash ?u \<noteq> []) (upl_state ?u) Ev_Start = Some (WaitForHashSignal, No_Action)"
    by (simp add: new_upload_def)
  ultimately have "system_inv (settle ?i (fire lib env Ev_Start ?u) ?s)"
    using pools init by (intro settle_row) (auto simp: state_of_def final_state_def)
  then show ?thesis unfolding Add_def Let_def by (intro run_tick_inv) (simp_all add: system_inv_manager)
qed

lemma system_inv_step:
  assumes "system_step lib s s'" and inv: "system_inv s"
  shows "system_inv s'"
proof -
  have mo: "manager_ok (state_of s) (next_handle s) (mgr s)" "hash_tick_pending (mgr s)"
    using inv by (simp_all add: system_inv_manager)
  from assms(1) show ?thesis
proof cases
  case (Add env now c)
  then show ?thesis using Add_inv inv by simp
next
  case (Modify i env md)
  then show ?thesis
  proof (cases "i \<in> set (requests (mgr s))")
    case True
    then have i: "i < next_handle s" using inv by (auto simp: system_inv_def)
    note u = machine_soundD [OF inv i]
    have "external (modification_event md)" "kind (modification_event md) = K_Error"
      by (cases md; simp add: modification_event_def)+
    then show ?thesis
      using Modify True i u upload_inv_external [OF u(1) Modify(2)]
      by (auto simp: ModifyUpload_def intro!: settle_fire [OF inv i])
  qed (use inv in \<open>simp add: ModifyUpload_def\<close>)
next
  case (Queued i ev evs env)
  note u = machine_soundD [OF inv Queued(2)]
  show ?thesis
    unfolding Queued(1) using u upload_inv_queued [OF u(1) Queued(3)] queue_kind [OF u(1) Queued(3)]
    by (intro settle_fire [OF inv Queued(2)]) simp_all
next
  case (Posted i ev evs env)
  note u = machine_soundD [OF inv Posted(2)]
  show ?thesis
    unfolding Posted(1) using u upload_inv_posted [OF u(1) Posted(3,4)] posted_kind [OF u(1) Posted(3,4)]
    by (intro settle_fire [OF inv Posted(2)]) simp_all
next
  case (Answer i rs r rs' rep)
  note u = machine_soundD [OF inv Answer(2)]
  show ?thesis
    unfolding Answer(1) using u upload_inv_answer [OF u(1) Answer(3,4,5)]
    by (intro settle_unchanged [OF inv]) (auto simp: machine_sound_def quiet_def)
next
  case (Task t ts i ev env)
  then show ?thesis using inv
    by (cases t) (auto simp: task_event_def intro: task_hash_step task_upload_step)
next
  case (Tick now)
  show ?thesis unfolding Tick(1) using inv by (intro run_tick_inv) (simp_all add: system_inv_manager)
next
  case (Token now response)
  show ?thesis
    unfolding Token(1) HandleActionToken_def using mo
    by (intro system_inv_mgr [OF inv]) (simp add: Tick_ok split: option.splits)
next
  case (Retry now err)
  show ?thesis
    unfolding Retry(1) ActionTokenRetry_def using mo
    by (intro system_inv_mgr [OF inv]) (simp add: Tick_ok)
qed
qed

lemma system_reachable_inv: "system_reachable lib s \<Longrightarrow> system_inv s"
proof (induction rule: system_reachable.induct)
  case Begin
  show ?case
    by (simp add: system_inv_def system_init_def UploadManagerImpl_def empty_pool_def pool_inv_def hash_tasks_def
        upload_tasks_def hash_tick_pending_def max_concurrent_def)
qed (rule system_inv_step)

section \<open>The limits and the queues\<close>

text \<open>
  C3: in every state that the manager and its uploads can reach, at most two uploads hold a place
  for hashing, counting those that were told to start and have not yet, and at most two a place
  for uploading; the counters of the manager are the numbers of uploads in these phases, so they
  never wrap around.
\<close>

theorem concurrency_limits:
  assumes "system_reachable lib s"
  shows "current (hash_pool (mgr s)) = card {i. i < next_handle s \<and> count_of (state_of s i) = Count_Hashing}
    \<and> current (hash_pool (mgr s)) + length (enqueued (hash_pool (mgr s))) \<le> 2
    \<and> current (upload_pool (mgr s)) = card {i. i < next_handle s \<and> count_of (state_of s i) = Count_Uploading}
    \<and> current (upload_pool (mgr s)) + length (enqueued (upload_pool (mgr s))) \<le> 2"
  using system_reachable_inv [OF assms]
  by (simp add: system_inv_def pool_inv_def hashes_def uploads_def max_concurrent_def)


text \<open>
  an upload that is cancelled while it waits for another one of the same content to finish
  frees the hash of that content, and the next tick starts a further upload of it, although the
  first is still under way.
\<close>

theorem cancelled_duplicate_frees_hash:
  assumes "h \<noteq> []" and "hashes_of j = h" and "hashes_of k = h" and "j \<noteq> k"
    and "waiting (upload_pool m) = [j, k]" and "uploading_hashes m = [h]" and "pool_free (upload_pool m)"
    and "enqueued (upload_pool m) = []"
    and "token_state m = Token_Valid" and "now \<le> token_expires m"
  shows "Post_StartUpload k (mgr_token m) \<in> set (posted_tasks (Tick_StartUploads hashes_of now
      (apply_calls j h [HandleRemoveToUpload, DecrementHashingCount, HandleComplete] m)))
    \<and> Tick_StartUploads hashes_of now m = m"
  using assms
  by (auto simp: Tick_StartUploads_def HandleComplete_call_def EnqueueTick_def pool_remove_def pool_erase_def
      pool_free_def Let_def)

text \<open>
  while a call for the action token is under way, a tick makes another one as long as an
  upload waits.
\<close>

theorem token_requested_again:
  assumes "token_state m = Token_Retrieving" and "waiting (upload_pool m) \<noteq> []"
  shows "token_calls (Tick_StartUploads hashes_of now m) = token_calls m + 1"
  using assms by (simp add: Tick_StartUploads_def)

section \<open>Examples\<close>

definition ex_system :: upload_system where
  "ex_system = Add ex_lib ex_env 0 ex_config system_init"

lemma ex_system_reachable: "system_reachable ex_lib ex_system"
  unfolding ex_system_def by (intro system_reachable.Step [OF system_reachable.Begin] system_step.Add)

lemma ex_system_state: "next_handle ex_system = 1" "state_of ex_system 0 = WaitForHashSignal"
  by (simp_all add: ex_system_def Add_def run_tick_def settle_def system_init_def Let_def state_of_def
      fire_row final_state_def new_upload_def)

theorem concurrency_limits_witness:
  "current (hash_pool (mgr ex_system)) + length (enqueued (hash_pool (mgr ex_system))) \<le> 2"
  using concurrency_limits [OF ex_system_reachable] by blast


definition ex_manager :: manager where
  "ex_manager = UploadManagerImpl\<lparr>upload_pool := \<lparr>waiting = [1, 2], enqueued = [], current = 1\<rparr>,
     uploading_hashes := [''h''], mgr_token := ''tok'', token_state := Token_Valid, token_expires := 5\<rparr>"

theorem cancelled_duplicate_frees_hash_witness:
  "Post_StartUpload 2 ''tok'' \<in> set (posted_tasks (Tick_StartUploads (\<lambda>_. ''h'') 3
      (apply_calls 1 ''h'' [HandleRemoveToUpload, DecrementHashingCount, HandleComplete] ex_manager)))"
  using cancelled_duplicate_frees_hash [of "''h''" "\<lambda>_. ''h''" 1 2 ex_manager 3]
  by (simp add: ex_manager_def pool_free_def max_concurrent_def)

theorem token_requested_again_witness:
  "token_calls (Tick_StartUploads (\<lambda>_. ''h'') 3 (ex_manager\<lparr>token_state := Token_Retrieving\<rparr>)) = 1"
  using token_requested_again [of "ex_manager\<lparr>token_state := Token_Retrieving\<rparr>" "\<lambda>_. ''h''" 3]
  by (simp add: ex_manager_def UploadManagerImpl_def)

end
