(* ===== verification/Api_Actions.thy ===== *)
theory Api_Actions
  imports Session_Types
begin

text \<open>
  The actions that make one request after the other, \<^verbatim>\<open>api/actions\<close>: a coroutine calls the session
  maintainer, yields, and is resumed by the handler of the response. The code between two yields
  is one step of the model, so the local variables that live across a yield are arguments of the
  stage in which the coroutine waits. The calls of the session maintainer, those that were
  cancelled and those of the callback are recorded. The actions on one file or folder have one body
  with different requests and errors; \<^verbatim>\<open>GetChangesDevice\<close> and \<^verbatim>\<open>GetForeignChangesDevice\<close> walk through
  the revisions of a device in blocks of 500.
\<close>

section \<open>Coroutines\<close>

text \<open>The requests, with the arguments that the actions give to their constructors.\<close>

datatype api_request =
    Folder_Create string string         \<comment> \<open>name, and \<^verbatim>\<open>SetParentFolderkey\<close>\<close>
  | File_Delete string
  | Folder_Delete string
  | File_Get_Info string
  | Folder_Get_Info string
  | File_Move string string
  | Folder_Move string string
  | File_Update string
  | Folder_Update string
  | Device_Get_Foreign_Resources
  | Device_Get_Status
  | Device_Get_Changes uint32
  | Device_Get_Foreign_Changes uint32 string

record response_base =
  rs_error_code :: error_code
  rs_error_string :: "string option"

abbreviation failed :: "'z response_base_scheme \<Rightarrow> bool" where
  "failed r \<equiv> is_error (rs_error_code r)"

text \<open>
  The members that every action has. \<^verbatim>\<open>current_request\<close> is the request in progress; \<^verbatim>\<open>sent\<close> and \<^verbatim>\<open>cancels\<close>
  are what the session maintainer sees of the action.
\<close>

record coroutine =
  is_cancelled :: bool
  current_request :: "api_request option"
  sent :: "api_request list"
  cancels :: "api_request list"

definition stm_Call :: "api_request \<Rightarrow> 'z coroutine_scheme \<Rightarrow> 'z coroutine_scheme" where
  "stm_Call q s = s\<lparr>current_request := Some q, sent := sent s @ [q]\<rparr>"

definition CancelRequest :: "'z coroutine_scheme \<Rightarrow> 'z coroutine_scheme" where
  "CancelRequest s =
     (case current_request s of None \<Rightarrow> s | Some q \<Rightarrow> s\<lparr>cancels := cancels s @ [q]\<rparr>)"

text \<open>The call of a request in a body, with the look at \<^verbatim>\<open>is_cancelled\<close> behind it.\<close>

definition request_and_yield :: "api_request \<Rightarrow> 'z coroutine_scheme \<Rightarrow> 'z coroutine_scheme" where
  "request_and_yield q s =
     (let s = stm_Call q s in if is_cancelled s then CancelRequest s else s)"

definition CancelAction :: "'z coroutine_scheme \<Rightarrow> 'z coroutine_scheme" where
  "CancelAction s = CancelRequest (s\<lparr>is_cancelled := True\<rparr>)"

lemmas coroutine_defs = stm_Call_def CancelRequest_def request_and_yield_def CancelAction_def

text \<open>
  What happens to an action: it is started, the response of its request arrives, or it is
  cancelled. A step that is not possible is \<^term>\<open>None\<close>.
\<close>

datatype 'r action_event = Ev_Start | Ev_Response 'r | Ev_Cancel

fun run_events :: "('e \<Rightarrow> 's \<Rightarrow> 's option) \<Rightarrow> 'e list \<Rightarrow> 's \<Rightarrow> 's option" where
  "run_events step [] s = Some s"
| "run_events step (e # es) s = (case step e s of None \<Rightarrow> None | Some s' \<Rightarrow> run_events step es s')"

lemma run_events_append:
  "run_events step (es @ es') s
     = (case run_events step es s of None \<Rightarrow> None | Some s' \<Rightarrow> run_events step es' s')"
  by (induction es arbitrary: s) (auto split: option.split)

lemma run_events_Cons:
  assumes "run_events step (e # es) s = Some s'"
  obtains t where "step e s = Some t" and "run_events step es t = Some s'"
  using assms by (auto split: option.splits)

text \<open>
  The contract of an action: its callback is called when the body ends and at no other time, a
  body that ended stays so, and one that waits takes the next response.
\<close>

locale action_contract =
  fixes step :: "'r action_event \<Rightarrow> 's \<Rightarrow> 's option"
    and ended :: "'s \<Rightarrow> bool"
    and awaiting :: "'s \<Rightarrow> bool"
    and told :: "'s \<Rightarrow> nat"
  assumes told_when_ended:
      "step e s = Some s' \<Longrightarrow> told s' = told s + (if ended s' \<and> \<not> ended s then 1 else 0)"
    and ended_stays: "step e s = Some s' \<Longrightarrow> ended s \<Longrightarrow> ended s'"
    and takes_response: "awaiting s \<Longrightarrow> \<exists>r s'. step (Ev_Response r) s = Some s'"
    and waits_or_ends: "step e s = Some s' \<Longrightarrow> e = Ev_Start \<or> awaiting s \<Longrightarrow> awaiting s' \<or> ended s'"
begin

lemma ended_run: "run_events step es s = Some s' \<Longrightarrow> ended s \<Longrightarrow> ended s'"
proof (induction es arbitrary: s)
  case (Cons e es)
  then obtain t where t: "step e s = Some t" "run_events step es t = Some s'"
    by (auto elim: run_events_Cons simp del: run_events.simps)
  show ?case by (rule Cons.IH [OF t(2) ended_stays [OF t(1) Cons.prems(2)]])
qed simp

lemma told_once:
  "run_events step es s = Some s' \<Longrightarrow> told s' = told s + (if ended s' \<and> \<not> ended s then 1 else 0)"
proof (induction es arbitrary: s)
  case (Cons e es)
  then obtain t where t: "step e s = Some t" "run_events step es t = Some s'"
    by (auto elim: run_events_Cons simp del: run_events.simps)
  show ?case
  proof (cases "ended t")
    case True
    then show ?thesis using Cons.IH [OF t(2)] told_when_ended [OF t(1)] ended_run [OF t(2)] by simp
  next
    case False
    then have "\<not> ended s" using ended_stays [OF t(1)] by blast
    with False show ?thesis using Cons.IH [OF t(2)] told_when_ended [OF t(1)] by simp
  qed
qed simp

lemma never_lost:
  "run_events step es s = Some s' \<Longrightarrow> awaiting s \<or> ended s \<Longrightarrow> awaiting s' \<or> ended s'"
proof (induction es arbitrary: s)
  case (Cons e es)
  then obtain t where t: "step e s = Some t" "run_events step es t = Some s'"
    by (auto elim: run_events_Cons simp del: run_events.simps)
  have "awaiting t \<or> ended t"
    using Cons.prems(2) waits_or_ends [OF t(1)] ended_stays [OF t(1)] by auto
  then show ?case by (rule Cons.IH [OF t(2)])
qed simp

lemma started_action:
  assumes "run_events step (Ev_Start # es) s = Some s'" and "\<not> ended s" and "told s = 0"
  shows "if ended s' then told s' = 1 else awaiting s' \<and> told s' = 0"
proof -
  from assms(1) obtain t where t: "step Ev_Start s = Some t" "run_events step es t = Some s'"
    by (rule run_events_Cons)
  have "awaiting s' \<or> ended s'"
    using never_lost [OF t(2)] waits_or_ends [OF t(1)] by blast
  then show ?thesis using told_once [OF assms(1)] assms(2,3) by auto
qed

end

section \<open>Actions of one request\<close>

text \<open>
  \<^verbatim>\<open>ErrorType\<close>: the arguments of the action that it keeps, the error and its text. The actions that
  store a plain string put a default for the text that is not there.
\<close>

record action_error =
  ae_keys :: "string list"
  ae_error_code :: error_code
  ae_error_string :: "string option"

definition no_error_string :: "string option \<Rightarrow> string option" where
  "no_error_string text =
     Some (case text of Some str \<Rightarrow> str | None \<Rightarrow> ''No error string provided'')"

text \<open>What distinguishes the actions: the request, and the error made of a failed response.\<close>

record action_class =
  ac_request :: api_request
  ac_error :: "error_code \<Rightarrow> string option \<Rightarrow> action_error"

definition CreateFolder :: "string \<Rightarrow> string \<Rightarrow> action_class" where
  "CreateFolder folder_name parent_folder_key =
     \<lparr>ac_request = Folder_Create folder_name parent_folder_key,
      ac_error = \<lambda>ec text. \<lparr>ae_keys = [], ae_error_code = ec, ae_error_string = text\<rparr>\<rparr>"

definition DeleteFile :: "string \<Rightarrow> action_class" where
  "DeleteFile quick_key =
     \<lparr>ac_request = File_Delete quick_key,
      ac_error = \<lambda>ec text. \<lparr>ae_keys = [], ae_error_code = ec, ae_error_string = text\<rparr>\<rparr>"

definition DeleteFolder :: "string \<Rightarrow> action_class" where
  "DeleteFolder folder_key =
     \<lparr>ac_request = Folder_Delete folder_key,
      ac_error = \<lambda>ec text. \<lparr>ae_keys = [], ae_error_code = ec, ae_error_string = text\<rparr>\<rparr>"

definition GetInfoFile :: "string \<Rightarrow> action_class" where
  "GetInfoFile folder_key =
     \<lparr>ac_request = File_Get_Info folder_key,
      ac_error = \<lambda>ec text. \<lparr>ae_keys = [folder_key], ae_error_code = ec,
        ae_error_string = no_error_string text\<rparr>\<rparr>"

definition GetInfoFolder :: "string \<Rightarrow> action_class" where
  "GetInfoFolder folder_key =
     \<lparr>ac_request = Folder_Get_Info folder_key,
      ac_error = \<lambda>ec text. \<lparr>ae_keys = [folder_key], ae_error_code = ec,
        ae_error_string = text\<rparr>\<rparr>"

definition MoveFile :: "string \<Rightarrow> string \<Rightarrow> action_class" where
  "MoveFile quick_key destination_parent_folder_key =
     \<lparr>ac_request = File_Move quick_key destination_parent_folder_key,
      ac_error = \<lambda>ec text. \<lparr>ae_keys = [], ae_error_code = ec, ae_error_string = text\<rparr>\<rparr>"

definition MoveFolder :: "string \<Rightarrow> string \<Rightarrow> action_class" where
  "MoveFolder folder_key destination_parent_folder_key =
     \<lparr>ac_request = Folder_Move folder_key destination_parent_folder_key,
      ac_error = \<lambda>ec text. \<lparr>ae_keys = [], ae_error_code = ec, ae_error_string = text\<rparr>\<rparr>"

text \<open>The new name is kept for the error; the request is made of the key alone.\<close>

definition RenameFile :: "string \<Rightarrow> string \<Rightarrow> action_class" where
  "RenameFile quick_key new_name =
     \<lparr>ac_request = File_Update quick_key,
      ac_error = \<lambda>ec text. \<lparr>ae_keys = [quick_key, new_name], ae_error_code = ec,
        ae_error_string = no_error_string text\<rparr>\<rparr>"

definition RenameFolder :: "string \<Rightarrow> string \<Rightarrow> action_class" where
  "RenameFolder folder_key new_name =
     \<lparr>ac_request = Folder_Update folder_key,
      ac_error = \<lambda>ec text. \<lparr>ae_keys = [folder_key, new_name], ae_error_code = ec,
        ae_error_string = no_error_string text\<rparr>\<rparr>"

text \<open>
  Its callback gets the files and folders of the response in place of the response; both are empty
  where there is none.
\<close>

definition GetForeignResourcesDevice :: action_class where
  "GetForeignResourcesDevice =
     \<lparr>ac_request = Device_Get_Foreign_Resources,
      ac_error = \<lambda>ec text. \<lparr>ae_keys = [], ae_error_code = ec, ae_error_string = text\<rparr>\<rparr>"

datatype action_stage = Created | Awaiting | Ended

record 'p response = response_base +
  rs_content :: 'p

text \<open>\<^verbatim>\<open>response_\<close> is default constructed, so it is not set at first.\<close>

record 'p single_action = coroutine +
  sa_class :: action_class
  sa_stage :: action_stage
  sa_response :: "'p response option"
  sa_errors :: "action_error list"
  sa_callbacks :: "('p response option \<times> action_error list) list"

definition single_action :: "action_class \<Rightarrow> 'p single_action" where
  "single_action c =
     \<lparr>is_cancelled = False, current_request = None, sent = [], cancels = [],
      sa_class = c, sa_stage = Created, sa_response = None, sa_errors = [], sa_callbacks = []\<rparr>"

text \<open>The handler of the response, \<^verbatim>\<open>Resume\<close>, and the rest of the body.\<close>

definition HandleSingle :: "'p response \<Rightarrow> 'p single_action \<Rightarrow> 'p single_action" where
  "HandleSingle r s =
     (let s = (if failed r
               then s\<lparr>sa_errors := sa_errors s
                        @ [ac_error (sa_class s) (rs_error_code r) (rs_error_string r)]\<rparr>
               else s\<lparr>sa_response := Some r\<rparr>);
          s = s\<lparr>current_request := None\<rparr>
      in s\<lparr>sa_stage := Ended, sa_callbacks := sa_callbacks s @ [(sa_response s, sa_errors s)]\<rparr>)"

fun single_step :: "'p response action_event \<Rightarrow> 'p single_action \<Rightarrow> 'p single_action option" where
  "single_step Ev_Start s =
     (if sa_stage s = Created
      then Some ((request_and_yield (ac_request (sa_class s)) s)\<lparr>sa_stage := Awaiting\<rparr>) else None)"
| "single_step (Ev_Response r) s =
     (if sa_stage s = Awaiting then Some (HandleSingle r s) else None)"
| "single_step Ev_Cancel s = Some (CancelAction s)"

section \<open>The changes of a device\<close>

record ('f, 'd) get_changes_response = response_base +
  gc_device_revision :: uint32
  gc_updated_files :: "'f list"
  gc_updated_folders :: "'d list"
  gc_deleted_files :: "'f list"
  gc_deleted_folders :: "'d list"

record get_status_response = response_base +
  gs_device_revision :: uint32

text \<open>
  The stage keeps \<^verbatim>\<open>start_revision\<close>; \<^verbatim>\<open>min_revision\<close> and \<^verbatim>\<open>max_revision\<close> are computed from it. The arguments
  of the callback are the revision, the four lists and the errors.
\<close>

datatype changes_stage = Not_Started | In_Status | In_Changes uint32 | Reported

record ('f, 'd) changes_report =
  cr_revision :: uint32
  cr_updated_files :: "'f list"
  cr_updated_folders :: "'d list"
  cr_deleted_files :: "'f list"
  cr_deleted_folders :: "'d list"
  cr_get_status_errors :: "(error_code \<times> string) list"
  cr_get_changes_errors :: "(uint32 \<times> error_code \<times> string) list"

record ('f, 'd) changes_action = coroutine +
  latest_known_revision :: uint32
  latest_device_revision :: uint32
  updated_files :: "'f list"
  updated_folders :: "'d list"
  deleted_files :: "'f list"
  deleted_folders :: "'d list"
  get_status_errors :: "(error_code \<times> string) list"
  get_changes_errors :: "(uint32 \<times> error_code \<times> string) list"
  ca_stage :: changes_stage
  ca_callbacks :: "('f, 'd) changes_report list"

text \<open>
  The constructor does not initialise \<^verbatim>\<open>latest_device_revision\<close>: what the memory holds is an
  argument.
\<close>

definition GetChangesDevice :: "uint32 \<Rightarrow> uint32 \<Rightarrow> ('f, 'd) changes_action" where
  "GetChangesDevice garbage known =
     \<lparr>is_cancelled = False, current_request = None, sent = [], cancels = [],
      latest_known_revision = known, latest_device_revision = garbage,
      updated_files = [], updated_folders = [], deleted_files = [], deleted_folders = [],
      get_status_errors = [], get_changes_errors = [], ca_stage = Not_Started, ca_callbacks = []\<rparr>"

text \<open>\<^verbatim>\<open>max_revision\<close> for a given \<^verbatim>\<open>start_revision\<close>\<close>

definition max_revision :: "uint32 \<Rightarrow> uint32" where
  "max_revision start_revision =
     (let min_revision = start_revision + 1 in (min_revision div 500 + 1) * 500)"

definition error_text :: "string \<Rightarrow> 'z response_base_scheme \<Rightarrow> string" where
  "error_text none r = (case rs_error_string r of Some str \<Rightarrow> str | None \<Rightarrow> none)"

text \<open>From the head of the loop to the next yield, or to the end of the body.\<close>

definition changes_loop :: "uint32 \<Rightarrow> ('f, 'd) changes_action \<Rightarrow> ('f, 'd) changes_action" where
  "changes_loop start s =
     (if start < latest_device_revision s \<and> \<not> is_cancelled s
      then (request_and_yield (Device_Get_Changes start) s)\<lparr>ca_stage := In_Changes start\<rparr>
      else s\<lparr>ca_stage := Reported, ca_callbacks := ca_callbacks s @
        [\<lparr>cr_revision = latest_device_revision s,
          cr_updated_files = updated_files s, cr_updated_folders = updated_folders s,
          cr_deleted_files = deleted_files s, cr_deleted_folders = deleted_folders s,
          cr_get_status_errors = get_status_errors s,
          cr_get_changes_errors = get_changes_errors s\<rparr>]\<rparr>)"

definition HandleDeviceGetStatus ::
  "get_status_response \<Rightarrow> ('f, 'd) changes_action \<Rightarrow> ('f, 'd) changes_action" where
  "HandleDeviceGetStatus r s =
     (let s = (if failed r
               then s\<lparr>get_status_errors := get_status_errors s
                        @ [(rs_error_code r, error_text ''No error string provided'' r)]\<rparr>
               else s\<lparr>latest_device_revision := gs_device_revision r\<rparr>)
      in changes_loop (latest_known_revision s) (s\<lparr>current_request := None\<rparr>))"

definition insert_changes ::
  "('f, 'd) get_changes_response \<Rightarrow> ('f, 'd) changes_action \<Rightarrow> ('f, 'd) changes_action" where
  "insert_changes r s =
     s\<lparr>updated_files := updated_files s @ gc_updated_files r,
       updated_folders := updated_folders s @ gc_updated_folders r,
       deleted_files := deleted_files s @ gc_deleted_files r,
       deleted_folders := deleted_folders s @ gc_deleted_folders r\<rparr>"

definition HandleDeviceGetChanges ::
  "uint32 \<Rightarrow> ('f, 'd) get_changes_response \<Rightarrow> ('f, 'd) changes_action \<Rightarrow> ('f, 'd) changes_action" where
  "HandleDeviceGetChanges start r s =
     (let s = (if failed r
               then s\<lparr>get_changes_errors := get_changes_errors s
                        @ [(start, rs_error_code r, error_text ''No error string provided '' r)]\<rparr>
               else insert_changes r s)
      in changes_loop (max_revision start) (s\<lparr>current_request := None\<rparr>))"

datatype ('f, 'd) changes_response =
  Status get_status_response | Changes "('f, 'd) get_changes_response"

text \<open>
  The response has the type of the request: each stage takes its own kind.
\<close>

fun changes_step :: "('f, 'd) changes_response action_event \<Rightarrow> ('f, 'd) changes_action \<Rightarrow>
    ('f, 'd) changes_action option" where
  "changes_step Ev_Start s =
     (if ca_stage s = Not_Started
      then Some ((request_and_yield Device_Get_Status s)\<lparr>ca_stage := In_Status\<rparr>) else None)"
| "changes_step (Ev_Response r) s =
     (case (ca_stage s, r) of
        (In_Status, Status r) \<Rightarrow> Some (HandleDeviceGetStatus r s)
      | (In_Changes start, Changes r) \<Rightarrow> Some (HandleDeviceGetChanges start r s)
      | _ \<Rightarrow> None)"
| "changes_step Ev_Cancel s = Some (CancelAction s)"

section \<open>The changes of the shared resources of a contact\<close>

record ('f, 'd) foreign_report =
  fr_revision :: uint32
  fr_updated_files :: "'f list"
  fr_updated_folders :: "'d list"
  fr_deleted_files :: "'f list"
  fr_deleted_folders :: "'d list"
  fr_errors :: "(error_code \<times> string option) list"

record ('f, 'd) foreign_action = coroutine +
  fa_contact_key :: string
  fa_known_revision :: uint32
  fa_device_revision :: uint32
  fa_updated_files :: "'f list"
  fa_updated_folders :: "'d list"
  fa_deleted_files :: "'f list"
  fa_deleted_folders :: "'d list"
  fa_errors :: "(error_code \<times> string option) list"
  fa_stage :: changes_stage
  fa_callbacks :: "('f, 'd) foreign_report list"

text \<open>\<^verbatim>\<open>latest_device_revision\<close> begins as the largest value of its type.\<close>

definition GetForeignChangesDevice :: "string \<Rightarrow> uint32 \<Rightarrow> ('f, 'd) foreign_action" where
  "GetForeignChangesDevice contact_key known =
     \<lparr>is_cancelled = False, current_request = None, sent = [], cancels = [],
      fa_contact_key = contact_key, fa_known_revision = known, fa_device_revision = -1,
      fa_updated_files = [], fa_updated_folders = [], fa_deleted_files = [],
      fa_deleted_folders = [], fa_errors = [], fa_stage = Not_Started, fa_callbacks = []\<rparr>"

definition foreign_loop :: "uint32 \<Rightarrow> ('f, 'd) foreign_action \<Rightarrow> ('f, 'd) foreign_action" where
  "foreign_loop start s =
     (if start < fa_device_revision s \<and> \<not> is_cancelled s
      then (request_and_yield (Device_Get_Foreign_Changes start (fa_contact_key s)) s)
             \<lparr>fa_stage := In_Changes start\<rparr>
      else s\<lparr>fa_stage := Reported, fa_callbacks := fa_callbacks s @
        [\<lparr>fr_revision = start,
          fr_updated_files = fa_updated_files s, fr_updated_folders = fa_updated_folders s,
          fr_deleted_files = fa_deleted_files s, fr_deleted_folders = fa_deleted_folders s,
          fr_errors = fa_errors s\<rparr>]\<rparr>)"

text \<open>\<^verbatim>\<open>folderkey\<close> reads the key of a folder; the folder \<^verbatim>\<open>trash\<close> is left out.\<close>

definition HandleDeviceGetForeignChanges ::
  "('d \<Rightarrow> string) \<Rightarrow> uint32 \<Rightarrow> ('f, 'd) get_changes_response \<Rightarrow>
   ('f, 'd) foreign_action \<Rightarrow> ('f, 'd) foreign_action" where
  "HandleDeviceGetForeignChanges folderkey start r s =
     (let s = (if failed r
               then s\<lparr>fa_errors := fa_errors s @ [(rs_error_code r, rs_error_string r)]\<rparr>
               else s\<lparr>fa_updated_files := fa_updated_files s @ gc_updated_files r,
                      fa_updated_folders := fa_updated_folders s
                        @ filter (\<lambda>d. folderkey d \<noteq> ''trash'') (gc_updated_folders r),
                      fa_deleted_files := fa_deleted_files s @ gc_deleted_files r,
                      fa_deleted_folders := fa_deleted_folders s @ gc_deleted_folders r,
                      fa_device_revision := gc_device_revision r\<rparr>)
      in foreign_loop (max_revision start) (s\<lparr>current_request := None\<rparr>))"

fun foreign_step :: "('d \<Rightarrow> string) \<Rightarrow> ('f, 'd) get_changes_response action_event \<Rightarrow>
    ('f, 'd) foreign_action \<Rightarrow> ('f, 'd) foreign_action option" where
  "foreign_step folderkey Ev_Start s =
     (if fa_stage s = Not_Started then Some (foreign_loop (fa_known_revision s) s) else None)"
| "foreign_step folderkey (Ev_Response r) s =
     (case fa_stage s of
        In_Changes start \<Rightarrow> Some (HandleDeviceGetForeignChanges folderkey start r s)
      | _ \<Rightarrow> None)"
| "foreign_step folderkey Ev_Cancel s = Some (CancelAction s)"

section \<open>The callback of an action\<close>

lemma CancelAction_frame [simp]:
  "sa_stage (CancelAction s) = sa_stage s" "sa_callbacks (CancelAction s) = sa_callbacks s"
  "sa_class (CancelAction s) = sa_class s" "sa_errors (CancelAction s) = sa_errors s"
  "sa_response (CancelAction s) = sa_response s"
  "ca_stage (CancelAction c) = ca_stage c" "ca_callbacks (CancelAction c) = ca_callbacks c"
  "fa_stage (CancelAction f) = fa_stage f" "fa_callbacks (CancelAction f) = fa_callbacks f"
  by (simp_all add: coroutine_defs split: option.split)

lemma request_and_yield_frame [simp]:
  "sa_callbacks (request_and_yield q s) = sa_callbacks s"
  "ca_callbacks (request_and_yield q c) = ca_callbacks c"
  "fa_callbacks (request_and_yield q f) = fa_callbacks f"
  by (simp_all add: coroutine_defs Let_def split: option.split)

interpretation single: action_contract single_step "\<lambda>s. sa_stage s = Ended"
    "\<lambda>s. sa_stage s = Awaiting" "\<lambda>s. length (sa_callbacks s)"
proof
  fix e :: "'a response action_event" and s s'
  show "single_step e s = Some s' \<Longrightarrow>
      length (sa_callbacks s') = length (sa_callbacks s)
        + (if sa_stage s' = Ended \<and> sa_stage s \<noteq> Ended then 1 else 0)"
    "single_step e s = Some s' \<Longrightarrow> sa_stage s = Ended \<Longrightarrow> sa_stage s' = Ended"
    "single_step e s = Some s' \<Longrightarrow> e = Ev_Start \<or> sa_stage s = Awaiting \<Longrightarrow>
      sa_stage s' = Awaiting \<or> sa_stage s' = Ended"
    by (cases e; auto simp: HandleSingle_def Let_def split: if_splits)+
qed auto

text \<open>The two loops end the body with one callback, or wait for the next response.\<close>

lemma loops_told [simp]:
  "length (ca_callbacks (changes_loop start s)) = length (ca_callbacks s)
     + (if ca_stage (changes_loop start s) = Reported then 1 else 0)"
  "length (fa_callbacks (foreign_loop start f)) = length (fa_callbacks f)
     + (if fa_stage (foreign_loop start f) = Reported then 1 else 0)"
  by (simp_all add: changes_loop_def foreign_loop_def)

lemma loops_stage:
  "ca_stage (changes_loop start s) = In_Changes start \<or> ca_stage (changes_loop start s) = Reported"
  "fa_stage (foreign_loop start f) = In_Changes start \<or> fa_stage (foreign_loop start f) = Reported"
  by (simp_all add: changes_loop_def foreign_loop_def)

lemma handlers_told [simp]:
  "length (ca_callbacks (HandleDeviceGetStatus r s)) = length (ca_callbacks s)
     + (if ca_stage (HandleDeviceGetStatus r s) = Reported then 1 else 0)"
  "length (ca_callbacks (HandleDeviceGetChanges start c s)) = length (ca_callbacks s)
     + (if ca_stage (HandleDeviceGetChanges start c s) = Reported then 1 else 0)"
  "length (fa_callbacks (HandleDeviceGetForeignChanges folderkey start c f)) = length (fa_callbacks f)
     + (if fa_stage (HandleDeviceGetForeignChanges folderkey start c f) = Reported then 1 else 0)"
  by (simp_all add: HandleDeviceGetStatus_def HandleDeviceGetChanges_def
      HandleDeviceGetForeignChanges_def Let_def insert_changes_def)

abbreviation in_changes :: "changes_stage \<Rightarrow> bool" where
  "in_changes st \<equiv> st = In_Status \<or> (\<exists>start. st = In_Changes start)"

lemma handlers_stage:
  "in_changes (ca_stage (HandleDeviceGetStatus r s)) \<or> ca_stage (HandleDeviceGetStatus r s) = Reported"
  "in_changes (ca_stage (HandleDeviceGetChanges start c s))
     \<or> ca_stage (HandleDeviceGetChanges start c s) = Reported"
  "in_changes (fa_stage (HandleDeviceGetForeignChanges folderkey start c f))
     \<or> fa_stage (HandleDeviceGetForeignChanges folderkey start c f) = Reported"
  unfolding HandleDeviceGetStatus_def HandleDeviceGetChanges_def
    HandleDeviceGetForeignChanges_def Let_def
  using loops_stage by blast+

interpretation changes: action_contract changes_step "\<lambda>s. ca_stage s = Reported"
    "\<lambda>s. in_changes (ca_stage s)" "\<lambda>s. length (ca_callbacks s)"
proof
  fix e :: "('a, 'b) changes_response action_event" and s s'
  show "changes_step e s = Some s' \<Longrightarrow>
      length (ca_callbacks s') = length (ca_callbacks s)
        + (if ca_stage s' = Reported \<and> ca_stage s \<noteq> Reported then 1 else 0)"
    "changes_step e s = Some s' \<Longrightarrow> ca_stage s = Reported \<Longrightarrow> ca_stage s' = Reported"
    by (cases e; auto split: if_splits changes_stage.splits changes_response.splits)+
  show "changes_step e s = Some s' \<Longrightarrow> e = Ev_Start \<or> in_changes (ca_stage s) \<Longrightarrow>
      in_changes (ca_stage s') \<or> ca_stage s' = Reported"
    using handlers_stage(1) [of _ s] handlers_stage(2) [of _ _ s]
    by (cases e; auto split: if_splits changes_stage.splits changes_response.splits; fail)
next
  fix s :: "('a, 'b) changes_action"
  show "in_changes (ca_stage s) \<Longrightarrow> \<exists>r s'. changes_step (Ev_Response r) s = Some s'"
    by (auto intro: exI [of _ "Status r" for r] exI [of _ "Changes r" for r])
qed

interpretation foreign: action_contract "foreign_step folderkey" "\<lambda>s. fa_stage s = Reported"
    "\<lambda>s. \<exists>start. fa_stage s = In_Changes start" "\<lambda>s. length (fa_callbacks s)"
  for folderkey
proof
  fix e :: "('b, 'a) get_changes_response action_event" and s s'
  show "foreign_step folderkey e s = Some s' \<Longrightarrow>
      length (fa_callbacks s') = length (fa_callbacks s)
        + (if fa_stage s' = Reported \<and> fa_stage s \<noteq> Reported then 1 else 0)"
    "foreign_step folderkey e s = Some s' \<Longrightarrow> fa_stage s = Reported \<Longrightarrow> fa_stage s' = Reported"
    by (cases e; auto split: if_splits changes_stage.splits)+
  show "foreign_step folderkey e s = Some s' \<Longrightarrow> e = Ev_Start \<or> (\<exists>start. fa_stage s = In_Changes start) \<Longrightarrow>
      (\<exists>start. fa_stage s' = In_Changes start) \<or> fa_stage s' = Reported"
    by (cases e)
      (auto simp: HandleDeviceGetForeignChanges_def Let_def foreign_loop_def
        split: if_splits changes_stage.splits)
qed auto

section \<open>The blocks of revisions\<close>

text \<open>
  The revisions from which a walk asks: the known one, and the multiples of 500 behind the one
  after it that are smaller than the latest revision.
\<close>

definition block_starts :: "nat \<Rightarrow> nat \<Rightarrow> nat list" where
  "block_starts known latest =
     (if known < latest
      then known # map ((*) 500) [Suc ((known + 1) div 500)..<(latest + 499) div 500]
      else [])"

definition next_block :: "nat \<Rightarrow> nat" where
  "next_block n = Suc ((n + 1) div 500) * 500"

lemma less_blocks: "k < (latest + 499) div 500 \<longleftrightarrow> 500 * k < (latest::nat)"
proof -
  have "k < (latest + 499) div 500 \<longleftrightarrow> Suc k * 500 \<le> latest + 499"
    by (simp only: Suc_le_eq [symmetric] less_eq_div_iff_mult_less_eq)
  then show ?thesis by auto
qed

lemma block_starts_step:
  "block_starts n latest = (if n < latest then n # block_starts (next_block n) latest else [])"
proof (cases "n < latest \<and> next_block n < latest")
  case True
  define k where "k = Suc ((n + 1) div 500)"
  have nb: "next_block n = 500 * k" by (simp add: next_block_def k_def)
  then have k: "k < (latest + 499) div 500" using True by (simp add: less_blocks)
  have div: "(500 * k + 1) div 500 = k" by simp
  have "block_starts n latest = n # map ((*) 500) [k..<(latest + 499) div 500]"
    using True by (simp add: block_starts_def k_def)
  also have "\<dots> = n # 500 * k # map ((*) 500) [Suc k..<(latest + 499) div 500]"
    by (simp only: upt_conv_Cons [OF k] list.map)
  also have "\<dots> = n # block_starts (500 * k) latest"
    using True unfolding block_starts_def div nb by simp
  finally show ?thesis using True by (simp add: nb)
next
  case False
  then have "n < latest \<Longrightarrow> \<not> Suc ((n + 1) div 500) < (latest + 499) div 500"
    unfolding less_blocks by (simp add: next_block_def)
  then have "n < latest \<Longrightarrow> [Suc ((n + 1) div 500)..<(latest + 499) div 500] = []"
    by (simp only: upt_conv_Nil not_less)
  with False show ?thesis unfolding block_starts_def by simp
qed

text \<open>Every revision from the known one on is at most 500 behind the start of a block.\<close>

lemma block_starts_cover:
  assumes "known \<le> r" and "r < latest"
  shows "\<exists>b\<in>set (block_starts known latest). b \<le> r \<and> r \<le> b + 500"
proof (cases "r < next_block known")
  case True
  then have "r \<le> known + 500" by (simp add: next_block_def)
  with assms show ?thesis by (auto simp: block_starts_def)
next
  case False
  then have "Suc ((known + 1) div 500) \<le> r div 500" by (simp add: next_block_def)
  moreover have "r div 500 < (latest + 499) div 500" using assms(2) by linarith
  ultimately have "500 * (r div 500) \<in> set (block_starts known latest)"
    using assms by (auto simp: block_starts_def)
  moreover have "500 * (r div 500) \<le> r" "r \<le> 500 * (r div 500) + 500" by linarith+
  ultimately show ?thesis by blast
qed

lemma unat_max_revision:
  assumes "unat start < 4294966999"
  shows "unat (max_revision start) = next_block (unat start)"
proof -
  have 1: "unat (start + 1) = unat start + 1"
    using assms by (subst unat_add_lem [THEN iffD1]) simp_all
  have 2: "unat ((start + 1) div 500 + 1) = (unat start + 1) div 500 + 1"
    using assms 1 by (subst unat_add_lem [THEN iffD1]) (simp_all add: unat_div)
  have "unat (((start + 1) div 500 + 1) * 500) = ((unat start + 1) div 500 + 1) * 500"
  proof (subst unat_mult_lem [THEN iffD1])
    have "(unat start + 1) div 500 < 8589934"
      using assms by (intro less_mult_imp_div_less) simp
    then show "unat ((start + 1) div 500 + 1) * unat (500 :: uint32) < 2 ^ LENGTH(32)"
      unfolding 2 by simp
  qed (simp add: 2)
  then show ?thesis by (simp add: max_revision_def next_block_def Let_def)
qed

lemma even_max_revision: "max_revision start \<noteq> - 1"
proof -
  have "even (max_revision start)" by (simp add: max_revision_def Let_def)
  moreover have "odd (- 1 :: uint32)" by simp
  ultimately show ?thesis by metis
qed

section \<open>A walk through the changes\<close>

abbreviation answered :: "('f, 'd) get_changes_response \<Rightarrow> ('f, 'd) changes_response action_event" where
  "answered r \<equiv> Ev_Response (Changes r)"

text \<open>
  What the callback is to get, for the starts of the blocks and the responses: the changes of
  the responses without an error, in order, and the others as errors.
\<close>

definition changes_collected ::
  "(uint32 \<times> ('f, 'd) get_changes_response) list \<Rightarrow> ('f, 'd) changes_action \<Rightarrow> ('f, 'd) changes_report" where
  "changes_collected answers s =
     (let good = filter (\<lambda>r. \<not> failed r) (map snd answers)
      in \<lparr>cr_revision = latest_device_revision s,
          cr_updated_files = updated_files s @ concat (map gc_updated_files good),
          cr_updated_folders = updated_folders s @ concat (map gc_updated_folders good),
          cr_deleted_files = deleted_files s @ concat (map gc_deleted_files good),
          cr_deleted_folders = deleted_folders s @ concat (map gc_deleted_folders good),
          cr_get_status_errors = get_status_errors s,
          cr_get_changes_errors = get_changes_errors s
            @ map (\<lambda>(start, r). (start, rs_error_code r, error_text ''No error string provided '' r))
                (filter (\<lambda>(_, r). failed r) answers)\<rparr>)"

lemma request_and_yield_view [simp]:
  "sent (request_and_yield q c) = sent c @ [q]"
  "is_cancelled (request_and_yield q c) = is_cancelled c"
  by (simp_all add: coroutine_defs Let_def split: option.split)

lemma request_and_yield_changes [simp]:
  "latest_known_revision (request_and_yield q s) = latest_known_revision s"
  "latest_device_revision (request_and_yield q s) = latest_device_revision s"
  "updated_files (request_and_yield q s) = updated_files s"
  "updated_folders (request_and_yield q s) = updated_folders s"
  "deleted_files (request_and_yield q s) = deleted_files s"
  "deleted_folders (request_and_yield q s) = deleted_folders s"
  "get_status_errors (request_and_yield q s) = get_status_errors s"
  "get_changes_errors (request_and_yield q s) = get_changes_errors s"
  by (simp_all add: coroutine_defs Let_def split: option.split)

lemma changes_walk:
  assumes "\<not> is_cancelled s" and "unat (latest_device_revision s) \<le> 4294966999"
    and "length rs = length (block_starts (unat start) (unat (latest_device_revision s)))"
  shows "\<exists>s'. run_events changes_step (map answered rs) (changes_loop start s) = Some s'
    \<and> ca_stage s' = Reported
    \<and> sent s' = sent s @ map (\<lambda>n. Device_Get_Changes (of_nat n))
        (block_starts (unat start) (unat (latest_device_revision s)))
    \<and> ca_callbacks s' = ca_callbacks s
        @ [changes_collected
             (zip (map of_nat (block_starts (unat start) (unat (latest_device_revision s)))) rs) s]"
  using assms
proof (induction rs arbitrary: s start)
  case Nil
  let ?L = "latest_device_revision s"
  have none: "block_starts (unat start) (unat ?L) = []" using Nil.prems(3) by simp
  then have "\<not> start < ?L" by (simp add: block_starts_def word_less_nat_alt split: if_splits)
  with none show ?case by (simp add: changes_loop_def changes_collected_def)
next
  case (Cons r rs)
  let ?L = "latest_device_revision s"
  have less: "unat start < unat ?L"
    using Cons.prems(3) by (simp add: block_starts_def split: if_splits)
  then have nb: "unat (max_revision start) = next_block (unat start)"
    using Cons.prems(2) by (intro unat_max_revision) simp
  have blocks: "block_starts (unat start) (unat ?L)
      = unat start # block_starts (unat (max_revision start)) (unat ?L)"
    using less nb by (subst block_starts_step) simp
  define t where "t = (request_and_yield (Device_Get_Changes start) s)\<lparr>ca_stage := In_Changes start\<rparr>"
  have loop: "changes_loop start s = t"
    using less Cons.prems(1) by (simp add: changes_loop_def t_def word_less_nat_alt)
  define u where "u = (if failed r
      then t\<lparr>get_changes_errors := get_changes_errors t
             @ [(start, rs_error_code r, error_text ''No error string provided '' r)]\<rparr>
      else insert_changes r t)\<lparr>current_request := None\<rparr>"
  have step: "changes_step (answered r) t = Some (changes_loop (max_revision start) u)"
    by (simp add: t_def u_def HandleDeviceGetChanges_def Let_def)
  have u: "\<not> is_cancelled u" "latest_device_revision u = ?L"
    "sent u = sent s @ [Device_Get_Changes start]" "ca_callbacks u = ca_callbacks s"
    using Cons.prems(1) by (simp_all add: u_def t_def insert_changes_def)
  have view: "changes_collected answers u = changes_collected ((start, r) # answers) s" for answers
    by (simp add: changes_collected_def u_def t_def insert_changes_def Let_def)
  show ?case
    using Cons.IH [of u "max_revision start"] Cons.prems(2,3) u
    by (simp add: blocks loop step view del: changes_step.simps)
qed


text \<open>Three blocks, of which the second fails.\<close>

definition ok_changes :: "string list \<Rightarrow> (string, string) get_changes_response" where
  "ok_changes files = \<lparr>rs_error_code = no_error, rs_error_string = None, gc_device_revision = 1200,
     gc_updated_files = files, gc_updated_folders = [], gc_deleted_files = [],
     gc_deleted_folders = []\<rparr>"

definition bad_changes :: "(string, string) get_changes_response" where
  "bad_changes = (ok_changes [])\<lparr>rs_error_code := api_error UnknownApiError\<rparr>"

definition ok_status :: get_status_response where
  "ok_status = \<lparr>rs_error_code = no_error, rs_error_string = None, gs_device_revision = 1200\<rparr>"


section \<open>A walk through the changes of a contact\<close>

lemma request_and_yield_foreign [simp]:
  "fa_device_revision (request_and_yield q f) = fa_device_revision f"
  by (simp add: coroutine_defs Let_def split: option.split)

lemma CancelRequest_none: "current_request s = None \<Longrightarrow> CancelRequest s = s"
  by (simp add: CancelRequest_def)

text \<open>
  C39: As long as no response tells the latest revision the action asks on: its loop does not end when
  every request fails, not even after all the revisions there are.
\<close>

lemma foreign_walk_fails:
  assumes "list_all failed rs" and "fa_device_revision s = -1" and "\<not> is_cancelled s" and "start \<noteq> -1"
  shows "\<exists>s' last. run_events (foreign_step folderkey) (map Ev_Response rs) (foreign_loop start s) = Some s'
    \<and> fa_stage s' = In_Changes last \<and> fa_callbacks s' = fa_callbacks s
    \<and> length (sent s') = length (sent s) + length rs + 1"
  using assms
proof (induction rs arbitrary: s start)
  case Nil
  have "start < -1" using Nil.prems(4) by (simp add: word_order.not_eq_extremum)
  with Nil show ?case by (simp add: foreign_loop_def)
next
  case (Cons r rs)
  have "start < -1" using Cons.prems(4) by (simp add: word_order.not_eq_extremum)
  define t where "t = (request_and_yield (Device_Get_Foreign_Changes start (fa_contact_key s)) s)
      \<lparr>fa_stage := In_Changes start\<rparr>"
  define u where "u = t\<lparr>fa_errors := fa_errors t @ [(rs_error_code r, rs_error_string r)],
      current_request := None\<rparr>"
  have loop: "foreign_loop start s = t"
    using \<open>start < -1\<close> Cons.prems by (simp add: foreign_loop_def t_def)
  have step: "foreign_step folderkey (Ev_Response r) t = Some (foreign_loop (max_revision start) u)"
    using Cons.prems(1) by (simp add: t_def u_def HandleDeviceGetForeignChanges_def Let_def)
  have u: "fa_device_revision u = -1" "\<not> is_cancelled u" "fa_callbacks u = fa_callbacks s"
    "length (sent u) = length (sent s) + 1"
    using Cons.prems by (simp_all add: u_def t_def)
  show ?case
    using Cons.IH [of u "max_revision start"] Cons.prems(1) u even_max_revision
    by (simp add: loop step del: foreign_step.simps)
qed

theorem foreign_changes_never_end:
  assumes "list_all failed rs" and "known \<noteq> -1"
  shows "\<exists>s last. run_events (foreign_step folderkey) (Ev_Start # map Ev_Response rs)
      (GetForeignChangesDevice contact_key known) = Some s
    \<and> fa_stage s = In_Changes last \<and> fa_callbacks s = [] \<and> length (sent s) = length rs + 1"
  using foreign_walk_fails [OF assms(1) _ _ assms(2), of "GetForeignChangesDevice contact_key known"]
  by (simp add: GetForeignChangesDevice_def)

theorem foreign_changes_never_end_witness:
  "\<exists>s last. run_events (foreign_step (\<lambda>d. d)) (Ev_Start # map Ev_Response (replicate 9000000 bad_changes))
      (GetForeignChangesDevice ''c'' 7) = Some s
    \<and> fa_stage s = In_Changes last \<and> fa_callbacks s = [] \<and> length (sent s) = 9000001"
proof -
  have "list_all failed (replicate 9000000 bad_changes)"
    by (simp add: list_all_iff bad_changes_def ok_changes_def code_defs)
  from foreign_changes_never_end [OF this, of 7 "\<lambda>d. d" "''c''"] show ?thesis by simp
qed

text \<open>
  The revision that the callback gets is the start of the block that was not asked for, which the
  contact's device may not have reached: the next walk begins there.
\<close>

theorem foreign_changes_revision:
  assumes "\<not> failed r" and "known \<noteq> -1" and "gc_device_revision r \<le> max_revision known"
  shows "map_option (\<lambda>s. map fr_revision (fa_callbacks s))
     (run_events (foreign_step folderkey) [Ev_Start, Ev_Response r]
        (GetForeignChangesDevice contact_key known)) = Some [max_revision known]"
proof -
  have "known < -1" using assms(2) by (simp add: word_order.not_eq_extremum)
  then show ?thesis
    using assms by (simp add: GetForeignChangesDevice_def foreign_loop_def coroutine_defs
        HandleDeviceGetForeignChanges_def Let_def not_less)
qed

theorem foreign_changes_revision_witness:
  "map_option (\<lambda>s. map fr_revision (fa_callbacks s))
     (run_events (foreign_step (\<lambda>d. d)) [Ev_Start, Ev_Response ((ok_changes [])\<lparr>gc_device_revision := 8\<rparr>)]
        (GetForeignChangesDevice ''c'' 7)) = Some [500]"
proof -
  have "max_revision 7 = 500" by code_simp
  then show ?thesis
    using foreign_changes_revision [of "(ok_changes [])\<lparr>gc_device_revision := 8\<rparr>" 7 "\<lambda>d. d" "''c''"]
    by (simp add: ok_changes_def no_error_def is_error_def)
qed

section \<open>The callback\<close>

lemma unless_none: "(\<And>s. x = Some s \<Longrightarrow> P s) \<Longrightarrow> case x of None \<Rightarrow> True | Some s \<Rightarrow> P s"
  by (cases x) auto


end
