(* ===== verification/Api_Folder.thy ===== *)
theory Api_Folder
  imports Api_Actions
begin

text \<open>
  \<^verbatim>\<open>GetFolderContents\<close>: the contents of a folder are read in chunks, files and folders side by side. A
  round of the loop asks for the next chunk of each kind that has more, and goes on when all
  that was asked for is answered, in whatever order.
\<close>

section \<open>State\<close>

datatype FilesOrFoldersOrBoth = Files | Folders | Both

text \<open>\<open>ct_last_chunk\<close>: \<^verbatim>\<open>chunks_remaining\<close> is \<^verbatim>\<open>LastChunk\<close>.\<close>

record ('f, 'd) content_response = response_base +
  ct_chunk_number :: uint32
  ct_last_chunk :: bool
  ct_files :: "'f list"
  ct_folders :: "'d list"

record content_error =
  ce_folder_key :: string
  ce_kind :: FilesOrFoldersOrBoth
  ce_chunk_num :: uint32
  ce_error_code :: error_code
  ce_error_string :: "string option"

text \<open>A request names the folder, the number of the chunk and the kind.\<close>

type_synonym content_request = "string \<times> nat \<times> FilesOrFoldersOrBoth"

text \<open>The number of yields that are left in the round is part of the stage.\<close>

datatype content_stage = Content_Created | Round nat | Content_Ended

text \<open>
  The local chunk numbers of the body are members here. They count from 1 and are \<^verbatim>\<open>int\<close>s, far from
  their bound.
\<close>

record ('f, 'd) folder_contents =
  fc_cancelled :: bool
  fc_folder_key :: string
  fc_kind :: FilesOrFoldersOrBoth
  file_chunks_remaining :: bool
  folder_chunks_remaining :: bool
  files_request :: "content_request option"
  folders_request :: "content_request option"
  files_chunk_num :: nat
  folders_chunk_num :: nat
  fc_files :: "'f list"
  fc_folders :: "'d list"
  fc_errors :: "content_error list"
  fc_stage :: content_stage
  fc_sent :: "content_request list"
  fc_cancels :: "content_request list"
  fc_callbacks :: "('f list \<times> 'd list \<times> content_error list) list"

definition wants_files :: "FilesOrFoldersOrBoth \<Rightarrow> bool" where
  "wants_files k \<longleftrightarrow> k = Files \<or> k = Both"

definition wants_folders :: "FilesOrFoldersOrBoth \<Rightarrow> bool" where
  "wants_folders k \<longleftrightarrow> k = Folders \<or> k = Both"

definition GetFolderContents :: "string \<Rightarrow> FilesOrFoldersOrBoth \<Rightarrow> ('f, 'd) folder_contents" where
  "GetFolderContents folder_key k =
     \<lparr>fc_cancelled = False, fc_folder_key = folder_key, fc_kind = k,
      file_chunks_remaining = wants_files k, folder_chunks_remaining = wants_folders k,
      files_request = None, folders_request = None, files_chunk_num = 1, folders_chunk_num = 1,
      fc_files = [], fc_folders = [], fc_errors = [], fc_stage = Content_Created,
      fc_sent = [], fc_cancels = [], fc_callbacks = []\<rparr>"

definition CancelContents :: "('f, 'd) folder_contents \<Rightarrow> ('f, 'd) folder_contents" where
  "CancelContents s =
     s\<lparr>fc_cancelled := True,
       fc_cancels := fc_cancels s
         @ (case files_request s of None \<Rightarrow> [] | Some q \<Rightarrow> [q])
         @ (case folders_request s of None \<Rightarrow> [] | Some q \<Rightarrow> [q])\<rparr>"

section \<open>The body\<close>

definition call_files :: "('f, 'd) folder_contents \<Rightarrow> ('f, 'd) folder_contents" where
  "call_files s =
     (let q = (fc_folder_key s, files_chunk_num s, Files);
          s = s\<lparr>files_request := Some q, fc_sent := fc_sent s @ [q]\<rparr>
      in if fc_cancelled s then s\<lparr>fc_cancels := fc_cancels s @ [q]\<rparr> else s)"

definition call_folders :: "('f, 'd) folder_contents \<Rightarrow> ('f, 'd) folder_contents" where
  "call_folders s =
     (let q = (fc_folder_key s, folders_chunk_num s, Folders);
          s = s\<lparr>folders_request := Some q, fc_sent := fc_sent s @ [q]\<rparr>
      in if fc_cancelled s then s\<lparr>fc_cancels := fc_cancels s @ [q]\<rparr> else s)"

text \<open>From the head of the loop to the first yield of a round, or to the end.\<close>

definition content_loop :: "('f, 'd) folder_contents \<Rightarrow> ('f, 'd) folder_contents" where
  "content_loop s =
     (if (folder_chunks_remaining s \<or> file_chunks_remaining s) \<and> \<not> fc_cancelled s
      then (let asks_files = (wants_files (fc_kind s) \<and> file_chunks_remaining s);
                asks_folders = (wants_folders (fc_kind s) \<and> folder_chunks_remaining s);
                s = (if asks_files then call_files s else s);
                s = (if asks_folders then call_folders s else s)
            in s\<lparr>fc_stage := Round ((if asks_files then 1 else 0) + (if asks_folders then 1 else 0))\<rparr>)
      else s\<lparr>fc_stage := Content_Ended,
             fc_callbacks := fc_callbacks s @ [(fc_files s, fc_folders s, fc_errors s)]\<rparr>)"

text \<open>\<^verbatim>\<open>Resume\<close>: the next yield of the round, or the chunk numbers and the next round.\<close>

definition resume_contents :: "nat \<Rightarrow> ('f, 'd) folder_contents \<Rightarrow> ('f, 'd) folder_contents" where
  "resume_contents n s =
     (if n > 1 then s\<lparr>fc_stage := Round (n - 1)\<rparr>
      else content_loop
        (s\<lparr>folders_chunk_num :=
             (if folder_chunks_remaining s then Suc (folders_chunk_num s) else folders_chunk_num s),
           files_chunk_num :=
             (if file_chunks_remaining s then Suc (files_chunk_num s) else files_chunk_num s)\<rparr>))"

definition HandleFolderGetContentsFiles ::
  "('f, 'd) content_response \<Rightarrow> ('f, 'd) folder_contents \<Rightarrow> ('f, 'd) folder_contents" where
  "HandleFolderGetContentsFiles r s =
     (let s = (if failed r
               then s\<lparr>fc_errors := fc_errors s @
                 [\<lparr>ce_folder_key = fc_folder_key s, ce_kind = Files, ce_chunk_num = ct_chunk_number r,
                   ce_error_code = rs_error_code r, ce_error_string = rs_error_string r\<rparr>]\<rparr>
               else s\<lparr>fc_files := fc_files s @ ct_files r,
                      file_chunks_remaining := file_chunks_remaining s \<and> \<not> ct_last_chunk r\<rparr>)
      in s\<lparr>files_request := None\<rparr>)"

definition HandleFolderGetContentsFolders ::
  "('f, 'd) content_response \<Rightarrow> ('f, 'd) folder_contents \<Rightarrow> ('f, 'd) folder_contents" where
  "HandleFolderGetContentsFolders r s =
     (let s = (if failed r
               then s\<lparr>fc_errors := fc_errors s @
                 [\<lparr>ce_folder_key = fc_folder_key s, ce_kind = Folders, ce_chunk_num = ct_chunk_number r,
                   ce_error_code = rs_error_code r,
                   ce_error_string = no_error_string (rs_error_string r)\<rparr>]\<rparr>
               else s\<lparr>fc_folders := fc_folders s @ ct_folders r,
                      folder_chunks_remaining := folder_chunks_remaining s \<and> \<not> ct_last_chunk r\<rparr>)
      in s\<lparr>folders_request := None\<rparr>)"

datatype 'r content_event = Content_Start | Files_Response 'r | Folders_Response 'r | Content_Cancel

fun content_step :: "('f, 'd) content_response content_event \<Rightarrow> ('f, 'd) folder_contents \<Rightarrow>
    ('f, 'd) folder_contents option" where
  "content_step Content_Start s =
     (if fc_stage s = Content_Created then Some (content_loop s) else None)"
| "content_step (Files_Response r) s =
     (case (fc_stage s, files_request s) of
        (Round n, Some q) \<Rightarrow> Some (resume_contents n (HandleFolderGetContentsFiles r s))
      | _ \<Rightarrow> None)"
| "content_step (Folders_Response r) s =
     (case (fc_stage s, folders_request s) of
        (Round n, Some q) \<Rightarrow> Some (resume_contents n (HandleFolderGetContentsFolders r s))
      | _ \<Rightarrow> None)"
| "content_step Content_Cancel s = Some (CancelContents s)"

section \<open>A server with the chunks of a folder\<close>

text \<open>
  The chunks of one kind that a server has: all of them are responses without an error, and the
  last one says that it is the last.
\<close>

definition chunks_ok :: "('f, 'd) content_response list \<Rightarrow> bool" where
  "chunks_ok ps \<longleftrightarrow> list_all (\<lambda>r. \<not> failed r) ps
     \<and> (case rev ps of [] \<Rightarrow> True | r # rs \<Rightarrow> ct_last_chunk r \<and> list_all (\<lambda>r. \<not> ct_last_chunk r) rs)"

text \<open>The environment answers one of the requests with the chunk that it asks for.\<close>

fun answer_step :: "('f, 'd) content_response list \<Rightarrow> ('f, 'd) content_response list \<Rightarrow> bool \<Rightarrow>
    ('f, 'd) folder_contents \<Rightarrow> ('f, 'd) folder_contents option" where
  "answer_step fs ds files s =
     (if files
      then (case files_request s of
              Some (key, n, k) \<Rightarrow> content_step (Files_Response (fs ! (n - 1))) s | None \<Rightarrow> None)
      else (case folders_request s of
              Some (key, n, k) \<Rightarrow> content_step (Folders_Response (ds ! (n - 1))) s | None \<Rightarrow> None))"

text \<open>
  One kind of content while its chunks are read: \<open>n\<close> chunks have been taken, and if there are more
  the next one is asked for, or waits for the round to end.
\<close>

definition asked :: "FilesOrFoldersOrBoth \<Rightarrow> ('f, 'd) folder_contents \<Rightarrow> nat list" where
  "asked k s = map (\<lambda>(_, n, _). n) (filter (\<lambda>(_, _, k'). k' = k) (fc_sent s))"

definition kind_ok :: "('r \<Rightarrow> 'c list) \<Rightarrow> 'r list \<Rightarrow> bool \<Rightarrow> content_request option \<Rightarrow> nat \<Rightarrow>
    'c list \<Rightarrow> nat list \<Rightarrow> bool \<Rightarrow> bool" where
  "kind_ok sel ps remaining q num taken nums at_head \<longleftrightarrow>
     (\<exists>n. n \<le> length ps \<and> taken = concat (map sel (take n ps)) \<and> (remaining \<longleftrightarrow> n < length ps)
        \<and> nums = [1..<Suc (if q = None then n else Suc n)]
        \<and> (q \<noteq> None \<longrightarrow> remaining \<and> num = Suc n)
        \<and> (q = None \<and> remaining \<longrightarrow> num = (if at_head then Suc n else n)))"

lemma kind_ok_ask:
  "kind_ok sel ps True None num taken nums True \<Longrightarrow>
   kind_ok sel ps True (Some (key, num, k)) num taken (nums @ [num]) b"
  unfolding kind_ok_def by (elim exE, rule_tac x = n in exI) simp

lemma kind_ok_next:
  "kind_ok sel ps remaining None num taken nums False \<Longrightarrow>
   kind_ok sel ps remaining None (if remaining then Suc num else num) taken nums True"
  unfolding kind_ok_def by (elim exE, rule_tac x = n in exI) simp

lemma kind_ok_rest:
  "kind_ok sel ps False None num taken nums True \<Longrightarrow> kind_ok sel ps False None num taken nums False"
  by (simp add: kind_ok_def)

lemma chunks_ok_nth:
  assumes "chunks_ok ps" and "n < length ps"
  shows "\<not> failed (ps ! n)" and "ct_last_chunk (ps ! n) \<longleftrightarrow> Suc n = length ps"
proof -
  show "\<not> failed (ps ! n)" using assms by (auto simp: chunks_ok_def list_all_length)
  obtain r rs where rev: "rev ps = r # rs" using assms(2) by (cases "rev ps") auto
  then have ps: "ps = rev rs @ [r]" by (metis rev.simps(2) rev_rev_ident)
  then have "ct_last_chunk r" "list_all (\<lambda>r. \<not> ct_last_chunk r) (rev rs)"
    using assms(1) rev by (simp_all add: chunks_ok_def)
  then show "ct_last_chunk (ps ! n) \<longleftrightarrow> Suc n = length ps"
    using assms(2) unfolding ps by (auto simp: nth_append list_all_length less_Suc_eq)
qed

lemma kind_ok_take:
  assumes "kind_ok sel ps True (Some q) num taken nums b" and "chunks_ok ps" and "r = ps ! (num - 1)"
  shows "\<not> failed r" and "kind_ok sel ps (\<not> ct_last_chunk r) None num (taken @ sel r) nums False"
proof -
  obtain n where n: "taken = concat (map sel (take n ps))" "n < length ps" "num = Suc n"
      "nums = [1..<Suc (Suc n)]"
    using assms(1) by (auto simp: kind_ok_def)
  show "\<not> failed r" using chunks_ok_nth(1) [OF assms(2) n(2)] n(3) assms(3) by simp
  have "take (Suc n) ps = take n ps @ [r]"
    using n assms(3) by (simp add: take_Suc_conv_app_nth)
  then have "taken @ sel r = concat (map sel (take (Suc n) ps))" using n(1) by simp
  moreover have "ct_last_chunk r \<longleftrightarrow> Suc n = length ps"
    using chunks_ok_nth(2) [OF assms(2) n(2)] n(3) assms(3) by simp
  ultimately show "kind_ok sel ps (\<not> ct_last_chunk r) None num (taken @ sel r) nums False"
    using n(2-4) unfolding kind_ok_def by (intro exI [of _ "Suc n"]) auto
qed

section \<open>The invariant of the reading\<close>

definition both_ok :: "('f, 'd) content_response list \<Rightarrow> ('f, 'd) content_response list \<Rightarrow> bool \<Rightarrow>
    ('f, 'd) folder_contents \<Rightarrow> bool" where
  "both_ok fs ds at_head s \<longleftrightarrow>
     \<not> fc_cancelled s \<and> fc_errors s = []
     \<and> (file_chunks_remaining s \<longrightarrow> wants_files (fc_kind s))
     \<and> (folder_chunks_remaining s \<longrightarrow> wants_folders (fc_kind s))
     \<and> kind_ok ct_files fs (file_chunks_remaining s) (files_request s) (files_chunk_num s)
         (fc_files s) (asked Files s) at_head
     \<and> kind_ok ct_folders ds (folder_chunks_remaining s) (folders_request s) (folders_chunk_num s)
         (fc_folders s) (asked Folders s) at_head"

definition pending :: "('f, 'd) folder_contents \<Rightarrow> nat" where
  "pending s = (if files_request s = None then 0 else 1) + (if folders_request s = None then 0 else 1)"

definition requests_fit :: "('f, 'd) folder_contents \<Rightarrow> bool" where
  "requests_fit s \<longleftrightarrow>
     (\<forall>q. files_request s = Some q \<longrightarrow> fst (snd q) = files_chunk_num s)
     \<and> (\<forall>q. folders_request s = Some q \<longrightarrow> fst (snd q) = folders_chunk_num s)"

definition reading_ok :: "('f, 'd) content_response list \<Rightarrow> ('f, 'd) content_response list \<Rightarrow>
    ('f, 'd) folder_contents \<Rightarrow> bool" where
  "reading_ok fs ds s \<longleftrightarrow> both_ok fs ds False s \<and> requests_fit s \<and>
     (case fc_stage s of
        Content_Created \<Rightarrow> False
      | Round n \<Rightarrow> n = pending s \<and> n \<noteq> 0 \<and> fc_callbacks s = []
      | Content_Ended \<Rightarrow> \<not> file_chunks_remaining s \<and> \<not> folder_chunks_remaining s \<and> pending s = 0
          \<and> fc_callbacks s = [(fc_files s, fc_folders s, [])])"

lemma content_loop_ok:
  assumes ok: "both_ok fs ds True s" and none: "files_request s = None" "folders_request s = None"
    and cb: "fc_callbacks s = []"
  shows "reading_ok fs ds (content_loop s)"
proof (cases "folder_chunks_remaining s \<or> file_chunks_remaining s")
  case False
  then show ?thesis
    using assms
    by (auto simp: content_loop_def reading_ok_def both_ok_def requests_fit_def pending_def asked_def
        intro: kind_ok_rest)
next
  case True
  then show ?thesis
    using assms
    by (auto simp: content_loop_def reading_ok_def both_ok_def requests_fit_def pending_def asked_def
        call_files_def call_folders_def Let_def intro: kind_ok_rest kind_ok_ask)
qed

lemma resume_contents_ok:
  assumes ok: "both_ok fs ds False s" and fit: "requests_fit s" and n: "n = Suc (pending s)"
    and cb: "fc_callbacks s = []"
  shows "reading_ok fs ds (resume_contents n s)"
proof (cases "pending s = 0")
  case True
  let ?t = "s\<lparr>folders_chunk_num :=
             (if folder_chunks_remaining s then Suc (folders_chunk_num s) else folders_chunk_num s),
           files_chunk_num :=
             (if file_chunks_remaining s then Suc (files_chunk_num s) else files_chunk_num s)\<rparr>"
  have none: "files_request s = None" "folders_request s = None"
    using True by (auto simp: pending_def split: if_splits)
  have "both_ok fs ds True ?t"
    using ok none kind_ok_next [of ct_files fs "file_chunks_remaining s" "files_chunk_num s"]
      kind_ok_next [of ct_folders ds "folder_chunks_remaining s" "folders_chunk_num s"]
    by (simp add: both_ok_def asked_def)
  then have "reading_ok fs ds (content_loop ?t)"
    using none cb by (intro content_loop_ok) simp_all
  then show ?thesis using n True by (simp add: resume_contents_def)
next
  case False
  then show ?thesis
    using ok fit n cb
    by (simp add: resume_contents_def reading_ok_def both_ok_def requests_fit_def pending_def asked_def)
qed

lemma files_taken_ok:
  assumes "both_ok fs ds False s" and "requests_fit s" and "chunks_ok fs" and "files_request s = Some (key, n, k)"
  shows "both_ok fs ds False (HandleFolderGetContentsFiles (fs ! (n - 1)) s)"
    and "requests_fit (HandleFolderGetContentsFiles (fs ! (n - 1)) s)"
    and "pending s = Suc (pending (HandleFolderGetContentsFiles (fs ! (n - 1)) s))"
    and "fc_callbacks (HandleFolderGetContentsFiles (fs ! (n - 1)) s) = fc_callbacks s"
    and "fc_stage (HandleFolderGetContentsFiles (fs ! (n - 1)) s) = fc_stage s"
proof -
  have rem: "file_chunks_remaining s" "n = files_chunk_num s"
    using assms(1,2,4) by (auto simp: both_ok_def kind_ok_def requests_fit_def)
  have "kind_ok ct_files fs True (Some (key, n, k)) n (fc_files s) (asked Files s) False"
    using assms(1,4) rem by (simp add: both_ok_def)
  note take = kind_ok_take [OF this assms(3) refl]
  show "both_ok fs ds False (HandleFolderGetContentsFiles (fs ! (n - 1)) s)"
    "requests_fit (HandleFolderGetContentsFiles (fs ! (n - 1)) s)"
    "pending s = Suc (pending (HandleFolderGetContentsFiles (fs ! (n - 1)) s))"
    "fc_callbacks (HandleFolderGetContentsFiles (fs ! (n - 1)) s) = fc_callbacks s"
    "fc_stage (HandleFolderGetContentsFiles (fs ! (n - 1)) s) = fc_stage s"
    using assms take rem
    by (simp_all add: HandleFolderGetContentsFiles_def Let_def both_ok_def requests_fit_def
        pending_def asked_def)
qed

lemma folders_taken_ok:
  assumes "both_ok fs ds False s" and "requests_fit s" and "chunks_ok ds" and "folders_request s = Some (key, n, k)"
  shows "both_ok fs ds False (HandleFolderGetContentsFolders (ds ! (n - 1)) s)"
    and "requests_fit (HandleFolderGetContentsFolders (ds ! (n - 1)) s)"
    and "pending s = Suc (pending (HandleFolderGetContentsFolders (ds ! (n - 1)) s))"
    and "fc_callbacks (HandleFolderGetContentsFolders (ds ! (n - 1)) s) = fc_callbacks s"
    and "fc_stage (HandleFolderGetContentsFolders (ds ! (n - 1)) s) = fc_stage s"
proof -
  have rem: "folder_chunks_remaining s" "n = folders_chunk_num s"
    using assms(1,2,4) by (auto simp: both_ok_def kind_ok_def requests_fit_def)
  have "kind_ok ct_folders ds True (Some (key, n, k)) n (fc_folders s) (asked Folders s) False"
    using assms(1,4) rem by (simp add: both_ok_def)
  note take = kind_ok_take [OF this assms(3) refl]
  show "both_ok fs ds False (HandleFolderGetContentsFolders (ds ! (n - 1)) s)"
    "requests_fit (HandleFolderGetContentsFolders (ds ! (n - 1)) s)"
    "pending s = Suc (pending (HandleFolderGetContentsFolders (ds ! (n - 1)) s))"
    "fc_callbacks (HandleFolderGetContentsFolders (ds ! (n - 1)) s) = fc_callbacks s"
    "fc_stage (HandleFolderGetContentsFolders (ds ! (n - 1)) s) = fc_stage s"
    using assms take rem
    by (simp_all add: HandleFolderGetContentsFolders_def Let_def both_ok_def requests_fit_def
        pending_def asked_def)
qed

lemma answer_step_ok:
  assumes "reading_ok fs ds s" and "chunks_ok fs" and "chunks_ok ds"
    and step: "answer_step fs ds files s = Some s'"
  shows "reading_ok fs ds s'"
proof -
  obtain m where st: "fc_stage s = Round m"
    using step by (auto split: if_splits option.splits content_stage.splits)
  then have ok: "both_ok fs ds False s" "requests_fit s" "m = pending s" "fc_callbacks s = []"
    using assms(1) by (simp_all add: reading_ok_def)
  show ?thesis
  proof (cases files)
    case True
    then obtain key n k where q: "files_request s = Some (key, n, k)"
      and s': "s' = resume_contents m (HandleFolderGetContentsFiles (fs ! (n - 1)) s)"
      using step st by (auto split: option.splits)
    show ?thesis
      using files_taken_ok [OF ok(1,2) assms(2) q] ok(3,4)
      unfolding s' by (intro resume_contents_ok) simp_all
  next
    case False
    then obtain key n k where q: "folders_request s = Some (key, n, k)"
      and s': "s' = resume_contents m (HandleFolderGetContentsFolders (ds ! (n - 1)) s)"
      using step st by (auto split: option.splits)
    show ?thesis
      using folders_taken_ok [OF ok(1,2) assms(3) q] ok(3,4)
      unfolding s' by (intro resume_contents_ok) simp_all
  qed
qed

lemma answers_ok:
  assumes "run_events (answer_step fs ds) choices s = Some s'" and "reading_ok fs ds s"
    and "chunks_ok fs" and "chunks_ok ds"
  shows "reading_ok fs ds s'"
  using assms
proof (induction choices arbitrary: s)
  case (Cons c choices)
  obtain t where t: "answer_step fs ds c s = Some t" "run_events (answer_step fs ds) choices t = Some s'"
    using Cons.prems(1) by (rule run_events_Cons)
  show ?case
    by (rule Cons.IH [OF t(2) answer_step_ok [OF Cons.prems(2-4) t(1)] Cons.prems(3,4)])
qed simp

lemma created_ok:
  assumes "fs \<noteq> [] \<longleftrightarrow> wants_files k" and "ds \<noteq> [] \<longleftrightarrow> wants_folders k"
  shows "reading_ok fs ds (content_loop (GetFolderContents key k))"
proof (rule content_loop_ok)
  show "both_ok fs ds True (GetFolderContents key k)"
    using assms
    by (auto simp: both_ok_def GetFolderContents_def asked_def kind_ok_def intro!: exI [of _ 0])
qed (simp_all add: GetFolderContents_def)
text \<open>Every answer is one request that is not pending any more.\<close>

lemma content_loop_asked:
  assumes "files_request s = None" and "folders_request s = None"
  shows "length (asked Files (content_loop s)) + length (asked Folders (content_loop s))
    = length (asked Files s) + length (asked Folders s) + pending (content_loop s)"
  using assms
  by (simp add: content_loop_def asked_def pending_def call_files_def call_folders_def Let_def)

lemma resume_contents_asked:
  assumes "pending s = n - 1"
  shows "length (asked Files (resume_contents n s)) + length (asked Folders (resume_contents n s)) + pending s
    = length (asked Files s) + length (asked Folders s) + pending (resume_contents n s)"
proof (cases "n > 1")
  case True
  then show ?thesis by (simp add: resume_contents_def asked_def pending_def)
next
  case False
  then have "files_request s = None" "folders_request s = None"
    using assms by (auto simp: pending_def split: if_splits)
  with False show ?thesis
    by (simp add: resume_contents_def content_loop_asked) (simp add: asked_def pending_def)
qed

lemma handlers_asked [simp]:
  "asked k (HandleFolderGetContentsFiles r s) = asked k s"
  "asked k (HandleFolderGetContentsFolders r s) = asked k s"
  by (simp_all add: HandleFolderGetContentsFiles_def HandleFolderGetContentsFolders_def asked_def Let_def)

definition answers_taken :: "('f, 'd) folder_contents \<Rightarrow> nat" where
  "answers_taken s = length (asked Files s) + length (asked Folders s) - pending s"

lemma pending_asked:
  assumes "both_ok fs ds b s"
  shows "pending s \<le> length (asked Files s) + length (asked Folders s)"
  using assms by (auto simp: both_ok_def pending_def kind_ok_def)

lemma answer_step_taken:
  assumes "reading_ok fs ds s" and "chunks_ok fs" and "chunks_ok ds"
    and step: "answer_step fs ds files s = Some s'"
  shows "answers_taken s' = Suc (answers_taken s)"
proof -
  obtain m where st: "fc_stage s = Round m"
    using step by (auto split: if_splits option.splits content_stage.splits)
  then have ok: "both_ok fs ds False s" "requests_fit s" "m = pending s"
    using assms(1) by (simp_all add: reading_ok_def)
  have ok': "both_ok fs ds False s'"
    using answer_step_ok [OF assms] by (simp add: reading_ok_def)
  obtain t where t: "s' = resume_contents m t" "pending s = Suc (pending t)"
    "length (asked Files t) = length (asked Files s)" "length (asked Folders t) = length (asked Folders s)"
  proof (cases files)
    note goal = that
    case True
    then obtain key n k where q: "files_request s = Some (key, n, k)"
      and s': "s' = resume_contents m (HandleFolderGetContentsFiles (fs ! (n - 1)) s)"
      using step st by (auto split: option.splits)
    show thesis by (rule goal [OF s' files_taken_ok(3) [OF ok(1,2) assms(2) q]]) simp_all
  next
    note goal = that
    case False
    then obtain key n k where q: "folders_request s = Some (key, n, k)"
      and s': "s' = resume_contents m (HandleFolderGetContentsFolders (ds ! (n - 1)) s)"
      using step st by (auto split: option.splits)
    show thesis by (rule goal [OF s' folders_taken_ok(3) [OF ok(1,2) assms(3) q]]) simp_all
  qed
  show ?thesis
    using resume_contents_asked [of t m] t ok(3) pending_asked [OF ok(1)] pending_asked [OF ok']
    by (simp add: answers_taken_def)
qed

lemma answers_counted:
  assumes "run_events (answer_step fs ds) choices s = Some s'" and "reading_ok fs ds s"
    and "chunks_ok fs" and "chunks_ok ds"
  shows "answers_taken s' = answers_taken s + length choices"
  using assms
proof (induction choices arbitrary: s)
  case (Cons c choices)
  obtain t where t: "answer_step fs ds c s = Some t" "run_events (answer_step fs ds) choices t = Some s'"
    using Cons.prems(1) by (rule run_events_Cons)
  show ?case
    using Cons.IH [OF t(2) answer_step_ok [OF Cons.prems(2-4) t(1)] Cons.prems(3,4)]
      answer_step_taken [OF Cons.prems(2-4) t(1)] by simp
qed simp

lemma reading_counted:
  assumes "reading_ok fs ds s"
  shows "answers_taken s \<le> length fs + length ds"
    and "fc_stage s = Content_Ended \<longleftrightarrow> answers_taken s = length fs + length ds"
    and "fc_stage s = Content_Ended \<Longrightarrow>
      fc_callbacks s = [(concat (map ct_files fs), concat (map ct_folders ds), [])]
      \<and> asked Files s = [1..<Suc (length fs)] \<and> asked Folders s = [1..<Suc (length ds)]"
proof -
  obtain n where n: "n \<le> length fs" "fc_files s = concat (map ct_files (take n fs))"
      "file_chunks_remaining s \<longleftrightarrow> n < length fs"
      "asked Files s = [1..<Suc (if files_request s = None then n else Suc n)]"
      "files_request s \<noteq> None \<longrightarrow> file_chunks_remaining s"
    using assms by (auto simp: reading_ok_def both_ok_def kind_ok_def)
  obtain m where m: "m \<le> length ds" "fc_folders s = concat (map ct_folders (take m ds))"
      "folder_chunks_remaining s \<longleftrightarrow> m < length ds"
      "asked Folders s = [1..<Suc (if folders_request s = None then m else Suc m)]"
      "folders_request s \<noteq> None \<longrightarrow> folder_chunks_remaining s"
    using assms by (auto simp: reading_ok_def both_ok_def kind_ok_def)
  have taken: "answers_taken s = n + m"
    using n(4) m(4) by (simp add: answers_taken_def pending_def)
  show "answers_taken s \<le> length fs + length ds" using taken n(1) m(1) by simp
  show "fc_stage s = Content_Ended \<longleftrightarrow> answers_taken s = length fs + length ds"
    using assms taken n m
    by (cases "fc_stage s") (auto simp: reading_ok_def pending_def split: if_splits)
  show "fc_stage s = Content_Ended \<Longrightarrow>
      fc_callbacks s = [(concat (map ct_files fs), concat (map ct_folders ds), [])]
      \<and> asked Files s = [1..<Suc (length fs)] \<and> asked Folders s = [1..<Suc (length ds)]"
    using assms n m by (auto simp: reading_ok_def pending_def split: if_splits)
qed

lemma new_contents [simp]:
  "files_request (GetFolderContents key k) = None" "folders_request (GetFolderContents key k) = None"
  "asked k' (GetFolderContents key k) = []" "fc_kind (GetFolderContents key k) = k"
  "file_chunks_remaining (GetFolderContents key k) = wants_files k"
  "folder_chunks_remaining (GetFolderContents key k) = wants_folders k"
  "\<not> fc_cancelled (GetFolderContents key k)" "fc_callbacks (GetFolderContents key k) = []"
  "fc_files (GetFolderContents key k) = []" "files_chunk_num (GetFolderContents key k) = 1"
  by (simp_all add: GetFolderContents_def asked_def)

section \<open>The properties of the reading\<close>


text \<open>A folder with two chunks of files and one of folders, where the folders are answered first.\<close>

definition chunk :: "bool \<Rightarrow> nat list \<Rightarrow> nat list \<Rightarrow> (nat, nat) content_response" where
  "chunk is_last files folders =
     \<lparr>rs_error_code = no_error, rs_error_string = None, ct_chunk_number = 0, ct_last_chunk = is_last,
      ct_files = files, ct_folders = folders\<rparr>"

lemma example_chunks:
  "chunks_ok [chunk False [1, 2] [], chunk True [3] []]" "chunks_ok [chunk True [] [7]]"
  by (simp_all add: chunks_ok_def chunk_def no_error_def is_error_def)


text \<open>
  An error does not end the reading and is not asked for again: with a server that fails, the
  action goes on for ever, one chunk further each time.
\<close>

lemma failing_reading:
  assumes "list_all failed rs" and "fc_kind s = Files" and "file_chunks_remaining s"
    and "\<not> folder_chunks_remaining s" and "\<not> fc_cancelled s" and "fc_callbacks s = []"
    and "files_request s = None" and "folders_request s = None"
  shows "\<exists>s'. run_events content_step (map Files_Response rs) (content_loop s) = Some s'
    \<and> fc_callbacks s' = [] \<and> fc_files s' = fc_files s
    \<and> asked Files s' = asked Files s @ [files_chunk_num s..<files_chunk_num s + length rs + 1]"
  using assms
proof (induction rs arbitrary: s)
  case Nil
  then show ?case
    by (simp add: content_loop_def wants_files_def wants_folders_def call_files_def Let_def asked_def)
next
  case (Cons r rs)
  define t where "t = (call_files s)\<lparr>fc_stage := Round 1\<rparr>"
  have loop: "content_loop s = t"
    using Cons.prems by (simp add: content_loop_def wants_files_def wants_folders_def t_def)
  define u where "u = (HandleFolderGetContentsFiles r t)\<lparr>files_chunk_num := Suc (files_chunk_num s)\<rparr>"
  have step: "content_step (Files_Response r) t = Some (content_loop u)"
    using Cons.prems
    by (simp add: t_def u_def call_files_def Let_def resume_contents_def HandleFolderGetContentsFiles_def)
  have u: "fc_kind u = Files" "file_chunks_remaining u" "\<not> folder_chunks_remaining u"
    "\<not> fc_cancelled u" "fc_callbacks u = []" "files_request u = None" "folders_request u = None"
    "fc_files u = fc_files s" "files_chunk_num u = Suc (files_chunk_num s)"
    "asked Files u = asked Files s @ [files_chunk_num s]"
    using Cons.prems
    by (simp_all add: u_def t_def call_files_def Let_def HandleFolderGetContentsFiles_def asked_def)
  have "[files_chunk_num s..<files_chunk_num s + length (r # rs) + 1]
      = files_chunk_num s # [Suc (files_chunk_num s)..<Suc (files_chunk_num s) + length rs + 1]"
    by (subst upt_conv_Cons) simp_all
  then show ?case
    using Cons.IH [of u] Cons.prems(1) u
    by (simp add: loop step del: content_step.simps upt_Suc)
qed

theorem failing_reading_never_ends:
  fixes rs :: "('f, 'd) content_response list"
  assumes "list_all failed rs"
  shows "\<exists>s. run_events content_step (Content_Start # map Files_Response rs)
      (GetFolderContents key Files) = Some s
    \<and> fc_callbacks s = [] \<and> fc_files s = [] \<and> asked Files s = [1..<length rs + 2]"
proof -
  let ?c = "GetFolderContents key Files :: ('f, 'd) folder_contents"
  have "content_step Content_Start ?c = Some (content_loop ?c)"
    by (simp add: GetFolderContents_def)
  then show ?thesis
    using failing_reading [OF assms, of ?c]
    by (simp add: wants_files_def wants_folders_def del: content_step.simps upt_Suc)
qed

theorem failing_reading_never_ends_witness:
  "\<exists>s. run_events content_step (Content_Start
        # map Files_Response (replicate 5 ((chunk True [1] [])\<lparr>rs_error_code := api_error UnknownApiError\<rparr>)))
      (GetFolderContents ''key'' Files) = Some s
    \<and> fc_callbacks s = [] \<and> asked Files s = [1, 2, 3, 4, 5, 6]"
proof -
  have "list_all failed (replicate 5 ((chunk True [1] [])\<lparr>rs_error_code := api_error UnknownApiError\<rparr>))"
    by (simp add: list_all_iff code_defs)
  note never = failing_reading_never_ends [OF this, of "''key''"]
  have "[1..<length (replicate 5 ((chunk True [1] [])\<lparr>rs_error_code := api_error UnknownApiError\<rparr>)) + 2]
      = [1, 2, 3, 4, 5, 6]"
    by (simp add: upt_rec)
  with never show ?thesis by (metis (no_types, lifting))
qed

end
