(* ===== verification/Api_Work.thy ===== *)
theory Api_Work
  imports Api_Actions "HOL-Library.Multiset"
begin

text \<open>
  The work manager, \<^verbatim>\<open>api/actions/work_manager.*\<close>, together with the coroutine that queues work
  and executes it. \<^verbatim>\<open>ExecuteWork\<close> runs on the stack of that coroutine (the parent): it posts as much
  work as is allowed, and yields the parent once for every piece that it posted. A piece of work
  that is done calls the callback it was created with, which lets the parent take the result and
  resumes it inside \<^verbatim>\<open>ExecuteWork\<close>; only when the parent yields again, or ends, is the piece
  taken from the list of those in progress. The parent is a parameter: what it does with a
  result, and what it does when \<^verbatim>\<open>ExecuteWork\<close> returns.
\<close>

section \<open>The work manager\<close>

text \<open>A coroutine is created once, so a number tells it from the others.\<close>

type_synonym 'w work = "nat \<times> 'w"

text \<open>
  Where the parent is: inside \<^verbatim>\<open>ExecuteWork\<close>, suspended, with the flag \<^verbatim>\<open>queue_more_work\<close> of the
  iteration; in its own code; or at its end.
\<close>

datatype parent_stage = Suspended bool | In_Body | Body_Ended

record ('w, 'p) system =
  work_queue :: "'w work list"
  in_progress_list :: "'w work list"
  max_concurrent_work :: int32
  yield_queue :: nat                    \<comment> \<open>the yields of the parent\<close>
  posted :: "'w work list"              \<comment> \<open>\<^verbatim>\<open>Start\<close> is posted on the \<^verbatim>\<open>io_service\<close>\<close>
  running :: "'w work list"             \<comment> \<open>started, and not done\<close>
  returning :: "'w work option"         \<comment> \<open>its callback is on the stack\<close>
  created :: nat                        \<comment> \<open>coroutines created so far\<close>
  parent :: 'p
  parent_stage :: parent_stage

text \<open>
  The comparison of \<^verbatim>\<open>in_progress_list.size()\<close> with an \<^verbatim>\<open>int\<close> converts the \<^verbatim>\<open>int\<close> to the unsigned
  type of the size, so that a negative number allows everything.
\<close>

definition work_limit :: "int32 \<Rightarrow> nat" where
  "work_limit m = unat (scast m :: uint64)"

definition SetMaxConcurrentWork :: "int32 \<Rightarrow> ('w, 'p) system \<Rightarrow> ('w, 'p) system" where
  "SetMaxConcurrentWork max_work s = s\<lparr>max_concurrent_work := max_work\<rparr>"

definition QueueWork :: "'w \<Rightarrow> ('w, 'p) system \<Rightarrow> ('w, 'p) system" where
  "QueueWork w s = s\<lparr>work_queue := work_queue s @ [(created s, w)], created := Suc (created s)\<rparr>"

definition QueueWorks :: "'w list \<Rightarrow> ('w, 'p) system \<Rightarrow> ('w, 'p) system" where
  "QueueWorks ws s = fold QueueWork ws s"

definition may_post :: "('w, 'p) system \<Rightarrow> bool" where
  "may_post s \<longleftrightarrow>
     length (in_progress_list s) < work_limit (max_concurrent_work s) \<and> work_queue s \<noteq> []"

definition post_one :: "('w, 'p) system \<Rightarrow> ('w, 'p) system" where
  "post_one s =
     s\<lparr>work_queue := tl (work_queue s),
       in_progress_list := in_progress_list s @ [hd (work_queue s)],
       posted := posted s @ [hd (work_queue s)],
       yield_queue := Suc (yield_queue s)\<rparr>"

text \<open>The inner loop of \<^verbatim>\<open>ExecuteWork\<close>\<close>

function post_work :: "('w, 'p) system \<Rightarrow> ('w, 'p) system" where
  "post_work s = (if may_post s then post_work (post_one s) else s)"
  by pat_completeness auto
termination
  by (relation "measure (\<lambda>s. length (work_queue s))") (auto simp: may_post_def post_one_def)

declare post_work.simps [simp del]

text \<open>
  One iteration of the outer loop, up to the yield. If there is no yield left nothing was posted,
  and the loop is left.
\<close>

definition ExecuteWork :: "('w, 'p) system \<Rightarrow> ('w, 'p) system" where
  "ExecuteWork s =
     (let queue_more_work = may_post s; s = post_work s
      in if yield_queue s \<noteq> 0
         then s\<lparr>yield_queue := yield_queue s - 1, parent_stage := Suspended queue_more_work\<rparr>
         else s\<lparr>parent_stage := In_Body\<rparr>)"

text \<open>The rest of the iteration, when the yield returns.\<close>

definition Resume :: "bool \<Rightarrow> ('w, 'p) system \<Rightarrow> ('w, 'p) system" where
  "Resume queue_more_work s =
     (if yield_queue s = 0 \<and> \<not> queue_more_work then s\<lparr>parent_stage := In_Body\<rparr>
      else ExecuteWork s)"

text \<open>
  The steps: the \<^verbatim>\<open>io_service\<close> starts a piece of work that was posted; a piece that runs is done,
  with a result, and resumes the parent; the parent goes on in its own code, where it queues more
  work and executes it, or ends; the callback of the piece returns and it is taken from the list;
  and the job that \<^verbatim>\<open>Cancel\<close> posted empties the lists, where the work that is cancelled while it runs
  is still to end with a result.
\<close>

datatype ('w, 'r) work_event =
    Run_Posted "'w work" | Work_Done "'w work" 'r | Body_Goes_On | Callback_Returns | Cancel_Posted

definition body_goes_on ::
  "('p \<Rightarrow> 'p \<times> 'w list option) \<Rightarrow> ('w, 'p) system \<Rightarrow> ('w, 'p) system" where
  "body_goes_on body s =
     (case body (parent s) of
        (p, None) \<Rightarrow> s\<lparr>parent := p, parent_stage := Body_Ended\<rparr>
      | (p, Some ws) \<Rightarrow> ExecuteWork (QueueWorks ws (s\<lparr>parent := p\<rparr>)))"

fun work_step ::
  "('w \<Rightarrow> 'r \<Rightarrow> 'p \<Rightarrow> 'p) \<Rightarrow> ('p \<Rightarrow> 'p \<times> 'w list option) \<Rightarrow> ('w, 'r) work_event \<Rightarrow>
   ('w, 'p) system \<Rightarrow> ('w, 'p) system option" where
  "work_step handle body (Run_Posted w) s =
     (if w \<in> set (posted s) \<and> returning s = None \<and> parent_stage s \<noteq> In_Body
      then Some (s\<lparr>posted := removeAll w (posted s), running := running s @ [w]\<rparr>) else None)"
| "work_step handle body (Work_Done w r) s =
     (case parent_stage s of
        Suspended again \<Rightarrow>
          if w \<in> set (running s) \<and> returning s = None
          then Some (Resume again (s\<lparr>parent := handle (snd w) r (parent s), returning := Some w,
                 running := removeAll w (running s)\<rparr>))
          else None
      | _ \<Rightarrow> None)"
| "work_step handle body Body_Goes_On s =
     (if parent_stage s = In_Body then Some (body_goes_on body s) else None)"
| "work_step handle body Callback_Returns s =
     (case returning s of
        Some w \<Rightarrow>
          if parent_stage s \<noteq> In_Body
          then Some (s\<lparr>in_progress_list := removeAll w (in_progress_list s), returning := None\<rparr>)
          else None
      | None \<Rightarrow> None)"
| "work_step handle body Cancel_Posted s =
     (if returning s = None \<and> parent_stage s \<noteq> In_Body
      then Some (s\<lparr>work_queue := [], in_progress_list := []\<rparr>) else None)"

text \<open>The manager as it is created, with a parent that is started.\<close>

definition new_system :: "int32 \<Rightarrow> 'p \<Rightarrow> ('w, 'p) system" where
  "new_system m p =
     \<lparr>work_queue = [], in_progress_list = [], max_concurrent_work = m, yield_queue = 0,
      posted = [], running = [], returning = None, created = 0, parent = p,
      parent_stage = In_Body\<rparr>"

section \<open>What executing keeps\<close>

lemma post_work_frame [simp]:
  "running (post_work s) = running s" "returning (post_work s) = returning s"
  "created (post_work s) = created s" "parent (post_work s) = parent s"
  "parent_stage (post_work s) = parent_stage s"
  "max_concurrent_work (post_work s) = max_concurrent_work s"
  by (induction s rule: post_work.induct; subst post_work.simps; simp add: post_one_def)+

lemma post_work_takes:
  obtains taken where
    "work_queue s = taken @ work_queue (post_work s)"
    "in_progress_list (post_work s) = in_progress_list s @ taken"
    "posted (post_work s) = posted s @ taken"
    "yield_queue (post_work s) = yield_queue s + length taken"
    "may_post s \<longleftrightarrow> taken \<noteq> []"
proof (induction s arbitrary: thesis rule: post_work.induct)
  case (1 s)
  show ?case
  proof (cases "may_post s")
    case True
    then have q: "work_queue s = hd (work_queue s) # work_queue (post_one s)"
      by (simp add: may_post_def post_one_def)
    note goal = 1(2)
    show ?thesis
    proof (rule 1(1) [OF True])
      fix taken
      assume "work_queue (post_one s) = taken @ work_queue (post_work (post_one s))"
        "in_progress_list (post_work (post_one s)) = in_progress_list (post_one s) @ taken"
        "posted (post_work (post_one s)) = posted (post_one s) @ taken"
        "yield_queue (post_work (post_one s)) = yield_queue (post_one s) + length taken"
      moreover have "post_work s = post_work (post_one s)"
        using True by (subst post_work.simps) simp
      ultimately show thesis
        using q True by (intro goal [of "hd (work_queue s) # taken"]) (auto simp: post_one_def)
    qed
  next
    case False
    then have "post_work s = s" by (subst post_work.simps) simp
    with False show ?thesis by (intro 1(2) [of "[]"]) auto
  qed
qed

lemma post_work_bound:
  "length (in_progress_list s) \<le> work_limit (max_concurrent_work s) \<Longrightarrow>
   length (in_progress_list (post_work s)) \<le> work_limit (max_concurrent_work s)"
proof (induction s rule: post_work.induct)
  case (1 s)
  then show ?case
    by (subst post_work.simps) (auto simp: post_one_def may_post_def)
qed

text \<open>
  The work that the \<^verbatim>\<open>io_service\<close> or a server has, and that of the callback on the stack, is known by
  different numbers, and what is listed as in progress is some of it.
\<close>

definition outstanding :: "('w, 'p) system \<Rightarrow> 'w work list" where
  "outstanding s = posted s @ running s @ (case returning s of None \<Rightarrow> [] | Some w \<Rightarrow> [w])"

definition listed_ok :: "('w, 'p) system \<Rightarrow> bool" where
  "listed_ok s \<longleftrightarrow>
     distinct (work_queue s @ outstanding s)
     \<and> (\<forall>w\<in>set (work_queue s @ outstanding s). fst w < created s)
     \<and> distinct (in_progress_list s) \<and> set (in_progress_list s) \<subseteq> set (outstanding s)
     \<and> length (in_progress_list s) \<le> work_limit (max_concurrent_work s)"

definition stage_ok :: "('w, 'p) system \<Rightarrow> bool" where
  "stage_ok s \<longleftrightarrow>
     (case parent_stage s of
        Suspended again \<Rightarrow>
          Suc (yield_queue s) = length (posted s) + length (running s)
          \<and> (\<not> again \<longrightarrow> work_queue s \<noteq> [] \<longrightarrow> yield_queue s \<noteq> 0)
      | _ \<Rightarrow> work_queue s = [] \<and> posted s = [] \<and> running s = [] \<and> yield_queue s = 0)"

lemma listed_length:
  "listed_ok s \<Longrightarrow> length (in_progress_list s) \<le> Suc (length (posted s) + length (running s))"
proof -
  assume "listed_ok s"
  then have "card (set (in_progress_list s)) \<le> card (set (outstanding s))"
    and "distinct (in_progress_list s)"
    by (auto simp: listed_ok_def intro: card_mono)
  then have "length (in_progress_list s) \<le> length (outstanding s)"
    using card_length distinct_card by (metis le_trans)
  then show ?thesis by (simp add: outstanding_def split: option.splits)
qed

lemma post_work_listed: "listed_ok s \<Longrightarrow> listed_ok (post_work s)"
proof -
  assume ok: "listed_ok s"
  obtain taken where "work_queue s = taken @ work_queue (post_work s)"
    "in_progress_list (post_work s) = in_progress_list s @ taken"
    "posted (post_work s) = posted s @ taken"
    by (rule post_work_takes)
  moreover have "length (in_progress_list (post_work s)) \<le> work_limit (max_concurrent_work s)"
    using ok by (simp add: listed_ok_def post_work_bound)
  ultimately show ?thesis
    using ok by (auto simp: listed_ok_def outstanding_def)
qed

text \<open>
  The yields that are left are those of the work that is not done. With room for three pieces a
  list that is full means that two others are not done, so there is a yield left.
\<close>

lemma ExecuteWork_ok:
  assumes ok: "listed_ok s" and y: "yield_queue s = length (posted s) + length (running s)"
    and three: "3 \<le> work_limit (max_concurrent_work s)"
  shows "listed_ok (ExecuteWork s)" and "stage_ok (ExecuteWork s)"
proof -
  obtain taken where t: "work_queue s = taken @ work_queue (post_work s)"
    "in_progress_list (post_work s) = in_progress_list s @ taken"
    "posted (post_work s) = posted s @ taken"
    "yield_queue (post_work s) = yield_queue s + length taken"
    "may_post s \<longleftrightarrow> taken \<noteq> []"
    by (rule post_work_takes)
  have full: "\<not> may_post s \<Longrightarrow> work_queue s \<noteq> [] \<Longrightarrow> 2 \<le> yield_queue s"
    using listed_length [OF ok] three y by (auto simp: may_post_def)
  have empty: "taken = [] \<Longrightarrow> post_work s = s"
    using t(5) by (subst post_work.simps) simp
  show "listed_ok (ExecuteWork s)"
    using post_work_listed [OF ok]
    by (simp add: ExecuteWork_def Let_def listed_ok_def outstanding_def)
  show "stage_ok (ExecuteWork s)"
  proof (cases "yield_queue (post_work s) = 0")
    case True
    then have "taken = []" "yield_queue s = 0" using t(4) by auto
    then show ?thesis
      using True empty full t(5) y by (auto simp: ExecuteWork_def stage_ok_def)
  next
    case False
    then show ?thesis
      using empty full t y by (auto simp: ExecuteWork_def stage_ok_def Let_def)
  qed
qed

lemma ExecuteWork_frame [simp]:
  "max_concurrent_work (ExecuteWork s) = max_concurrent_work s"
  "parent (ExecuteWork s) = parent s" "returning (ExecuteWork s) = returning s"
  by (simp_all add: ExecuteWork_def Let_def)

lemma QueueWorks_frame [simp]:
  "in_progress_list (QueueWorks ws s) = in_progress_list s"
  "max_concurrent_work (QueueWorks ws s) = max_concurrent_work s"
  "yield_queue (QueueWorks ws s) = yield_queue s" "posted (QueueWorks ws s) = posted s"
  "running (QueueWorks ws s) = running s" "returning (QueueWorks ws s) = returning s"
  "parent (QueueWorks ws s) = parent s"
  unfolding QueueWorks_def by (induction ws arbitrary: s) (simp_all add: QueueWork_def)

lemma QueueWorks_Cons: "QueueWorks (w # ws) s = QueueWorks ws (QueueWork w s)"
  by (simp add: QueueWorks_def)

lemma QueueWorks_queue: "map snd (work_queue (QueueWorks ws s)) = map snd (work_queue s) @ ws"
proof (induction ws arbitrary: s)
  case (Cons w ws)
  show ?case by (simp add: QueueWorks_Cons Cons) (simp add: QueueWork_def)
qed (simp add: QueueWorks_def)

lemma QueueWorks_listed: "listed_ok s \<Longrightarrow> listed_ok (QueueWorks ws s)"
proof (induction ws arbitrary: s)
  case (Cons w ws)
  have new: "(created s, w) \<notin> set (work_queue s @ outstanding s)"
    using Cons.prems by (force simp: listed_ok_def)
  have "outstanding (QueueWork w s) = outstanding s"
    by (simp add: QueueWork_def outstanding_def)
  then have "listed_ok (QueueWork w s)"
    using Cons.prems new by (auto simp: listed_ok_def QueueWork_def less_Suc_eq)
  then show ?case by (simp add: QueueWorks_Cons Cons.IH)
qed (simp add: QueueWorks_def)

lemma body_goes_on_ok:
  assumes "listed_ok s" and "stage_ok s" and "parent_stage s = In_Body"
    and "3 \<le> work_limit (max_concurrent_work s)"
  shows "listed_ok (body_goes_on body s)" and "stage_ok (body_goes_on body s)"
proof -
  have clear: "work_queue s = []" "posted s = []" "running s = []" "yield_queue s = 0"
    using assms(2,3) by (simp_all add: stage_ok_def)
  have queued: "listed_ok (QueueWorks ws (s\<lparr>parent := p\<rparr>))" for ws p
    using assms(1) by (intro QueueWorks_listed) (simp add: listed_ok_def outstanding_def)
  show "listed_ok (body_goes_on body s)" "stage_ok (body_goes_on body s)"
    using ExecuteWork_ok [OF queued] assms(1,4) clear
    by (auto simp: body_goes_on_def listed_ok_def outstanding_def stage_ok_def
        split: prod.split option.split)
qed

lemma Resume_ok:
  assumes "listed_ok s" and "yield_queue s = length (posted s) + length (running s)"
    and "\<not> again \<longrightarrow> work_queue s \<noteq> [] \<longrightarrow> yield_queue s \<noteq> 0"
    and "3 \<le> work_limit (max_concurrent_work s)"
  shows "listed_ok (Resume again s) \<and> stage_ok (Resume again s)"
proof (cases "yield_queue s = 0 \<and> \<not> again")
  case True
  then have "Resume again s = s\<lparr>parent_stage := In_Body\<rparr>" and "work_queue s = []"
    using assms(3) by (auto simp: Resume_def)
  with True show ?thesis
    using assms(1,2) by (simp add: listed_ok_def outstanding_def stage_ok_def)
next
  case False
  then have "Resume again s = ExecuteWork s" by (auto simp: Resume_def)
  then show ?thesis using ExecuteWork_ok [OF assms(1,2,4)] by simp
qed

lemma length_removeAll_Suc:
  "distinct xs \<Longrightarrow> x \<in> set xs \<Longrightarrow> Suc (length (removeAll x xs)) = length xs"
  by (induction xs) auto

lemma work_done_ok:
  assumes ok: "listed_ok s" "stage_ok s" and st: "parent_stage s = Suspended again"
    and w: "w \<in> set (running s)" "returning s = None"
    and three: "3 \<le> work_limit (max_concurrent_work s)"
  shows "listed_ok (Resume again (s\<lparr>parent := p, returning := Some w,
           running := removeAll w (running s)\<rparr>))"
    and "stage_ok (Resume again (s\<lparr>parent := p, returning := Some w,
           running := removeAll w (running s)\<rparr>))"
proof -
  let ?s = "s\<lparr>parent := p, returning := Some w, running := removeAll w (running s)\<rparr>"
  have "distinct (running s)" using ok(1) by (auto simp: listed_ok_def outstanding_def)
  then have "yield_queue ?s = length (posted ?s) + length (running ?s)"
    using ok(2) st w length_removeAll_Suc [of "running s" w] by (simp add: stage_ok_def)
  moreover have "listed_ok ?s"
    using ok(1) w by (auto simp: listed_ok_def outstanding_def distinct_removeAll)
  moreover have "\<not> again \<longrightarrow> work_queue ?s \<noteq> [] \<longrightarrow> yield_queue ?s \<noteq> 0"
    using ok(2) st by (simp add: stage_ok_def)
  ultimately show "listed_ok (Resume again ?s)" "stage_ok (Resume again ?s)"
    using Resume_ok [of ?s again] three by auto
qed

lemma step_frame [simp]:
  "max_concurrent_work (Resume again s) = max_concurrent_work s"
  "parent (Resume again s) = parent s"
  "returning (Resume again s) = returning s"
  "max_concurrent_work (body_goes_on body s) = max_concurrent_work s"
  by (simp_all add: Resume_def body_goes_on_def split: prod.split option.split)

lemma work_step_max:
  assumes "work_step handle body e s = Some s'"
  shows "max_concurrent_work s' = max_concurrent_work s"
proof (cases e)
  case (Work_Done w r)
  then show ?thesis using assms by (cases "parent_stage s") (auto split: if_splits)
next
  case Callback_Returns
  then show ?thesis using assms by (cases "returning s") (auto split: if_splits)
qed (use assms in \<open>auto split: if_splits\<close>)

lemma work_step_ok:
  assumes "listed_ok s" and "stage_ok s" and three: "3 \<le> work_limit (max_concurrent_work s)"
    and step: "work_step handle body e s = Some s'"
  shows "listed_ok s' \<and> stage_ok s'"
proof (cases e)
  case (Run_Posted w)
  then have w: "w \<in> set (posted s)" "distinct (posted s)" "parent_stage s \<noteq> In_Body"
    and s': "s' = s\<lparr>posted := removeAll w (posted s), running := running s @ [w]\<rparr>"
    using step assms(1) by (auto simp: listed_ok_def outstanding_def split: if_splits)
  have "set (outstanding s') = set (outstanding s)" "distinct (outstanding s')"
    using w(1) assms(1) by (auto simp: s' listed_ok_def outstanding_def distinct_removeAll)
  then have "listed_ok s'"
    using assms(1) by (auto simp: listed_ok_def s')
  moreover have "length (posted s') + length (running s') = length (posted s) + length (running s)"
    using length_removeAll_Suc [OF w(2,1)] by (simp add: s')
  then have "stage_ok s'"
    using assms(2) w(1) by (cases "parent_stage s") (auto simp: stage_ok_def s')
  ultimately show ?thesis by simp
next
  case (Work_Done w r)
  then obtain again where "parent_stage s = Suspended again" "w \<in> set (running s)" "returning s = None"
    and "s' = Resume again (s\<lparr>parent := handle (snd w) r (parent s), returning := Some w,
            running := removeAll w (running s)\<rparr>)"
    using step by (cases "parent_stage s") (auto split: if_splits)
  then show ?thesis using work_done_ok [OF assms(1,2)] three by blast
next
  case Body_Goes_On
  then show ?thesis using step body_goes_on_ok [OF assms(1,2)] three by (auto split: if_splits)
next
  case Callback_Returns
  then obtain w where w: "returning s = Some w"
    and s': "s' = s\<lparr>in_progress_list := removeAll w (in_progress_list s), returning := None\<rparr>"
    using step by (cases "returning s") (auto split: if_splits)
  have "length (removeAll w (in_progress_list s)) \<le> work_limit (max_concurrent_work s)"
    using assms(1) unfolding listed_ok_def by (meson le_trans length_removeAll_less_eq)
  then have "listed_ok s'"
    using assms(1) w by (auto simp: s' listed_ok_def outstanding_def distinct_removeAll)
  moreover have "stage_ok s'"
    using assms(2) by (cases "parent_stage s") (simp_all add: s' stage_ok_def)
  ultimately show ?thesis by simp
next
  case Cancel_Posted
  then have s': "s' = s\<lparr>work_queue := [], in_progress_list := []\<rparr>"
    using step by (simp split: if_splits)
  have "listed_ok s'" using assms(1) by (simp add: s' listed_ok_def outstanding_def)
  moreover have "stage_ok s'"
    using assms(2) by (cases "parent_stage s") (simp_all add: s' stage_ok_def)
  ultimately show ?thesis by simp
qed

section \<open>What the parent sees\<close>

text \<open>
  The contract, without the manager: the parent gives out batches of work, and goes on when it
  has taken a result for each piece of the batch, in any order. If work may be cancelled there
  can be pieces without a result.
\<close>

fun take_results :: "('w \<Rightarrow> 'r \<Rightarrow> 'p \<Rightarrow> 'p) \<Rightarrow> ('w \<times> 'r) list \<Rightarrow> 'p \<Rightarrow> 'p" where
  "take_results handle [] p = p"
| "take_results handle ((w, r) # rs) p = take_results handle rs (handle w r p)"

lemma take_results_snoc:
  "take_results handle (rs @ [(w, r)]) p = handle w r (take_results handle rs p)"
  by (induction rs arbitrary: p) auto

definition all_done :: "bool \<Rightarrow> 'w multiset \<Rightarrow> 'w multiset \<Rightarrow> bool" where
  "all_done cancelled given ws \<longleftrightarrow> (if cancelled then given \<subseteq># ws else given = ws)"

inductive batches ::
  "bool \<Rightarrow> ('w \<Rightarrow> 'r \<Rightarrow> bool) \<Rightarrow> ('w \<Rightarrow> 'r \<Rightarrow> 'p \<Rightarrow> 'p) \<Rightarrow> ('p \<Rightarrow> 'p \<times> 'w list option) \<Rightarrow>
   'p \<Rightarrow> 'p \<Rightarrow> bool"
  for cancelled possible handle body p where
  batches_start: "batches cancelled possible handle body p p"
| batches_batch: "batches cancelled possible handle body p q \<Longrightarrow> body q = (q', Some ws) \<Longrightarrow>
    \<forall>(w, r)\<in>set rs. possible w r \<Longrightarrow> all_done cancelled (mset (map fst rs)) (mset ws) \<Longrightarrow>
    batches cancelled possible handle body p (take_results handle rs q')"

text \<open>
  A system in the middle of a batch: the results so far and the work that is queued or
  outstanding make up the batch.
\<close>

definition undone :: "('w, 'p) system \<Rightarrow> 'w multiset" where
  "undone s = mset (map snd (work_queue s)) + mset (map snd (posted s)) + mset (map snd (running s))"

definition in_batch ::
  "bool \<Rightarrow> ('w \<Rightarrow> 'r \<Rightarrow> bool) \<Rightarrow> ('w \<Rightarrow> 'r \<Rightarrow> 'p \<Rightarrow> 'p) \<Rightarrow> ('p \<Rightarrow> 'p \<times> 'w list option) \<Rightarrow>
   'p \<Rightarrow> ('w, 'p) system \<Rightarrow> bool" where
  "in_batch cancelled possible handle body p s \<longleftrightarrow>
     (\<exists>q q' ws rs. batches cancelled possible handle body p q \<and> body q = (q', Some ws)
        \<and> (\<forall>(w, r)\<in>set rs. possible w r) \<and> parent s = take_results handle rs q'
        \<and> all_done cancelled (mset (map fst rs) + undone s) (mset ws))"

definition refines ::
  "bool \<Rightarrow> ('w \<Rightarrow> 'r \<Rightarrow> bool) \<Rightarrow> ('w \<Rightarrow> 'r \<Rightarrow> 'p \<Rightarrow> 'p) \<Rightarrow> ('p \<Rightarrow> 'p \<times> 'w list option) \<Rightarrow>
   'p \<Rightarrow> ('w, 'p) system \<Rightarrow> bool" where
  "refines cancelled possible handle body p s \<longleftrightarrow>
     (case parent_stage s of
        Suspended _ \<Rightarrow> in_batch cancelled possible handle body p s
      | In_Body \<Rightarrow> batches cancelled possible handle body p (parent s)
      | Body_Ended \<Rightarrow> \<exists>q. batches cancelled possible handle body p q \<and> body q = (parent s, None))"

lemma in_batch_complete:
  assumes "in_batch cancelled possible handle body p s" and "undone s = {#}"
  shows "batches cancelled possible handle body p (parent s)"
proof -
  obtain q q' ws rs where b: "batches cancelled possible handle body p q" "body q = (q', Some ws)"
      "\<forall>(w, r)\<in>set rs. possible w r" "parent s = take_results handle rs q'"
      "all_done cancelled (mset (map fst rs) + undone s) (mset ws)"
    using assms(1) unfolding in_batch_def by blast
  then have "all_done cancelled (mset (map fst rs)) (mset ws)" using assms(2) by simp
  from batches_batch [OF b(1-3) this] show ?thesis by (simp add: b(4))
qed

lemma undone_post_work: "undone (post_work s) = undone s"
proof -
  obtain taken where "work_queue s = taken @ work_queue (post_work s)"
    "posted (post_work s) = posted s @ taken"
    by (rule post_work_takes)
  then show ?thesis by (simp add: undone_def)
qed

lemma undone_stage [simp]:
  "undone (s\<lparr>parent_stage := st\<rparr>) = undone s"
  "undone (s\<lparr>yield_queue := n\<rparr>) = undone s"
  by (simp_all add: undone_def)

lemma undone_ExecuteWork [simp]: "undone (ExecuteWork s) = undone s"
  by (simp add: ExecuteWork_def Let_def undone_post_work)

lemma undone_Resume [simp]: "undone (Resume again s) = undone s"
  by (simp add: Resume_def)

lemma in_batch_view:
  "parent s' = parent s \<Longrightarrow> undone s' = undone s \<Longrightarrow>
   in_batch cancelled possible handle body p s' = in_batch cancelled possible handle body p s"
  by (simp add: in_batch_def)

lemma refines_view:
  "parent s' = parent s \<Longrightarrow> undone s' = undone s \<Longrightarrow> parent_stage s' = parent_stage s \<Longrightarrow>
   refines cancelled possible handle body p s' = refines cancelled possible handle body p s"
  using in_batch_view [of s' s] by (cases "parent_stage s") (simp_all add: refines_def)

text \<open>A batch that is executed is either in progress or complete.\<close>

lemma executed_refines:
  assumes "in_batch cancelled possible handle body p s" and "stage_ok s"
    and "parent_stage s \<noteq> Body_Ended"
  shows "refines cancelled possible handle body p s"
proof (cases "parent_stage s")
  case In_Body
  then have "undone s = {#}" using assms(2) by (simp add: stage_ok_def undone_def)
  with In_Body show ?thesis using in_batch_complete [OF assms(1)] by (simp add: refines_def)
qed (use assms in \<open>auto simp: refines_def\<close>)

lemma all_done_add:
  "all_done cancelled (add_mset w a + b) ws \<Longrightarrow> all_done cancelled (a + add_mset w b) ws"
  by simp

lemma all_done_less: "all_done True a ws \<Longrightarrow> b \<subseteq># a \<Longrightarrow> all_done True b ws"
  by (auto simp: all_done_def)

lemma mset_removeAll_distinct:
  "distinct xs \<Longrightarrow> w \<in> set xs \<Longrightarrow>
   mset (map f xs) = add_mset (f w) (mset (map f (removeAll w xs)))"
  by (induction xs) auto

lemma in_batch_result:
  assumes "in_batch cancelled possible handle body p s" and "possible w r"
    and "undone s = add_mset w (undone s')" and "parent s' = handle w r (parent s)"
  shows "in_batch cancelled possible handle body p s'"
proof -
  obtain q q' ws rs where b: "batches cancelled possible handle body p q" "body q = (q', Some ws)"
      "\<forall>(w, r)\<in>set rs. possible w r" "parent s = take_results handle rs q'"
      "all_done cancelled (mset (map fst rs) + undone s) (mset ws)"
    using assms(1) unfolding in_batch_def by blast
  have "parent s' = take_results handle (rs @ [(w, r)]) q'"
    using b(4) assms(4) by (simp add: take_results_snoc)
  moreover have "all_done cancelled (mset (map fst (rs @ [(w, r)])) + undone s') (mset ws)"
    using b(5) assms(3) by simp
  moreover have "\<forall>(w, r)\<in>set (rs @ [(w, r)]). possible w r"
    using b(3) assms(2) by simp
  ultimately show ?thesis using b(1,2) unfolding in_batch_def by blast
qed

lemma ExecuteWork_stage: "parent_stage (ExecuteWork s) \<noteq> Body_Ended"
  by (simp add: ExecuteWork_def Let_def)

lemma Resume_stage: "parent_stage (Resume again s) \<noteq> Body_Ended"
  by (simp add: Resume_def ExecuteWork_stage)

lemma body_goes_on_refines:
  assumes "batches cancelled possible handle body p (parent s)" and "listed_ok s" "stage_ok s"
    and "parent_stage s = In_Body" and "3 \<le> work_limit (max_concurrent_work s)"
  shows "refines cancelled possible handle body p (body_goes_on body s)"
proof -
  have ok: "stage_ok (body_goes_on body s)"
    by (rule body_goes_on_ok [OF assms(2-5)])
  obtain q' out where bd: "body (parent s) = (q', out)" by fastforce
  show ?thesis
  proof (cases out)
    case None
    then show ?thesis
      using assms(1) bd by (auto simp: body_goes_on_def refines_def)
  next
    case (Some ws)
    let ?s = "QueueWorks ws (s\<lparr>parent := q'\<rparr>)"
    have "undone ?s = mset ws"
      using QueueWorks_queue [of ws "s\<lparr>parent := q'\<rparr>"] assms(3,4)
      by (simp add: undone_def stage_ok_def flip: mset_map)
    then have "in_batch cancelled possible handle body p ?s"
      using assms(1) bd Some unfolding in_batch_def
      by (intro exI [of _ "parent s"] exI [of _ q'] exI [of _ ws] exI [of _ "[]"])
        (simp add: all_done_def)
    then have "in_batch cancelled possible handle body p (ExecuteWork ?s)"
      by (simp add: in_batch_def)
    moreover have "body_goes_on body s = ExecuteWork ?s"
      using bd Some by (simp add: body_goes_on_def)
    ultimately show ?thesis
      using executed_refines ok ExecuteWork_stage by metis
  qed
qed

lemma in_batch_less:
  assumes "in_batch True possible handle body p s" and "undone s' \<subseteq># undone s"
    and "parent s' = parent s"
  shows "in_batch True possible handle body p s'"
proof -
  obtain q q' ws rs where b: "batches True possible handle body p q" "body q = (q', Some ws)"
      "\<forall>(w, r)\<in>set rs. possible w r" "parent s = take_results handle rs q'"
      "all_done True (mset (map fst rs) + undone s) (mset ws)"
    using assms(1) unfolding in_batch_def by blast
  have "all_done True (mset (map fst rs) + undone s') (mset ws)"
    by (rule all_done_less [OF b(5)]) (simp add: assms(2))
  then show ?thesis using b(1-4) assms(3) unfolding in_batch_def by metis
qed

fun result_ok :: "('w \<Rightarrow> 'r \<Rightarrow> bool) \<Rightarrow> ('w, 'r) work_event \<Rightarrow> bool" where
  "result_ok possible (Work_Done w r) = possible (snd w) r"
| "result_ok possible _ = True"

lemma work_step_refines:
  assumes ok: "listed_ok s" "stage_ok s" and three: "3 \<le> work_limit (max_concurrent_work s)"
    and ref: "refines cancelled possible handle body p s"
    and step: "work_step handle body e s = Some s'"
    and e: "result_ok possible e" "e = Cancel_Posted \<longrightarrow> cancelled"
  shows "refines cancelled possible handle body p s'"
proof (cases e)
  case (Run_Posted w)
  then have w: "w \<in> set (posted s)" "distinct (posted s)"
    and s': "s' = s\<lparr>posted := removeAll w (posted s), running := running s @ [w]\<rparr>"
    using step ok(1) by (auto simp: listed_ok_def outstanding_def split: if_splits)
  then have "undone s' = undone s"
    using mset_removeAll_distinct [OF w(2,1), of snd] by (simp add: undone_def)
  moreover have "parent_stage s' = parent_stage s" "parent s' = parent s" by (simp_all add: s')
  ultimately show ?thesis using ref refines_view [of s' s cancelled possible handle body p] by simp
next
  case (Work_Done w r)
  then obtain again where st: "parent_stage s = Suspended again" "w \<in> set (running s)"
    and s': "s' = Resume again (s\<lparr>parent := handle (snd w) r (parent s), returning := Some w,
            running := removeAll w (running s)\<rparr>)"
    using step by (cases "parent_stage s") (auto split: if_splits)
  let ?t = "s\<lparr>parent := handle (snd w) r (parent s), returning := Some w,
              running := removeAll w (running s)\<rparr>"
  have "distinct (running s)" using ok(1) by (simp add: listed_ok_def outstanding_def)
  then have "undone s = add_mset (snd w) (undone ?t)"
    using mset_removeAll_distinct [OF _ st(2), of snd] by (simp add: undone_def)
  then have "in_batch cancelled possible handle body p ?t"
    using in_batch_result [of cancelled possible handle body p s "snd w" r ?t] ref st e Work_Done
    by (simp add: refines_def)
  then have "in_batch cancelled possible handle body p s'"
    unfolding s' by (simp add: in_batch_def)
  moreover have "stage_ok s'" using work_step_ok [OF ok three step] by simp
  ultimately show ?thesis using executed_refines s' Resume_stage by metis
next
  case Body_Goes_On
  then have "parent_stage s = In_Body" "s' = body_goes_on body s"
    using step by (auto split: if_splits)
  then show ?thesis using body_goes_on_refines [OF _ ok] ref three by (simp add: refines_def)
next
  case Callback_Returns
  then obtain w where
    s': "s' = s\<lparr>in_progress_list := removeAll w (in_progress_list s), returning := None\<rparr>"
    using step by (cases "returning s") (auto split: if_splits)
  have "undone s' = undone s" "parent s' = parent s" "parent_stage s' = parent_stage s"
    by (simp_all add: s' undone_def)
  then show ?thesis using ref refines_view [of s' s cancelled possible handle body p] by simp
next
  case Cancel_Posted
  then have s': "s' = s\<lparr>work_queue := [], in_progress_list := []\<rparr>" and c: cancelled
    using step e by (auto split: if_splits)
  have "undone s' \<subseteq># undone s" by (simp add: s' undone_def)
  then have "in_batch cancelled possible handle body p s \<Longrightarrow> in_batch cancelled possible handle body p s'"
    using c in_batch_less [of possible handle body p s s'] by (simp add: s')
  then show ?thesis
    using ref by (cases "parent_stage s") (simp_all add: refines_def s')
qed

lemma new_system_ok:
  "listed_ok (new_system m p)" "stage_ok (new_system m p)"
  "refines cancelled possible handle body p (new_system m p)"
  by (simp_all add: new_system_def listed_ok_def outstanding_def stage_ok_def refines_def batches_start)

lemma run_refines:
  assumes "run_events (work_step handle body) es s = Some s'"
    and "listed_ok s" "stage_ok s" "3 \<le> work_limit (max_concurrent_work s)"
    and "refines cancelled possible handle body p s"
    and "list_all (result_ok possible) es" "Cancel_Posted \<in> set es \<longrightarrow> cancelled"
  shows "listed_ok s' \<and> stage_ok s' \<and> max_concurrent_work s' = max_concurrent_work s
    \<and> refines cancelled possible handle body p s'"
  using assms
proof (induction es arbitrary: s)
  case (Cons e es)
  then obtain t where t: "work_step handle body e s = Some t"
      "run_events (work_step handle body) es t = Some s'"
    by (cases "work_step handle body e s") auto
  have "listed_ok t \<and> stage_ok t" and mx: "max_concurrent_work t = max_concurrent_work s"
    using work_step_ok [OF Cons.prems(2-4) t(1)] work_step_max [OF t(1)] by auto
  moreover have "refines cancelled possible handle body p t"
    using Cons.prems(6,7) by (intro work_step_refines [OF Cons.prems(2-5) t(1)]) auto
  ultimately show ?case using Cons.IH [OF t(2)] Cons.prems(4,6,7) by simp
qed simp

text \<open>A parent that ends without a cancellation has gone through complete batches.\<close>

lemma ended_batches:
  assumes "3 \<le> work_limit m" and "list_all (result_ok possible) es" and "Cancel_Posted \<notin> set es"
    and "run_events (work_step handle body) es (new_system m p) = Some s"
    and "parent_stage s = Body_Ended"
  obtains q where "batches False possible handle body p q" and "body q = (parent s, None)"
  using run_refines [OF assms(4) new_system_ok(1,2) _ new_system_ok(3),
      where possible = possible and cancelled = False] assms(1-3,5)
  by (auto simp: refines_def new_system_def)

section \<open>The properties of the work manager\<close>

text \<open>
  C11: When at least three pieces of work may be in progress, whatever the order in which work ends:
  \<^verbatim>\<open>ExecuteWork\<close> returns to the parent only when a result was taken for every piece that was
  queued, except for those that \<^verbatim>\<open>Cancel\<close> took from the queue, and there is never more in progress
  than is allowed.
\<close>

theorem all_work_done:
  assumes "3 \<le> work_limit m" and "list_all (result_ok possible) es"
    and "run_events (work_step handle body) es (new_system m p) = Some s"
  shows "length (in_progress_list s) \<le> work_limit m \<and>
    (case parent_stage s of
       Suspended _ \<Rightarrow> posted s \<noteq> [] \<or> running s \<noteq> []
     | In_Body \<Rightarrow> batches (Cancel_Posted \<in> set es) possible handle body p (parent s)
     | Body_Ended \<Rightarrow> \<exists>q. batches (Cancel_Posted \<in> set es) possible handle body p q
         \<and> body q = (parent s, None))"
proof -
  have "listed_ok s \<and> stage_ok s \<and> max_concurrent_work s = m
      \<and> refines (Cancel_Posted \<in> set es) possible handle body p s"
    using run_refines [OF assms(3) new_system_ok(1,2) _ new_system_ok(3),
        where possible = possible and cancelled = "Cancel_Posted \<in> set es"] assms(1,2)
    by (simp add: new_system_def)
  then show ?thesis
    by (cases "parent_stage s") (auto simp: listed_ok_def stage_ok_def refines_def)
qed

text \<open>Five pieces of work, of which one resumes the parent before the next is posted.\<close>

definition five_works :: "nat list \<Rightarrow> nat list \<times> nat list option" where
  "five_works p = (if p = [] then (p, Some [10, 11, 12, 13, 14]) else (p, None))"

definition five_works_run :: "(nat, unit) work_event list" where
  "five_works_run =
     [Body_Goes_On, Run_Posted (0, 10), Run_Posted (1, 11), Work_Done (1, 11) (), Callback_Returns,
      Work_Done (0, 10) (), Callback_Returns, Run_Posted (2, 12), Run_Posted (3, 13),
      Work_Done (3, 13) (), Callback_Returns, Work_Done (2, 12) (), Callback_Returns,
      Run_Posted (4, 14), Work_Done (4, 14) ()]"

lemma five_works_run_ends:
  "map_option (\<lambda>s. (parent_stage s, parent s))
     (run_events (work_step (\<lambda>w r p. p @ [w]) five_works) five_works_run (new_system 3 []))
   = Some (In_Body, [11, 10, 13, 12, 14])"
  by code_simp

theorem all_work_done_witness:
  "batches (Cancel_Posted \<in> set five_works_run) (\<lambda>_ (_::unit). True) (\<lambda>w r p. p @ [w]) five_works []
     [11, 10, 13, 12, 14]"
proof -
  obtain s where run: "run_events (work_step (\<lambda>w r p. p @ [w]) five_works) five_works_run
      (new_system 3 []) = Some s"
    and s: "parent_stage s = In_Body" "parent s = [11, 10, 13, 12, 14]"
    using five_works_run_ends by auto
  have "3 \<le> work_limit 3" by code_simp
  moreover have "list_all (result_ok (\<lambda>_ _. True)) five_works_run"
    by (simp add: five_works_run_def)
  ultimately show ?thesis using all_work_done [OF _ _ run, of "\<lambda>_ _. True"] s by auto
qed

text \<open>
  The steps between two turns of the parent are bounded: each of them brings a piece of work
  that is queued nearer to its end.
\<close>

definition pending_steps :: "('w, 'p) system \<Rightarrow> nat" where
  "pending_steps s = 3 * length (work_queue s) + 3 * length (posted s) + 2 * length (running s)
     + (if returning s = None then 0 else 1)"

lemma pending_post_work: "pending_steps (post_work s) = pending_steps s"
proof -
  obtain taken where "work_queue s = taken @ work_queue (post_work s)"
    "posted (post_work s) = posted s @ taken"
    by (rule post_work_takes)
  then show ?thesis by (simp add: pending_steps_def)
qed

lemma pending_Resume: "pending_steps (Resume again s) = pending_steps s"
  using pending_post_work [of s]
  by (simp add: Resume_def ExecuteWork_def Let_def pending_steps_def)

text \<open>A piece of work can always go on, and only so often before the parent does.\<close>

theorem work_goes_on:
  assumes "work_step handle body e s = Some s'" and "e \<noteq> Body_Goes_On" and "e \<noteq> Cancel_Posted"
  shows "pending_steps s' < pending_steps s"
proof (cases e)
  case (Run_Posted w)
  then show ?thesis
    using assms(1) length_removeAll_less [of w "posted s"]
    by (auto simp: pending_steps_def split: if_splits)
next
  case (Work_Done w r)
  then obtain again where st: "w \<in> set (running s)" "returning s = None"
    and s': "s' = Resume again (s\<lparr>parent := handle (snd w) r (parent s), returning := Some w,
            running := removeAll w (running s)\<rparr>)"
    using assms(1) by (cases "parent_stage s") (auto split: if_splits)
  then show ?thesis
    using length_removeAll_less [of w "running s"]
    by (simp add: pending_Resume) (simp add: pending_steps_def)
next
  case Callback_Returns
  then show ?thesis
    using assms(1) by (cases "returning s") (auto simp: pending_steps_def split: if_splits)
qed (use assms in auto)

text \<open>
  With room for two pieces only, the third of a batch is not done when \<^verbatim>\<open>ExecuteWork\<close> returns: the
  flag \<^verbatim>\<open>queue_more_work\<close> is that of the time before the yield, when the list was full.
\<close>

definition forgetful_run :: "(nat, nat) work_event list" where
  "forgetful_run =
     [Body_Goes_On, Run_Posted (0, 10), Run_Posted (1, 11), Work_Done (0, 10) 0, Callback_Returns,
      Work_Done (1, 11) 0]"

theorem two_at_a_time_loses_work:
  "map_option (\<lambda>s. (parent_stage s, parent s, work_queue s))
     (run_events
        (work_step (\<lambda>w r p. p @ [w]) (\<lambda>p. if p = [] then (p, Some [10, 11, 12]) else (p, None)))
        forgetful_run (new_system 2 []))
   = Some (In_Body, [10, 11], [(2, 12)])"
  by code_simp

end
