(* ===== verification/Api_Poll.thy ===== *)
theory Api_Poll
  imports Api_Work
begin

text \<open>
  The coroutines \<^verbatim>\<open>PollChanges\<close> and \<^verbatim>\<open>PollForeignChanges\<close> of \<^verbatim>\<open>api/actions\<close>, which are parents of a
  work manager. Each is the code between two calls of \<^verbatim>\<open>ExecuteWork\<close>, which gives
  the work that is queued, and the handlers of the results; \<open>all_work_done\<close> says how the manager runs
  them. \<^verbatim>\<open>Cancel\<close> sets the flag \<^verbatim>\<open>cancelled_\<close> and posts the cancellation of the work manager, which is the
  step \<open>Cancel_Posted\<close>; the look at the flag after queueing work posts another one.
\<close>

section \<open>The results of the work\<close>

text \<open>What an action can give to its callback\<close>

definition single_result :: "action_class \<Rightarrow> 'p response option \<Rightarrow> action_error list \<Rightarrow> bool" where
  "single_result c r errors \<longleftrightarrow>
     (\<exists>es s. run_events single_step es (single_action c) = Some s \<and> sa_callbacks s = [(r, errors)])"

definition changes_result :: "uint32 \<Rightarrow> ('f, 'd) changes_report \<Rightarrow> bool" where
  "changes_result known report \<longleftrightarrow>
     (\<exists>garbage es s. run_events changes_step es (GetChangesDevice garbage known) = Some s
        \<and> ca_callbacks s = [report])"

definition foreign_result :: "('d \<Rightarrow> string) \<Rightarrow> string \<Rightarrow> uint32 \<Rightarrow> ('f, 'd) foreign_report \<Rightarrow> bool" where
  "foreign_result folderkey contact known report \<longleftrightarrow>
     (\<exists>es s. run_events (foreign_step folderkey) es (GetForeignChangesDevice contact known) = Some s
        \<and> fa_callbacks s = [report])"

text \<open>
  An action of one request gives a response without an error, or a response that was never set
  with the error of its request.
\<close>

lemma single_run:
  assumes "run_events single_step es s = Some s'"
    and "sa_stage s = Ended \<or> sa_callbacks s = [] \<and> sa_response s = None \<and> sa_errors s = []"
    and "\<forall>(r, errs)\<in>set (sa_callbacks s). (case r of Some r \<Rightarrow> \<not> failed r \<and> errs = [] | None \<Rightarrow> length errs = 1)"
  shows "\<forall>(r, errs)\<in>set (sa_callbacks s'). (case r of Some r \<Rightarrow> \<not> failed r \<and> errs = [] | None \<Rightarrow> length errs = 1)"
  using assms
proof (induction es arbitrary: s)
  case (Cons e es)
  obtain t where t: "single_step e s = Some t" "run_events single_step es t = Some s'"
    using Cons.prems(1) by (rule run_events_Cons)
  show ?case
  proof (rule Cons.IH [OF t(2)])
    show "sa_stage t = Ended \<or> sa_callbacks t = [] \<and> sa_response t = None \<and> sa_errors t = []"
      using Cons.prems(2) t(1)
      by (cases e) (auto simp: HandleSingle_def Let_def coroutine_defs split: if_splits option.splits)
    show "\<forall>(r, errs)\<in>set (sa_callbacks t).
        (case r of Some r \<Rightarrow> \<not> failed r \<and> errs = [] | None \<Rightarrow> length errs = 1)"
      using Cons.prems(2,3) t(1)
      by (cases e) (auto simp: HandleSingle_def Let_def split: if_splits)
  qed
qed simp

lemma single_result_cases:
  assumes "single_result c r errors"
  shows "case r of Some r \<Rightarrow> \<not> failed r \<and> errors = [] | None \<Rightarrow> length errors = 1"
proof -
  obtain es s where "run_events single_step es (single_action c) = Some s" "sa_callbacks s = [(r, errors)]"
    using assms by (auto simp: single_result_def)
  then show ?thesis using single_run [of es "single_action c" s] by (simp add: single_action_def)
qed

section \<open>Polling the changes of the device\<close>

datatype poll_work = Changes_Work uint32 | File_Info_Work string | Folder_Info_Work string

datatype ('f, 'd, 'i, 'j) poll_result =
    Changes_Report "('f, 'd) changes_report"
  | File_Info "'i response option" "action_error list"
  | Folder_Info "'j response option" "action_error list"

record ('f, 'd, 'i, 'j) poll_changes =
  pc_revision :: uint32
  pc_turn :: nat                          \<comment> \<open>calls of \<^verbatim>\<open>ExecuteWork\<close> that returned\<close>
  pc_latest_revision :: uint32
  pc_updated_files :: "'f list"
  pc_updated_folders :: "'d list"
  pc_deleted_files :: "'f list"
  pc_deleted_folders :: "'d list"
  pc_status_errors :: "(error_code \<times> string) list"
  pc_changes_errors :: "(uint32 \<times> error_code \<times> string) list"
  pc_file_errors :: "action_error list"
  pc_folder_errors :: "action_error list"
  pc_files_info :: "'i response option list"
  pc_folders_info :: "'j response option list"
  pc_called :: bool                       \<comment> \<open>the callback, with the members\<close>

definition PollChanges :: "uint32 \<Rightarrow> ('f, 'd, 'i, 'j) poll_changes" where
  "PollChanges revision =
     \<lparr>pc_revision = revision, pc_turn = 0, pc_latest_revision = 0, pc_updated_files = [],
      pc_updated_folders = [], pc_deleted_files = [], pc_deleted_folders = [], pc_status_errors = [],
      pc_changes_errors = [], pc_file_errors = [], pc_folder_errors = [], pc_files_info = [],
      pc_folders_info = [], pc_called = False\<rparr>"

text \<open>The body: the work that is queued before each of the three calls, and the callback.\<close>

definition poll_body :: "('f \<Rightarrow> string) \<Rightarrow> ('d \<Rightarrow> string) \<Rightarrow> ('f, 'd, 'i, 'j) poll_changes \<Rightarrow>
    ('f, 'd, 'i, 'j) poll_changes \<times> poll_work list option" where
  "poll_body quickkey folderkey p =
     (let q = p\<lparr>pc_turn := Suc (pc_turn p)\<rparr>
      in if pc_turn p = 0 then (q, Some [Changes_Work (pc_revision p)])
         else if pc_turn p = 1 then (q, Some (map (\<lambda>f. File_Info_Work (quickkey f)) (pc_updated_files p)))
         else if pc_turn p = 2 then (q, Some (map (\<lambda>d. Folder_Info_Work (folderkey d)) (pc_updated_folders p)))
         else (p\<lparr>pc_called := True\<rparr>, None))"

definition HandleGetChangesDevice :: "('d \<Rightarrow> string) \<Rightarrow> ('f, 'd) changes_report \<Rightarrow>
    ('f, 'd, 'i, 'j) poll_changes \<Rightarrow> ('f, 'd, 'i, 'j) poll_changes" where
  "HandleGetChangesDevice folderkey c p =
     p\<lparr>pc_latest_revision := cr_revision c, pc_status_errors := cr_get_status_errors c,
       pc_changes_errors := cr_get_changes_errors c, pc_updated_files := cr_updated_files c,
       pc_updated_folders := pc_updated_folders p
         @ filter (\<lambda>d. folderkey d \<noteq> ''trash'') (cr_updated_folders c),
       pc_deleted_files := cr_deleted_files c, pc_deleted_folders := cr_deleted_folders c\<rparr>"

definition HandleGetInfoFile :: "'i response option \<Rightarrow> action_error list \<Rightarrow>
    ('f, 'd, 'i, 'j) poll_changes \<Rightarrow> ('f, 'd, 'i, 'j) poll_changes" where
  "HandleGetInfoFile response errors p =
     (if errors \<noteq> [] then p\<lparr>pc_file_errors := pc_file_errors p @ errors\<rparr>
      else p\<lparr>pc_files_info := pc_files_info p @ [response]\<rparr>)"

definition HandleGetInfoFolder :: "'j response option \<Rightarrow> action_error list \<Rightarrow>
    ('f, 'd, 'i, 'j) poll_changes \<Rightarrow> ('f, 'd, 'i, 'j) poll_changes" where
  "HandleGetInfoFolder response errors p =
     (if errors \<noteq> [] then p\<lparr>pc_folder_errors := pc_folder_errors p @ errors\<rparr>
      else p\<lparr>pc_folders_info := pc_folders_info p @ [response]\<rparr>)"

fun poll_handle :: "('d \<Rightarrow> string) \<Rightarrow> poll_work \<Rightarrow> ('f, 'd, 'i, 'j) poll_result \<Rightarrow>
    ('f, 'd, 'i, 'j) poll_changes \<Rightarrow> ('f, 'd, 'i, 'j) poll_changes" where
  "poll_handle folderkey (Changes_Work _) (Changes_Report c) p = HandleGetChangesDevice folderkey c p"
| "poll_handle folderkey (File_Info_Work _) (File_Info r errors) p = HandleGetInfoFile r errors p"
| "poll_handle folderkey (Folder_Info_Work _) (Folder_Info r errors) p = HandleGetInfoFolder r errors p"
| "poll_handle folderkey _ _ p = p"

text \<open>The results of a piece of work are those of its action.\<close>

fun poll_possible :: "poll_work \<Rightarrow> ('f, 'd, 'i, 'j) poll_result \<Rightarrow> bool" where
  "poll_possible (Changes_Work revision) (Changes_Report c) \<longleftrightarrow> changes_result revision c"
| "poll_possible (File_Info_Work key) (File_Info r errors) \<longleftrightarrow> single_result (GetInfoFile key) r errors"
| "poll_possible (Folder_Info_Work key) (Folder_Info r errors) \<longleftrightarrow> single_result (GetInfoFolder key) r errors"
| "poll_possible _ _ \<longleftrightarrow> False"

section \<open>Polling the changes of a contact\<close>

datatype foreign_work = Foreign_Work string uint32 | Foreign_File_Work string | Foreign_Folder_Work string

datatype ('f, 'd, 'i, 'j) foreign_poll_result =
    Foreign_Report "('f, 'd) foreign_report"
  | Foreign_File_Info "'i response option" "action_error list"
  | Foreign_Folder_Info "'j response option" "action_error list"

record ('f, 'd, 'i, 'j) poll_foreign =
  pf_contact_key :: string
  pf_revision :: uint32
  pf_turn :: nat
  pf_latest_revision :: uint32
  pf_updated_files :: "'f list"
  pf_updated_folders :: "'d list"
  pf_deleted_files :: "'f list"
  pf_deleted_folders :: "'d list"
  pf_changes_errors :: "(error_code \<times> string option) list"
  pf_file_errors :: "action_error list"
  pf_folder_errors :: "action_error list"
  pf_files_info :: "'i response option list"
  pf_folders_info :: "'j response option list"
  pf_called :: bool

text \<open>\<^verbatim>\<open>latest_changes_revision_\<close> is not initialised: its value is an argument.\<close>

definition PollForeignChanges :: "uint32 \<Rightarrow> string \<Rightarrow> uint32 \<Rightarrow> ('f, 'd, 'i, 'j) poll_foreign" where
  "PollForeignChanges garbage contact_key revision =
     \<lparr>pf_contact_key = contact_key, pf_revision = revision, pf_turn = 0, pf_latest_revision = garbage,
      pf_updated_files = [], pf_updated_folders = [], pf_deleted_files = [], pf_deleted_folders = [],
      pf_changes_errors = [], pf_file_errors = [], pf_folder_errors = [], pf_files_info = [],
      pf_folders_info = [], pf_called = False\<rparr>"

definition foreign_body :: "('f \<Rightarrow> string) \<Rightarrow> ('d \<Rightarrow> string) \<Rightarrow> ('f, 'd, 'i, 'j) poll_foreign \<Rightarrow>
    ('f, 'd, 'i, 'j) poll_foreign \<times> foreign_work list option" where
  "foreign_body quickkey folderkey p =
     (let q = p\<lparr>pf_turn := Suc (pf_turn p)\<rparr>
      in if pf_turn p = 0 then (q, Some [Foreign_Work (pf_contact_key p) (pf_revision p)])
         else if pf_turn p = 1 then (q, Some (map (\<lambda>f. Foreign_File_Work (quickkey f)) (pf_updated_files p)))
         else if pf_turn p = 2 then (q, Some (map (\<lambda>d. Foreign_Folder_Work (folderkey d)) (pf_updated_folders p)))
         else (p\<lparr>pf_called := True\<rparr>, None))"

definition HandleGetForeignChangesDevice :: "('f, 'd) foreign_report \<Rightarrow>
    ('f, 'd, 'i, 'j) poll_foreign \<Rightarrow> ('f, 'd, 'i, 'j) poll_foreign" where
  "HandleGetForeignChangesDevice c p =
     p\<lparr>pf_latest_revision := fr_revision c, pf_changes_errors := fr_errors c,
       pf_updated_files := fr_updated_files c, pf_updated_folders := fr_updated_folders c,
       pf_deleted_files := fr_deleted_files c, pf_deleted_folders := fr_deleted_folders c\<rparr>"

text \<open>
  These handlers look at the error code of the response, which is not set in a response that is
  default constructed.
\<close>

definition response_failed :: "'p response option \<Rightarrow> bool" where
  "response_failed r = (case r of Some r \<Rightarrow> failed r | None \<Rightarrow> False)"

definition HandleForeignInfoFile :: "'i response option \<Rightarrow> action_error list \<Rightarrow>
    ('f, 'd, 'i, 'j) poll_foreign \<Rightarrow> ('f, 'd, 'i, 'j) poll_foreign" where
  "HandleForeignInfoFile response errors p =
     (if response_failed response then p\<lparr>pf_file_errors := pf_file_errors p @ errors\<rparr>
      else p\<lparr>pf_files_info := pf_files_info p @ [response]\<rparr>)"

definition HandleForeignInfoFolder :: "'j response option \<Rightarrow> action_error list \<Rightarrow>
    ('f, 'd, 'i, 'j) poll_foreign \<Rightarrow> ('f, 'd, 'i, 'j) poll_foreign" where
  "HandleForeignInfoFolder response errors p =
     (if response_failed response then p\<lparr>pf_folder_errors := pf_folder_errors p @ errors\<rparr>
      else p\<lparr>pf_folders_info := pf_folders_info p @ [response]\<rparr>)"

fun foreign_handle :: "foreign_work \<Rightarrow> ('f, 'd, 'i, 'j) foreign_poll_result \<Rightarrow>
    ('f, 'd, 'i, 'j) poll_foreign \<Rightarrow> ('f, 'd, 'i, 'j) poll_foreign" where
  "foreign_handle (Foreign_Work _ _) (Foreign_Report c) p = HandleGetForeignChangesDevice c p"
| "foreign_handle (Foreign_File_Work _) (Foreign_File_Info r errors) p = HandleForeignInfoFile r errors p"
| "foreign_handle (Foreign_Folder_Work _) (Foreign_Folder_Info r errors) p = HandleForeignInfoFolder r errors p"
| "foreign_handle _ _ p = p"

fun foreign_possible :: "('d \<Rightarrow> string) \<Rightarrow> foreign_work \<Rightarrow> ('f, 'd, 'i, 'j) foreign_poll_result \<Rightarrow> bool" where
  "foreign_possible folderkey (Foreign_Work contact revision) (Foreign_Report c) \<longleftrightarrow>
     foreign_result folderkey contact revision c"
| "foreign_possible folderkey (Foreign_File_Work key) (Foreign_File_Info r errors) \<longleftrightarrow>
     single_result (GetInfoFile key) r errors"
| "foreign_possible folderkey (Foreign_Folder_Work key) (Foreign_Folder_Info r errors) \<longleftrightarrow>
     single_result (GetInfoFolder key) r errors"
| "foreign_possible folderkey _ _ \<longleftrightarrow> False"

section \<open>What polling reports\<close>

text \<open>
  The answers of the actions that read the information of the files, or folders: with the key,
  the response and the errors. There is information where there are no errors.
\<close>

type_synonym 'i answers = "(string \<times> 'i response option \<times> action_error list) list"

definition answers_info :: "'i answers \<Rightarrow> 'i response option list" where
  "answers_info as = map (\<lambda>(_, r, _). r) (filter (\<lambda>(_, _, errors). errors = []) as)"

definition answers_errors :: "'i answers \<Rightarrow> action_error list" where
  "answers_errors as = concat (map (\<lambda>(_, _, errors). errors) as)"

definition answers_of :: "(string \<Rightarrow> action_class) \<Rightarrow> string list \<Rightarrow> 'i answers \<Rightarrow> bool" where
  "answers_of c keys as \<longleftrightarrow>
     mset (map fst as) = mset keys \<and> (\<forall>(key, r, errors)\<in>set as. single_result (c key) r errors)"

lemma info_answers_counted:
  assumes "answers_of c keys as"
  shows "length (answers_info as) + length (answers_errors as) = length keys"
proof -
  have "\<forall>(key, r, errors)\<in>set as. single_result (c key) r errors \<Longrightarrow>
      length (answers_info as) + length (answers_errors as) = length as"
  proof (induction as)
    case (Cons a as)
    obtain key r errors where a: "a = (key, r, errors)" by (cases a) auto
    have "case r of Some r \<Rightarrow> \<not> failed r \<and> errors = [] | None \<Rightarrow> length errors = 1"
      using Cons.prems by (intro single_result_cases [of "c key"]) (simp add: a)
    then show ?case
      using Cons by (cases r) (auto simp: a answers_info_def answers_errors_def)
  qed (simp add: answers_info_def answers_errors_def)
  moreover have "length as = length keys"
    using assms unfolding answers_of_def by (metis length_map size_mset)
  ultimately show ?thesis using assms by (simp add: answers_of_def)
qed

text \<open>
  The results of a batch of one sort are answers, and what the parent does with them in turn can
  be done at once, if its handler does it with one.
\<close>

lemma batch_answers:
  fixes work :: "string \<Rightarrow> 'w" and take :: "'i answers \<Rightarrow> 'p \<Rightarrow> 'p"
  assumes possible: "\<forall>(w, r)\<in>set rs. possible w r" and keys: "mset (map fst rs) = mset (map work keys)"
    and inverse: "\<And>key. key_of (work key) = key"
    and one: "\<And>key r. possible (work key) r \<Longrightarrow>
      \<exists>a errors. single_result (c key) a errors \<and> (\<forall>p. handle (work key) r p = take [(key, a, errors)] p)"
    and take: "\<And>p. take [] p = p" "\<And>a as p. take (a # as) p = take as (take [a] p)"
  obtains as where "answers_of c keys as" and "\<And>p. take_results handle rs p = take as p"
proof -
  have "\<forall>w\<in>set (map fst rs). \<exists>key. w = work key"
    using keys by (metis (no_types, lifting) ex_map_conv mset_eq_setD)
  then have "\<exists>as. map fst rs = map work (map fst as)
      \<and> (\<forall>(key, r, errors)\<in>set as. single_result (c key) r errors)
      \<and> (\<forall>p. take_results handle rs p = take as p)"
    using possible
  proof (induction rs)
    case Nil
    then show ?case by (intro exI [of _ "[]"]) (simp add: take)
  next
    case (Cons wr rs)
    obtain key r where wr: "wr = (work key, r)" using Cons.prems(1) by (cases wr) auto
    then obtain a errors where r: "single_result (c key) a errors"
      "\<And>p. handle (work key) r p = take [(key, a, errors)] p"
      using Cons.prems(2) one [of key r] by auto
    obtain as where as: "map fst rs = map work (map fst as)"
      "\<forall>(key, r, errors)\<in>set as. single_result (c key) r errors"
      "\<forall>p. take_results handle rs p = take as p"
      using Cons by auto
    then show ?case
      using r take(2) [of "(key, a, errors)" as]
      by (intro exI [of _ "(key, a, errors) # as"]) (simp add: wr)
  qed
  then obtain as where as: "map fst rs = map work (map fst as)"
      "\<forall>(key, r, errors)\<in>set as. single_result (c key) r errors"
      "\<forall>p. take_results handle rs p = take as p" by blast
  have "mset (map key_of (map fst rs)) = mset (map key_of (map work keys))"
    using keys by (metis mset_map)
  then have "mset (map fst as) = mset keys"
    by (simp add: as(1) inverse comp_def)
  then show thesis using that as unfolding answers_of_def by blast
qed

fun work_key :: "poll_work \<Rightarrow> string" where
  "work_key (File_Info_Work key) = key"
| "work_key (Folder_Info_Work key) = key"
| "work_key (Changes_Work _) = []"

definition take_files :: "'i answers \<Rightarrow> ('f, 'd, 'i, 'j) poll_changes \<Rightarrow> ('f, 'd, 'i, 'j) poll_changes" where
  "take_files as p = p\<lparr>pc_files_info := pc_files_info p @ answers_info as,
     pc_file_errors := pc_file_errors p @ answers_errors as\<rparr>"

definition take_folders :: "'j answers \<Rightarrow> ('f, 'd, 'i, 'j) poll_changes \<Rightarrow> ('f, 'd, 'i, 'j) poll_changes" where
  "take_folders as p = p\<lparr>pc_folders_info := pc_folders_info p @ answers_info as,
     pc_folder_errors := pc_folder_errors p @ answers_errors as\<rparr>"

lemmas answers_defs = answers_info_def answers_errors_def

lemma file_results:
  fixes rs :: "(poll_work \<times> ('f, 'd, 'i, 'j) poll_result) list" and folderkey :: "'d \<Rightarrow> string"
  assumes "\<forall>(w, r)\<in>set rs. poll_possible w r" and "mset (map fst rs) = mset (map File_Info_Work keys)"
  obtains as where "answers_of GetInfoFile keys as"
    and "\<And>p. take_results (poll_handle folderkey) rs p = take_files as p"
proof (rule batch_answers [OF assms, where key_of = work_key and take = take_files])
  fix key and r :: "('f, 'd, 'i, 'j) poll_result"
  assume "poll_possible (File_Info_Work key) r"
  then obtain a errors where "r = File_Info a errors" "single_result (GetInfoFile key) a errors"
    by (cases r) auto
  then show "\<exists>a errors. single_result (GetInfoFile key) a errors
      \<and> (\<forall>p. poll_handle folderkey (File_Info_Work key) r p = take_files [(key, a, errors)] p)"
    by (intro exI [of _ a] exI [of _ errors])
      (simp add: take_files_def answers_defs HandleGetInfoFile_def)
qed (auto simp: take_files_def answers_defs)

lemma folder_results:
  fixes rs :: "(poll_work \<times> ('f, 'd, 'i, 'j) poll_result) list" and folderkey :: "'d \<Rightarrow> string"
  assumes "\<forall>(w, r)\<in>set rs. poll_possible w r" and "mset (map fst rs) = mset (map Folder_Info_Work keys)"
  obtains as where "answers_of GetInfoFolder keys as"
    and "\<And>p. take_results (poll_handle folderkey) rs p = take_folders as p"
proof (rule batch_answers [OF assms, where key_of = work_key and take = take_folders])
  fix key and r :: "('f, 'd, 'i, 'j) poll_result"
  assume "poll_possible (Folder_Info_Work key) r"
  then obtain a errors where "r = Folder_Info a errors" "single_result (GetInfoFolder key) a errors"
    by (cases r) auto
  then show "\<exists>a errors. single_result (GetInfoFolder key) a errors
      \<and> (\<forall>p. poll_handle folderkey (Folder_Info_Work key) r p = take_folders [(key, a, errors)] p)"
    by (intro exI [of _ a] exI [of _ errors])
      (simp add: take_folders_def answers_defs HandleGetInfoFolder_def)
qed (auto simp: take_folders_def answers_defs)

text \<open>The members after the first turn, for the report of the changes and the answers so far.\<close>

definition poll_view :: "('d \<Rightarrow> string) \<Rightarrow> uint32 \<Rightarrow> ('f, 'd) changes_report \<Rightarrow> 'i answers \<Rightarrow> 'j answers \<Rightarrow>
    ('f, 'd, 'i, 'j) poll_changes \<Rightarrow> bool" where
  "poll_view folderkey revision c as bs p \<longleftrightarrow>
     pc_latest_revision p = cr_revision c \<and> pc_updated_files p = cr_updated_files c
     \<and> pc_updated_folders p = filter (\<lambda>d. folderkey d \<noteq> ''trash'') (cr_updated_folders c)
     \<and> pc_deleted_files p = cr_deleted_files c \<and> pc_deleted_folders p = cr_deleted_folders c
     \<and> pc_status_errors p = cr_get_status_errors c \<and> pc_changes_errors p = cr_get_changes_errors c
     \<and> pc_files_info p = answers_info as \<and> pc_file_errors p = answers_errors as
     \<and> pc_folders_info p = answers_info bs \<and> pc_folder_errors p = answers_errors bs"

definition file_keys :: "('f \<Rightarrow> string) \<Rightarrow> ('f, 'd) changes_report \<Rightarrow> string list" where
  "file_keys quickkey c = map quickkey (cr_updated_files c)"

definition folder_keys :: "('d \<Rightarrow> string) \<Rightarrow> ('f, 'd) changes_report \<Rightarrow> string list" where
  "folder_keys folderkey c = map folderkey (filter (\<lambda>d. folderkey d \<noteq> ''trash'') (cr_updated_folders c))"

definition poll_ok :: "('f \<Rightarrow> string) \<Rightarrow> ('d \<Rightarrow> string) \<Rightarrow> uint32 \<Rightarrow> ('f, 'd, 'i, 'j) poll_changes \<Rightarrow> bool" where
  "poll_ok quickkey folderkey revision p \<longleftrightarrow>
     (if pc_turn p = 0 then p = PollChanges revision
      else \<exists>c as bs. changes_result revision c \<and> poll_view folderkey revision c as bs p
        \<and> (if pc_turn p = 1 then as = [] else answers_of GetInfoFile (file_keys quickkey c) as)
        \<and> (if pc_turn p \<le> 2 then bs = [] else answers_of GetInfoFolder (folder_keys folderkey c) bs))"

lemma poll_batch_ok:
  assumes ok: "poll_ok quickkey folderkey revision q" and body: "poll_body quickkey folderkey q = (q', Some ws)"
    and rs: "\<forall>(w, r)\<in>set rs. poll_possible w r" "mset (map fst rs) = mset ws"
  shows "poll_ok quickkey folderkey revision (take_results (poll_handle folderkey) rs q')"
proof -
  consider "pc_turn q = 0" | "pc_turn q = 1" | "pc_turn q = 2"
    using body by (auto simp: poll_body_def Let_def split: if_splits)
  then show ?thesis
  proof cases
    case 1
    then have q: "q = PollChanges revision" and q': "q' = q\<lparr>pc_turn := 1\<rparr>"
      and ws: "ws = [Changes_Work (pc_revision q)]"
      using ok body by (auto simp: poll_ok_def poll_body_def Let_def split: if_splits)
    have "pc_revision q = revision" by (simp add: q PollChanges_def)
    with ws rs(2) have "mset (map fst rs) = {#Changes_Work revision#}" by simp
    then have "map fst rs = [Changes_Work revision]" by (simp only: mset_single_iff)
    then obtain r where rs': "rs = [(Changes_Work revision, r)]" by (cases rs) auto
    then obtain c where r: "r = Changes_Report c" "changes_result revision c"
      using rs(1) by (cases r) auto
    then show ?thesis
      unfolding poll_ok_def rs' q' q
      by (auto simp: HandleGetChangesDevice_def poll_view_def PollChanges_def answers_defs
          intro!: exI [of _ c] exI [of _ "[]"])
  next
    case 2
    then obtain c where c: "changes_result revision c" "poll_view folderkey revision c [] [] q"
      using ok by (auto simp: poll_ok_def)
    have q': "q' = q\<lparr>pc_turn := 2\<rparr>" and ws: "ws = map File_Info_Work (file_keys quickkey c)"
      using 2 c body by (auto simp: poll_body_def Let_def poll_view_def file_keys_def numeral_2_eq_2)
    from file_results [OF rs(1) rs(2) [unfolded ws]] obtain as where as: "answers_of GetInfoFile (file_keys quickkey c) as"
      "\<And>p. take_results (poll_handle folderkey) rs p = take_files as p" by blast
    have "poll_view folderkey revision c as [] (take_files as q')"
      using c(2) by (simp add: q' poll_view_def take_files_def) (simp add: answers_defs)
    then show ?thesis
      using c(1) as(1) unfolding poll_ok_def as(2) by (auto simp: q' take_files_def)
  next
    case 3
    then obtain c as where c: "changes_result revision c" "poll_view folderkey revision c as [] q"
      "answers_of GetInfoFile (file_keys quickkey c) as"
      using ok by (auto simp: poll_ok_def)
    have q': "q' = q\<lparr>pc_turn := 3\<rparr>" and ws: "ws = map Folder_Info_Work (folder_keys folderkey c)"
      using 3 c body by (auto simp: poll_body_def Let_def poll_view_def folder_keys_def)
    from folder_results [OF rs(1) rs(2) [unfolded ws]] obtain bs
      where bs: "answers_of GetInfoFolder (folder_keys folderkey c) bs"
      "\<And>p. take_results (poll_handle folderkey) rs p = take_folders bs p" by blast
    have "poll_view folderkey revision c as bs (take_folders bs q')"
      using c(2) by (simp add: q' poll_view_def take_folders_def) (simp add: answers_defs)
    then show ?thesis
      using c bs(1) unfolding poll_ok_def bs(2) by (auto simp: q' take_folders_def)
  qed
qed

lemma poll_batches_ok:
  "batches False poll_possible (poll_handle folderkey) (poll_body quickkey folderkey) (PollChanges revision) q \<Longrightarrow>
   poll_ok quickkey folderkey revision q"
proof (induction rule: batches.induct)
  case batches_start
  then show ?case by (simp add: poll_ok_def PollChanges_def)
next
  case (batches_batch q q' ws rs)
  show ?case
    by (rule poll_batch_ok [OF batches_batch.IH batches_batch.hyps(2,3)])
      (use batches_batch.hyps(4) in \<open>simp add: all_done_def\<close>)
qed


section \<open>What polling a contact reports\<close>

fun foreign_key :: "foreign_work \<Rightarrow> string" where
  "foreign_key (Foreign_File_Work key) = key"
| "foreign_key (Foreign_Folder_Work key) = key"
| "foreign_key (Foreign_Work _ _) = []"

definition answers_responses :: "'i answers \<Rightarrow> 'i response option list" where
  "answers_responses as = map (\<lambda>(_, r, _). r) as"

definition take_foreign_files :: "'i answers \<Rightarrow> ('f, 'd, 'i, 'j) poll_foreign \<Rightarrow> ('f, 'd, 'i, 'j) poll_foreign" where
  "take_foreign_files as p = p\<lparr>pf_files_info := pf_files_info p @ answers_responses as\<rparr>"

definition take_foreign_folders :: "'j answers \<Rightarrow> ('f, 'd, 'i, 'j) poll_foreign \<Rightarrow> ('f, 'd, 'i, 'j) poll_foreign" where
  "take_foreign_folders as p = p\<lparr>pf_folders_info := pf_folders_info p @ answers_responses as\<rparr>"

lemma result_not_failed: "single_result c r errors \<Longrightarrow> \<not> response_failed r"
  using single_result_cases [of c r errors] by (auto simp: response_failed_def split: option.splits)

lemma foreign_file_results:
  fixes rs :: "(foreign_work \<times> ('f, 'd, 'i, 'j) foreign_poll_result) list" and folderkey :: "'d \<Rightarrow> string"
  assumes "\<forall>(w, r)\<in>set rs. foreign_possible folderkey w r"
    and "mset (map fst rs) = mset (map Foreign_File_Work keys)"
  obtains as where "answers_of GetInfoFile keys as"
    and "\<And>p. take_results foreign_handle rs p = take_foreign_files as p"
proof (rule batch_answers [OF assms, where key_of = foreign_key and take = take_foreign_files])
  fix key and r :: "('f, 'd, 'i, 'j) foreign_poll_result"
  assume "foreign_possible folderkey (Foreign_File_Work key) r"
  then obtain a errors where r: "r = Foreign_File_Info a errors" "single_result (GetInfoFile key) a errors"
    by (cases r) auto
  then show "\<exists>a errors. single_result (GetInfoFile key) a errors
      \<and> (\<forall>p. foreign_handle (Foreign_File_Work key) r p = take_foreign_files [(key, a, errors)] p)"
    using result_not_failed [OF r(2)]
    by (intro exI [of _ a] exI [of _ errors])
      (simp add: take_foreign_files_def answers_responses_def HandleForeignInfoFile_def)
qed (auto simp: take_foreign_files_def answers_responses_def)

lemma foreign_folder_results:
  fixes rs :: "(foreign_work \<times> ('f, 'd, 'i, 'j) foreign_poll_result) list" and folderkey :: "'d \<Rightarrow> string"
  assumes "\<forall>(w, r)\<in>set rs. foreign_possible folderkey w r"
    and "mset (map fst rs) = mset (map Foreign_Folder_Work keys)"
  obtains as where "answers_of GetInfoFolder keys as"
    and "\<And>p. take_results foreign_handle rs p = take_foreign_folders as p"
proof (rule batch_answers [OF assms, where key_of = foreign_key and take = take_foreign_folders])
  fix key and r :: "('f, 'd, 'i, 'j) foreign_poll_result"
  assume "foreign_possible folderkey (Foreign_Folder_Work key) r"
  then obtain a errors where r: "r = Foreign_Folder_Info a errors" "single_result (GetInfoFolder key) a errors"
    by (cases r) auto
  then show "\<exists>a errors. single_result (GetInfoFolder key) a errors
      \<and> (\<forall>p. foreign_handle (Foreign_Folder_Work key) r p = take_foreign_folders [(key, a, errors)] p)"
    using result_not_failed [OF r(2)]
    by (intro exI [of _ a] exI [of _ errors])
      (simp add: take_foreign_folders_def answers_responses_def HandleForeignInfoFolder_def)
qed (auto simp: take_foreign_folders_def answers_responses_def)

definition foreign_view :: "('f, 'd) foreign_report \<Rightarrow> 'i answers \<Rightarrow> 'j answers \<Rightarrow>
    ('f, 'd, 'i, 'j) poll_foreign \<Rightarrow> bool" where
  "foreign_view c as bs p \<longleftrightarrow>
     pf_latest_revision p = fr_revision c \<and> pf_updated_files p = fr_updated_files c
     \<and> pf_updated_folders p = fr_updated_folders c
     \<and> pf_deleted_files p = fr_deleted_files c \<and> pf_deleted_folders p = fr_deleted_folders c
     \<and> pf_changes_errors p = fr_errors c
     \<and> pf_files_info p = answers_responses as \<and> pf_file_errors p = []
     \<and> pf_folders_info p = answers_responses bs \<and> pf_folder_errors p = []"

definition foreign_ok :: "('f \<Rightarrow> string) \<Rightarrow> ('d \<Rightarrow> string) \<Rightarrow> uint32 \<Rightarrow> string \<Rightarrow> uint32 \<Rightarrow>
    ('f, 'd, 'i, 'j) poll_foreign \<Rightarrow> bool" where
  "foreign_ok quickkey folderkey garbage contact revision p \<longleftrightarrow>
     (if pf_turn p = 0 then p = PollForeignChanges garbage contact revision
      else \<exists>c as bs. foreign_result folderkey contact revision c \<and> foreign_view c as bs p
        \<and> (if pf_turn p = 1 then as = [] else answers_of GetInfoFile (map quickkey (fr_updated_files c)) as)
        \<and> (if pf_turn p \<le> 2 then bs = []
           else answers_of GetInfoFolder (map folderkey (fr_updated_folders c)) bs))"

lemma foreign_batch_ok:
  assumes ok: "foreign_ok quickkey folderkey garbage contact revision q"
    and body: "foreign_body quickkey folderkey q = (q', Some ws)"
    and rs: "\<forall>(w, r)\<in>set rs. foreign_possible folderkey w r" "mset (map fst rs) = mset ws"
  shows "foreign_ok quickkey folderkey garbage contact revision (take_results foreign_handle rs q')"
proof -
  consider "pf_turn q = 0" | "pf_turn q = 1" | "pf_turn q = 2"
    using body by (auto simp: foreign_body_def Let_def split: if_splits)
  then show ?thesis
  proof cases
    case 1
    then have q: "q = PollForeignChanges garbage contact revision" and q': "q' = q\<lparr>pf_turn := 1\<rparr>"
      and ws: "ws = [Foreign_Work (pf_contact_key q) (pf_revision q)]"
      using ok body by (auto simp: foreign_ok_def foreign_body_def Let_def split: if_splits)
    have "pf_contact_key q = contact" "pf_revision q = revision"
      by (simp_all add: q PollForeignChanges_def)
    with ws rs(2) have "mset (map fst rs) = {#Foreign_Work contact revision#}" by simp
    then have "map fst rs = [Foreign_Work contact revision]" by (simp only: mset_single_iff)
    then obtain r where rs': "rs = [(Foreign_Work contact revision, r)]" by (cases rs) auto
    then obtain c where r: "r = Foreign_Report c" "foreign_result folderkey contact revision c"
      using rs(1) by (cases r) auto
    then show ?thesis
      unfolding foreign_ok_def rs' q' q
      by (auto simp: HandleGetForeignChangesDevice_def foreign_view_def PollForeignChanges_def
          answers_responses_def intro!: exI [of _ c] exI [of _ "[]"])
  next
    case 2
    then obtain c where c: "foreign_result folderkey contact revision c" "foreign_view c [] [] q"
      using ok by (auto simp: foreign_ok_def)
    have q': "q' = q\<lparr>pf_turn := 2\<rparr>"
      and ws: "ws = map Foreign_File_Work (map quickkey (fr_updated_files c))"
      using 2 c body by (auto simp: foreign_body_def Let_def foreign_view_def numeral_2_eq_2)
    from foreign_file_results [OF rs(1) rs(2) [unfolded ws]] obtain as
      where as: "answers_of GetInfoFile (map quickkey (fr_updated_files c)) as"
      "\<And>p. take_results foreign_handle rs p = take_foreign_files as p" by blast
    have "foreign_view c as [] (take_foreign_files as q')"
      using c(2) by (simp add: q' foreign_view_def take_foreign_files_def answers_responses_def)
    then show ?thesis
      using c(1) as(1) unfolding foreign_ok_def as(2) by (auto simp: q' take_foreign_files_def)
  next
    case 3
    then obtain c as where c: "foreign_result folderkey contact revision c" "foreign_view c as [] q"
      "answers_of GetInfoFile (map quickkey (fr_updated_files c)) as"
      using ok by (auto simp: foreign_ok_def)
    have q': "q' = q\<lparr>pf_turn := 3\<rparr>"
      and ws: "ws = map Foreign_Folder_Work (map folderkey (fr_updated_folders c))"
      using 3 c body by (auto simp: foreign_body_def Let_def foreign_view_def)
    from foreign_folder_results [OF rs(1) rs(2) [unfolded ws]] obtain bs
      where bs: "answers_of GetInfoFolder (map folderkey (fr_updated_folders c)) bs"
      "\<And>p. take_results foreign_handle rs p = take_foreign_folders bs p" by blast
    have "foreign_view c as bs (take_foreign_folders bs q')"
      using c(2) by (simp add: q' foreign_view_def take_foreign_folders_def answers_responses_def)
    then show ?thesis
      using c bs(1) unfolding foreign_ok_def bs(2) by (auto simp: q' take_foreign_folders_def)
  qed
qed

lemma foreign_batches_ok:
  "batches False (foreign_possible folderkey) foreign_handle (foreign_body quickkey folderkey)
     (PollForeignChanges garbage contact revision) q \<Longrightarrow>
   foreign_ok quickkey folderkey garbage contact revision q"
proof (induction rule: batches.induct)
  case batches_start
  then show ?case by (simp add: foreign_ok_def PollForeignChanges_def)
next
  case (batches_batch q q' ws rs)
  show ?case
    by (rule foreign_batch_ok [OF batches_batch.IH batches_batch.hyps(2,3)])
      (use batches_batch.hyps(4) in \<open>simp add: all_done_def\<close>)
qed

text \<open>
  C38: The poll of a contact never reports an error of the information on a file or a folder: where the
  request for it fails, the callback gets a response that was never set, as if it were one.
\<close>

theorem foreign_poll_hides_errors:
  assumes "3 \<le> work_limit m" and "list_all (result_ok (foreign_possible folderkey)) es"
    and "Cancel_Posted \<notin> set es"
    and "run_events (work_step foreign_handle (foreign_body quickkey folderkey)) es
      (new_system m (PollForeignChanges garbage contact revision)) = Some s"
    and "parent_stage s = Body_Ended"
  shows "\<exists>c as bs. foreign_result folderkey contact revision c
    \<and> answers_of GetInfoFile (map quickkey (fr_updated_files c)) as
    \<and> answers_of GetInfoFolder (map folderkey (fr_updated_folders c)) bs
    \<and> pf_file_errors (parent s) = [] \<and> pf_folder_errors (parent s) = []
    \<and> pf_files_info (parent s) = answers_responses as \<and> pf_folders_info (parent s) = answers_responses bs
    \<and> pf_latest_revision (parent s) = fr_revision c \<and> pf_called (parent s)"
proof -
  obtain q where q: "batches False (foreign_possible folderkey) foreign_handle
      (foreign_body quickkey folderkey) (PollForeignChanges garbage contact revision) q"
      "foreign_body quickkey folderkey q = (parent s, None)"
    by (rule ended_batches [OF assms(1-5)])
  have ok: "foreign_ok quickkey folderkey garbage contact revision q"
    by (rule foreign_batches_ok [OF q(1)])
  have "3 \<le> pf_turn q" and p: "parent s = q\<lparr>pf_called := True\<rparr>"
    using q(2) by (auto simp: foreign_body_def Let_def split: if_splits)
  then obtain c as bs where c: "foreign_result folderkey contact revision c" "foreign_view c as bs q"
    "answers_of GetInfoFile (map quickkey (fr_updated_files c)) as"
    "answers_of GetInfoFolder (map folderkey (fr_updated_folders c)) bs"
    using ok by (auto simp: foreign_ok_def split: if_splits)
  then show ?thesis
    using p by (intro exI [of _ c] exI [of _ as] exI [of _ bs]) (simp add: foreign_view_def)
qed

section \<open>Examples\<close>

text \<open>The device has changed one file; the request for its information fails.\<close>

definition example_error :: error_code where
  "example_error = api_error UnknownApiError"

definition example_changes :: "(string, string) get_changes_response" where
  "example_changes = \<lparr>rs_error_code = no_error, rs_error_string = None, gc_device_revision = 8,
     gc_updated_files = [''q''], gc_updated_folders = [], gc_deleted_files = [], gc_deleted_folders = []\<rparr>"

definition example_report :: "(string, string) changes_report" where
  "example_report = \<lparr>cr_revision = 8, cr_updated_files = [''q''], cr_updated_folders = [],
     cr_deleted_files = [], cr_deleted_folders = [], cr_get_status_errors = [], cr_get_changes_errors = []\<rparr>"

definition example_failure :: action_error where
  "example_failure = \<lparr>ae_keys = [''q''], ae_error_code = example_error,
     ae_error_string = Some ''No error string provided''\<rparr>"

lemma map_option_SomeE: "map_option f x = Some y \<Longrightarrow> (\<And>s. x = Some s \<Longrightarrow> f s = y \<Longrightarrow> P) \<Longrightarrow> P"
  by (cases x) auto

lemma example_changes_result: "changes_result 7 example_report"
proof -
  have "map_option ca_callbacks (run_events changes_step
      [Ev_Start, Ev_Response (Status \<lparr>rs_error_code = no_error, rs_error_string = None,
         gs_device_revision = 8\<rparr>), answered example_changes] (GetChangesDevice 0 7))
    = Some [example_report]"
    by code_simp
  then show ?thesis unfolding changes_result_def by (elim map_option_SomeE) blast
qed

lemma example_info_fails:
  "single_result (GetInfoFile ''q'') (None :: nat response option) [example_failure]"
proof -
  have "map_option sa_callbacks (run_events single_step
      [Ev_Start, Ev_Response \<lparr>rs_error_code = example_error, rs_error_string = None, rs_content = 0 :: nat\<rparr>]
      (single_action (GetInfoFile ''q''))) = Some [(None, [example_failure])]"
    by code_simp
  then show ?thesis unfolding single_result_def by (elim map_option_SomeE) blast
qed

definition example_poll :: "(poll_work, (string, string, nat, nat) poll_result) work_event list" where
  "example_poll =
     [Body_Goes_On, Run_Posted (0, Changes_Work 7),
      Work_Done (0, Changes_Work 7) (Changes_Report example_report), Body_Goes_On, Callback_Returns,
      Run_Posted (1, File_Info_Work ''q''),
      Work_Done (1, File_Info_Work ''q'') (File_Info None [example_failure]), Body_Goes_On, Body_Goes_On]"


lemma example_foreign_result:
  "foreign_result id ''c'' 7 \<lparr>fr_revision = 500, fr_updated_files = [''q''], fr_updated_folders = [],
     fr_deleted_files = [], fr_deleted_folders = [], fr_errors = []\<rparr>"
proof -
  have "map_option fa_callbacks (run_events (foreign_step id) [Ev_Start, Ev_Response example_changes]
      (GetForeignChangesDevice ''c'' 7))
    = Some [\<lparr>fr_revision = 500, fr_updated_files = [''q''], fr_updated_folders = [],
        fr_deleted_files = [], fr_deleted_folders = [], fr_errors = []\<rparr>]"
    by code_simp
  then show ?thesis unfolding foreign_result_def by (elim map_option_SomeE) blast
qed

definition example_foreign_poll ::
  "(foreign_work, (string, string, nat, nat) foreign_poll_result) work_event list" where
  "example_foreign_poll =
     [Body_Goes_On, Run_Posted (0, Foreign_Work ''c'' 7),
      Work_Done (0, Foreign_Work ''c'' 7) (Foreign_Report
        \<lparr>fr_revision = 500, fr_updated_files = [''q''], fr_updated_folders = [],
         fr_deleted_files = [], fr_deleted_folders = [], fr_errors = []\<rparr>), Body_Goes_On, Callback_Returns,
      Run_Posted (1, Foreign_File_Work ''q''),
      Work_Done (1, Foreign_File_Work ''q'') (Foreign_File_Info None [example_failure]),
      Body_Goes_On, Body_Goes_On]"

theorem foreign_poll_hides_errors_witness:
  "map_option (\<lambda>s. (pf_files_info (parent s), pf_file_errors (parent s)))
     (run_events (work_step foreign_handle (foreign_body id id)) example_foreign_poll
        (new_system 10 (PollForeignChanges 0 ''c'' 7))) = Some ([None], [])"
proof -
  let ?run = "run_events (work_step foreign_handle (foreign_body id id)) example_foreign_poll
      (new_system 10 (PollForeignChanges 0 ''c'' 7))"
  have ended: "map_option (\<lambda>s. (parent_stage s, pf_files_info (parent s))) ?run = Some (Body_Ended, [None])"
    by code_simp
  then obtain s where s: "?run = Some s" "parent_stage s = Body_Ended" "pf_files_info (parent s) = [None]"
    by auto
  have "3 \<le> work_limit 10" by code_simp
  moreover have "list_all (result_ok (foreign_possible id)) example_foreign_poll"
    by (simp add: example_foreign_poll_def example_foreign_result example_info_fails)
  moreover have "Cancel_Posted \<notin> set example_foreign_poll" by (simp add: example_foreign_poll_def)
  ultimately have "pf_file_errors (parent s) = []"
    using foreign_poll_hides_errors [OF _ _ _ s(1,2)] by blast
  with s show ?thesis by simp
qed

end
