(* ===== verification/Api_Clone.thy ===== *)
theory Api_Clone
  imports Api_Work
begin

text \<open>
  \<^verbatim>\<open>CloneCloudTree\<close> of \<^verbatim>\<open>api/actions\<close>, a parent of a work manager that reads the contents of a folder
  and of all below it, one level after the other. The contents of a folder are what
  \<^verbatim>\<open>GetFolderContents\<close> gives to its callback, for a server that answers a tree of folders as in
  \<open>Api_Folder\<close>. \<^verbatim>\<open>Cancel\<close> is the step \<open>Cancel_Posted\<close> of the manager, as for the polls.
\<close>

section \<open>Cloning the tree of folders\<close>

text \<open>The work is a \<^verbatim>\<open>GetFolderContents\<close> of both kinds for a folder; its result the arguments of the callback.\<close>

type_synonym ('f, 'd, 'e) contents = "'f list \<times> 'd list \<times> 'e list"

record ('f, 'd, 'e) clone =
  cl_files :: "'f list"
  cl_folders :: "'d list"
  cl_errors :: "'e list"
  new_folder_keys :: "string list"
  num_loop_iterations :: nat
  left_queued :: "string list"       \<comment> \<open>queued when the loop is left, and not executed\<close>
  cl_called :: bool

definition CloneCloudTree :: "string \<Rightarrow> ('f, 'd, 'e) clone" where
  "CloneCloudTree folder_key =
     \<lparr>cl_files = [], cl_folders = [], cl_errors = [], new_folder_keys = [folder_key],
      num_loop_iterations = 0, left_queued = [], cl_called = False\<rparr>"

definition MAX_LOOP_ITERATIONS :: nat where
  "MAX_LOOP_ITERATIONS = 100"

text \<open>
  The loop from where \<^verbatim>\<open>ExecuteWork\<close> is called, or from the start, to the next such call: each
  iteration takes a key and queues its work, and the one that takes the last key executes. When
  the number of iterations is too large an assertion fails, and without assertions the loop is
  left.
\<close>

fun clone_loop :: "nat \<Rightarrow> string list \<Rightarrow> string list \<Rightarrow> string list \<times> nat \<times> bool" where
  "clone_loop n queued [] = (queued, n, True)"
| "clone_loop n queued (key # keys) =
     (if n > MAX_LOOP_ITERATIONS then (queued, n, False)
      else clone_loop (Suc n) (queued @ [key]) keys)"

definition clone_body :: "('f, 'd, 'e) clone \<Rightarrow> ('f, 'd, 'e) clone \<times> string list option" where
  "clone_body p =
     (if new_folder_keys p = [] then (p\<lparr>cl_called := True\<rparr>, None)
      else case clone_loop (num_loop_iterations p) [] (new_folder_keys p) of
          (queued, n, True) \<Rightarrow> (p\<lparr>new_folder_keys := [], num_loop_iterations := n\<rparr>, Some queued)
        | (queued, n, False) \<Rightarrow>
            (p\<lparr>new_folder_keys := drop (length queued) (new_folder_keys p),
               num_loop_iterations := n, left_queued := queued, cl_called := True\<rparr>, None))"

definition HandleGetFolderContents :: "('d \<Rightarrow> string) \<Rightarrow> string \<Rightarrow> ('f, 'd, 'e) contents \<Rightarrow>
    ('f, 'd, 'e) clone \<Rightarrow> ('f, 'd, 'e) clone" where
  "HandleGetFolderContents folderkey key r p =
     (case r of (files, folders, errors) \<Rightarrow>
        p\<lparr>cl_errors := cl_errors p @ errors, cl_files := cl_files p @ files,
          cl_folders := cl_folders p @ folders,
          new_folder_keys := new_folder_keys p @ map folderkey folders\<rparr>)"


section \<open>What cloning reads\<close>

text \<open>
  A tree of folders: for each key the files and the subfolders of its folder. Its levels are the
  keys of the folders at a depth; the order of the answers decides that within a level.
\<close>

type_synonym ('f, 'd) tree = "string \<Rightarrow> 'f list \<times> 'd list"

primrec tree_level :: "('d \<Rightarrow> string) \<Rightarrow> ('f, 'd) tree \<Rightarrow> string \<Rightarrow> nat \<Rightarrow> string multiset" where
  "tree_level folderkey t root 0 = {#root#}"
| "tree_level folderkey t root (Suc n) =
     (\<Sum>key\<in>#tree_level folderkey t root n. mset (map folderkey (snd (t key))))"

definition read_from :: "('f, 'd) tree \<Rightarrow> string \<Rightarrow> ('f, 'd, 'e) contents \<Rightarrow> bool" where
  "read_from t key r \<longleftrightarrow> r = (fst (t key), snd (t key), [])"

definition files_above :: "('d \<Rightarrow> string) \<Rightarrow> ('f, 'd) tree \<Rightarrow> string \<Rightarrow> nat \<Rightarrow> 'f multiset" where
  "files_above folderkey t root n =
     (\<Sum>i<n. \<Sum>key\<in>#tree_level folderkey t root i. mset (fst (t key)))"

definition folders_above :: "('d \<Rightarrow> string) \<Rightarrow> ('f, 'd) tree \<Rightarrow> string \<Rightarrow> nat \<Rightarrow> 'd multiset" where
  "folders_above folderkey t root n =
     (\<Sum>i<n. \<Sum>key\<in>#tree_level folderkey t root i. mset (snd (t key)))"

definition count_above :: "('d \<Rightarrow> string) \<Rightarrow> ('f, 'd) tree \<Rightarrow> string \<Rightarrow> nat \<Rightarrow> nat" where
  "count_above folderkey t root n = (\<Sum>i<n. size (tree_level folderkey t root i))"

lemmas above_defs = files_above_def folders_above_def count_above_def

lemma clone_loop_all:
  "n + length keys \<le> Suc MAX_LOOP_ITERATIONS \<Longrightarrow>
   clone_loop n queued keys = (queued @ keys, n + length keys, True)"
  by (induction keys arbitrary: n queued) (auto simp: MAX_LOOP_ITERATIONS_def)

lemma clone_loop_some:
  "n \<le> Suc MAX_LOOP_ITERATIONS \<Longrightarrow> Suc MAX_LOOP_ITERATIONS < n + length keys \<Longrightarrow>
   clone_loop n queued keys =
     (queued @ take (Suc MAX_LOOP_ITERATIONS - n) keys, Suc MAX_LOOP_ITERATIONS, False)"
  by (induction keys arbitrary: n queued) (auto simp: MAX_LOOP_ITERATIONS_def take_Cons')

lemma clone_results:
  assumes "\<forall>(w, r)\<in>set rs. read_from t w r"
  shows "take_results (HandleGetFolderContents folderkey) rs p =
    p\<lparr>cl_files := cl_files p @ concat (map (\<lambda>key. fst (t key)) (map fst rs)),
      cl_folders := cl_folders p @ concat (map (\<lambda>key. snd (t key)) (map fst rs)),
      new_folder_keys := new_folder_keys p
        @ concat (map (\<lambda>key. map folderkey (snd (t key))) (map fst rs))\<rparr>"
  using assms
proof (induction rs arbitrary: p)
  case (Cons wr rs)
  then show ?case by (cases wr) (simp add: read_from_def HandleGetFolderContents_def)
qed simp

definition clone_ok :: "('d \<Rightarrow> string) \<Rightarrow> ('f, 'd) tree \<Rightarrow> string \<Rightarrow> nat \<Rightarrow> ('f, 'd, 'e) clone \<Rightarrow> bool" where
  "clone_ok folderkey t root n p \<longleftrightarrow>
     mset (new_folder_keys p) = tree_level folderkey t root n
     \<and> num_loop_iterations p = count_above folderkey t root n
     \<and> mset (cl_files p) = files_above folderkey t root n
     \<and> mset (cl_folders p) = folders_above folderkey t root n
     \<and> cl_errors p = [] \<and> left_queued p = []"

lemma mset_concat_of: "mset xs = M \<Longrightarrow> mset (concat (map f xs)) = (\<Sum>x\<in>#M. mset (f x))"
  by (induction xs arbitrary: M) auto

lemma clone_batch_ok:
  assumes ok: "clone_ok folderkey t root n q" and body: "clone_body q = (q', Some ws)"
    and rs: "\<forall>(w, r)\<in>set rs. read_from t w r" "mset (map fst rs) = mset ws"
  shows "clone_ok folderkey t root (Suc n) (take_results (HandleGetFolderContents folderkey) rs q')"
proof -
  obtain queued m where loop: "clone_loop (num_loop_iterations q) [] (new_folder_keys q) = (queued, m, True)"
    and q': "q' = q\<lparr>new_folder_keys := [], num_loop_iterations := m\<rparr>" and ws: "ws = queued"
    using body by (auto simp: clone_body_def split: if_splits prod.splits bool.splits)
  have "num_loop_iterations q + length (new_folder_keys q) \<le> Suc MAX_LOOP_ITERATIONS
      \<or> Suc MAX_LOOP_ITERATIONS < num_loop_iterations q"
    using loop clone_loop_some [of "num_loop_iterations q" "new_folder_keys q" "[]"] by fastforce
  moreover have "new_folder_keys q \<noteq> []" using body by (auto simp: clone_body_def)
  then have "\<not> Suc MAX_LOOP_ITERATIONS < num_loop_iterations q"
    using loop by (cases "new_folder_keys q") auto
  ultimately have "queued = new_folder_keys q" "m = num_loop_iterations q + length (new_folder_keys q)"
    using loop clone_loop_all [of "num_loop_iterations q" "new_folder_keys q" "[]"] by auto
  then have keys: "mset (map fst rs) = tree_level folderkey t root n"
    and m: "m = count_above folderkey t root n + size (tree_level folderkey t root n)"
    using ok rs(2) ws by (simp_all add: clone_ok_def flip: size_mset)
  show ?thesis
    using ok mset_concat_of [OF keys, of "\<lambda>key. fst (t key)"]
      mset_concat_of [OF keys, of "\<lambda>key. snd (t key)"]
      mset_concat_of [OF keys, of "\<lambda>key. map folderkey (snd (t key))"]
    by (simp add: clone_results [OF rs(1)] q' m clone_ok_def above_defs lessThan_Suc ac_simps
        del: map_map)
qed

lemma tree_level_empty:
  assumes "tree_level folderkey t root d = {#}" and "d \<le> n"
  shows "tree_level folderkey t root n = {#}"
  using assms(2,1) by (induction n rule: dec_induct) simp_all

lemma above_empty:
  assumes "tree_level folderkey t root d = {#}" and "d \<le> n"
  shows "files_above folderkey t root n = files_above folderkey t root d"
    and "folders_above folderkey t root n = folders_above folderkey t root d"
  using assms(2)
proof (induction n rule: dec_induct)
  case (step n)
  then have "tree_level folderkey t root n = {#}" using tree_level_empty [OF assms(1)] by simp
  then show "files_above folderkey t root (Suc n) = files_above folderkey t root d"
    "folders_above folderkey t root (Suc n) = folders_above folderkey t root d"
    using step by (simp_all add: above_defs lessThan_Suc)
qed simp_all

lemma count_above_mono: "m \<le> n \<Longrightarrow> count_above folderkey t root m \<le> count_above folderkey t root n"
  unfolding count_above_def by (rule sum_mono2) auto

lemma clone_batches_ok:
  "batches False (read_from t) (HandleGetFolderContents folderkey) clone_body (CloneCloudTree root) q \<Longrightarrow>
   \<exists>n. clone_ok folderkey t root n q"
proof (induction rule: batches.induct)
  case batches_start
  show ?case by (rule exI [of _ 0]) (simp add: clone_ok_def CloneCloudTree_def above_defs)
next
  case (batches_batch q q' ws rs)
  then obtain n where "clone_ok folderkey t root n q" by blast
  from clone_batch_ok [OF this batches_batch.hyps(2,3)] show ?case
    using batches_batch.hyps(4) by (auto simp: all_done_def)
qed


text \<open>
  A folder with more than 100 subfolders: the callback gets this level only, and the work for 100
  of the subfolders is left in the queue of the work manager.
\<close>

theorem clone_gives_up:
  assumes "3 \<le> work_limit m" and "list_all (result_ok (read_from t)) es" and "Cancel_Posted \<notin> set es"
    and "run_events (work_step (HandleGetFolderContents folderkey) clone_body) es
      (new_system m (CloneCloudTree root)) = Some s"
    and "parent_stage s = Body_Ended" and "100 < length (snd (t root))"
  shows "mset (cl_files (parent s)) = mset (fst (t root)) \<and> length (left_queued (parent s)) = 100
    \<and> cl_errors (parent s) = [] \<and> cl_called (parent s)"
proof -
  obtain q where q: "batches False (read_from t) (HandleGetFolderContents folderkey) clone_body
      (CloneCloudTree root) q" "clone_body q = (parent s, None)"
    by (rule ended_batches [OF assms(1-5)])
  have first: "\<exists>n. clone_ok folderkey t root n q \<and> n \<le> 1" using q(1)
  proof (induction rule: batches.induct)
    case batches_start
    show ?case by (rule exI [of _ 0]) (simp add: clone_ok_def CloneCloudTree_def above_defs)
  next
    case (batches_batch q q' ws rs)
    then obtain n where n: "clone_ok folderkey t root n q" "n \<le> 1" by blast
    have "n = 0"
    proof (rule ccontr)
      assume "n \<noteq> 0"
      then have "n = 1" using n(2) by simp
      then have "num_loop_iterations q = 1" "length (new_folder_keys q) = length (snd (t root))"
        using n(1) by (simp_all add: clone_ok_def count_above_def flip: size_mset)
      then show False
        using batches_batch.hyps(2) assms(6)
          clone_loop_some [of "num_loop_iterations q" "new_folder_keys q" "[]"]
        by (auto simp: clone_body_def MAX_LOOP_ITERATIONS_def split: if_splits)
    qed
    moreover have "clone_ok folderkey t root (Suc n) (take_results (HandleGetFolderContents folderkey) rs q')"
      by (rule clone_batch_ok [OF n(1) batches_batch.hyps(2,3)])
        (use batches_batch.hyps(4) in \<open>simp add: all_done_def\<close>)
    ultimately show ?case by auto
  qed
  then obtain n where n: "clone_ok folderkey t root n q" "n \<le> 1" by blast
  have "n \<noteq> 0"
  proof
    assume "n = 0"
    then have "mset (new_folder_keys q) = {#root#}" "num_loop_iterations q = 0"
      using n(1) by (simp_all add: clone_ok_def count_above_def)
    then have "new_folder_keys q = [root]" by (simp only: mset_single_iff)
    then show False using q(2) \<open>num_loop_iterations q = 0\<close>
      by (simp add: clone_body_def MAX_LOOP_ITERATIONS_def)
  qed
  then have "n = 1" using n(2) by simp
  then have many: "num_loop_iterations q = 1" "length (new_folder_keys q) = length (snd (t root))"
    "mset (cl_files q) = mset (fst (t root))" "cl_errors q = []"
    using n(1) by (simp_all add: clone_ok_def count_above_def files_above_def flip: size_mset)
  moreover have "parent s = q\<lparr>new_folder_keys := drop 100 (new_folder_keys q),
      num_loop_iterations := 101, left_queued := take 100 (new_folder_keys q), cl_called := True\<rparr>"
    using q(2) many assms(6) clone_loop_some [of "num_loop_iterations q" "new_folder_keys q" "[]"]
    by (auto simp: clone_body_def MAX_LOOP_ITERATIONS_def split: if_splits)
  ultimately show ?thesis using assms(6) by simp
qed

text \<open>A folder with two subfolders, one of which has a file; and one with 101 subfolders.\<close>

definition small_tree :: "(nat, string) tree" where
  "small_tree key = (if key = ''r'' then ([1], [''a'', ''b'']) else if key = ''b'' then ([2], []) else ([], []))"

definition small_tree_run :: "(string, (nat, string, nat) contents) work_event list" where
  "small_tree_run =
     [Body_Goes_On, Run_Posted (0, ''r''), Work_Done (0, ''r'') ([1], [''a'', ''b''], []), Body_Goes_On,
      Callback_Returns, Run_Posted (1, ''a''), Run_Posted (2, ''b''), Work_Done (2, ''b'') ([2], [], []),
      Callback_Returns, Work_Done (1, ''a'') ([], [], []), Body_Goes_On]"


definition wide_tree :: "(nat, nat) tree" where
  "wide_tree key = (if key = ''r'' then ([1], [0..<101]) else ([2], []))"

definition wide_tree_run :: "(string, (nat, nat, nat) contents) work_event list" where
  "wide_tree_run =
     [Body_Goes_On, Run_Posted (0, ''r''), Work_Done (0, ''r'') ([1], [0..<101], []), Body_Goes_On]"

theorem clone_gives_up_witness:
  "map_option (\<lambda>s. (mset (cl_files (parent s)), length (left_queued (parent s))))
     (run_events (work_step (HandleGetFolderContents (\<lambda>n. ''k'')) clone_body) wide_tree_run
       (new_system 10 (CloneCloudTree ''r''))) = Some ({#1#}, 100)"
proof -
  let ?run = "run_events (work_step (HandleGetFolderContents (\<lambda>n. ''k'')) clone_body) wide_tree_run
       (new_system 10 (CloneCloudTree ''r''))"
  have ended: "map_option parent_stage ?run = Some Body_Ended" by code_simp
  then obtain s where s: "?run = Some s" "parent_stage s = Body_Ended" by auto
  have "3 \<le> work_limit 10" by code_simp
  moreover have "list_all (result_ok (read_from wide_tree)) wide_tree_run"
    by (simp add: wide_tree_run_def read_from_def wide_tree_def)
  moreover have "Cancel_Posted \<notin> set wide_tree_run" by (simp add: wide_tree_run_def)
  moreover have "100 < length (snd (wide_tree ''r''))" by (simp add: wide_tree_def)
  ultimately have "mset (cl_files (parent s)) = mset (fst (wide_tree ''r''))
      \<and> length (left_queued (parent s)) = 100"
    using clone_gives_up [OF _ _ _ s] by blast
  then show ?thesis using s(1) by (simp add: wide_tree_def)
qed

end
