(* ===== verification/Spec2Isabelle.thy ===== *)
theory Spec2Isabelle
  imports Base64 Url_Encode Url Container_Algorithms Session_Progress Http_Body Http_Outcome Http_Post
    Upload_Manager Api_Folder Api_Poll Api_Clone
begin

text \<open>
  The MediaFire C++ SDK: a library that keeps a session with the MediaFire service and calls
  its API, that does its own HTTP, and that hashes and uploads files. All paths below are under
  \<^verbatim>\<open>src/mediafire_sdk\<close>.

  \<^bold>\<open>The parts of the program and how they work together.\<close> \<^verbatim>\<open>utils\<close> holds codecs, a timer for
  many events, and access to files. \<^verbatim>\<open>http\<close> runs one HTTP request: \<^verbatim>\<open>HttpRequest\<close> hands its
  configuration to a state machine that connects, sends, and reads a response, of which the
  callback gets the headers and then the body in pieces. \<^verbatim>\<open>api\<close> holds the
  \<^verbatim>\<open>SessionMaintainer\<close>: callers queue requests with it, it keeps a pool of session tokens, lends
  one to each request that needs it, sends the request through \<^verbatim>\<open>http\<close>, takes the token back, and
  queues the request again when the token was bad. \<^verbatim>\<open>api/actions\<close> holds coroutines that chain calls of the API
  (the changes of a device, all chunks of a folder, a whole tree) and a \<^verbatim>\<open>WorkManager\<close> that runs
  a bounded number of them for a coroutine that waits. \<^verbatim>\<open>uploader\<close> holds the \<^verbatim>\<open>UploadManager\<close>, which
  keeps a state machine for every upload, lets two of them hash and two of them upload at a time,
  and gets the action token they need through the session maintainer. A machine hashes its file in
  chunks, asks the server what it lacks, posts the file or its missing chunks, and polls until the
  server has put the file together.

  \<^bold>\<open>Theories and sources.\<close>
  \<^item> \<open>Prelude\<close>: names for the C++ types, substring search, the collections of rewrite rules.
  \<^item> \<open>Base64\<close> (\<^verbatim>\<open>utils/base64.cpp\<close>), \<open>Url_Encode\<close> (\<^verbatim>\<open>utils/url_encode.cpp\<close>), \<open>Url\<close>
    (\<^verbatim>\<open>http/url.cpp\<close>), \<open>Container_Algorithms\<close> (\<^verbatim>\<open>utils/container_algorithms.hpp\<close>): functions on
    lists of bytes, with \<^typ>\<open>'a option\<close> for a thrown exception.
  \<^item> \<open>Timed_Events\<close> (\<^verbatim>\<open>utils/timed_events.hpp\<close>): the multimap of events, the timer, and the jobs
    posted to the io_service, as a step relation.
  \<^item> \<open>File_IO\<close> (\<^verbatim>\<open>utils/fileio.cpp\<close>): a stream is its content, a position, and the flags of
    stdio; a fault of the operating system is a field.
  \<^item> \<open>Errors\<close> (\<^verbatim>\<open>api/error\<close>, \<^verbatim>\<open>http/error\<close>): error codes with their category, the
    conditions, and which of them compare equal.
  \<^item> \<open>Session_Types\<close>, \<open>Session_Locker\<close> (\<^verbatim>\<open>api/detail/session_maintainer_locker.cpp\<close>): the state
    that the maintainer shares between its threads, one function for each method. A failing
    assertion is \<^const>\<open>None\<close>.
  \<^item> \<open>Session_Maintainer\<close> (\<^verbatim>\<open>api/session_maintainer.cpp\<close>,
    \<^verbatim>\<open>api/detail/session_maintainer_request.hpp\<close>): one function for each handler, and the
    relation \<open>mstep\<close> of what can happen next, in which the server may answer anything.
    \<open>Session_Tokens\<close>, \<open>Session_Requests\<close> and \<open>Session_Progress\<close> hold its theorems.
  \<^item> \<open>Http_Content\<close> (\<^verbatim>\<open>http/detail/state_read_content.hpp\<close>): the handlers of the state that
    reads a body; \<open>Http_Body\<close>: what the callback gets.
  \<^item> \<open>Http_Headers\<close>: the heads of requests and responses, as they are written and read.
    \<open>Http_Machine\<close> (\<^verbatim>\<open>http/detail/http_request_state_machine.hpp\<close> and the \<^verbatim>\<open>state_*.hpp\<close>): the
    table of transitions as a list of rows, the entry of each state, the handlers of its
    operations, and the relation \<open>http_step\<close> of what can happen next; the state that reads a body
    holds the reader of \<open>Http_Content\<close>. \<open>Http_Lifecycle\<close>, \<open>Http_Outcome\<close> (with
    \<^verbatim>\<open>http/http_request.cpp\<close>), \<open>Http_Wire\<close> and \<open>Http_Post\<close> hold its theorems, the last for
    any pipe of posted data and for the one of the uploader.
  \<^item> \<open>Api_Query\<close> (\<^verbatim>\<open>api/detail/session_token_api_base_static.cpp\<close>,
    \<^verbatim>\<open>tokenless_api_base_static.cpp\<close>): queries, bodies and signatures of API calls.
  \<^item> \<open>Api_Actions\<close> (\<^verbatim>\<open>api/actions/coroutine.hpp\<close>, the actions of one request, and
    \<^verbatim>\<open>get_changes_device_impl.hpp\<close>, \<^verbatim>\<open>get_foreign_changes_device_impl.hpp\<close>): an action is a record
    with the stage that its body has reached, and one step for its start, a response, or a
    cancellation. \<open>Api_Folder\<close> (\<^verbatim>\<open>get_folder_contents_impl.hpp\<close>): the same with two requests at a
    time.
  \<^item> \<open>Api_Work\<close> (\<^verbatim>\<open>work_manager.cpp\<close>): the manager with the coroutine that it works for, whose body
    and handlers are arguments; \<open>Api_Poll\<close> (\<^verbatim>\<open>poll_changes_impl.hpp\<close>,
    \<^verbatim>\<open>poll_foreign_changes_impl.hpp\<close>) and \<open>Api_Clone\<close> (\<^verbatim>\<open>clone_cloud_tree_impl.hpp\<close>) give them.
  \<^item> \<open>Upload_Stepping\<close> (\<^verbatim>\<open>uploader/detail/stepping.cpp\<close>), \<open>Upload_Hasher\<close>
    (\<^verbatim>\<open>uploader/hasher.cpp\<close>, \<^verbatim>\<open>uploader/detail/hasher_transitions.cpp\<close>), \<open>Upload_Chunks\<close> (the table
    of chunks and the pipes that read posted bytes), \<open>Upload_Request\<close>
    (\<^verbatim>\<open>uploader/upload_request.cpp\<close> and the URLs and headers of \<^verbatim>\<open>transition_upload.hpp\<close>).
  \<^item> \<open>Upload_Machine\<close> (\<^verbatim>\<open>uploader/detail/upload_state_machine.hpp\<close> and the \<^verbatim>\<open>transition_*.hpp\<close>):
    the table of transitions as a list of rows, with their actions and the entries and exits of
    the states; \<open>Upload_Lifecycle\<close>: its theorems.
  \<^item> \<open>Upload_Manager\<close> (\<^verbatim>\<open>uploader/detail/upload_manager_impl.cpp\<close>): the operations of the manager,
    and the system of the manager with all its machines.

  \<^bold>\<open>What the lemmas show.\<close> The codecs have round trips and say when they reject. The timer neither
  loses nor repeats an event, and something always looks at the first one in time. Of the session,
  the theorems bound the tokens, tie each token to the credentials it was issued for, place each
  request in exactly one queue, bound the callbacks of a request, show that the assertions hold and
  that waiting requests are not forgotten, and refine the states of the session to an abstract
  machine. Of the body of a response, the callback gets all of it, in order and once, and is told
  once how it ended. Of the HTTP machine, no assertion fails and it always has something that goes
  on with it, the callback hears of one end, redirects keep to the policy, what belongs to an https
  URL is written over SSL after the handshake, and posted data is exactly the content of the pipe.
  Of the actions, each calls back once, all chunks of a folder and all blocks of changes are read
  once in any order of the answers, the work manager takes the result of every queued work within
  its limit, and a poll reports what the actions below it gave; theorems of the kind error show
  runs in which they do not end or lose what they were given.
  Of the uploads, the ranges of the chunks partition the file, the hasher
  reports what hashing the file and its ranges gives, an upload request can be read back, the
  bytes of a chunk are those of its range, the statuses follow the abstract order of an upload's
  life, the server has acknowledged every chunk before it is polled, no upload gets stuck or is
  forgotten, and the limits of the manager hold.

  \<^bold>\<open>Interfaces.\<close> \<open>token_budget\<close> (what requesting a token may do to the pool), \<open>event_timer\<close> (the
  timer as its clients see it), \<open>param_codec\<close> (what a query needs of an encoding), \<open>data_pipe\<close>
  (what a request needs of the pipe it posts from) and \<open>action_contract\<close> (what the callers of an
  action rely on) are locales; each is interpreted on the model's definitions in the theory that provides them.

  \<^bold>\<open>Choices.\<close> A handler that runs under a mutex or on a strand is one step. The calls that a
  transition of an upload makes to the manager are applied in their order together with the
  transition. The work io_service of a request is run by one thread, so that a handler and the events
  it processes come before the next handler; events raised during a transition are queued as
  boost::msm does it. The lists \<open>written\<close> and \<open>visited\<close> and the flag \<open>handshaken\<close> of a request
  record its past and are not read by it. Sizes and times are natural numbers, with \<open>mod 2 ^ 64\<close> or a word where the code can
  wrap; a narrowing to \<^verbatim>\<open>int\<close> is written out. The splitting loop of \<open>Upload_Stepping\<close> may run
  forever, so it is a \<^verbatim>\<open>partial_function\<close> with theorems for both cases. Three recursions
  over events carry fuel: \<open>hash_queue\<close> runs the queue of one event of the hasher, where three
  rounds are enough because starting leads to a first block and that to an end or a posted event
  (\<open>hash_queue_rounds\<close>);
  \<open>drain\<close> empties a pipe and says whether the fuel sufficed, and its theorem shows that one call
  more than the number of buffers does; \<open>pump\<close> runs one event for each entry of its list.

  \<^bold>\<open>Not modelled.\<close> The socket I/O of boost and the verification of certificates (operations that
  the environment completes), hash functions and the gzip decompressor (parameters), the JSON of responses, the
  API calls that \<^verbatim>\<open>gen_api_template.py\<close> generates (an action names the call it makes and gets any
  answer), the destruction of an action whose coroutine has not ended, the texts of errors, debug output, and
  the destruction of objects with operations under way.
\<close>

end
